(* ===== verification/Prelude.thy ===== *)
theory Prelude
  imports Main "HOL-Library.AList" "HOL-Library.Multiset" "HOL-Library.Sublist"
    "HOL-Library.Char_ord" "HOL-Library.List_Lexorder" "HOL-Library.Product_Lexorder"
begin

text \<open>
  What the theories share: the JavaScript values and library operations the scripts use
  (thrown errors, numbers, strings, \<open>Map\<close>, \<open>Set\<close>, \<open>Array.prototype.sort\<close>,
  \<open>localeCompare\<close>) and the generic lemmas on them.

  \<^item> A thrown error is \<open>Inl\<close> of a \<open>js_error\<close>; \<open>Error\<close> carries the
    message the source builds, \<open>TypeError\<close> is the engine's own error, and
    \<open>NoReturn\<close> stands for a loop that never ends.
  \<^item> A BigInt is an \<open>int\<close>. A Number is an \<open>int\<close>: every number the
    modelled code computes with is a whole number (block, index, second, count).
    \<open>null\<close> is \<open>None\<close> of an option; in arithmetic \<open>null\<close> counts as 0,
    in \<open>String(...)\<close> as the text null.
  \<^item> A \<open>Map\<close> is an association list: \<open>AList.update\<close> replaces a value in
    place and appends a new key at the end, which is the iteration order of a JavaScript map.
    A \<open>Set\<close> is a list without repetitions in order of insertion.
  \<^item> \<open>sort\<close> with a comparator is stable insertion: ECMAScript fixes the result
    of \<open>sort\<close> for a consistent comparator only, and there the stable sort is unique
    (locale \<open>js_comparator\<close>).
\<close>

named_theorems js_simps \<open>defining equations of the JavaScript library operations\<close>
named_theorems sort_facts \<open>what a sorted array keeps of the array it came from\<close>

section \<open>Errors\<close>

datatype js_error = Error string | TypeError | RpcTransportError string | NoReturn

type_synonym 'a res = "js_error + 'a"

text \<open>\<open>error.message\<close>; the text of an engine's own \<open>TypeError\<close> is left out.\<close>

definition error_message :: "js_error \<Rightarrow> string" where
  "error_message e = (case e of Error m \<Rightarrow> m | RpcTransportError m \<Rightarrow> m | TypeError \<Rightarrow> ''TypeError'' | NoReturn \<Rightarrow> [])"

text \<open>\<open>throw\<close> leaves the surrounding code: the next statement runs only after a result.\<close>

definition res_bind :: "'a res \<Rightarrow> ('a \<Rightarrow> 'b res) \<Rightarrow> 'b res" where
  "res_bind m f = (case m of Inl e \<Rightarrow> Inl e | Inr x \<Rightarrow> f x)"

lemma res_bind_simps [simp]: "res_bind (Inl e) f = Inl e" "res_bind (Inr x) f = f x"
  by (simp_all add: res_bind_def)

lemma res_bind_Inr: "res_bind m f = Inr y \<longleftrightarrow> (\<exists>x. m = Inr x \<and> f x = Inr y)"
  by (cases m) auto

definition require :: "bool \<Rightarrow> string \<Rightarrow> unit res" where
  "require b message = (if b then Inr () else Inl (Error message))"

lemma require_Inr [simp]: "require b message = Inr u \<longleftrightarrow> b"
  by (simp add: require_def)

text \<open>Mapping a function that may throw: the first error wins.\<close>

fun res_map :: "('a \<Rightarrow> 'b res) \<Rightarrow> 'a list \<Rightarrow> 'b list res" where
  "res_map f [] = Inr []"
| "res_map f (x # xs) =
     (case f x of Inl e \<Rightarrow> Inl e
      | Inr y \<Rightarrow> (case res_map f xs of Inl e \<Rightarrow> Inl e | Inr ys \<Rightarrow> Inr (y # ys)))"

text \<open>A loop over an array whose body may throw, the state threaded through.\<close>

fun res_fold :: "('a \<Rightarrow> 's \<Rightarrow> 's res) \<Rightarrow> 'a list \<Rightarrow> 's \<Rightarrow> 's res" where
  "res_fold f [] s = Inr s"
| "res_fold f (x # xs) s = (case f x s of Inl e \<Rightarrow> Inl e | Inr s' \<Rightarrow> res_fold f xs s')"

lemma res_map_Inr_iff:
  "res_map f xs = Inr ys \<longleftrightarrow> list_all2 (\<lambda>x y. f x = Inr y) xs ys"
proof (induction xs arbitrary: ys)
  case Nil
  then show ?case by auto
next
  case (Cons x xs)
  show ?case
    by (auto simp: list_all2_Cons1 Cons.IH [symmetric] split: sum.split)
qed

lemma res_map_length: "res_map f xs = Inr ys \<Longrightarrow> length ys = length xs"
  by (auto simp: res_map_Inr_iff dest: list_all2_lengthD)

lemma res_map_nth:
  "res_map f xs = Inr ys \<Longrightarrow> i < length xs \<Longrightarrow> f (xs ! i) = Inr (ys ! i)"
  by (auto simp: res_map_Inr_iff list_all2_conv_all_nth)

lemma res_map_set:
  "res_map f xs = Inr ys \<Longrightarrow> y \<in> set ys \<Longrightarrow> \<exists>x\<in>set xs. f x = Inr y"
  by (induction xs arbitrary: ys) (auto split: sum.splits)

lemma res_map_each:
  "res_map f xs = Inr ys \<Longrightarrow> x \<in> set xs \<Longrightarrow> \<exists>y. f x = Inr y"
  by (induction xs arbitrary: ys) (auto split: sum.splits)

lemma res_map_pure [simp]: "res_map (\<lambda>x. Inr (f x)) xs = Inr (map f xs)"
  by (induction xs) auto

lemma res_fold_Cons_Inr:
  "res_fold f (x # xs) s = Inr t \<longleftrightarrow> (\<exists>u. f x s = Inr u \<and> res_fold f xs u = Inr t)"
  by (auto split: sum.splits)

lemma res_fold_append:
  "res_fold f (xs @ ys) s =
     (case res_fold f xs s of Inl e \<Rightarrow> Inl e | Inr s' \<Rightarrow> res_fold f ys s')"
  by (induction xs arbitrary: s) (auto split: sum.splits)

lemma res_fold_pure [simp]: "res_fold (\<lambda>x s. Inr (f x s)) xs s = Inr (fold f xs s)"
  by (induction xs arbitrary: s) auto

text \<open>An invariant of the body is an invariant of the loop.\<close>

lemma res_fold_invariant:
  assumes "res_fold f xs s = Inr t" and "P s"
    and "\<And>x s t. x \<in> set xs \<Longrightarrow> P s \<Longrightarrow> f x s = Inr t \<Longrightarrow> P t"
  shows "P t"
  using assms
proof (induction xs arbitrary: s)
  case Nil
  then show ?case by simp
next
  case (Cons x xs)
  from Cons.prems(1) obtain u where u: "f x s = Inr u" and rest: "res_fold f xs u = Inr t"
    by (auto split: sum.splits)
  have "P u" using Cons.prems(3) [OF _ Cons.prems(2) u] by simp
  moreover have "\<And>y s t. y \<in> set xs \<Longrightarrow> P s \<Longrightarrow> f y s = Inr t \<Longrightarrow> P t"
    using Cons.prems(3) by (meson list.set_intros(2))
  ultimately show ?case using Cons.IH [OF rest] by blast
qed

section \<open>Numbers and their decimal text\<close>

definition MAX_SAFE_INTEGER :: int where
  "MAX_SAFE_INTEGER = 9007199254740991"

definition isSafeInteger :: "int \<Rightarrow> bool" where
  "isSafeInteger n \<longleftrightarrow> - MAX_SAFE_INTEGER \<le> n \<and> n \<le> MAX_SAFE_INTEGER"

text \<open>\<open>Number(null)\<close> is 0.\<close>

definition num0 :: "int option \<Rightarrow> int" where
  "num0 n = (case n of None \<Rightarrow> 0 | Some k \<Rightarrow> k)"

lemma num0_simps [simp]: "num0 None = 0" "num0 (Some k) = k"
  by (simp_all add: num0_def)

text \<open>BigInt division of nonnegative numbers, rounding down and rounding up.\<close>

lemma ceiling_div_galois: "(n + 10000 - 1) div 10000 \<le> c \<longleftrightarrow> n \<le> c * 10000" for n :: int
proof -
  let ?q = "(n + 10000 - 1) div 10000" and ?r = "(n + 10000 - 1) mod 10000"
  have "n + 10000 - 1 = ?q * 10000 + ?r" "0 \<le> ?r" "?r < 10000" by simp_all
  then show ?thesis by linarith
qed

lemma floor_div_galois:
  fixes n m c :: int
  assumes "0 < m"
  shows "c \<le> n div m \<longleftrightarrow> c * m \<le> n"
proof
  assume "c \<le> n div m"
  then have "c * m \<le> (n div m) * m" using assms by simp
  also have "\<dots> \<le> n" using assms by (simp flip: minus_mod_eq_div_mult)
  finally show "c * m \<le> n" .
next
  assume "c * m \<le> n"
  then have "(c * m) div m \<le> n div m" using assms by (rule zdiv_mono1)
  then show "c \<le> n div m" using assms by simp
qed

definition digit_char :: "nat \<Rightarrow> char" where
  "digit_char d = char_of (48 + d)"

definition char_digit :: "char \<Rightarrow> nat option" where
  "char_digit c = (let n = (of_char c :: nat) in if 48 \<le> n \<and> n \<le> 57 then Some (n - 48) else None)"

fun show_nat :: "nat \<Rightarrow> string" where
  "show_nat n = (if n < 10 then [digit_char n] else show_nat (n div 10) @ [digit_char (n mod 10)])"

declare show_nat.simps [simp del]

text \<open>\<open>String(n)\<close> of a Number and \<open>n.toString()\<close> of a BigInt.\<close>

definition show_int :: "int \<Rightarrow> string" where
  "show_int n = (if n < 0 then ''-'' @ show_nat (nat (- n)) else show_nat (nat n))"

text \<open>The same digits computed on \<open>int\<close>, which the kernel evaluates in binary.\<close>

function show_pos :: "int \<Rightarrow> string" where
  "show_pos n = (if n < 10 then [digit_char (nat n)] else show_pos (n div 10) @ [digit_char (nat (n mod 10))])"
  by pat_completeness auto
termination by (relation "measure nat") auto

declare show_pos.simps [simp del]

lemma show_pos_nat: "0 \<le> n \<Longrightarrow> show_nat (nat n) = show_pos n"
proof (induction n rule: show_pos.induct)
  case (1 n)
  then show ?case
    by (subst show_nat.simps, subst show_pos.simps) (auto simp: nat_div_distrib nat_mod_distrib)
qed

lemma show_int_code [code]: "show_int n = (if n < 0 then ''-'' @ show_pos (- n) else show_pos n)"
  by (simp add: show_int_def show_pos_nat)

lemma show_nat_code [code]: "show_nat n = show_pos (int n)"
  by (simp flip: show_pos_nat)

fun parse_digits :: "nat \<Rightarrow> string \<Rightarrow> nat option" where
  "parse_digits acc [] = Some acc"
| "parse_digits acc (c # cs) =
     (case char_digit c of None \<Rightarrow> None | Some d \<Rightarrow> parse_digits (10 * acc + d) cs)"

text \<open>\<open>BigInt(text)\<close> on text that the caller has matched against \<open>\d+\<close>.\<close>

definition parse_nat :: "string \<Rightarrow> nat option" where
  "parse_nat s = (if s = [] then None else parse_digits 0 s)"

lemma char_digit_digit_char [simp]: "d < 10 \<Longrightarrow> char_digit (digit_char d) = Some d"
  by (simp add: char_digit_def digit_char_def Let_def)

lemma parse_digits_append:
  "parse_digits acc (xs @ ys) =
     (case parse_digits acc xs of None \<Rightarrow> None | Some a \<Rightarrow> parse_digits a ys)"
  by (induction xs arbitrary: acc) (auto split: option.splits)

lemma parse_digits_show_nat: "parse_digits 0 (show_nat n) = Some n"
proof (induction n rule: show_nat.induct)
  case (1 n)
  then show ?case
    by (cases "n < 10") (simp_all add: show_nat.simps [of n] parse_digits_append)
qed

lemma show_nat_not_Nil [simp]: "show_nat n \<noteq> []"
  by (subst show_nat.simps) simp

lemma parse_nat_show_nat [simp]: "parse_nat (show_nat n) = Some n"
  by (simp add: parse_nat_def parse_digits_show_nat)

lemma show_nat_inject [simp]: "show_nat m = show_nat n \<longleftrightarrow> m = n"
  by (metis option.inject parse_nat_show_nat)

lemma show_nat_digits: "c \<in> set (show_nat k) \<Longrightarrow> char_digit c \<noteq> None"
proof (induction k rule: show_nat.induct)
  case (1 k)
  then show ?case by (cases "k < 10") (auto simp: show_nat.simps [of k])
qed

lemma show_nat_no_sign [simp]: "CHR ''-'' \<notin> set (show_nat k)" "CHR '','' \<notin> set (show_nat k)"
  using show_nat_digits [of "CHR ''-''" k] show_nat_digits [of "CHR '',''" k] by (auto simp: char_digit_def)

lemma show_int_inject [simp]: "show_int m = show_int n \<longleftrightarrow> m = n"
proof -
  have "CHR ''-'' # show_nat a \<noteq> show_nat b" "show_nat b \<noteq> CHR ''-'' # show_nat a" for a b
    using show_nat_no_sign(1) [of b] by (metis list.set_intros(1))+
  then show ?thesis by (auto simp: show_int_def)
qed

lemma show_int_no_comma [simp]: "CHR '','' \<notin> set (show_int k)"
  by (simp add: show_int_def)

section \<open>Strings\<close>

definition lower_char :: "char \<Rightarrow> char" where
  "lower_char c = (let n = (of_char c :: nat) in if 65 \<le> n \<and> n \<le> 90 then char_of (n + 32) else c)"

definition toLowerCase :: "string \<Rightarrow> string" where
  "toLowerCase s = map lower_char s"

lemma of_char_int: "(of_char c :: int) = int (of_char c)"
  by (simp add: of_nat_of_char)

lemma lower_char_code [code]:
  "lower_char c = (let n = (of_char c :: int) in if 65 \<le> n \<and> n \<le> 90 then char_of (n + 32) else c)"
proof -
  have "char_of (int k + 32) = (char_of (k + 32) :: char)" for k :: nat
    using char_of_nat [of "k + 32", where 'a = int] by simp
  then show ?thesis by (simp add: lower_char_def Let_def of_char_int)
qed

lemma char_digit_code [code]:
  "char_digit c = (let n = (of_char c :: int) in if 48 \<le> n \<and> n \<le> 57 then Some (nat (n - 48)) else None)"
  by (simp add: char_digit_def Let_def of_char_int nat_diff_distrib)

lemma lower_char_idem [simp]: "lower_char (lower_char c) = lower_char c"
  by (auto simp: lower_char_def Let_def)

lemma toLowerCase_idem [simp]: "toLowerCase (toLowerCase s) = toLowerCase s"
  by (simp add: toLowerCase_def)

lemma toLowerCase_append [simp]: "toLowerCase (s @ t) = toLowerCase s @ toLowerCase t"
  by (simp add: toLowerCase_def)

lemma length_toLowerCase [simp]: "length (toLowerCase s) = length s"
  by (simp add: toLowerCase_def)

text \<open>\<open>String(value)\<close> of a string or null.\<close>

definition js_String :: "string option \<Rightarrow> string" where
  "js_String s = (case s of None \<Rightarrow> ''null'' | Some t \<Rightarrow> t)"

text \<open>The \<open>??\<close> operator on two values that may be null.\<close>

definition nullish :: "'a option \<Rightarrow> 'a option \<Rightarrow> 'a option" where
  "nullish a b = (case a of None \<Rightarrow> b | Some x \<Rightarrow> Some x)"

text \<open>\<open>array.join(separator)\<close>.\<close>

fun js_join :: "string \<Rightarrow> string list \<Rightarrow> string" where
  "js_join sep [] = []"
| "js_join sep [x] = x"
| "js_join sep (x # y # zs) = x @ sep @ js_join sep (y # zs)"

text \<open>\<open>text.padStart(n, fill)\<close> and \<open>text.padEnd(n, fill)\<close> for a one-character fill.\<close>

definition padStart :: "nat \<Rightarrow> char \<Rightarrow> string \<Rightarrow> string" where
  "padStart n c s = replicate (n - length s) c @ s"

definition padEnd :: "nat \<Rightarrow> char \<Rightarrow> string \<Rightarrow> string" where
  "padEnd n c s = s @ replicate (n - length s) c"

lemma length_padStart [simp]: "length (padStart n c s) = max n (length s)"
  by (simp add: padStart_def)

lemma length_padEnd [simp]: "length (padEnd n c s) = max n (length s)"
  by (simp add: padEnd_def)

end
