(* ===== verification/Js_Array.thy ===== *)
theory Js_Array
  imports Prelude
begin

text \<open>
  The array and collection operations the scripts use: \<open>sort\<close> with a comparator (and
  the locale of consistent comparators, on which its result is the unique stable sort), the
  default \<open>sort()\<close> by code units, \<open>localeCompare\<close>, \<open>Map\<close>, \<open>Set\<close>
  and \<open>groupBy\<close>.
\<close>

section \<open>Array.prototype.sort\<close>

fun js_insert :: "('a \<Rightarrow> 'a \<Rightarrow> int) \<Rightarrow> 'a \<Rightarrow> 'a list \<Rightarrow> 'a list" where
  "js_insert cmp x [] = [x]"
| "js_insert cmp x (y # ys) = (if cmp x y \<le> 0 then x # y # ys else y # js_insert cmp x ys)"

fun js_sort :: "('a \<Rightarrow> 'a \<Rightarrow> int) \<Rightarrow> 'a list \<Rightarrow> 'a list" where
  "js_sort cmp [] = []"
| "js_sort cmp (x # xs) = js_insert cmp x (js_sort cmp xs)"

lemma mset_js_insert [simp]: "mset (js_insert cmp x ys) = add_mset x (mset ys)"
  by (induction ys) auto

lemma mset_js_sort [simp, sort_facts]: "mset (js_sort cmp xs) = mset xs"
  by (induction xs) auto

lemma set_js_sort [simp, sort_facts]: "set (js_sort cmp xs) = set xs"
  by (metis mset_js_sort set_mset_mset)

lemma length_js_sort [simp, sort_facts]: "length (js_sort cmp xs) = length xs"
  by (metis mset_js_sort size_mset)

lemma distinct_js_sort [simp, sort_facts]: "distinct (js_sort cmp xs) = distinct xs"
  by (metis mset_eq_imp_distinct_iff mset_js_sort)

lemma js_sort_Nil_iff [simp]: "js_sort cmp xs = [] \<longleftrightarrow> xs = []"
  by (metis length_0_conv length_js_sort)

lemma sum_list_js_sort [simp, sort_facts]:
  "sum_list (map f (js_sort cmp xs)) = sum_list (map (f :: 'a \<Rightarrow> int) xs)"
  by (metis mset_js_sort mset_map sum_mset_sum_list)

text \<open>
  A comparator that is consistent on the elements satisfying \<open>ok\<close>: ECMAScript
  requires of \<open>sort\<close>'s argument that it is a total preorder.
\<close>

locale js_comparator =
  fixes cmp :: "'a \<Rightarrow> 'a \<Rightarrow> int" and ok :: "'a \<Rightarrow> bool"
  assumes cmp_sym: "ok x \<Longrightarrow> ok y \<Longrightarrow> cmp x y < 0 \<longleftrightarrow> 0 < cmp y x"
    and cmp_trans: "ok x \<Longrightarrow> ok y \<Longrightarrow> ok z \<Longrightarrow> cmp x y \<le> 0 \<Longrightarrow> cmp y z \<le> 0 \<Longrightarrow> cmp x z \<le> 0"
begin

lemma cmp_total: "ok x \<Longrightarrow> ok y \<Longrightarrow> cmp x y \<le> 0 \<or> cmp y x \<le> 0"
  using cmp_sym [of x y] cmp_sym [of y x] by linarith

lemma cmp_refl: "ok x \<Longrightarrow> cmp x x = 0"
  using cmp_sym [of x x] by linarith

lemma sorted_insert:
  "ok x \<Longrightarrow> \<forall>y\<in>set ys. ok y \<Longrightarrow> sorted_wrt (\<lambda>a b. cmp a b \<le> 0) ys
   \<Longrightarrow> sorted_wrt (\<lambda>a b. cmp a b \<le> 0) (js_insert cmp x ys)"
proof (induction ys)
  case Nil
  then show ?case by simp
next
  case (Cons y ys)
  have set_eq: "set (js_insert cmp x ys) = insert x (set ys)"
    by (metis mset_js_insert set_mset_mset set_mset_add_mset_insert)
  show ?case
  proof (cases "cmp x y \<le> 0")
    case True
    with Cons.prems show ?thesis by (auto intro: cmp_trans [of x y])
  next
    case False
    with Cons.prems have "cmp y x \<le> 0" using cmp_total [of x y] by auto
    with False Cons show ?thesis by (auto simp: set_eq)
  qed
qed

lemma sorted_js_sort:
  "\<forall>x\<in>set xs. ok x \<Longrightarrow> sorted_wrt (\<lambda>a b. cmp a b \<le> 0) (js_sort cmp xs)"
  by (induction xs) (auto intro: sorted_insert)

text \<open>Sorting a sorted array changes nothing.\<close>

lemma insert_le: "\<forall>y\<in>set ys. cmp x y \<le> 0 \<Longrightarrow> js_insert cmp x ys = x # ys"
  by (cases ys) auto

lemma js_sort_sorted: "sorted_wrt (\<lambda>a b. cmp a b \<le> 0) xs \<Longrightarrow> js_sort cmp xs = xs"
  by (induction xs) (auto simp: insert_le)

lemma js_sort_idem:
  "\<forall>x\<in>set xs. ok x \<Longrightarrow> js_sort cmp (js_sort cmp xs) = js_sort cmp xs"
  by (simp add: js_sort_sorted sorted_js_sort)

text \<open>
  Where the comparator separates different elements, the result depends on the elements only,
  not on the order they came in.
\<close>

lemma sorted_unique:
  assumes "sorted_wrt (\<lambda>a b. cmp a b \<le> 0) xs" and "sorted_wrt (\<lambda>a b. cmp a b \<le> 0) ys"
    and "mset xs = mset ys" and "\<forall>x\<in>set xs. ok x"
    and sep: "\<And>x y. x \<in> set xs \<Longrightarrow> y \<in> set xs \<Longrightarrow> cmp x y = 0 \<Longrightarrow> x = y"
  shows "xs = ys"
  using assms
proof (induction xs arbitrary: ys)
  case Nil
  then show ?case by simp
next
  case (Cons x xs)
  obtain y ys' where ys: "ys = y # ys'"
    using Cons.prems(3) by (cases ys) auto
  have sets: "set (x # xs) = set (y # ys')"
    using Cons.prems(3) ys by (metis set_mset_mset)
  have "cmp x y \<le> 0"
  proof (cases "y = x")
    case True
    then show ?thesis using Cons.prems(4) cmp_refl by simp
  next
    case False
    then have "y \<in> set xs" using sets by auto
    then show ?thesis using Cons.prems(1) by simp
  qed
  moreover have "cmp y x \<le> 0"
  proof (cases "y = x")
    case True
    then show ?thesis using Cons.prems(4) cmp_refl by simp
  next
    case False
    then have "x \<in> set ys'" using sets by auto
    then show ?thesis using Cons.prems(2) ys by simp
  qed
  ultimately have eq: "x = y"
    using Cons.prems(4,5) sets cmp_sym [of x y] cmp_sym [of y x]
    by (metis linorder_not_less list.set_intros(1) order_le_imp_less_or_eq)
  have "xs = ys'"
    using Cons.prems ys eq by (intro Cons.IH) auto
  with ys eq show ?case by simp
qed

lemma js_sort_permute:
  assumes "mset xs = mset ys" and "\<forall>x\<in>set xs. ok x"
    and "\<And>x y. x \<in> set xs \<Longrightarrow> y \<in> set xs \<Longrightarrow> cmp x y = 0 \<Longrightarrow> x = y"
  shows "js_sort cmp xs = js_sort cmp ys"
proof (rule sorted_unique)
  have "\<forall>y\<in>set ys. ok y"
    using assms(1,2) by (metis set_mset_mset)
  then show "sorted_wrt (\<lambda>a b. cmp a b \<le> 0) (js_sort cmp ys)"
    by (rule sorted_js_sort)
qed (use assms sorted_js_sort in auto)

end

text \<open>Comparators that compare a key in a linear order.\<close>

definition cmp_key :: "('a \<Rightarrow> 'b::linorder) \<Rightarrow> 'a \<Rightarrow> 'a \<Rightarrow> int" where
  "cmp_key key x y = (if key x < key y then -1 else if key x = key y then 0 else 1)"

lemma cmp_key_le [simp]: "cmp_key key x y \<le> 0 \<longleftrightarrow> key x \<le> key y"
  by (auto simp: cmp_key_def)

lemma cmp_key_less [simp]: "cmp_key key x y < 0 \<longleftrightarrow> key x < key y"
  by (auto simp: cmp_key_def)

lemma cmp_key_greater [simp]: "0 < cmp_key key x y \<longleftrightarrow> key y < key x"
  by (auto simp: cmp_key_def)

lemma cmp_key_eq [simp]: "cmp_key key x y = 0 \<longleftrightarrow> key x = key y"
  by (auto simp: cmp_key_def)

text \<open>
  A comparator whose sign is that of a key comparison is consistent; the interpretations of
  the script's comparators go through this lemma.
\<close>

lemma js_comparatorI_key:
  fixes key :: "'a \<Rightarrow> 'b::linorder"
  assumes "\<And>x y. ok x \<Longrightarrow> ok y \<Longrightarrow> cmp x y < 0 \<longleftrightarrow> key x < key y"
    and "\<And>x y. ok x \<Longrightarrow> ok y \<Longrightarrow> cmp x y = 0 \<longleftrightarrow> key x = key y"
  shows "js_comparator cmp ok"
proof
  show "cmp x y < 0 \<longleftrightarrow> 0 < cmp y x" if "ok x" "ok y" for x y
    using assms(1) [OF that] assms(1,2) [OF that(2,1)] by (smt (verit) less_linear order_less_imp_not_less)
  show "cmp x z \<le> 0" if "ok x" "ok y" "ok z" "cmp x y \<le> 0" "cmp y z \<le> 0" for x y z
    using assms [OF that(1,2)] assms [OF that(2,3)] assms [OF that(1,3)] that(4,5)
    by (smt (verit) order_less_trans)
qed

section \<open>Sorting without a comparator\<close>

text \<open>\<open>[...values].sort()\<close> orders strings by their code units.\<close>

definition sort_strings :: "string list \<Rightarrow> string list" where
  "sort_strings xs = sort xs"

lemma sort_strings_facts [simp, sort_facts]:
  "mset (sort_strings xs) = mset xs" "set (sort_strings xs) = set xs"
  "length (sort_strings xs) = length xs" "sorted (sort_strings xs)"
  by (simp_all add: sort_strings_def)

lemma sort_strings_permute: "mset xs = mset ys \<Longrightarrow> sort_strings xs = sort_strings ys"
  unfolding sort_strings_def by (metis mset_sort properties_for_sort sorted_sort)

section \<open>localeCompare\<close>

text \<open>
  The root collation of the printable ASCII characters: white space, punctuation, symbols,
  digits, letters; a lower-case letter before its upper-case form, which counts only where
  the texts are otherwise equal. (Every other character is placed after the letters; none
  occurs in the texts the scripts compare.)
\<close>

definition collation_marks :: string where
  "collation_marks = [CHR 0x09, CHR 0x0A, CHR 0x0B, CHR 0x0C, CHR 0x0D, CHR '' '', CHR ''_'', CHR ''-'',
     CHR '','', CHR '';'', CHR '':'', CHR ''!'', CHR ''?'', CHR ''.'', CHR 0x27, CHR 0x22, CHR ''('',
     CHR '')'', CHR ''['', CHR '']'', CHR ''{'', CHR ''}'', CHR ''@'', CHR ''*'', CHR ''/'', CHR 0x5C,
     CHR ''&'', CHR ''#'', CHR ''%'', CHR 0x60, CHR ''^'', CHR ''+'', CHR ''<'', CHR ''='', CHR ''>'',
     CHR ''|'', CHR ''~'', CHR ''$'']"

fun index_from :: "nat \<Rightarrow> 'a \<Rightarrow> 'a list \<Rightarrow> nat option" where
  "index_from i x [] = None"
| "index_from i x (y # ys) = (if x = y then Some i else index_from (Suc i) x ys)"

definition collation_primary :: "char \<Rightarrow> nat" where
  "collation_primary c =
     (let n = (of_char c :: nat) in
      if 48 \<le> n \<and> n \<le> 57 then n + 52
      else if 97 \<le> n \<and> n \<le> 122 then n + 103
      else if 65 \<le> n \<and> n \<le> 90 then n + 135
      else case index_from 0 c collation_marks of Some i \<Rightarrow> i | None \<Rightarrow> n + 300)"

definition collation_tertiary :: "char \<Rightarrow> nat" where
  "collation_tertiary c = (let n = (of_char c :: nat) in if 65 \<le> n \<and> n \<le> 90 then 1 else 0)"

definition collation_key :: "string \<Rightarrow> nat list \<times> nat list" where
  "collation_key s = (map collation_primary s, map collation_tertiary s)"

definition localeCompare :: "string \<Rightarrow> string \<Rightarrow> int" where
  "localeCompare s t = cmp_key collation_key s t"

lemma index_from_Some: "index_from i x xs = Some j \<Longrightarrow> i \<le> j \<and> j < i + length xs \<and> xs ! (j - i) = x"
proof (induction xs arbitrary: i)
  case Nil
  then show ?case by simp
next
  case (Cons y ys)
  show ?case
  proof (cases "x = y")
    case True
    with Cons.prems show ?thesis by simp
  next
    case False
    with Cons.prems Cons.IH [of "Suc i"]
    have "Suc i \<le> j \<and> j < Suc i + length ys \<and> ys ! (j - Suc i) = x" by simp
    then show ?thesis by (auto simp: nth_Cons split: nat.split) (metis Suc_diff_Suc diff_Suc_1 Suc_le_lessD)
  qed
qed

lemma collation_char_inject:
  assumes "collation_primary c = collation_primary d" "collation_tertiary c = collation_tertiary d"
  shows "c = d"
proof -
  have marks: "i < 38 \<and> collation_marks ! i = x" if "index_from 0 x collation_marks = Some i" for i x
    using index_from_Some [OF that] by (simp add: collation_marks_def)
  have "of_char c = (of_char d :: nat)"
    using assms marks [of c] marks [of d]
    by (auto simp: collation_primary_def collation_tertiary_def Let_def split: if_splits option.splits)
      (metis+)?
  then show ?thesis by simp
qed

lemma collation_key_inject [simp]: "collation_key s = collation_key t \<longleftrightarrow> s = t"
proof
  assume "collation_key s = collation_key t"
  then have p: "map collation_primary s = map collation_primary t"
    and q: "map collation_tertiary s = map collation_tertiary t"
    by (simp_all add: collation_key_def)
  from p have len: "length s = length t" by (metis length_map)
  then show "s = t"
    by (rule nth_equalityI) (metis collation_char_inject len nth_map p q)
qed simp

interpretation lc: js_comparator localeCompare "\<lambda>_. True"
  by (rule js_comparatorI_key [of _ _ collation_key]) (simp_all add: localeCompare_def)

lemma localeCompare_eq_0 [simp]: "localeCompare s t = 0 \<longleftrightarrow> s = t"
  by (simp add: localeCompare_def)

text \<open>The same comparison, computed from left to right up to the first primary difference.\<close>

fun lc_lazy :: "string \<Rightarrow> string \<Rightarrow> int \<Rightarrow> int" where
  "lc_lazy [] [] t = t"
| "lc_lazy [] (d # ds) t = -1"
| "lc_lazy (c # cs) [] t = 1"
| "lc_lazy (c # cs) (d # ds) t =
    (if c = d then lc_lazy cs ds t
     else (let p = collation_primary c; q = collation_primary d in
       if p < q then -1 else if q < p then 1
       else lc_lazy cs ds (if t \<noteq> 0 then t else if collation_tertiary c < collation_tertiary d then -1 else 1)))"

lemma tertiary_ne: "c \<noteq> d \<Longrightarrow> collation_primary c = collation_primary d \<Longrightarrow> collation_tertiary c \<noteq> collation_tertiary d"
  using collation_char_inject by blast

lemma lc_lazy_key: "lc_lazy s t a =
   (let p = map collation_primary s; q = map collation_primary t in
    if p < q then -1 else if q < p then 1
    else if a \<noteq> 0 then a else cmp_key (map collation_tertiary) s t)"
proof (induction s t a rule: lc_lazy.induct)
  case (4 c cs d ds t)
  show ?case
  proof (cases "c = d")
    case True
    with 4 show ?thesis by (simp add: Let_def cmp_key_def)
  next
    case False
    show ?thesis
    proof (cases "collation_primary c = collation_primary d")
      case True
      have "collation_tertiary c \<noteq> collation_tertiary d" using False True tertiary_ne by blast
      with 4(2) [OF False refl refl] False True show ?thesis by (auto simp: Let_def cmp_key_def)
    next
      case f: False
      with False show ?thesis by (auto simp: Let_def cmp_key_def)
    qed
  qed
qed (simp_all add: cmp_key_def)

lemma localeCompare_code [code]: "localeCompare s t = lc_lazy s t 0"
proof -
  have "map collation_primary s = map collation_primary t \<Longrightarrow> map collation_tertiary s = map collation_tertiary t \<Longrightarrow> s = t"
    using collation_key_inject [of s t] by (simp add: collation_key_def)
  then show ?thesis
  unfolding lc_lazy_key localeCompare_def cmp_key_def Let_def collation_key_def
  by (auto simp: less_prod_def)
qed
section \<open>Map, Set, groupBy\<close>

text \<open>\<open>map.set(key, value)\<close> for each element; \<open>[...map.values()]\<close> is \<open>map snd\<close>.\<close>

definition map_from :: "('k \<times> 'v) list \<Rightarrow> ('k \<times> 'v) list" where
  "map_from kvs = fold (\<lambda>(k, v) m. AList.update k v m) kvs []"

text \<open>\<open>[...new Set(values)]\<close>: the first occurrences, in order.\<close>

fun set_add :: "'a list \<Rightarrow> 'a \<Rightarrow> 'a list" where
  "set_add s x = (if x \<in> set s then s else s @ [x])"

definition js_set :: "'a list \<Rightarrow> 'a list" where
  "js_set xs = foldl set_add [] xs"

lemma foldl_set_add_set [simp]: "set (foldl set_add s xs) = set s \<union> set xs"
  by (induction xs arbitrary: s) auto

lemma foldl_set_add_distinct: "distinct s \<Longrightarrow> distinct (foldl set_add s xs)"
  by (induction xs arbitrary: s) auto

lemma set_js_set [simp]: "set (js_set xs) = set xs"
  by (simp add: js_set_def)

lemma distinct_js_set [simp]: "distinct (js_set xs)"
  by (simp add: js_set_def foldl_set_add_distinct)

lemma foldl_set_add_fresh: "distinct (s @ xs) \<Longrightarrow> foldl set_add s xs = s @ xs"
  by (induction xs arbitrary: s) auto

lemma js_set_distinct: "distinct xs \<Longrightarrow> js_set xs = xs"
  by (simp add: js_set_def foldl_set_add_fresh)

lemma length_js_set: "length (js_set xs) = card (set xs)"
  by (metis distinct_card distinct_js_set set_js_set)

lemma js_set_size_iff: "length (js_set xs) = length xs \<longleftrightarrow> distinct xs"
  by (simp add: length_js_set card_distinct distinct_card) (metis card_distinct distinct_card)

lemma js_set_permute: "set xs = set ys \<Longrightarrow> mset (js_set xs) = mset (js_set ys)"
  by (metis distinct_js_set set_eq_iff_mset_eq_distinct set_js_set)

text \<open>\<open>groupBy(values, key)\<close>: the groups in order of first appearance.\<close>

definition groupBy :: "('a \<Rightarrow> 'k) \<Rightarrow> 'a list \<Rightarrow> ('k \<times> 'a list) list" where
  "groupBy key xs = map (\<lambda>k. (k, filter (\<lambda>x. key x = k) xs)) (js_set (map key xs))"

lemma groupBy_keys [simp]: "map fst (groupBy key xs) = js_set (map key xs)"
  by (simp add: groupBy_def comp_def)

lemma groupBy_group: "(k, ys) \<in> set (groupBy key xs) \<Longrightarrow> ys = filter (\<lambda>x. key x = k) xs \<and> ys \<noteq> []"
  by (auto simp: groupBy_def filter_empty_conv)

end
