(* ===== verification/Json.thy ===== *)
theory Json
  imports Js_Array
begin

text \<open>
  JSON documents, \<open>JSON.stringify\<close> and the \<open>canonicalJson\<close> that
  \<open>scripts/proof-bundle.mjs\<close> (and, copied, \<open>scripts/proof-planner.mjs\<close> and
  \<open>scripts/proving-cost-quote.mjs\<close>) hashes. An object is the list of its members in
  insertion order; a number is a whole number.
\<close>

datatype json = JNull | JBool bool | JNum int | JStr string
  | JArr "json list" | JObj "(string \<times> json) list"

definition hex_digit :: "nat \<Rightarrow> char" where
  "hex_digit d = char_of (if d < 10 then 48 + d else 87 + d)"

definition escape_char :: "char \<Rightarrow> string" where
  "escape_char c =
     (let n = (of_char c :: nat) in
      if n = 34 then [CHR 0x5C, CHR 0x22]
      else if n = 92 then [CHR 0x5C, CHR 0x5C]
      else if n = 8 then [CHR 0x5C, CHR ''b'']
      else if n = 12 then [CHR 0x5C, CHR ''f'']
      else if n = 10 then [CHR 0x5C, CHR ''n'']
      else if n = 13 then [CHR 0x5C, CHR ''r'']
      else if n = 9 then [CHR 0x5C, CHR ''t'']
      else if n < 32 then [CHR 0x5C, CHR ''u'', CHR ''0'', CHR ''0'', hex_digit (n div 16), hex_digit (n mod 16)]
      else [c])"

lemma escape_char_code [code]:
  "escape_char c =
     (let n = (of_char c :: int) in
      if n = 34 then [CHR 0x5C, CHR 0x22]
      else if n = 92 then [CHR 0x5C, CHR 0x5C]
      else if n \<ge> 32 then [c]
      else if n = 8 then [CHR 0x5C, CHR ''b'']
      else if n = 12 then [CHR 0x5C, CHR ''f'']
      else if n = 10 then [CHR 0x5C, CHR ''n'']
      else if n = 13 then [CHR 0x5C, CHR ''r'']
      else if n = 9 then [CHR 0x5C, CHR ''t'']
      else [CHR 0x5C, CHR ''u'', CHR ''0'', CHR ''0'', hex_digit (nat (n div 16)), hex_digit (nat (n mod 16))])"
proof -
  have eq: "(of_char c :: int) = int (of_char c)" by (simp add: of_nat_of_char)
  show ?thesis unfolding escape_char_def eq Let_def
    by (simp add: nat_div_distrib nat_mod_distrib)
qed

text \<open>\<open>JSON.stringify\<close> of a string.\<close>

definition quote :: "string \<Rightarrow> string" where
  "quote s = [CHR 0x22] @ concat (map escape_char s) @ [CHR 0x22]"

fun stringify :: "json \<Rightarrow> string"
  and stringify_list :: "json list \<Rightarrow> string list"
  and stringify_members :: "(string \<times> json) list \<Rightarrow> string list" where
  "stringify JNull = ''null''"
| "stringify (JBool b) = (if b then ''true'' else ''false'')"
| "stringify (JNum n) = show_int n"
| "stringify (JStr s) = quote s"
| "stringify (JArr js) = ''['' @ js_join '','' (stringify_list js) @ '']''"
| "stringify (JObj ms) = ''{'' @ js_join '','' (stringify_members ms) @ ''}''"
| "stringify_list [] = []"
| "stringify_list (j # js) = stringify j # stringify_list js"
| "stringify_members [] = []"
| "stringify_members ((k, v) # ms) = (quote k @ '':'' @ stringify v) # stringify_members ms"

text \<open>
  \<open>canonicalJson\<close>: objects with their keys sorted by code units, at every depth.
\<close>

fun canonicalJson :: "json \<Rightarrow> string"
  and canonical_list :: "json list \<Rightarrow> string list"
  and canonical_members :: "(string \<times> json) list \<Rightarrow> (string \<times> string) list" where
  "canonicalJson JNull = stringify JNull"
| "canonicalJson (JBool b) = stringify (JBool b)"
| "canonicalJson (JNum n) = stringify (JNum n)"
| "canonicalJson (JStr s) = stringify (JStr s)"
| "canonicalJson (JArr js) = ''['' @ js_join '','' (canonical_list js) @ '']''"
| "canonicalJson (JObj ms) =
     ''{'' @ js_join '',''
       (map (\<lambda>k. quote k @ '':'' @ the (map_of (canonical_members ms) k)) (sort_strings (map fst ms))) @ ''}''"
| "canonical_list [] = []"
| "canonical_list (j # js) = canonicalJson j # canonical_list js"
| "canonical_members [] = []"
| "canonical_members ((k, v) # ms) = (k, canonicalJson v) # canonical_members ms"

lemma stringify_list_map [simp]: "stringify_list js = map stringify js"
  by (induction js) auto

lemma canonical_list_map [simp]: "canonical_list js = map canonicalJson js"
  by (induction js) auto

lemma canonical_members_map [simp]: "canonical_members ms = map (\<lambda>(k, v). (k, canonicalJson v)) ms"
  by (induction ms) auto

text \<open>An object value names each member once, at every depth.\<close>

fun wf_json :: "json \<Rightarrow> bool"
  and wf_list :: "json list \<Rightarrow> bool"
  and wf_members :: "(string \<times> json) list \<Rightarrow> bool" where
  "wf_json (JArr js) = wf_list js"
| "wf_json (JObj ms) = (distinct (map fst ms) \<and> wf_members ms)"
| "wf_json JNull = True"
| "wf_json (JBool b) = True"
| "wf_json (JNum n) = True"
| "wf_json (JStr s) = True"
| "wf_list [] = True"
| "wf_list (j # js) = (wf_json j \<and> wf_list js)"
| "wf_members [] = True"
| "wf_members ((k, v) # ms) = (wf_json v \<and> wf_members ms)"

text \<open>Two documents that differ in the order of object members only.\<close>

inductive same_members :: "json \<Rightarrow> json \<Rightarrow> bool" where
  same_refl: "same_members j j"
| same_arr: "list_all2 same_members js ks \<Longrightarrow> same_members (JArr js) (JArr ks)"
| same_obj: "list_all2 (\<lambda>x y. fst x = fst y \<and> same_members (snd x) (snd y)) ms ns \<Longrightarrow>
     mset ns = mset ns' \<Longrightarrow> distinct (map fst ns) \<Longrightarrow> same_members (JObj ms) (JObj ns')"

lemma map_of_map_value: "map_of (map (\<lambda>(k, v). (k, f v)) ms) = map_option f \<circ> map_of ms"
  by (induction ms) auto

lemma map_of_mset_cong:
  assumes "mset ns = mset ns'" "distinct (map fst ns)"
  shows "map_of ns = map_of ns'"
proof -
  have "distinct (map fst ns')"
    using assms by (metis mset_eq_imp_distinct_iff mset_map)
  with assms show ?thesis
    by (metis map_of_inject_set mset_eq_setD)
qed

lemma list_all2_members_map_of:
  "list_all2 (\<lambda>x y. fst x = fst y \<and> f (snd x) = f (snd y)) ms ns \<Longrightarrow>
   map fst ms = map fst ns \<and> map_option f \<circ> map_of ms = map_option f \<circ> map_of ns"
  by (induction rule: list_all2_induct) (auto simp: fun_eq_iff)

lemma canonicalJson_same_members: "same_members j k \<Longrightarrow> canonicalJson j = canonicalJson k"
proof (induction rule: same_members.induct)
  case (same_refl j)
  show ?case ..
next
  case (same_arr js ks)
  then have "map canonicalJson js = map canonicalJson ks"
    by (simp add: list_all2_conv_all_nth list_eq_iff_nth_eq)
  then show ?case by simp
next
  case (same_obj ms ns ns')
  from same_obj.IH have "list_all2 (\<lambda>x y. fst x = fst y \<and> canonicalJson (snd x) = canonicalJson (snd y)) ms ns"
    by (rule list_all2_mono) auto
  from list_all2_members_map_of [OF this]
  have keys: "map fst ms = map fst ns"
    and vals: "map_option canonicalJson \<circ> map_of ms = map_option canonicalJson \<circ> map_of ns"
    by auto
  have "sort_strings (map fst ms) = sort_strings (map fst ns')"
    by (rule sort_strings_permute) (use keys same_obj.hyps in \<open>metis mset_map\<close>)
  moreover have "map_option canonicalJson \<circ> map_of ms = map_option canonicalJson \<circ> map_of ns'"
    using vals map_of_mset_cong [OF same_obj.hyps(1,2)] by simp
  ultimately show ?case by (simp add: map_of_map_value)
qed

end
