(* ===== verification/Policy.thy ===== *)
theory Policy
  imports Json
begin

text \<open>
  \<open>scripts/predicate-policy.mjs\<close>: the ratio and bound constants of the predicate, which
  the script reads out of the text of \<open>predicate/src/lib.rs\<close>, and the policy hash that
  checkpoints carry. SHA-256 is node's: the parameter \<open>sha256\<close>, a function from a
  string of bytes to its hexadecimal digest.
\<close>

definition ALPHA_FUND_BPS :: int where "ALPHA_FUND_BPS = 9000"
definition ALPHA_RETURN_BPS :: int where "ALPHA_RETURN_BPS = 3000"
definition EPSILON_LEDGER_BPS :: int where "EPSILON_LEDGER_BPS = 500"
definition RHO_HOP_BPS :: int where "RHO_HOP_BPS = 2800"
definition T_PATH_SECONDS :: int where "T_PATH_SECONDS = 259200"
definition MAX_RETURN_PATHS :: int where "MAX_RETURN_PATHS = 512"

lemmas policy_constants = ALPHA_FUND_BPS_def ALPHA_RETURN_BPS_def EPSILON_LEDGER_BPS_def
  RHO_HOP_BPS_def T_PATH_SECONDS_def MAX_RETURN_PATHS_def

section \<open>Reading a constant from the predicate's source\<close>

text \<open>
  \<open>source.match(/^pub const NAME: (?:u64|usize) = ([\d_]+);$/m)\<close>: the first line that is
  the declaration and nothing else.
\<close>

fun strip_prefix :: "string \<Rightarrow> string \<Rightarrow> string option" where
  "strip_prefix [] s = Some s"
| "strip_prefix (p # ps) [] = None"
| "strip_prefix (p # ps) (c # cs) = (if p = c then strip_prefix ps cs else None)"

fun lines_of :: "string \<Rightarrow> string list" where
  "lines_of [] = [[]]"
| "lines_of (c # cs) =
     (if c = CHR 0x0A then [] # lines_of cs
      else (case lines_of cs of [] \<Rightarrow> [[c]] | l # ls \<Rightarrow> (c # l) # ls))"

definition literal_digits :: "string \<Rightarrow> string option" where
  "literal_digits rest =
     (if rest \<noteq> [] \<and> last rest = CHR '';'' \<and> butlast rest \<noteq> []
         \<and> (\<forall>c\<in>set (butlast rest). c = CHR ''_'' \<or> char_digit c \<noteq> None)
      then Some (butlast rest) else None)"

definition match_constant :: "string \<Rightarrow> string \<Rightarrow> string option" where
  "match_constant name l =
     (case strip_prefix (''pub const '' @ name @ '': '') l of None \<Rightarrow> None
      | Some typed \<Rightarrow>
          (case (strip_prefix ''u64 = '' typed, strip_prefix ''usize = '' typed) of
             (Some rest, _) \<Rightarrow> literal_digits rest
           | (None, Some rest) \<Rightarrow> literal_digits rest
           | (None, None) \<Rightarrow> None))"

fun first_match :: "string \<Rightarrow> string list \<Rightarrow> string option" where
  "first_match name [] = None"
| "first_match name (l # ls) =
     (case match_constant name l of Some d \<Rightarrow> Some d | None \<Rightarrow> first_match name ls)"

text \<open>\<open>constant(name)\<close>.\<close>

definition policy_constant :: "string \<Rightarrow> string \<Rightarrow> int res" where
  "policy_constant source name =
     (case first_match name (lines_of source) of
        None \<Rightarrow> Inl (Error (''missing literal predicate constant: '' @ name))
      | Some digits \<Rightarrow>
          (case parse_digits 0 (filter (\<lambda>c. c \<noteq> CHR ''_'') digits) of
             Some n \<Rightarrow> Inr (int n) | None \<Rightarrow> Inl (Error ''Cannot convert to a BigInt'')))"

text \<open>The declarations of \<open>predicate/src/lib.rs\<close> that the script reads.\<close>

definition lib_rs :: string where
  "lib_rs = js_join [CHR 0x0A]
     [''pub const ALPHA_FUND_BPS: u64 = 9_000;'',
      ''pub const ALPHA_RETURN_BPS: u64 = 3_000;'',
      ''pub const RHO_HOP_BPS: u64 = 2_800;'',
      ''pub const EPSILON_LEDGER_BPS: u64 = 500;'',
      ''pub const T_PATH_SECONDS: u64 = 259_200;'',
      ''pub const MAX_RETURN_PATHS: usize = 512;'']"

text \<open>The digits accepted by the pattern always convert: the only error is a missing constant.\<close>

lemma parse_digits_total:
  "\<forall>c\<in>set s. char_digit c \<noteq> None \<Longrightarrow> \<exists>n. parse_digits acc s = Some n"
  by (induction s arbitrary: acc) (auto split: option.splits)

section \<open>The policy and its hash\<close>

definition PREDICATE_POLICY :: json where
  "PREDICATE_POLICY = JObj
     [(''alphaFundBps'', JNum ALPHA_FUND_BPS), (''alphaReturnBps'', JNum ALPHA_RETURN_BPS),
      (''epsilonLedgerBps'', JNum EPSILON_LEDGER_BPS), (''rhoHopBps'', JNum RHO_HOP_BPS),
      (''pathSeconds'', JNum T_PATH_SECONDS), (''maxReturnPaths'', JNum MAX_RETURN_PATHS)]"

definition PREDICATE_POLICY_HASH :: "(string \<Rightarrow> string) \<Rightarrow> string" where
  "PREDICATE_POLICY_HASH sha256 = sha256 (stringify PREDICATE_POLICY)"

text \<open>The two fields of a checkpoint that \<open>isCurrentPolicyCheckpoint\<close> reads.\<close>

record checkpoint_policy =
  checkpoint_version :: "int option"
  predicatePolicyHash :: "string option"

definition isCurrentPolicyCheckpoint ::
  "(string \<Rightarrow> string) \<Rightarrow> 'a checkpoint_policy_scheme option \<Rightarrow> bool" where
  "isCurrentPolicyCheckpoint sha256 checkpoint =
     (case checkpoint of None \<Rightarrow> False
      | Some c \<Rightarrow> checkpoint_version c = Some 3
          \<and> predicatePolicyHash c = Some (PREDICATE_POLICY_HASH sha256))"

end
