(* ===== verification/Evidence.thy ===== *)
theory Evidence
  imports Policy
begin

text \<open>
  The evidence objects that the bundle, the planner and the return selection pass around
  (\<open>scripts/proof-bundle.mjs\<close> \<open>locator\<close>, \<open>relayDependency\<close>,
  \<open>returnPathDependency\<close>), their JSON text, and the helpers of
  \<open>scripts/proof-planner.mjs\<close> on them.

  An atomic entry (a transfer, a deposit or a settlement at a position of the chain) is a
  \<open>transfer\<close>; a relay path adds its hops, given either as \<open>hops\<close> or as the three
  legacy legs. \<open>amountRaw\<close> and \<open>amountWei\<close>, decimal strings in the JSON that the
  code reads with \<open>BigInt\<close>, are the integers they denote. A field that is \<open>null\<close>
  or absent is \<open>None\<close>; members the scripts copy without reading (\<open>channelId\<close>,
  \<open>fundingKind\<close>, \<open>relay\<close>, ...) are in \<open>otherMembers\<close>.
\<close>

datatype ev_type = SETTLEMENT | RECIPROCAL_SETTLEMENT | TOTAL_SETTLEMENT
  | USDC_FUNDING | NATIVE_FUNDING
  | DIRECT_SELLER_FUNDER | DIRECT_SELLER_BUYER
  | RELAY_SELLER_PAYMENT | RELAY_FORWARD | RELAY_FUNDER_RECEIPT | RELAY_PATH | UNTYPED

text \<open>\<open>UNTYPED\<close> stands for an entry without the member \<open>evidenceType\<close>.\<close>

definition ev_type_name :: "ev_type \<Rightarrow> string" where
  "ev_type_name t = (case t of
      SETTLEMENT \<Rightarrow> ''SETTLEMENT'' | RECIPROCAL_SETTLEMENT \<Rightarrow> ''RECIPROCAL_SETTLEMENT''
    | TOTAL_SETTLEMENT \<Rightarrow> ''TOTAL_SETTLEMENT'' | USDC_FUNDING \<Rightarrow> ''USDC_FUNDING''
    | NATIVE_FUNDING \<Rightarrow> ''NATIVE_FUNDING'' | DIRECT_SELLER_FUNDER \<Rightarrow> ''DIRECT_SELLER_FUNDER''
    | DIRECT_SELLER_BUYER \<Rightarrow> ''DIRECT_SELLER_BUYER'' | RELAY_SELLER_PAYMENT \<Rightarrow> ''RELAY_SELLER_PAYMENT''
    | RELAY_FORWARD \<Rightarrow> ''RELAY_FORWARD'' | RELAY_FUNDER_RECEIPT \<Rightarrow> ''RELAY_FUNDER_RECEIPT''
    | RELAY_PATH \<Rightarrow> ''RELAY_PATH'' | UNTYPED \<Rightarrow> ''undefined'')"

record transfer =
  evidenceType :: ev_type
  blockNumber :: "int option"
  transactionHash :: "string option"
  txHash :: "string option"
  transactionIndex :: "int option"
  logIndex :: "int option"
  timestamp :: "int option"
  from_addr :: "string option"
  to_addr :: "string option"
  buyer :: "string option"
  seller :: "string option"
  funder :: "string option"
  amountRaw :: int
  amountWei :: int
  otherMembers :: "(string \<times> json) list"
  dependencyId :: "string option"
  receiptLogIndex :: "int option"
  depositLogIndex :: "int option"

record evidence = transfer +
  hops :: "transfer list option"
  sellerPayment :: "transfer option"
  relayForward :: "transfer option"
  funderReceipt :: "transfer option"

text \<open>An atomic entry seen as evidence.\<close>

definition of_transfer :: "transfer \<Rightarrow> evidence" where
  "of_transfer t = transfer.extend t
     \<lparr>hops = None, sellerPayment = None, relayForward = None, funderReceipt = None\<rparr>"

lemma of_transfer_simps [simp]:
  "evidenceType (of_transfer t) = evidenceType t" "blockNumber (of_transfer t) = blockNumber t"
  "transactionHash (of_transfer t) = transactionHash t" "txHash (of_transfer t) = txHash t"
  "transactionIndex (of_transfer t) = transactionIndex t" "logIndex (of_transfer t) = logIndex t"
  "timestamp (of_transfer t) = timestamp t" "from_addr (of_transfer t) = from_addr t"
  "to_addr (of_transfer t) = to_addr t" "buyer (of_transfer t) = buyer t"
  "seller (of_transfer t) = seller t" "funder (of_transfer t) = funder t"
  "amountRaw (of_transfer t) = amountRaw t" "amountWei (of_transfer t) = amountWei t"
  "dependencyId (of_transfer t) = dependencyId t" "hops (of_transfer t) = None"
  by (simp_all add: of_transfer_def transfer.defs)

text \<open>\<open>numericOrNull\<close>: a whole number is kept when it is a safe integer.\<close>

definition numericOrNull :: "int option \<Rightarrow> int option" where
  "numericOrNull n = (case n of None \<Rightarrow> None | Some k \<Rightarrow> if isSafeInteger k then Some k else None)"

text \<open>An entry with every field absent; \<open>locator\<close> fills in the position of its source.\<close>

definition blank :: transfer where
  "blank = \<lparr>evidenceType = UNTYPED, blockNumber = None, transactionHash = None, txHash = None,
     transactionIndex = None, logIndex = None, timestamp = None, from_addr = None, to_addr = None,
     buyer = None, seller = None, funder = None, amountRaw = 0, amountWei = 0, otherMembers = [],
     dependencyId = None, receiptLogIndex = None, depositLogIndex = None\<rparr>"

definition locator :: "ev_type \<Rightarrow> transfer \<Rightarrow> transfer" where
  "locator ty source = blank
     \<lparr>evidenceType := ty, blockNumber := numericOrNull (blockNumber source),
      transactionHash := nullish (txHash source) (transactionHash source),
      transactionIndex := numericOrNull (transactionIndex source),
      logIndex := numericOrNull (logIndex source), timestamp := numericOrNull (timestamp source)\<rparr>"

section \<open>JSON text\<close>

definition json_opt :: "('a \<Rightarrow> json) \<Rightarrow> 'a option \<Rightarrow> json" where
  "json_opt f x = (case x of None \<Rightarrow> JNull | Some y \<Rightarrow> f y)"

definition member_opt :: "string \<Rightarrow> ('a \<Rightarrow> json) \<Rightarrow> 'a option \<Rightarrow> (string \<times> json) list" where
  "member_opt k f x = (case x of None \<Rightarrow> [] | Some y \<Rightarrow> [(k, f y)])"

text \<open>The members in the order in which \<open>locator\<close>, its callers and \<open>finalizeClaim\<close> add them.\<close>

definition tail_members :: "'a transfer_scheme \<Rightarrow> (string \<times> json) list" where
  "tail_members e = otherMembers e @ member_opt ''dependencyId'' JStr (dependencyId e)
     @ member_opt ''receiptLogIndex'' JNum (receiptLogIndex e)
     @ member_opt ''depositLogIndex'' JNum (depositLogIndex e)"

definition transfer_json :: "'a transfer_scheme \<Rightarrow> json" where
  "transfer_json e = JObj (
     (if evidenceType e = UNTYPED then [] else [(''evidenceType'', JStr (ev_type_name (evidenceType e)))])
     @ [(''blockNumber'', json_opt JNum (blockNumber e)),
      (''transactionHash'', json_opt JStr (transactionHash e)),
      (''transactionIndex'', json_opt JNum (transactionIndex e)),
      (''logIndex'', json_opt JNum (logIndex e)),
      (''timestamp'', json_opt JNum (timestamp e))]
     @ member_opt ''from'' JStr (from_addr e) @ member_opt ''to'' JStr (to_addr e)
     @ member_opt ''buyer'' JStr (buyer e) @ member_opt ''seller'' JStr (seller e)
     @ member_opt ''funder'' JStr (funder e)
     @ (if evidenceType e = NATIVE_FUNDING then [(''amountWei'', JStr (show_int (amountWei e)))]
        else [(''amountRaw'', JStr (show_int (amountRaw e)))])
     @ tail_members e)"

definition evidence_json :: "evidence \<Rightarrow> json" where
  "evidence_json e =
     (if evidenceType e = RELAY_PATH then JObj (
        [(''evidenceType'', JStr (ev_type_name RELAY_PATH))]
        @ member_opt ''seller'' JStr (seller e) @ member_opt ''funder'' JStr (funder e)
        @ member_opt ''sellerPayment'' transfer_json (sellerPayment e)
        @ member_opt ''relayForward'' transfer_json (relayForward e)
        @ member_opt ''funderReceipt'' transfer_json (funderReceipt e)
        @ member_opt ''hops'' (\<lambda>hs. JArr (map transfer_json hs)) (hops e)
        @ tail_members e)
      else transfer_json e)"

section \<open>Helpers of the planner\<close>

definition somes :: "'a option list \<Rightarrow> 'a list" where
  "somes xs = List.map_filter (\<lambda>x. x) xs"

text \<open>\<open>atomicEvidence\<close> of the planner, \<open>atomicReturnEvidence\<close> of the return selection.\<close>

definition atomicEvidence :: "evidence \<Rightarrow> evidence list" where
  "atomicEvidence value =
     (if evidenceType value = RELAY_PATH then
        map of_transfer
          (case hops value of Some hs \<Rightarrow> hs
           | None \<Rightarrow> somes [sellerPayment value, relayForward value, funderReceipt value])
      else [value])"

definition identity_text :: "evidence \<Rightarrow> string" where
  "identity_text e = (case dependencyId e of Some d \<Rightarrow> d | None \<Rightarrow> stringify (evidence_json e))"

definition canonicalEvidence :: "evidence list \<Rightarrow> string" where
  "canonicalEvidence entries = js_join '':'' (sort_strings (map identity_text entries))"

definition sumRaw :: "evidence list \<Rightarrow> int" where
  "sumRaw entries = foldl (\<lambda>total e. total + amountRaw e) 0 entries"

lemma sumRaw_sum_list: "sumRaw entries = sum_list (map amountRaw entries)"
proof -
  have "foldl (\<lambda>total e. total + amountRaw e) a es = a + sum_list (map amountRaw es)"
    for a and es :: "evidence list"
    by (induction es arbitrary: a) auto
  then show ?thesis by (simp add: sumRaw_def)
qed

lemma sumRaw_simps [simp]:
  "sumRaw [] = 0" "sumRaw (e # es) = amountRaw e + sumRaw es"
  "sumRaw (xs @ ys) = sumRaw xs + sumRaw ys" "sumRaw (js_sort cmp xs) = sumRaw xs"
  by (simp_all add: sumRaw_sum_list)

definition lower_opt :: "string option \<Rightarrow> string option" where
  "lower_opt s = map_option toLowerCase s"

text \<open>\<open>normalize\<close>: the lower-case text, or null for null.\<close>

definition normalize :: "string option \<Rightarrow> string option" where
  "normalize = lower_opt"

text \<open>\<open>dedupe\<close>: one entry per identity, the last one, at the first one's place.\<close>

definition dedupe :: "evidence list \<Rightarrow> evidence list" where
  "dedupe values = map snd (map_from (map (\<lambda>v. (identity_text v, v)) values))"

text \<open>
  \<open>compareEvidence\<close>: relay paths compare by identity, everything else by position in the
  chain and then by identity. (Two entries at one log without a \<open>dependencyId\<close> would make
  the source throw; here the missing id counts as the empty text.)
\<close>

definition or_else :: "int \<Rightarrow> int \<Rightarrow> int" where
  "or_else a b = (if a \<noteq> 0 then a else b)"

definition compareEvidence :: "evidence \<Rightarrow> evidence \<Rightarrow> int" where
  "compareEvidence l r =
     (if evidenceType l = RELAY_PATH \<or> evidenceType r = RELAY_PATH
      then localeCompare (canonicalEvidence [l]) (canonicalEvidence [r])
      else or_else (num0 (blockNumber l) - num0 (blockNumber r))
        (or_else (num0 (transactionIndex l) - num0 (transactionIndex r))
          (or_else (num0 (logIndex l) - num0 (logIndex r))
            (localeCompare (case dependencyId l of Some d \<Rightarrow> d | None \<Rightarrow> [])
                           (case dependencyId r of Some d \<Rightarrow> d | None \<Rightarrow> [])))))"

definition position_key :: "evidence \<Rightarrow> int \<times> int \<times> int \<times> (nat list \<times> nat list)" where
  "position_key e = (num0 (blockNumber e), num0 (transactionIndex e), num0 (logIndex e),
     collation_key (case dependencyId e of Some d \<Rightarrow> d | None \<Rightarrow> []))"

definition is_atomic :: "evidence \<Rightarrow> bool" where
  "is_atomic e \<longleftrightarrow> evidenceType e \<noteq> RELAY_PATH"

lemma compareEvidence_position:
  assumes "is_atomic l" "is_atomic r"
  shows "compareEvidence l r < 0 \<longleftrightarrow> position_key l < position_key r"
    and "compareEvidence l r = 0 \<longleftrightarrow> position_key l = position_key r"
  using assms
  by (auto simp: compareEvidence_def position_key_def is_atomic_def or_else_def localeCompare_def less_prod_def)

text \<open>On entries that are no relay paths the comparator is consistent.\<close>

interpretation ev: js_comparator compareEvidence is_atomic
  by (rule js_comparatorI_key [of _ _ position_key]) (auto simp: compareEvidence_position)

lemma compareEvidence_less_iff:
  "is_atomic l \<Longrightarrow> is_atomic r \<Longrightarrow> compareEvidence l r \<le> 0 \<longleftrightarrow> position_key l \<le> position_key r"
  using compareEvidence_position [of l r] by (simp add: le_less)

definition numberAscending :: "int \<Rightarrow> int \<Rightarrow> int" where
  "numberAscending left right = left - right"

interpretation num: js_comparator numberAscending "\<lambda>_. True"
  by (rule js_comparatorI_key [of _ _ "\<lambda>x. x"]) (auto simp: numberAscending_def)

end
