(* ===== verification/Path_Ledger.thy ===== *)
theory Path_Ledger
  imports Js_Array
begin

text \<open>
  The contract of a selection of return paths, shared by the greedy selection and by the
  discovery over cached traces: a path has keys (its transfers) and a positive credit; a
  ledger is a list of valid paths, no key of which is reserved or used by another path, with
  the sum of their credits and the set of used keys.
\<close>

definition ledger ::
  "('p \<Rightarrow> 'k list) \<Rightarrow> ('p \<Rightarrow> int) \<Rightarrow> ('p \<Rightarrow> bool) \<Rightarrow> 'k list \<Rightarrow> 'p list \<Rightarrow> int \<Rightarrow> 'k list \<Rightarrow> bool" where
  "ledger keys credit valid reserved paths sm used \<longleftrightarrow>
     (\<forall>p\<in>set paths. valid p)
   \<and> sorted_wrt (\<lambda>p q. set (keys p) \<inter> set (keys q) = {}) paths
   \<and> (\<forall>p\<in>set paths. set (keys p) \<inter> set reserved = {})
   \<and> sm = sum_list (map credit paths)
   \<and> set used = set reserved \<union> set (concat (map keys paths))"

lemma ledger_reserved:
  "ledger keys credit valid reserved paths sm used \<Longrightarrow> set (concat (map keys paths)) \<inter> set reserved = {}"
  by (auto simp: ledger_def)

locale path_ledger =
  fixes keys :: "'p \<Rightarrow> 'k list" and credit :: "'p \<Rightarrow> int" and valid :: "'p \<Rightarrow> bool"
  assumes keys_nonempty: "valid p \<Longrightarrow> keys p \<noteq> []"
    and credit_positive: "valid p \<Longrightarrow> 0 < credit p"
begin

lemma ledger_start: "ledger keys credit valid reserved [] 0 (js_set reserved)"
  by (simp add: ledger_def)

lemma ledger_add:
  assumes "ledger keys credit valid reserved paths sm used" "valid p"
    "set (keys p) \<inter> set used = {}"
  shows "ledger keys credit valid reserved (paths @ [p]) (sm + credit p) (foldl set_add used (keys p))"
  using assms by (auto simp: ledger_def sorted_wrt_append)

lemma disjoint_distinct:
  "sorted_wrt (\<lambda>p q. set (keys p) \<inter> set (keys q) = {}) paths \<Longrightarrow> \<forall>p\<in>set paths. valid p \<Longrightarrow> distinct paths"
proof (induction paths)
  case Nil
  then show ?case by simp
next
  case (Cons p ps)
  have "p \<notin> set ps"
  proof
    assume "p \<in> set ps"
    with Cons.prems have "set (keys p) = {}" by auto
    with keys_nonempty [of p] Cons.prems show False by auto
  qed
  with Cons show ?case by auto
qed

lemma ledger_distinct: "ledger keys credit valid reserved paths sm used \<Longrightarrow> distinct paths"
  using disjoint_distinct by (auto simp: ledger_def)

lemma credits_positive: "\<forall>p\<in>set paths. valid p \<Longrightarrow> paths \<noteq> [] \<Longrightarrow> 0 < sum_list (map credit paths)"
proof (induction paths)
  case (Cons p ps)
  then show ?case using credit_positive [of p] by (cases "ps = []") auto
qed simp

lemma ledger_total_positive:
  "ledger keys credit valid reserved paths sm used \<Longrightarrow> paths \<noteq> [] \<Longrightarrow> 0 < sm"
  using credits_positive by (auto simp: ledger_def)

end

text \<open>Paths that use each of their keys once.\<close>

locale strict_path_ledger = path_ledger +
  assumes keys_distinct: "valid p \<Longrightarrow> distinct (keys p)"
begin

lemma disjoint_keys_distinct:
  "sorted_wrt (\<lambda>p q. set (keys p) \<inter> set (keys q) = {}) paths \<Longrightarrow> \<forall>p\<in>set paths. valid p \<Longrightarrow>
   distinct (concat (map keys paths))"
  by (induction paths) (auto simp: keys_distinct)

lemma ledger_keys_distinct:
  "ledger keys credit valid reserved paths sm used \<Longrightarrow> distinct (concat (map keys paths))"
  using disjoint_keys_distinct by (auto simp: ledger_def)

end

end
