(* ===== verification/Return_Selection.thy ===== *)
theory Return_Selection
  imports Evidence Path_Ledger
begin

text \<open>
  \<open>scripts/return-path-selection.mjs\<close>, first half: the credit of a return path, the
  return a volume requires, the validity of a return path and the greedy selection of
  key-disjoint paths (\<open>selectReturnEvidence\<close>). A path is evidence of type
  \<open>RELAY_PATH\<close> with its hops, or a single direct transfer.
\<close>

section \<open>Credits and requirements\<close>

definition BASIS_POINTS :: int where "BASIS_POINTS = 10000"

definition atomicReturnEvidence :: "evidence \<Rightarrow> evidence list" where
  "atomicReturnEvidence ev =
     (if evidenceType ev \<noteq> RELAY_PATH then [ev]
      else map of_transfer
        (case hops ev of Some hs \<Rightarrow> hs
         | None \<Rightarrow> somes [sellerPayment ev, relayForward ev, funderReceipt ev]))"

text \<open>\<open>reduce\<close> without an initial value throws on an empty array.\<close>

definition minRaw :: "int \<Rightarrow> int \<Rightarrow> int" where
  "minRaw left right = (if left < right then left else right)"

definition returnPathCreditRaw :: "evidence \<Rightarrow> int res" where
  "returnPathCreditRaw ev =
     (case map amountRaw (atomicReturnEvidence ev) of
        [] \<Rightarrow> Inl TypeError
      | a # as \<Rightarrow> Inr (foldl (\<lambda>minimum amount. if amount < minimum then amount else minimum) a as))"

text \<open>The credit where the code has established that the path has a hop.\<close>

definition pathCredit :: "evidence \<Rightarrow> int" where
  "pathCredit ev = (case returnPathCreditRaw ev of Inr c \<Rightarrow> c | Inl _ \<Rightarrow> 0)"

definition requiredReturnRaw :: "int \<Rightarrow> int \<Rightarrow> int res" where
  "requiredReturnRaw settlementVolumeRaw targetBps =
     (if settlementVolumeRaw < 0 \<or> targetBps \<le> 0 \<or> targetBps > BASIS_POINTS
      then Inl (Error ''invalid return volume or target basis points'')
      else (let numerator = settlementVolumeRaw * targetBps
            in Inr ((numerator + BASIS_POINTS - 1) div BASIS_POINTS)))"

section \<open>Comparing and identifying transfers\<close>

text \<open>\<open>normalizeAddress(value)\<close> is \<open>String(value).toLowerCase()\<close>.\<close>

definition normalizeAddress :: "string option \<Rightarrow> string" where
  "normalizeAddress a = toLowerCase (js_String a)"

definition transferKey :: "'a transfer_scheme \<Rightarrow> string" where
  "transferKey entry =
     toLowerCase (js_String (nullish (nullish (txHash entry) (transactionHash entry)) (dependencyId entry)))
       @ '':'' @ show_int (num0 (logIndex entry))"

text \<open>\<open>Number.isSafeInteger\<close> of a value that may be null.\<close>

definition safe :: "int option \<Rightarrow> bool" where
  "safe n = (case n of None \<Rightarrow> False | Some k \<Rightarrow> isSafeInteger k)"

definition compareTransfer :: "'a transfer_scheme \<Rightarrow> 'b transfer_scheme \<Rightarrow> int" where
  "compareTransfer left right =
     (if safe (blockNumber left) \<and> safe (blockNumber right) \<and> blockNumber left \<noteq> blockNumber right
      then num0 (blockNumber left) - num0 (blockNumber right)
      else if num0 (timestamp left) \<noteq> num0 (timestamp right)
      then num0 (timestamp left) - num0 (timestamp right)
      else if safe (transactionIndex left) \<and> safe (transactionIndex right)
        \<and> transactionIndex left \<noteq> transactionIndex right
      then num0 (transactionIndex left) - num0 (transactionIndex right)
      else or_else
        (localeCompare (js_String (nullish (txHash left) (transactionHash left)))
                       (js_String (nullish (txHash right) (transactionHash right))))
        (num0 (logIndex left) - num0 (logIndex right)))"

definition retains :: "int \<Rightarrow> int \<Rightarrow> bool" where
  "retains nxt previous \<longleftrightarrow> nxt * BASIS_POINTS \<ge> previous * RHO_HOP_BPS"

definition compareBigIntDescending :: "int \<Rightarrow> int \<Rightarrow> int" where
  "compareBigIntDescending left right = (if left = right then 0 else if left > right then -1 else 1)"

section \<open>Valid return paths\<close>

text \<open>The loop over the hops, with the hop before the current one.\<close>

fun valid_hops :: "evidence option \<Rightarrow> evidence list \<Rightarrow> bool" where
  "valid_hops prev [] = True"
| "valid_hops prev (current # rest) =
     (if amountRaw current \<le> 0 then False
      else if from_addr current \<noteq> None \<and> to_addr current \<noteq> None
        \<and> normalizeAddress (from_addr current) = normalizeAddress (to_addr current) then False
      else (case prev of
          None \<Rightarrow> valid_hops (Some current) rest
        | Some previous \<Rightarrow>
            (if normalizeAddress (to_addr previous) \<noteq> normalizeAddress (from_addr current) then False
             else if compareTransfer previous current \<ge> 0 then False
             else if \<not> retains (amountRaw current) (amountRaw previous) then False
             else valid_hops (Some current) rest)))"

definition validReturnEvidence :: "evidence \<Rightarrow> int option \<Rightarrow> bool" where
  "validReturnEvidence ev earliestSettlementTimestamp =
     (let atoms = atomicReturnEvidence ev in
      if atoms = [] \<or> length atoms > 9 then False
      else if length (js_set (map transferKey atoms)) \<noteq> length atoms then False
      else if (case (earliestSettlementTimestamp, timestamp (hd atoms)) of
                 (Some earliest, Some t) \<Rightarrow> t \<le> earliest | _ \<Rightarrow> False) then False
      else if \<not> valid_hops None atoms then False
      else if length atoms = 1 then True
      else num0 (timestamp (last atoms)) - num0 (timestamp (hd atoms)) \<le> T_PATH_SECONDS)"

definition path_keys :: "evidence \<Rightarrow> string list" where
  "path_keys ev = map transferKey (atomicReturnEvidence ev)"

definition returnEvidenceIdentity :: "evidence \<Rightarrow> string" where
  "returnEvidenceIdentity ev = js_join ''>'' (map transferKey (atomicReturnEvidence ev))"

definition compareReturnEvidence :: "evidence \<Rightarrow> evidence \<Rightarrow> int" where
  "compareReturnEvidence left right =
     or_else (compareBigIntDescending (pathCredit left) (pathCredit right))
       (localeCompare (returnEvidenceIdentity left) (returnEvidenceIdentity right))"

section \<open>Selecting return paths\<close>

record return_state =
  selectedPaths :: "evidence list"
  returnedSum :: int
  usedSet :: "string list"

record return_selection =
  selectedReturns :: "evidence list"
  returnedRaw :: int
  requiredRaw :: int
  complete :: bool
  usedKeys :: "string list"

text \<open>The body of the loop: a candidate that shares a transfer is skipped, another one is taken.\<close>

definition blocked :: "evidence \<Rightarrow> return_state \<Rightarrow> bool" where
  "blocked candidate st \<longleftrightarrow> (\<exists>key\<in>set (path_keys candidate). key \<in> set (usedSet st))"

definition take_path :: "evidence \<Rightarrow> return_state \<Rightarrow> return_state" where
  "take_path candidate st =
     \<lparr>selectedPaths = selectedPaths st @ [candidate],
      returnedSum = returnedSum st + pathCredit candidate,
      usedSet = foldl set_add (usedSet st) (path_keys candidate)\<rparr>"

fun select_loop :: "int \<Rightarrow> int \<Rightarrow> evidence list \<Rightarrow> return_state \<Rightarrow> return_state" where
  "select_loop maxPaths required [] st = st"
| "select_loop maxPaths required (candidate # rest) st =
     (if int (length (selectedPaths st)) \<ge> maxPaths \<or> returnedSum st \<ge> required then st
      else if blocked candidate st then select_loop maxPaths required rest st
      else select_loop maxPaths required rest (take_path candidate st))"

definition selectReturnEvidence ::
  "evidence list \<Rightarrow> int option \<Rightarrow> int option \<Rightarrow> int \<Rightarrow> string list \<Rightarrow> return_selection" where
  "selectReturnEvidence candidates requiredArg earliestSettlementTimestamp maxPaths reservedKeys =
     (let required = num0 requiredArg;
          valid = js_sort compareReturnEvidence
            (filter (\<lambda>candidate. validReturnEvidence candidate earliestSettlementTimestamp) candidates);
          st = select_loop maxPaths required valid
            \<lparr>selectedPaths = [], returnedSum = 0, usedSet = js_set reservedKeys\<rparr>
      in \<lparr>selectedReturns = selectedPaths st, returnedRaw = returnedSum st, requiredRaw = required,
          complete = (returnedSum st \<ge> required), usedKeys = usedSet st\<rparr>)"

section \<open>Credits\<close>

lemma atomicReturnEvidence_eq: "atomicReturnEvidence ev = atomicEvidence ev"
  by (simp add: atomicReturnEvidence_def atomicEvidence_def)

lemma foldl_minimum:
  "foldl (\<lambda>m (x::int). if x < m then x else m) a as = Min (insert a (set as))"
proof (induction as arbitrary: a)
  case Nil
  then show ?case by simp
next
  case (Cons x xs)
  have "(if x < a then x else a) = min a x" by (simp add: min_def)
  then show ?case using Cons.IH [of "min a x"]
    by (cases "xs = []") (auto simp: min.assoc min.commute min.left_commute)
qed

text \<open>The credit of a path is its smallest hop.\<close>

lemma pathCredit_Min:
  "atomicReturnEvidence ev \<noteq> [] \<Longrightarrow>
   returnPathCreditRaw ev = Inr (pathCredit ev)
   \<and> pathCredit ev = Min (amountRaw ` set (atomicReturnEvidence ev))"
  by (cases "atomicReturnEvidence ev") (simp_all add: returnPathCreditRaw_def pathCredit_def foldl_minimum)

lemma pathCredit_le: "e \<in> set (atomicReturnEvidence ev) \<Longrightarrow> pathCredit ev \<le> amountRaw e"
  using pathCredit_Min [of ev] by (metis Min_le empty_iff finite_imageI finite_set imageI list.set(1))

lemma requiredReturnRaw_value:
  "requiredReturnRaw v t = Inr r \<Longrightarrow> r = (v * t + BASIS_POINTS - 1) div BASIS_POINTS"
  unfolding requiredReturnRaw_def Let_def by (split if_split_asm) (blast, blast)

lemma requiredReturnRaw_galois:
  assumes "requiredReturnRaw v t = Inr r"
  shows "r \<le> c \<longleftrightarrow> v * t \<le> c * BASIS_POINTS"
  unfolding requiredReturnRaw_value [OF assms] BASIS_POINTS_def by (rule ceiling_div_galois)

section \<open>Valid paths\<close>

lemma valid_hops_amounts: "valid_hops prev atoms \<Longrightarrow> e \<in> set atoms \<Longrightarrow> 0 < amountRaw e"
  by (induction prev atoms rule: valid_hops.induct) (auto split: if_splits option.splits)

lemma validReturnEvidence_atoms:
  assumes "validReturnEvidence ev t"
  shows "atomicReturnEvidence ev \<noteq> []" "length (atomicReturnEvidence ev) \<le> 9"
    "distinct (path_keys ev)" "valid_hops None (atomicReturnEvidence ev)"
proof -
  have "length (js_set (path_keys ev)) = length (path_keys ev)"
    using assms by (simp add: validReturnEvidence_def path_keys_def Let_def split: if_splits)
  then show "distinct (path_keys ev)" by (simp add: js_set_size_iff)
qed (use assms in \<open>simp_all add: validReturnEvidence_def Let_def split: if_splits\<close>)

lemma validReturnEvidence_credit:
  assumes "validReturnEvidence ev t"
  shows "0 < pathCredit ev"
proof -
  note atoms = validReturnEvidence_atoms [OF assms]
  then have "pathCredit ev \<in> amountRaw ` set (atomicReturnEvidence ev)"
    using pathCredit_Min [of ev] by (metis Min_in finite_imageI finite_set image_is_empty set_empty)
  then show ?thesis using valid_hops_amounts [OF atoms(4)] by auto
qed

interpretation ret: strict_path_ledger path_keys pathCredit "\<lambda>ev. validReturnEvidence ev t" for t
  by unfold_locales
    (auto simp: path_keys_def dest: validReturnEvidence_atoms(1,3) validReturnEvidence_credit)

section \<open>The order of the candidates\<close>

definition return_key :: "evidence \<Rightarrow> int \<times> (nat list \<times> nat list)" where
  "return_key ev = (- pathCredit ev, collation_key (returnEvidenceIdentity ev))"

interpretation rev_ev: js_comparator compareReturnEvidence "\<lambda>_. True"
  by (rule js_comparatorI_key [of _ _ return_key])
    (auto simp: compareReturnEvidence_def return_key_def or_else_def compareBigIntDescending_def
      localeCompare_def less_prod_def)

lemma compareReturnEvidence_eq_0:
  "compareReturnEvidence l r = 0 \<longleftrightarrow>
   pathCredit l = pathCredit r \<and> returnEvidenceIdentity l = returnEvidenceIdentity r"
  by (auto simp: compareReturnEvidence_def or_else_def compareBigIntDescending_def)

lemma compareReturnEvidence_credit: "compareReturnEvidence l r \<le> 0 \<Longrightarrow> pathCredit r \<le> pathCredit l"
  by (auto simp: compareReturnEvidence_def or_else_def compareBigIntDescending_def split: if_splits)

section \<open>The selection loop\<close>

definition select_inv :: "int \<Rightarrow> int option \<Rightarrow> string list \<Rightarrow> return_state \<Rightarrow> bool" where
  "select_inv maxPaths t reserved st \<longleftrightarrow>
     ledger path_keys pathCredit (\<lambda>ev. validReturnEvidence ev t) reserved
       (selectedPaths st) (returnedSum st) (usedSet st)
   \<and> int (length (selectedPaths st)) \<le> max 0 maxPaths"

lemma take_path_simps [simp]:
  "selectedPaths (take_path c st) = selectedPaths st @ [c]"
  "returnedSum (take_path c st) = returnedSum st + pathCredit c"
  "set (usedSet (take_path c st)) = set (usedSet st) \<union> set (path_keys c)"
  by (simp_all add: take_path_def)

lemma take_path_inv:
  assumes "select_inv maxPaths t reserved st" "validReturnEvidence c t" "\<not> blocked c st"
    "\<not> int (length (selectedPaths st)) \<ge> maxPaths"
  shows "select_inv maxPaths t reserved (take_path c st)"
  using assms by (auto simp: select_inv_def blocked_def take_path_def intro!: ret.ledger_add)

lemma select_loop_inv:
  "select_inv maxPaths t reserved st \<Longrightarrow> \<forall>c\<in>set cs. validReturnEvidence c t \<Longrightarrow>
   select_inv maxPaths t reserved (select_loop maxPaths required cs st)"
  by (induction cs arbitrary: st) (auto intro: take_path_inv)

lemma select_loop_subset:
  "set (selectedPaths (select_loop maxPaths required cs st)) \<subseteq> set (selectedPaths st) \<union> set cs"
proof (induction cs arbitrary: st)
  case (Cons c cs)
  show ?case using Cons.IH [of st] Cons.IH [of "take_path c st"] by auto
qed simp

lemma select_loop_used_mono:
  "set (usedSet st) \<subseteq> set (usedSet (select_loop maxPaths required cs st))"
proof (induction cs arbitrary: st)
  case (Cons c cs)
  show ?case using Cons.IH [of st] Cons.IH [of "take_path c st"] by auto
qed simp

text \<open>A loop that ends early has left no candidate it could still have taken.\<close>

lemma select_loop_maximal:
  "returnedSum (select_loop maxPaths required cs st) < required \<Longrightarrow>
   int (length (selectedPaths (select_loop maxPaths required cs st))) < maxPaths \<Longrightarrow>
   c \<in> set cs \<Longrightarrow> path_keys c \<noteq> [] \<Longrightarrow>
   set (path_keys c) \<inter> set (usedSet (select_loop maxPaths required cs st)) \<noteq> {}"
proof (induction cs arbitrary: st)
  case Nil
  then show ?case by simp
next
  case (Cons d cs)
  define st' where "st' = (if blocked d st then st else take_path d st)"
  have eq: "select_loop maxPaths required (d # cs) st = select_loop maxPaths required cs st'"
    using Cons.prems(1,2) by (auto simp: st'_def)
  show ?case
  proof (cases "c = d")
    case True
    then have "set (path_keys c) \<inter> set (usedSet st') \<noteq> {}"
      using Cons.prems(4) by (auto simp: st'_def blocked_def)
    then show ?thesis using select_loop_used_mono [of st' maxPaths required cs] unfolding eq by blast
  next
    case False
    then show ?thesis using Cons.IH [of st'] Cons.prems unfolding eq by simp
  qed
qed

text \<open>The last path taken was needed.\<close>

definition last_needed :: "int \<Rightarrow> return_state \<Rightarrow> bool" where
  "last_needed required st \<longleftrightarrow>
     (selectedPaths st = [] \<or> returnedSum st - pathCredit (last (selectedPaths st)) < required)"

lemma select_loop_needed:
  "last_needed required st \<Longrightarrow> last_needed required (select_loop maxPaths required cs st)"
proof (induction cs arbitrary: st)
  case (Cons c cs)
  show ?case using Cons.IH [of st] Cons.IH [of "take_path c st"] Cons.prems
    by (auto simp: last_needed_def)
qed simp

lemma selectReturnEvidence_state:
  fixes cands t reserved maxPaths req
  defines "cs \<equiv> js_sort compareReturnEvidence (filter (\<lambda>c. validReturnEvidence c t) cands)"
  defines "st \<equiv> select_loop maxPaths (num0 req) cs
             \<lparr>selectedPaths = [], returnedSum = 0, usedSet = js_set reserved\<rparr>"
  shows "selectReturnEvidence cands req t maxPaths reserved =
     \<lparr>selectedReturns = selectedPaths st, returnedRaw = returnedSum st, requiredRaw = num0 req,
      complete = (returnedSum st \<ge> num0 req), usedKeys = usedSet st\<rparr>"
    and "select_inv maxPaths t reserved st"
    and "set (selectedPaths st) \<subseteq> {c \<in> set cands. validReturnEvidence c t}"
proof -
  show "selectReturnEvidence cands req t maxPaths reserved =
     \<lparr>selectedReturns = selectedPaths st, returnedRaw = returnedSum st, requiredRaw = num0 req,
      complete = (returnedSum st \<ge> num0 req), usedKeys = usedSet st\<rparr>"
    by (simp add: selectReturnEvidence_def st_def cs_def Let_def)
  show "select_inv maxPaths t reserved st"
    unfolding st_def cs_def
    by (rule select_loop_inv) (simp_all add: select_inv_def ret.ledger_start)
  show "set (selectedPaths st) \<subseteq> {c \<in> set cands. validReturnEvidence c t}"
    unfolding st_def by (rule subset_trans [OF select_loop_subset]) (auto simp: cs_def)
qed

section \<open>Properties\<close>

text \<open>C1: The selection of return paths is safe for any candidates: it takes only candidates that
  are valid return paths, no transfer is used by two of them or is one of the reserved ones, at
  most \<open>maxPaths\<close> are taken, the returned amount is the sum of their credits, it is
  reported complete exactly when that sum reaches the required amount, and the returned set of
  used transfers is the reserved ones and those of the selected paths.\<close>

theorem select_returns_sound:
  "let r = selectReturnEvidence cands req t maxPaths reserved in
     set (selectedReturns r) \<subseteq> {p \<in> set cands. validReturnEvidence p t}
   \<and> distinct (concat (map path_keys (selectedReturns r)))
   \<and> set (concat (map path_keys (selectedReturns r))) \<inter> set reserved = {}
   \<and> int (length (selectedReturns r)) \<le> max 0 maxPaths
   \<and> returnedRaw r = sum_list (map pathCredit (selectedReturns r))
   \<and> (complete r \<longleftrightarrow> num0 req \<le> returnedRaw r)
   \<and> set (usedKeys r) = set reserved \<union> set (concat (map path_keys (selectedReturns r)))"
proof -
  define st where "st = select_loop maxPaths (num0 req)
     (js_sort compareReturnEvidence (filter (\<lambda>c. validReturnEvidence c t) cands))
     \<lparr>selectedPaths = [], returnedSum = 0, usedSet = js_set reserved\<rparr>"
  note facts = selectReturnEvidence_state [where cands = cands and t = t and maxPaths = maxPaths
      and reserved = reserved and req = req, folded st_def]
  from facts(2) have l: "ledger path_keys pathCredit (\<lambda>ev. validReturnEvidence ev t) reserved
      (selectedPaths st) (returnedSum st) (usedSet st)"
    and n: "int (length (selectedPaths st)) \<le> max 0 maxPaths"
    by (simp_all add: select_inv_def)
  show ?thesis unfolding facts(1) Let_def return_selection.simps
    using facts(3) n ret.ledger_keys_distinct [OF l] ledger_reserved [OF l] l
    by (intro conjI) (simp_all add: ledger_def)
qed

text \<open>The selection takes no path it does not need: without the last selected path the returned
  amount is below the required one.\<close>

theorem select_returns_needed:
  assumes "selectedReturns (selectReturnEvidence cands req t maxPaths reserved) \<noteq> []"
  shows "returnedRaw (selectReturnEvidence cands req t maxPaths reserved)
     - pathCredit (last (selectedReturns (selectReturnEvidence cands req t maxPaths reserved))) < num0 req"
  using assms select_loop_needed [of "num0 req" "\<lparr>selectedPaths = [], returnedSum = 0, usedSet = js_set reserved\<rparr>"]
  unfolding selectReturnEvidence_state(1) by (auto simp: last_needed_def)

text \<open>C2: An incomplete selection that still has room has exhausted the candidates: every valid
  candidate is selected or shares a transfer with the selected or reserved ones.\<close>

theorem select_returns_maximal:
  assumes "\<not> complete (selectReturnEvidence cands req t maxPaths reserved)"
    and "int (length (selectedReturns (selectReturnEvidence cands req t maxPaths reserved))) < maxPaths"
    and "c \<in> set cands" and "validReturnEvidence c t"
  shows "set (path_keys c) \<inter> set (usedKeys (selectReturnEvidence cands req t maxPaths reserved)) \<noteq> {}"
  using assms(1,2) unfolding selectReturnEvidence_state(1) return_selection.simps
  by (rule_tac select_loop_maximal) (use assms(3,4) ret.keys_nonempty [OF assms(4)] in simp_all)

text \<open>C3: The selection does not depend on the order of the candidates, provided that no two valid
  candidates consist of the same transfers with the same credit.\<close>

theorem select_returns_order_independent:
  assumes "mset cands = mset cands'"
    and "\<And>p q. p \<in> set cands \<Longrightarrow> q \<in> set cands \<Longrightarrow> validReturnEvidence p t \<Longrightarrow> validReturnEvidence q t \<Longrightarrow>
       returnEvidenceIdentity p = returnEvidenceIdentity q \<Longrightarrow> pathCredit p = pathCredit q \<Longrightarrow> p = q"
  shows "selectReturnEvidence cands req t maxPaths reserved = selectReturnEvidence cands' req t maxPaths reserved"
proof -
  have "js_sort compareReturnEvidence (filter (\<lambda>c. validReturnEvidence c t) cands)
      = js_sort compareReturnEvidence (filter (\<lambda>c. validReturnEvidence c t) cands')"
    by (rule rev_ev.js_sort_permute) (use assms in \<open>auto simp: compareReturnEvidence_eq_0 mset_filter\<close>)
  then show ?thesis by (simp add: selectReturnEvidence_def)
qed

text \<open>C4: \<open>requiredReturnRaw\<close> rounds up: the required amount is reached by a return exactly
  when that return covers the target share of the volume, so it is the least such amount.\<close>

theorem required_return_is_least:
  assumes "requiredReturnRaw volume target = Inr required"
  shows "required \<le> returned \<longleftrightarrow> volume * target \<le> returned * BASIS_POINTS"
  using assms by (rule requiredReturnRaw_galois)

section \<open>Witnesses\<close>

text \<open>Two direct transfers from a seller to a funder.\<close>

definition ex_return :: "string \<Rightarrow> int \<Rightarrow> int \<Rightarrow> evidence" where
  "ex_return h tm amt = of_transfer (blank\<lparr>evidenceType := DIRECT_SELLER_FUNDER, txHash := Some h,
     logIndex := Some 0, timestamp := Some tm, from_addr := Some ''s'', to_addr := Some ''f'',
     amountRaw := amt\<rparr>)"

definition ex_cands :: "evidence list" where
  "ex_cands = [ex_return ''0xa'' 5 10, ex_return ''0xb'' 6 20]"

lemma ex_credit: "pathCredit (ex_return ''0xa'' 5 10) = 10" "pathCredit (ex_return ''0xb'' 6 20) = 20"
  by code_simp+

theorem select_returns_needed_witness:
  "returnedRaw (selectReturnEvidence ex_cands (Some 25) (Some 1) 512 [])
     - pathCredit (last (selectedReturns (selectReturnEvidence ex_cands (Some 25) (Some 1) 512 []))) < num0 (Some 25)"
proof -
  have "selectedReturns (selectReturnEvidence ex_cands (Some 25) (Some 1) 512 []) \<noteq> []" by code_simp
  then show ?thesis by (rule select_returns_needed)
qed

theorem select_returns_maximal_witness:
  "set (path_keys (ex_return ''0xa'' 5 10))
     \<inter> set (usedKeys (selectReturnEvidence ex_cands (Some 40) (Some 1) 512 [])) \<noteq> {}"
proof (rule select_returns_maximal)
  show "\<not> complete (selectReturnEvidence ex_cands (Some 40) (Some 1) 512 [])" by code_simp
  show "int (length (selectedReturns (selectReturnEvidence ex_cands (Some 40) (Some 1) 512 []))) < 512"
    by code_simp
  show "ex_return ''0xa'' 5 10 \<in> set ex_cands" by (simp add: ex_cands_def)
  show "validReturnEvidence (ex_return ''0xa'' 5 10) (Some 1)" by code_simp
qed

theorem select_returns_order_independent_witness:
  "selectReturnEvidence ex_cands (Some 25) (Some 1) 512 []
     = selectReturnEvidence (rev ex_cands) (Some 25) (Some 1) 512 []"
proof (rule select_returns_order_independent)
  show "mset ex_cands = mset (rev ex_cands)" by simp
  show "p = q" if "p \<in> set ex_cands" "q \<in> set ex_cands" "pathCredit p = pathCredit q" for p q
    using that ex_credit by (auto simp: ex_cands_def)
qed

theorem required_return_is_least_witness:
  "requiredReturnRaw 1001 3000 = Inr 301 \<and> ((301::int) \<le> 300 \<longleftrightarrow> 1001 * 3000 \<le> 300 * BASIS_POINTS)"
proof -
  have r: "requiredReturnRaw 1001 3000 = Inr 301" by code_simp
  show ?thesis using r required_return_is_least [OF r, of 300] by blast
qed

end
