(* ===== verification/Discovery.thy ===== *)
theory Discovery
  imports Return_Selection
begin

text \<open>
  \<open>scripts/return-path-selection.mjs\<close>, second half: \<open>discoverCachedRelayReturns\<close>
  looks in cached traces for returns seller \<open>\<rightarrow>\<close> relay \<open>\<rightarrow>\<close> funder and
  seller \<open>\<rightarrow>\<close> relay \<open>\<rightarrow>\<close> intermediary \<open>\<rightarrow>\<close> funder. The cache is the
  parameter \<open>loadTrace\<close>; it is asked once per relay, in order (the interleaving of
  \<open>mapConcurrent\<close> does not show in its result, see the theory of concurrent mapping).
\<close>

record trace =
  trace_complete :: bool
  inboundUsdc :: "transfer list"
  outboundUsdc :: "transfer list"

definition normalizeTransfer :: "transfer \<Rightarrow> transfer" where
  "normalizeTransfer entry = entry
     \<lparr>from_addr := Some (normalizeAddress (from_addr entry)), to_addr := Some (normalizeAddress (to_addr entry)),
      timestamp := Some (num0 (timestamp entry)), txHash := nullish (txHash entry) (transactionHash entry),
      logIndex := Some (num0 (logIndex entry))\<rparr>"

text \<open>\<open>serializeTransfer\<close>: the six members that are kept.\<close>

definition serializeTransfer :: "transfer \<Rightarrow> transfer" where
  "serializeTransfer entry = blank
     \<lparr>from_addr := from_addr entry, to_addr := to_addr entry, amountRaw := amountRaw entry,
      timestamp := timestamp entry, txHash := txHash entry, logIndex := logIndex entry\<rparr>"

abbreviation time_of :: "transfer \<Rightarrow> int" where
  "time_of t \<equiv> num0 (timestamp t)"

record prefix =
  firstHop :: transfer
  secondHop :: transfer
  prefix_relay :: string
  prefixCreditRaw :: int

section \<open>Prefixes\<close>

definition first_hops :: "string \<Rightarrow> string \<Rightarrow> int \<Rightarrow> transfer list \<Rightarrow> transfer list" where
  "first_hops normalizedSeller normalizedFunder earliest outbound =
     filter (\<lambda>entry. from_addr entry = Some normalizedSeller \<and> to_addr entry \<noteq> Some normalizedSeller
        \<and> to_addr entry \<noteq> Some normalizedFunder \<and> amountRaw entry > 0 \<and> time_of entry > earliest)
       (map normalizeTransfer outbound)"

text \<open>The inner loop over the sorted transfers out of the relay: two \<open>continue\<close>s and a \<open>break\<close>.\<close>

fun scan_seconds :: "string \<Rightarrow> transfer \<Rightarrow> transfer list \<Rightarrow> prefix list" where
  "scan_seconds relay first [] = []"
| "scan_seconds relay first (second # rest) =
     (if time_of second \<le> time_of first then scan_seconds relay first rest
      else if \<not> retains (amountRaw second) (amountRaw first) then scan_seconds relay first rest
      else if time_of second - time_of first > T_PATH_SECONDS then []
      else \<lparr>firstHop = first, secondHop = second, prefix_relay = relay,
             prefixCreditRaw = minRaw (amountRaw first) (amountRaw second)\<rparr> # scan_seconds relay first rest)"

definition relay_prefixes :: "(string option \<times> transfer list) list \<Rightarrow> string \<times> trace option \<Rightarrow> prefix list" where
  "relay_prefixes byRelay rt =
     (case rt of (relay, None) \<Rightarrow> []
      | (relay, Some tr) \<Rightarrow>
          (if \<not> trace_complete tr then []
           else (let outbound = js_sort compareTransfer
                   (filter (\<lambda>entry. from_addr entry = Some relay \<and> amountRaw entry > 0)
                     (map normalizeTransfer (outboundUsdc tr)))
                 in concat (map (\<lambda>first. scan_seconds relay first outbound)
                      (case map_of byRelay (Some relay) of None \<Rightarrow> [] | Some fs \<Rightarrow> fs)))))"

definition comparePrefix :: "prefix \<Rightarrow> prefix \<Rightarrow> int" where
  "comparePrefix left right =
     or_else (compareBigIntDescending (prefixCreditRaw left) (prefixCreditRaw right))
       (or_else (compareTransfer (firstHop left) (firstHop right))
         (compareTransfer (secondHop left) (secondHop right)))"

section \<open>Finishing a path\<close>

text \<open>The loop of \<open>bestAvailableFinish\<close> with its variables \<open>best\<close> and \<open>bestCredit\<close>.\<close>

fun best_finish :: "prefix \<Rightarrow> string list \<Rightarrow> transfer list \<Rightarrow> transfer option \<Rightarrow> int \<Rightarrow> transfer option" where
  "best_finish pre used [] best bestCredit = best"
| "best_finish pre used (entry # rest) best bestCredit =
     (if time_of entry \<le> time_of (secondHop pre) then best_finish pre used rest best bestCredit
      else if time_of entry - time_of (firstHop pre) > T_PATH_SECONDS then best
      else if transferKey entry \<in> set used \<or> \<not> retains (amountRaw entry) (amountRaw (secondHop pre))
      then best_finish pre used rest best bestCredit
      else (let credit = minRaw (prefixCreditRaw pre) (amountRaw entry) in
        if credit > bestCredit
            \<or> credit = bestCredit \<and> (case best of None \<Rightarrow> False | Some b \<Rightarrow> compareTransfer entry b < 0)
        then best_finish pre used rest (Some entry) credit
        else best_finish pre used rest best bestCredit))"

definition bestAvailableFinish :: "transfer list \<Rightarrow> prefix \<Rightarrow> string list \<Rightarrow> transfer option" where
  "bestAvailableFinish entries pre used = best_finish pre used entries None 0"

section \<open>The loop over the prefixes\<close>

record discovery_state =
  discoveredPaths :: "evidence list"
  discoveredRaw :: int
  discoveredKeys :: "string list"

text \<open>The path object pushed for the hops found.\<close>

definition relay_return :: "string \<Rightarrow> string \<Rightarrow> string \<Rightarrow> string option \<Rightarrow> transfer list \<Rightarrow> evidence" where
  "relay_return normalizedSeller normalizedFunder relay intermediary hs =
     (of_transfer (blank\<lparr>evidenceType := RELAY_PATH, seller := Some normalizedSeller,
        funder := Some normalizedFunder,
        otherMembers := [(''relay'', JStr relay), (''intermediary'', json_opt JStr intermediary)]\<rparr>))
     \<lparr>hops := Some (map serializeTransfer hs)\<rparr>"

text \<open>The hops of a prefix and their credit, or nothing when no finish is available.\<close>

definition complete_prefix ::
  "string \<Rightarrow> (string option \<times> transfer list) list \<Rightarrow> prefix \<Rightarrow> string list \<Rightarrow> (transfer list \<times> int) option" where
  "complete_prefix normalizedFunder inbound pre used =
     (if to_addr (secondHop pre) = Some normalizedFunder
      then Some ([firstHop pre, secondHop pre], prefixCreditRaw pre)
      else (case bestAvailableFinish
               (case map_of inbound (to_addr (secondHop pre)) of None \<Rightarrow> [] | Some es \<Rightarrow> es) pre used of
          None \<Rightarrow> None
        | Some finish \<Rightarrow> Some ([firstHop pre, secondHop pre, finish],
            minRaw (prefixCreditRaw pre) (amountRaw finish))))"

definition add_prefix ::
  "string \<Rightarrow> string \<Rightarrow> (string option \<times> transfer list) list \<Rightarrow> prefix \<Rightarrow> discovery_state \<Rightarrow> discovery_state" where
  "add_prefix normalizedSeller normalizedFunder inbound pre st =
     (let used = discoveredKeys st in
      if transferKey (firstHop pre) \<in> set used \<or> transferKey (secondHop pre) \<in> set used then st
      else (case complete_prefix normalizedFunder inbound pre used of
          None \<Rightarrow> st
        | Some (hs, creditRaw) \<Rightarrow>
            (let keys = map transferKey hs in
             if \<exists>key\<in>set keys. key \<in> set used then st
             else \<lparr>discoveredPaths = discoveredPaths st @ [relay_return normalizedSeller normalizedFunder
                      (prefix_relay pre) (if length hs = 3 then to_addr (secondHop pre) else None) hs],
                    discoveredRaw = discoveredRaw st + creditRaw,
                    discoveredKeys = foldl set_add used keys\<rparr>)))"

fun discover_loop ::
  "int \<Rightarrow> int \<Rightarrow> (prefix \<Rightarrow> discovery_state \<Rightarrow> discovery_state) \<Rightarrow> prefix list \<Rightarrow> discovery_state \<Rightarrow> discovery_state" where
  "discover_loop maxPaths required step [] st = st"
| "discover_loop maxPaths required step (pre # rest) st =
     (if int (length (discoveredPaths st)) \<ge> maxPaths \<or> discoveredRaw st \<ge> required then st
      else discover_loop maxPaths required step rest (step pre st))"

text \<open>The transfers into the funder, grouped by sender, each group sorted.\<close>

definition funder_inbound :: "string \<Rightarrow> transfer list \<Rightarrow> (string option \<times> transfer list) list" where
  "funder_inbound normalizedFunder inbound =
     map (\<lambda>(sender, es). (sender, js_sort compareTransfer es))
       (groupBy from_addr
         (filter (\<lambda>entry. to_addr entry = Some normalizedFunder \<and> amountRaw entry > 0)
           (map normalizeTransfer inbound)))"

text \<open>
  \<open>discoverCachedRelayReturns\<close>; the two traces are empty lists of transfers where the source
  has no trace. The result is the record of \<open>selectReturnEvidence\<close>, with the paths found.
\<close>

definition discoverCachedRelayReturns ::
  "string \<Rightarrow> string \<Rightarrow> transfer list \<Rightarrow> transfer list \<Rightarrow> (string \<Rightarrow> trace option res) \<Rightarrow> int \<Rightarrow> int option
   \<Rightarrow> int \<Rightarrow> string list \<Rightarrow> return_selection res" where
  "discoverCachedRelayReturns sellerAddress funderAddress sellerOutbound funderInbound loadTrace earliest requiredArg maxPaths reservedKeys =
     (let normalizedSeller = normalizeAddress (Some sellerAddress);
          normalizedFunder = normalizeAddress (Some funderAddress);
          byRelay = groupBy to_addr (first_hops normalizedSeller normalizedFunder earliest sellerOutbound);
          relayAddresses = sort_strings (map (js_String \<circ> fst) byRelay)
      in case res_map loadTrace relayAddresses of
           Inl e \<Rightarrow> Inl e
         | Inr traces \<Rightarrow>
             (let relayTraces = zip relayAddresses traces;
                  prefixes = js_sort comparePrefix (concat (map (relay_prefixes byRelay) relayTraces));
                  required = num0 requiredArg;
                  st = discover_loop maxPaths required
                    (add_prefix normalizedSeller normalizedFunder (funder_inbound normalizedFunder funderInbound))
                    prefixes \<lparr>discoveredPaths = [], discoveredRaw = 0, discoveredKeys = js_set reservedKeys\<rparr>
              in Inr \<lparr>selectedReturns = discoveredPaths st, returnedRaw = discoveredRaw st,
                   requiredRaw = required, complete = (discoveredRaw st \<ge> required),
                   usedKeys = discoveredKeys st\<rparr>))"


section \<open>What a discovered path is\<close>

text \<open>
  Two or three positive transfers, each from where the one before ended, later than it and
  keeping the retained share of it, from the seller to the funder, after the earliest
  settlement and within the time window.
\<close>

definition hop_step :: "transfer \<Rightarrow> transfer \<Rightarrow> bool" where
  "hop_step p c \<longleftrightarrow> to_addr p = from_addr c \<and> time_of p < time_of c \<and> retains (amountRaw c) (amountRaw p)"

definition return_hops :: "string \<Rightarrow> string \<Rightarrow> int \<Rightarrow> transfer list \<Rightarrow> bool" where
  "return_hops s f earliest hs \<longleftrightarrow>
     (length hs = 2 \<or> length hs = 3)
   \<and> from_addr (hd hs) = Some s \<and> to_addr (last hs) = Some f \<and> earliest < time_of (hd hs)
   \<and> time_of (last hs) - time_of (hd hs) \<le> T_PATH_SECONDS
   \<and> (\<forall>h\<in>set hs. 0 < amountRaw h)
   \<and> successively hop_step hs"

definition relay_path :: "string \<Rightarrow> string \<Rightarrow> int \<Rightarrow> evidence \<Rightarrow> bool" where
  "relay_path s f earliest ev \<longleftrightarrow> evidenceType ev = RELAY_PATH
     \<and> (case hops ev of None \<Rightarrow> False
        | Some hs \<Rightarrow> return_hops s f earliest hs
            \<and> (\<forall>h\<in>set hs. blockNumber h = None \<and> timestamp h \<noteq> None \<and> from_addr h \<noteq> None \<and> to_addr h \<noteq> None))"

text \<open>A hop that moves funds from an address to itself.\<close>

definition self_hop :: "evidence \<Rightarrow> bool" where
  "self_hop h \<longleftrightarrow> normalizeAddress (from_addr h) = normalizeAddress (to_addr h)"

lemma atoms_relay:
  "evidenceType ev = RELAY_PATH \<Longrightarrow> hops ev = Some hs \<Longrightarrow> atomicReturnEvidence ev = map of_transfer hs"
  by (simp add: atomicReturnEvidence_def)

lemma relay_path_hops:
  assumes "relay_path s f e ev"
  obtains hs where "hops ev = Some hs" "atomicReturnEvidence ev = map of_transfer hs"
    "return_hops s f e hs" "\<forall>h\<in>set hs. blockNumber h = None" "\<forall>h\<in>set hs. timestamp h \<noteq> None"
    "\<forall>h\<in>set hs. from_addr h \<noteq> None \<and> to_addr h \<noteq> None"
  using assms by (cases "hops ev") (auto simp: relay_path_def atoms_relay)

lemma time_of_transfer [simp]: "num0 (timestamp (of_transfer t)) = time_of t"
  by simp

lemma compareTransfer_times:
  assumes "blockNumber p = None" "num0 (timestamp p) < num0 (timestamp c)"
  shows "compareTransfer p c < 0"
  using assms by (simp add: compareTransfer_def safe_def)

text \<open>The loop of \<open>validReturnEvidence\<close> finds nothing but self transfers to object to.\<close>

lemma valid_hops_chain:
  assumes "successively hop_step (p # hs)" "\<forall>h\<in>set (p # hs). 0 < amountRaw h \<and> blockNumber h = None"
    "\<forall>h\<in>set (p # hs). from_addr h \<noteq> None \<and> to_addr h \<noteq> None"
  shows "valid_hops (Some (of_transfer p)) (map of_transfer hs) \<longleftrightarrow> (\<forall>h\<in>set hs. \<not> self_hop (of_transfer h))"
  using assms
proof (induction hs arbitrary: p)
  case Nil
  then show ?case by simp
next
  case (Cons c hs)
  from Cons.prems have step: "to_addr p = from_addr c" "time_of p < time_of c" "retains (amountRaw c) (amountRaw p)"
    by (simp_all add: hop_step_def)
  have "compareTransfer (of_transfer p) (of_transfer c) < 0"
    by (rule compareTransfer_times) (use Cons.prems step in simp_all)
  then have "\<not> compareTransfer (of_transfer p) (of_transfer c) \<ge> 0" by simp
  moreover have "valid_hops (Some (of_transfer c)) (map of_transfer hs) \<longleftrightarrow> (\<forall>h\<in>set hs. \<not> self_hop (of_transfer h))"
    by (rule Cons.IH) (use Cons.prems in simp_all)
  ultimately show ?case using Cons.prems step by (auto simp: self_hop_def)
qed

text \<open>A discovered path is a valid return path, unless it repeats a transfer or has a self transfer.\<close>

lemma relay_path_valid_iff:
  assumes "relay_path s f e ev"
  shows "validReturnEvidence ev (Some e) \<longleftrightarrow>
     distinct (path_keys ev) \<and> (\<forall>h\<in>set (atomicReturnEvidence ev). \<not> self_hop h)"
proof -
  obtain hs where atoms: "atomicReturnEvidence ev = map of_transfer hs" and r: "return_hops s f e hs"
    and bn: "\<forall>h\<in>set hs. blockNumber h = None" and ts: "\<forall>h\<in>set hs. timestamp h \<noteq> None"
    and ad: "\<forall>h\<in>set hs. from_addr h \<noteq> None \<and> to_addr h \<noteq> None"
    using relay_path_hops [OF assms] .
  obtain p rest where hs: "hs = p # rest" and rest: "rest \<noteq> []" and len: "length hs \<le> 9"
    using r by (auto simp: return_hops_def neq_Nil_conv length_Suc_conv numeral_2_eq_2 numeral_3_eq_3)
  have late: "\<not> (case timestamp p of None \<Rightarrow> False | Some t \<Rightarrow> t \<le> e)"
    using r hs by (auto simp: return_hops_def split: option.split)
  have window: "time_of (last hs) - time_of (hd hs) \<le> T_PATH_SECONDS" using r by (simp add: return_hops_def)
  have "valid_hops None (map of_transfer hs) \<longleftrightarrow>
      \<not> self_hop (of_transfer p) \<and> valid_hops (Some (of_transfer p)) (map of_transfer rest)"
    using r hs ad by (auto simp: return_hops_def self_hop_def)
  also have "\<dots> \<longleftrightarrow> (\<forall>h\<in>set (map of_transfer hs). \<not> self_hop h)"
    using valid_hops_chain [of p rest] r hs bn ad by (simp add: return_hops_def)
  finally have valid: "valid_hops None (map of_transfer hs) \<longleftrightarrow> (\<forall>h\<in>set (map of_transfer hs). \<not> self_hop h)" .
  define atoms' where "atoms' = map of_transfer hs"
  have v: "valid_hops None atoms' \<longleftrightarrow> (\<forall>h\<in>set atoms'. \<not> self_hop h)"
    unfolding atoms'_def by (rule valid)
  have keys: "length (js_set (map transferKey atoms')) \<noteq> length atoms' \<longleftrightarrow> \<not> distinct (map transferKey atoms')"
    using js_set_size_iff [of "map transferKey atoms'"] by simp
  have shape: "atoms' \<noteq> []" "\<not> length atoms' > 9" "length atoms' \<noteq> 1"
    using hs rest len by (simp_all add: atoms'_def)
  have w: "num0 (timestamp (last atoms')) - num0 (timestamp (hd atoms')) \<le> T_PATH_SECONDS"
    using window hs rest by (simp add: atoms'_def last_map)
  have l: "\<not> (case timestamp (hd atoms') of None \<Rightarrow> False | Some t \<Rightarrow> t \<le> e)"
    using late hs by (simp add: atoms'_def)
  show ?thesis
    unfolding validReturnEvidence_def Let_def path_keys_def atoms atoms'_def [symmetric] keys v
    using shape l w by (cases "timestamp (hd atoms')") simp_all
qed


interpretation disc: path_ledger path_keys pathCredit "relay_path s f earliest" for s f earliest
proof
  fix ev assume ev: "relay_path s f earliest ev"
  obtain hs where atoms: "atomicReturnEvidence ev = map of_transfer hs" and r: "return_hops s f earliest hs"
    using relay_path_hops [OF ev] .
  have ne: "atomicReturnEvidence ev \<noteq> []" using atoms r by (auto simp: return_hops_def)
  then show "path_keys ev \<noteq> []" by (simp add: path_keys_def)
  have "pathCredit ev \<in> amountRaw ` set (atomicReturnEvidence ev)"
    using pathCredit_Min [OF ne] ne by (metis Min_in finite_imageI finite_set image_is_empty set_empty)
  then show "0 < pathCredit ev" using atoms r by (auto simp: return_hops_def)
qed

section \<open>What the loops keep\<close>

text \<open>A transfer as the scan sees it: normalised, with a transaction hash.\<close>

definition seen :: "transfer \<Rightarrow> bool" where
  "seen t \<longleftrightarrow> txHash t \<noteq> None \<and> timestamp t \<noteq> None \<and> from_addr t \<noteq> None \<and> to_addr t \<noteq> None
     \<and> logIndex t \<noteq> None \<and> 0 < amountRaw t"

definition hashed :: "transfer \<Rightarrow> bool" where
  "hashed t \<longleftrightarrow> txHash t \<noteq> None \<or> transactionHash t \<noteq> None"

definition good_prefix :: "string \<Rightarrow> int \<Rightarrow> prefix \<Rightarrow> bool" where
  "good_prefix s earliest pre \<longleftrightarrow> seen (firstHop pre) \<and> seen (secondHop pre)
     \<and> from_addr (firstHop pre) = Some s \<and> earliest < time_of (firstHop pre)
     \<and> hop_step (firstHop pre) (secondHop pre)
     \<and> time_of (secondHop pre) - time_of (firstHop pre) \<le> T_PATH_SECONDS
     \<and> prefixCreditRaw pre = minRaw (amountRaw (firstHop pre)) (amountRaw (secondHop pre))"

definition good_inbound :: "string \<Rightarrow> (string option \<times> transfer list) list \<Rightarrow> bool" where
  "good_inbound f inbound \<longleftrightarrow>
     (\<forall>(sender, es)\<in>set inbound. \<forall>t\<in>set es. seen t \<and> from_addr t = sender \<and> to_addr t = Some f)"

lemma seen_normalizeTransfer: "hashed t \<Longrightarrow> 0 < amountRaw t \<Longrightarrow> seen (normalizeTransfer t)"
  by (auto simp: seen_def hashed_def normalizeTransfer_def nullish_def split: option.splits)

lemma normalizeTransfer_amount [simp]: "amountRaw (normalizeTransfer t) = amountRaw t"
  by (simp add: normalizeTransfer_def)

lemma serializeTransfer_simps [simp]:
  "from_addr (serializeTransfer t) = from_addr t" "to_addr (serializeTransfer t) = to_addr t"
  "amountRaw (serializeTransfer t) = amountRaw t" "timestamp (serializeTransfer t) = timestamp t"
  "txHash (serializeTransfer t) = txHash t" "logIndex (serializeTransfer t) = logIndex t"
  "blockNumber (serializeTransfer t) = None"
  by (simp_all add: serializeTransfer_def blank_def)

lemma transferKey_serialize: "txHash t \<noteq> None \<Longrightarrow> transferKey (of_transfer (serializeTransfer t)) = transferKey t"
  by (auto simp: transferKey_def nullish_def)

lemma relay_return_simps [simp]:
  "evidenceType (relay_return s f r i hs) = RELAY_PATH"
  "hops (relay_return s f r i hs) = Some (map serializeTransfer hs)"
  by (simp_all add: relay_return_def of_transfer_def transfer.defs)

lemma path_keys_relay_return:
  "\<forall>h\<in>set hs. txHash h \<noteq> None \<Longrightarrow> path_keys (relay_return s f r i hs) = map transferKey hs"
  by (simp add: path_keys_def atoms_relay [of _ "map serializeTransfer hs"] transferKey_serialize)

lemma successively_serialize:
  "successively hop_step (map serializeTransfer hs) = successively hop_step hs"
  by (induction hs rule: induct_list012) (auto simp: hop_step_def)

lemma relay_path_relay_return:
  assumes "return_hops s f e hs" "\<forall>h\<in>set hs. seen h"
  shows "relay_path s f e (relay_return s f r i hs)"
proof -
  have "hs \<noteq> []" using assms by (auto simp: return_hops_def)
  with assms show ?thesis
    by (simp add: relay_path_def return_hops_def successively_serialize hd_map last_map seen_def)
qed

lemma minRaw_min: "minRaw a b = min a b"
  by (simp add: minRaw_def min_def)

lemma pathCredit_relay_return:
  "hs \<noteq> [] \<Longrightarrow> pathCredit (relay_return s f r i hs) = Min (amountRaw ` set hs)"
  using pathCredit_Min [of "relay_return s f r i hs"]
  by (simp add: atoms_relay [of _ "map serializeTransfer hs"] image_image)

text \<open>The first hops and the prefixes.\<close>

lemma first_hops_good:
  "t \<in> set (first_hops s f e ts) \<Longrightarrow> \<forall>t\<in>set ts. hashed t \<Longrightarrow>
   seen t \<and> from_addr t = Some s \<and> e < time_of t"
  by (auto simp: first_hops_def intro: seen_normalizeTransfer)

lemma scan_seconds_good:
  assumes "pre \<in> set (scan_seconds relay first ts)"
    and "\<forall>t\<in>set ts. seen t \<and> from_addr t = Some relay"
    and "seen first" "from_addr first = Some s" "e < time_of first" "to_addr first = Some relay"
  shows "good_prefix s e pre"
  using assms
  by (induction ts) (auto simp: good_prefix_def hop_step_def split: if_splits)

lemma relay_prefixes_good:
  assumes "pre \<in> set (relay_prefixes (groupBy to_addr (first_hops s f e ts)) (relay, tr))"
    and "\<forall>t\<in>set ts. hashed t" and "\<And>tr'. tr = Some tr' \<Longrightarrow> \<forall>t\<in>set (outboundUsdc tr'). hashed t"
  shows "good_prefix s e pre"
proof -
  obtain tr' fs first where tr: "tr = Some tr'"
    and group: "map_of (groupBy to_addr (first_hops s f e ts)) (Some relay) = Some fs"
    and first: "first \<in> set fs"
    and scan: "pre \<in> set (scan_seconds relay first (js_sort compareTransfer
         (filter (\<lambda>entry. from_addr entry = Some relay \<and> amountRaw entry > 0)
           (map normalizeTransfer (outboundUsdc tr')))))"
    using assms(1) by (auto simp: relay_prefixes_def Let_def split: option.splits if_splits)
  have "fs = filter (\<lambda>x. to_addr x = Some relay) (first_hops s f e ts)"
    using groupBy_group [OF map_of_SomeD [OF group]] by simp
  then have f: "seen first" "from_addr first = Some s" "e < time_of first" "to_addr first = Some relay"
    using first first_hops_good [of first s f e ts] assms(2) by auto
  show ?thesis
    by (rule scan_seconds_good [OF scan _ f]) (use assms(3) [OF tr] in \<open>auto intro: seen_normalizeTransfer\<close>)
qed

lemma funder_inbound_good: "\<forall>t\<in>set ts. hashed t \<Longrightarrow> good_inbound f (funder_inbound f ts)"
  by (auto simp: good_inbound_def funder_inbound_def seen_normalizeTransfer dest!: groupBy_group)

text \<open>The finish found is usable.\<close>

definition usable_finish :: "prefix \<Rightarrow> string list \<Rightarrow> transfer \<Rightarrow> bool" where
  "usable_finish pre used t \<longleftrightarrow> time_of (secondHop pre) < time_of t
     \<and> time_of t - time_of (firstHop pre) \<le> T_PATH_SECONDS
     \<and> transferKey t \<notin> set used \<and> retains (amountRaw t) (amountRaw (secondHop pre))"

lemma best_finish_step:
  "best_finish pre used (a # es) best c =
     (if usable_finish pre used a then
        (let credit = minRaw (prefixCreditRaw pre) (amountRaw a) in
          if credit > c \<or> credit = c \<and> (case best of None \<Rightarrow> False | Some b \<Rightarrow> compareTransfer a b < 0)
          then best_finish pre used es (Some a) credit else best_finish pre used es best c)
      else if time_of (secondHop pre) < time_of a \<and> T_PATH_SECONDS < time_of a - time_of (firstHop pre)
      then best else best_finish pre used es best c)"
  by (auto simp: usable_finish_def)

lemma best_finish_usable:
  "best_finish pre used es best c = Some t \<Longrightarrow> best = Some t \<or> t \<in> set es \<and> usable_finish pre used t"
proof (induction es arbitrary: best c)
  case (Cons a es)
  show ?case
  proof (cases "usable_finish pre used a")
    case True
    then show ?thesis using Cons.prems Cons.IH
      unfolding best_finish_step by (fastforce simp: Let_def split: if_splits)
  next
    case False
    then show ?thesis using Cons.prems Cons.IH unfolding best_finish_step by (auto split: if_splits)
  qed
qed simp

text \<open>
  On entries in the order of time, the \<open>break\<close> loses nothing: the finish found gives the
  largest credit a usable entry can give.
\<close>

definition finish_credit :: "prefix \<Rightarrow> transfer option \<Rightarrow> int" where
  "finish_credit pre best = (case best of None \<Rightarrow> 0 | Some t \<Rightarrow> minRaw (prefixCreditRaw pre) (amountRaw t))"

lemma best_finish_optimal:
  "sorted_wrt (\<lambda>a b. time_of a \<le> time_of b) es \<Longrightarrow> c = finish_credit pre best \<Longrightarrow>
   c \<le> finish_credit pre (best_finish pre used es best c)
   \<and> (\<forall>t\<in>set es. usable_finish pre used t \<longrightarrow>
        finish_credit pre (Some t) \<le> finish_credit pre (best_finish pre used es best c))"
proof (induction es arbitrary: best c)
  case (Cons a es)
  from Cons.prems(1) have sorted: "sorted_wrt (\<lambda>a b. time_of a \<le> time_of b) es"
    and le: "\<forall>b\<in>set es. time_of a \<le> time_of b" by simp_all
  show ?case
  proof (cases "usable_finish pre used a")
    case True
    define c' where "c' = minRaw (prefixCreditRaw pre) (amountRaw a)"
    have "c' = finish_credit pre (Some a)" by (simp add: c'_def finish_credit_def)
    with True Cons.IH [OF sorted, of c' "Some a"] Cons.IH [OF sorted Cons.prems(2)] show ?thesis
      unfolding best_finish_step by (auto simp: c'_def [symmetric] Let_def)
  next
    case False
    show ?thesis
    proof (cases "time_of (secondHop pre) < time_of a \<and> T_PATH_SECONDS < time_of a - time_of (firstHop pre)")
      case True
      then have "\<not> usable_finish pre used t" if "t \<in> set es" for t
        using le that by (force simp: usable_finish_def)
      with True False Cons.prems(2) show ?thesis unfolding best_finish_step by auto
    next
      case late: False
      with False Cons.IH [OF sorted Cons.prems(2)] show ?thesis unfolding best_finish_step by auto
    qed
  qed
qed simp

lemma complete_prefix_good:
  assumes "complete_prefix f inbound pre used = Some (hs, c)" "good_prefix s e pre" "good_inbound f inbound"
  shows "return_hops s f e hs" "\<forall>h\<in>set hs. seen h" "c = Min (amountRaw ` set hs)"
proof -
  have pre: "hop_step (firstHop pre) (secondHop pre)" "from_addr (firstHop pre) = Some s"
    "e < time_of (firstHop pre)" "seen (firstHop pre)" "seen (secondHop pre)"
    "time_of (secondHop pre) - time_of (firstHop pre) \<le> T_PATH_SECONDS"
    "prefixCreditRaw pre = min (amountRaw (firstHop pre)) (amountRaw (secondHop pre))"
    using assms(2) by (simp_all add: good_prefix_def minRaw_min)
  have "return_hops s f e hs \<and> (\<forall>h\<in>set hs. seen h) \<and> c = Min (amountRaw ` set hs)"
  proof (cases "to_addr (secondHop pre) = Some f")
    case True
    with assms(1) have "hs = [firstHop pre, secondHop pre]" "c = prefixCreditRaw pre"
      by (simp_all add: complete_prefix_def)
    with True pre show ?thesis by (simp add: return_hops_def seen_def)
  next
    case False
    then obtain es t where es: "map_of inbound (to_addr (secondHop pre)) = Some es"
      and t: "bestAvailableFinish es pre used = Some t"
      and eqs: "hs = [firstHop pre, secondHop pre, t]" "c = minRaw (prefixCreditRaw pre) (amountRaw t)"
      using assms(1)
      by (auto simp: complete_prefix_def bestAvailableFinish_def split: option.splits)
    have use: "t \<in> set es" "usable_finish pre used t"
      using best_finish_usable [OF t [unfolded bestAvailableFinish_def]] by simp_all
    then have "seen t \<and> from_addr t = to_addr (secondHop pre) \<and> to_addr t = Some f"
      using assms(3) map_of_SomeD [OF es] by (auto simp: good_inbound_def)
    with pre use eqs show ?thesis
      by (simp add: return_hops_def seen_def hop_step_def usable_finish_def minRaw_min min.assoc)
  qed
  then show "return_hops s f e hs" "\<forall>h\<in>set hs. seen h" "c = Min (amountRaw ` set hs)" by simp_all
qed

definition discovery_inv :: "string \<Rightarrow> string \<Rightarrow> int \<Rightarrow> string list \<Rightarrow> discovery_state \<Rightarrow> bool" where
  "discovery_inv s f e reserved st \<longleftrightarrow>
     ledger path_keys pathCredit (relay_path s f e) reserved
       (discoveredPaths st) (discoveredRaw st) (discoveredKeys st)"

lemma add_prefix_inv:
  assumes inv: "discovery_inv s f e reserved st" and pre: "good_prefix s e pre" and inb: "good_inbound f inbound"
  shows "discovery_inv s f e reserved (add_prefix s f inbound pre st)"
proof (cases "add_prefix s f inbound pre st = st")
  case False
  then obtain hs c where cp: "complete_prefix f inbound pre (discoveredKeys st) = Some (hs, c)"
    and fresh: "\<not> (\<exists>key\<in>set (map transferKey hs). key \<in> set (discoveredKeys st))"
    by (auto simp: add_prefix_def Let_def split: if_splits option.splits)
  note good = complete_prefix_good [OF cp pre inb]
  define ev where "ev = relay_return s f (prefix_relay pre) (if length hs = 3 then to_addr (secondHop pre) else None) hs"
  have new: "add_prefix s f inbound pre st = \<lparr>discoveredPaths = discoveredPaths st @ [ev],
      discoveredRaw = discoveredRaw st + c, discoveredKeys = foldl set_add (discoveredKeys st) (map transferKey hs)\<rparr>"
    using cp fresh False by (auto simp: add_prefix_def Let_def ev_def split: if_splits)
  have hs: "hs \<noteq> []" using good(1) by (auto simp: return_hops_def)
  have keys: "path_keys ev = map transferKey hs"
    unfolding ev_def by (rule path_keys_relay_return) (use good(2) in \<open>simp add: seen_def\<close>)
  have credit: "pathCredit ev = c"
    unfolding ev_def good(3) by (rule pathCredit_relay_return [OF hs])
  have ok: "relay_path s f e ev"
    unfolding ev_def by (rule relay_path_relay_return [OF good(1,2)])
  show ?thesis
    using disc.ledger_add [OF inv [unfolded discovery_inv_def] ok] fresh
    by (auto simp: new discovery_inv_def keys credit)
qed (use inv in simp)

lemma add_prefix_length: "length (discoveredPaths (add_prefix s f inbound pre st)) \<le> Suc (length (discoveredPaths st))"
  by (auto simp: add_prefix_def Let_def split: option.split)

lemma discover_loop_inv:
  "discovery_inv s f e reserved st \<Longrightarrow> \<forall>pre\<in>set pres. good_prefix s e pre \<Longrightarrow> good_inbound f inbound \<Longrightarrow>
   int (length (discoveredPaths st)) \<le> max 0 maxPaths \<Longrightarrow>
   discovery_inv s f e reserved (discover_loop maxPaths required (add_prefix s f inbound) pres st)
   \<and> int (length (discoveredPaths (discover_loop maxPaths required (add_prefix s f inbound) pres st))) \<le> max 0 maxPaths"
proof (induction pres arbitrary: st)
  case (Cons pre pres)
  show ?case
  proof (cases "int (length (discoveredPaths st)) \<ge> maxPaths \<or> discoveredRaw st \<ge> required")
    case False
    have "int (length (discoveredPaths (add_prefix s f inbound pre st))) \<le> max 0 maxPaths"
      using add_prefix_length [of s f inbound pre st] False by linarith
    then show ?thesis
      using Cons.IH [of "add_prefix s f inbound pre st"] add_prefix_inv [OF Cons.prems(1) _ Cons.prems(3)] Cons.prems False
      by simp
  qed (use Cons.prems in simp)
qed simp

lemma discovery_ledger:
  assumes "discoverCachedRelayReturns sellerAddress funderAddress sellerOut funderIn loadTrace e req maxPaths reserved = Inr r"
    and "\<forall>t\<in>set sellerOut \<union> set funderIn. hashed t"
    and "\<And>relay tr. loadTrace relay = Inr (Some tr) \<Longrightarrow> \<forall>t\<in>set (outboundUsdc tr). hashed t"
  shows "ledger path_keys pathCredit (relay_path (toLowerCase sellerAddress) (toLowerCase funderAddress) e) reserved
       (selectedReturns r) (returnedRaw r) (usedKeys r)
   \<and> (complete r \<longleftrightarrow> num0 req \<le> returnedRaw r)
   \<and> int (length (selectedReturns r)) \<le> max 0 maxPaths"
proof -
  let ?s = "toLowerCase sellerAddress" and ?f = "toLowerCase funderAddress"
  define byRelay where "byRelay = groupBy to_addr (first_hops ?s ?f e sellerOut)"
  define relays where "relays = sort_strings (map (js_String \<circ> fst) byRelay)"
  obtain traces where traces: "res_map loadTrace relays = Inr traces"
    using assms(1)
    by (auto simp: discoverCachedRelayReturns_def Let_def normalizeAddress_def js_String_def relays_def byRelay_def split: sum.splits)
  define pres where "pres = js_sort comparePrefix (concat (map (relay_prefixes byRelay) (zip relays traces)))"
  define st where "st = discover_loop maxPaths (num0 req) (add_prefix ?s ?f (funder_inbound ?f funderIn)) pres
     \<lparr>discoveredPaths = [], discoveredRaw = 0, discoveredKeys = js_set reserved\<rparr>"
  have r: "r = \<lparr>selectedReturns = discoveredPaths st, returnedRaw = discoveredRaw st, requiredRaw = num0 req,
      complete = (discoveredRaw st \<ge> num0 req), usedKeys = discoveredKeys st\<rparr>"
    using assms(1) traces
    by (simp add: discoverCachedRelayReturns_def Let_def normalizeAddress_def js_String_def relays_def byRelay_def pres_def st_def)
  have good: "\<forall>pre\<in>set pres. good_prefix ?s e pre"
  proof
    fix pre assume "pre \<in> set pres"
    then obtain relay tr where mem: "(relay, tr) \<in> set (zip relays traces)" "pre \<in> set (relay_prefixes byRelay (relay, tr))"
      by (auto simp: pres_def)
    have "loadTrace relay = Inr tr"
      using mem(1) res_map_nth [OF traces] by (auto simp: set_zip)
    then show "good_prefix ?s e pre"
      using relay_prefixes_good [OF mem(2) [unfolded byRelay_def]] assms(2,3) by auto
  qed
  have "discovery_inv ?s ?f e reserved st \<and> int (length (discoveredPaths st)) \<le> max 0 maxPaths"
    unfolding st_def
    by (rule discover_loop_inv [OF _ good funder_inbound_good])
      (use assms(2) in \<open>simp_all add: discovery_inv_def disc.ledger_start\<close>)
  then show ?thesis unfolding r by (simp add: discovery_inv_def)
qed

section \<open>Properties\<close>

text \<open>C5: Everything the discovery returns is a return from the seller to the funder after the
  earliest settlement, within the time window and with every hop retaining the minimum share;
  no two returned paths share a transfer and none uses a reserved one; the returned amount is
  the sum of the paths' credits, complete exactly when it reaches the requirement; at most
  \<open>maxPaths\<close> paths are returned.\<close>

theorem discovery_sound:
  assumes "discoverCachedRelayReturns sellerAddress funderAddress sellerOut funderIn loadTrace e req maxPaths reserved = Inr r"
    and "\<forall>t\<in>set sellerOut \<union> set funderIn. hashed t"
    and "\<And>relay tr. loadTrace relay = Inr (Some tr) \<Longrightarrow> \<forall>t\<in>set (outboundUsdc tr). hashed t"
  shows "ledger path_keys pathCredit (relay_path (toLowerCase sellerAddress) (toLowerCase funderAddress) e) reserved
       (selectedReturns r) (returnedRaw r) (usedKeys r)
   \<and> (complete r \<longleftrightarrow> num0 req \<le> returnedRaw r)
   \<and> int (length (selectedReturns r)) \<le> max 0 maxPaths"
  by (rule discovery_ledger [OF assms])

text \<open>A discovered path is accepted by \<open>validReturnEvidence\<close>, where it is selected again,
  exactly when it repeats no transfer and no hop of it is a self transfer.\<close>

theorem discovered_path_accepted_iff:
  assumes "relay_path s f e ev"
  shows "validReturnEvidence ev (Some e) \<longleftrightarrow>
     distinct (path_keys ev) \<and> (\<forall>h\<in>set (atomicReturnEvidence ev). \<not> self_hop h)"
  using assms by (rule relay_path_valid_iff)


section \<open>Witnesses\<close>

text \<open>
  A seller pays a relay; the relay pays itself and then the funder. The only transfers are
  those of the path seller, relay, relay, funder.
\<close>

definition usdc :: "string \<Rightarrow> string \<Rightarrow> string \<Rightarrow> int \<Rightarrow> int \<Rightarrow> transfer" where
  "usdc h a b tm amt = blank\<lparr>txHash := Some h, logIndex := Some 0, timestamp := Some tm,
     from_addr := Some a, to_addr := Some b, amountRaw := amt\<rparr>"

definition ex_trace :: "string \<Rightarrow> trace option res" where
  "ex_trace relay = Inr (Some \<lparr>trace_complete = True, inboundUsdc = [],
     outboundUsdc = [usdc ''0x2'' ''r'' ''r'' 20 100, usdc ''0x3'' ''r'' ''f'' 30 100]\<rparr>)"

definition ex_sellerOut :: "transfer list" where "ex_sellerOut = [usdc ''0x1'' ''s'' ''r'' 10 100]"
definition ex_funderIn :: "transfer list" where "ex_funderIn = [usdc ''0x3'' ''r'' ''f'' 30 100]"

definition ex_discovery :: "return_selection res" where
  "ex_discovery = discoverCachedRelayReturns ''s'' ''f'' ex_sellerOut ex_funderIn ex_trace 5 (Some 100) 512 []"

text \<open>The same transfers contain a valid return, seller, relay, funder, over the third transfer.\<close>

definition ex_direct_path :: evidence where
  "ex_direct_path = relay_return ''s'' ''f'' ''r'' None
     [usdc ''0x1'' ''s'' ''r'' 10 100, usdc ''0x3'' ''r'' ''f'' 30 100]"

text \<open>The discovery does not skip a self transfer of the relay as second hop: it can report a
  complete return, by a path that \<open>selectReturnEvidence\<close> then refuses, in place of a valid
  return over the same transfers.\<close>

theorem discovery_accepts_self_transfer:
  "(case ex_discovery of Inl _ \<Rightarrow> False
    | Inr r \<Rightarrow> complete r \<and> returnedRaw r = 100
        \<and> selectedReturns (selectReturnEvidence (selectedReturns r) (Some 100) (Some 5) 512 []) = []
        \<and> complete (selectReturnEvidence [ex_direct_path] (Some 100) (Some 5) 512 []))"
  by code_simp

lemma ex_transfers_hashed:
  "\<forall>t\<in>set ex_sellerOut \<union> set ex_funderIn. hashed t"
  "ex_trace relay = Inr (Some tr) \<Longrightarrow> \<forall>t\<in>set (outboundUsdc tr). hashed t"
  by (auto simp: ex_sellerOut_def ex_funderIn_def ex_trace_def usdc_def hashed_def)

theorem discovery_sound_witness:
  "\<exists>r. ex_discovery = Inr r
     \<and> ledger path_keys pathCredit (relay_path (toLowerCase ''s'') (toLowerCase ''f'') 5) []
         (selectedReturns r) (returnedRaw r) (usedKeys r)
     \<and> (complete r \<longleftrightarrow> num0 (Some 100) \<le> returnedRaw r)
     \<and> int (length (selectedReturns r)) \<le> max 0 512"
proof -
  have "\<not> isl ex_discovery" by code_simp
  then obtain r where r: "ex_discovery = Inr r" by (metis sum.collapse(2))
  have "ledger path_keys pathCredit (relay_path (toLowerCase ''s'') (toLowerCase ''f'') 5) []
         (selectedReturns r) (returnedRaw r) (usedKeys r)
     \<and> (complete r \<longleftrightarrow> num0 (Some 100) \<le> returnedRaw r)
     \<and> int (length (selectedReturns r)) \<le> max 0 512"
    by (rule discovery_sound [OF r [unfolded ex_discovery_def] ex_transfers_hashed])
  with r show ?thesis by blast
qed

theorem discovered_path_accepted_iff_witness:
  "validReturnEvidence ex_direct_path (Some 5) \<longleftrightarrow>
     distinct (path_keys ex_direct_path) \<and> (\<forall>h\<in>set (atomicReturnEvidence ex_direct_path). \<not> self_hop h)"
proof (rule discovered_path_accepted_iff)
  show "relay_path ''s'' ''f'' 5 ex_direct_path" by code_simp
qed

end
