(* ===== verification/Merkle.thy ===== *)
theory Merkle
  imports Js_Array
begin

text \<open>
  The Merkle trees over hexadecimal SHA-256 hashes: \<open>merkleRoot\<close> of
  \<open>scripts/proof-bundle.mjs\<close>, \<open>merkleMembershipIndex\<close>, \<open>merkleMembership\<close> and
  \<open>legacyMerkleMembership\<close> of \<open>scripts/proof-planner.mjs\<close>. SHA-256 is the parameter
  \<open>sha256\<close>, from a string of bytes to the hexadecimal digest.
\<close>

section \<open>Hashes as text\<close>

definition hex_val :: "char \<Rightarrow> nat option" where
  "hex_val c = (let n = (of_char c :: nat) in
     if 48 \<le> n \<and> n \<le> 57 then Some (n - 48)
     else if 97 \<le> n \<and> n \<le> 102 then Some (n - 87)
     else if 65 \<le> n \<and> n \<le> 70 then Some (n - 55) else None)"

lemma hex_val_code [code]:
  "hex_val c = (let n = (of_char c :: int) in
     if 48 \<le> n \<and> n \<le> 57 then Some (nat (n - 48))
     else if 97 \<le> n \<and> n \<le> 102 then Some (nat (n - 87))
     else if 65 \<le> n \<and> n \<le> 70 then Some (nat (n - 55)) else None)"
  by (simp add: hex_val_def Let_def of_char_int nat_diff_distrib)

text \<open>\<open>Buffer.from(text, 'hex')\<close>: pairs of digits up to the first that is no hexadecimal pair.\<close>

fun hex_pairs :: "string \<Rightarrow> string" where
  "hex_pairs (a # b # rest) =
     (case (hex_val a, hex_val b) of
        (Some h, Some l) \<Rightarrow> char_of (16 * h + l) # hex_pairs rest | _ \<Rightarrow> [])"
| "hex_pairs _ = []"

definition hexBytes :: "string \<Rightarrow> string" where
  "hexBytes value = hex_pairs (drop 2 value)"

section \<open>Root\<close>

definition node_input :: "string \<Rightarrow> string \<Rightarrow> string" where
  "node_input l r = [CHR 0x01] @ hexBytes l @ hexBytes r"

definition node :: "(string \<Rightarrow> string) \<Rightarrow> string \<Rightarrow> string \<Rightarrow> string" where
  "node sha256 l r = ''0x'' @ sha256 (node_input l r)"

text \<open>The next level: a last hash without a partner is paired with itself.\<close>

fun next_level :: "(string \<Rightarrow> string) \<Rightarrow> string list \<Rightarrow> string list" where
  "next_level sha256 [] = []"
| "next_level sha256 [a] = [node sha256 a a]"
| "next_level sha256 (a # b # rest) = node sha256 a b # next_level sha256 rest"

lemma length_next_level [simp]: "length (next_level H xs) = (length xs + 1) div 2"
  by (induction H xs rule: next_level.induct) auto

function root_loop :: "(string \<Rightarrow> string) \<Rightarrow> string list \<Rightarrow> string" where
  "root_loop sha256 level = (if length level > 1 then root_loop sha256 (next_level sha256 level) else hd level)"
  by pat_completeness auto
termination by (relation "measure (\<lambda>(_, level). length level)") auto

declare root_loop.simps [simp del]

definition merkleRoot :: "(string \<Rightarrow> string) \<Rightarrow> string list \<Rightarrow> string" where
  "merkleRoot sha256 hashes =
     (if hashes = [] then ''0x'' @ sha256 [CHR 0x00] else root_loop sha256 (sort_strings hashes))"

section \<open>Membership\<close>

record membership_step =
  sibling :: string
  sibling_on_left :: bool

function merkle_levels :: "(string \<Rightarrow> string) \<Rightarrow> string list \<Rightarrow> string list list" where
  "merkle_levels sha256 level =
     (if length level > 1 then level # merkle_levels sha256 (next_level sha256 level) else [level])"
  by pat_completeness auto
termination by (relation "measure (\<lambda>(_, level). length level)") auto

declare merkle_levels.simps [simp del]

definition membership_step_at :: "nat \<Rightarrow> string list \<Rightarrow> membership_step" where
  "membership_step_at index level =
     (let siblingIndex = (if index mod 2 = 0 then min (index + 1) (length level - 1) else index - 1)
      in \<lparr>sibling = level ! siblingIndex, sibling_on_left = (siblingIndex < index)\<rparr>)"

fun membership_steps :: "nat \<Rightarrow> string list list \<Rightarrow> membership_step list" where
  "membership_steps index [] = []"
| "membership_steps index (level # levels) = membership_step_at index level # membership_steps (index div 2) levels"

text \<open>The positions of the leaves: for a repeated hash, the last one.\<close>

definition leaf_positions :: "string list \<Rightarrow> (string \<times> nat) list" where
  "leaf_positions leaves = map_from (zip leaves [0..<length leaves])"

text \<open>\<open>merkleMembershipIndex(hashes).get(targetHash)\<close>.\<close>

definition merkleMembershipIndex :: "(string \<Rightarrow> string) \<Rightarrow> string list \<Rightarrow> string \<Rightarrow> membership_step list res" where
  "merkleMembershipIndex sha256 hashes targetHash =
     (let levels = merkle_levels sha256 (sort_strings hashes) in
      case map_of (leaf_positions (hd levels)) targetHash of
        None \<Rightarrow> Inl (Error (''Merkle target '' @ targetHash @ '' not found''))
      | Some index \<Rightarrow> Inr (membership_steps index (butlast levels)))"

definition merkleMembership :: "(string \<Rightarrow> string) \<Rightarrow> string list \<Rightarrow> string \<Rightarrow> membership_step list res" where
  "merkleMembership sha256 hashes targetHash = merkleMembershipIndex sha256 hashes targetHash"

text \<open>The version that walks up the tree for one target, building each level as it goes.\<close>

function legacy_loop :: "(string \<Rightarrow> string) \<Rightarrow> string list \<Rightarrow> nat \<Rightarrow> membership_step list" where
  "legacy_loop sha256 level index =
     (if length level > 1
      then membership_step_at index level # legacy_loop sha256 (next_level sha256 level) (index div 2)
      else [])"
  by pat_completeness auto
termination by (relation "measure (\<lambda>(_, level, _). length level)") auto

declare legacy_loop.simps [simp del]

definition legacyMerkleMembership :: "(string \<Rightarrow> string) \<Rightarrow> string list \<Rightarrow> string \<Rightarrow> membership_step list res" where
  "legacyMerkleMembership sha256 hashes targetHash =
     (case index_from 0 targetHash (sort_strings hashes) of
        None \<Rightarrow> Inl (Error (''Merkle target '' @ targetHash @ '' not found''))
      | Some index \<Rightarrow> Inr (legacy_loop sha256 (sort_strings hashes) index))"

section \<open>Checking a membership\<close>

text \<open>What the verifier of a membership does: hash the steps onto the leaf, from the bottom up.\<close>

fun fold_steps :: "(string \<Rightarrow> string) \<Rightarrow> membership_step list \<Rightarrow> string \<Rightarrow> string" where
  "fold_steps sha256 [] acc = acc"
| "fold_steps sha256 (s # ss) acc =
     fold_steps sha256 ss (if sibling_on_left s then node sha256 (sibling s) acc else node sha256 acc (sibling s))"

lemma next_level_nth:
  "i < length xs \<Longrightarrow> next_level H xs ! (i div 2) =
     (if sibling_on_left (membership_step_at i xs)
      then node H (sibling (membership_step_at i xs)) (xs ! i)
      else node H (xs ! i) (sibling (membership_step_at i xs)))"
proof (induction H xs arbitrary: i rule: next_level.induct)
  case (3 H a b rest)
  show ?case
  proof (cases "i < 2")
    case True
    then have "i = 0 \<or> i = 1" by auto
    then show ?thesis by (auto simp: membership_step_at_def Let_def)
  next
    case False
    then obtain j where i: "i = j + 2" using le_Suc_ex [of 2 i] by (auto simp: add.commute)
    have step: "membership_step_at i (a # b # rest) = membership_step_at j rest"
    proof -
      have "j < length rest" using "3.prems" i by simp
      then show ?thesis
        by (auto simp: membership_step_at_def Let_def i nth_Cons' min_def)
    qed
    have "(j + 2) div 2 = Suc (j div 2)" by simp
    with "3.IH" [of j] "3.prems" step i show ?thesis by simp
  qed
qed (auto simp: membership_step_at_def)

lemma legacy_loop_root:
  "i < length level \<Longrightarrow> fold_steps H (legacy_loop H level i) (level ! i) = root_loop H level"
proof (induction H level i rule: legacy_loop.induct)
  case (1 H level i)
  show ?case
  proof (cases "length level > 1")
    case True
    have "i div 2 < length (next_level H level)" using "1.prems" by simp
    with "1.IH" [OF True] True "1.prems" show ?thesis
      by (subst legacy_loop.simps, subst root_loop.simps) (simp add: next_level_nth)
  next
    case False
    with "1.prems" show ?thesis
      by (cases level) (simp_all add: legacy_loop.simps root_loop.simps)
  qed
qed

lemma membership_steps_levels:
  "membership_steps i (butlast (merkle_levels H level)) = legacy_loop H level i"
proof (induction H level i rule: legacy_loop.induct)
  case (1 H level i)
  have ne: "merkle_levels H l \<noteq> []" for l by (subst merkle_levels.simps) simp
  show ?case
    by (subst legacy_loop.simps, subst merkle_levels.simps) (use 1 ne in auto)
qed

lemma hd_merkle_levels [simp]: "hd (merkle_levels H level) = level"
  by (subst merkle_levels.simps) simp

lemma map_of_map_from: "map_of (map_from kvs) = map_of (rev kvs)"
proof -
  have "map_of (fold (\<lambda>(k, v). AList.update k v) kvs m) = map_of (rev kvs @ m)" for m
    by (induction kvs arbitrary: m) (auto simp: update_conv')
  then show ?thesis by (simp add: map_from_def)
qed

lemma leaf_positions_Some: "map_of (leaf_positions xs) x = Some i \<Longrightarrow> i < length xs \<and> xs ! i = x"
  by (auto simp: leaf_positions_def map_of_map_from set_zip dest!: map_of_SomeD)

lemma leaf_positions_None: "map_of (leaf_positions xs) x = None \<longleftrightarrow> x \<notin> set xs"
  by (simp add: leaf_positions_def map_of_map_from map_of_eq_None_iff flip: set_map)

lemma index_from_first: "index_from 0 x xs = Some i \<Longrightarrow> i < length xs \<and> xs ! i = x"
  using index_from_Some [of 0 x xs i] by simp

lemma index_from_None: "index_from i x xs = None \<longleftrightarrow> x \<notin> set xs"
  by (induction xs arbitrary: i) auto

lemma membership_Inr:
  assumes "merkleMembership H hashes t = Inr steps"
  obtains i where "i < length hashes" "sort_strings hashes ! i = t" "steps = legacy_loop H (sort_strings hashes) i"
  using assms leaf_positions_Some [of "sort_strings hashes" t]
  by (auto simp: merkleMembership_def merkleMembershipIndex_def Let_def membership_steps_levels split: option.splits)

lemma legacy_loop_depth:
  "length level \<le> 2 ^ length (legacy_loop H level i) \<and>
   (length level > 1 \<longrightarrow> 2 ^ length (legacy_loop H level i) < 2 * length level)"
proof (induction H level i rule: legacy_loop.induct)
  case (1 H level i)
  show ?case
  proof (cases "length level > 1")
    case True
    let ?m = "2 ^ length (legacy_loop H (next_level H level) (i div 2)) :: nat"
    have IH: "(length level + 1) div 2 \<le> ?m"
      "(length level + 1) div 2 > 1 \<Longrightarrow> ?m < 2 * ((length level + 1) div 2)"
      using "1.IH" [OF True] by simp_all
    have even: "?m = 1 \<or> even ?m" by (cases "legacy_loop H (next_level H level) (i div 2)") auto
    have "?m < length level"
    proof (cases "length level = 2")
      case two: True
      then have "legacy_loop H (next_level H level) (i div 2) = []" by (subst legacy_loop.simps) simp
      with two show ?thesis by simp
    next
      case False
      with True IH(2) have "?m < 2 * ((length level + 1) div 2)" by linarith
      then have "?m < length level + 2" by linarith
      show ?thesis
      proof (rule ccontr)
        assume "\<not> ?m < length level"
        with \<open>?m < 2 * ((length level + 1) div 2)\<close> have "?m = length level" "odd (length level)" by presburger+
        with even True show False by simp
      qed
    qed
    moreover have "length level \<le> 2 * ?m" using IH(1) by linarith
    ultimately show ?thesis using True by (subst (1 2) legacy_loop.simps) simp
  qed (subst (1 2) legacy_loop.simps, auto)
qed


section \<open>Hashes bind their leaves\<close>

text \<open>A hash as the scripts write it: 0x and 64 lower-case hexadecimal digits.\<close>

definition lower_hex :: "char \<Rightarrow> bool" where
  "lower_hex c \<longleftrightarrow> (let n = (of_char c :: nat) in 48 \<le> n \<and> n \<le> 57 \<or> 97 \<le> n \<and> n \<le> 102)"

definition is_digest :: "string \<Rightarrow> bool" where
  "is_digest d \<longleftrightarrow> length d = 64 \<and> (\<forall>c\<in>set d. lower_hex c)"

definition is_hash :: "string \<Rightarrow> bool" where
  "is_hash h \<longleftrightarrow> take 2 h = ''0x'' \<and> is_digest (drop 2 h)"

lemma hex_val_lower: "lower_hex c \<Longrightarrow> \<exists>v. hex_val c = Some v \<and> v < 16"
  by (auto simp: lower_hex_def hex_val_def Let_def)

lemma hex_val_inject: "lower_hex c \<Longrightarrow> lower_hex d \<Longrightarrow> hex_val c = hex_val d \<Longrightarrow> c = d"
proof -
  assume l: "lower_hex c" "lower_hex d" "hex_val c = hex_val d"
  define m n :: nat where "m = of_char c" and "n = of_char d"
  have "m = n"
    using l unfolding lower_hex_def hex_val_def m_def [symmetric] n_def [symmetric] Let_def
    by (auto split: if_splits)
  then show ?thesis by (simp add: m_def n_def)
qed

lemma byte_inject:
  "h < 16 \<Longrightarrow> l < 16 \<Longrightarrow> h' < 16 \<Longrightarrow> l' < 16 \<Longrightarrow>
   (char_of (16 * h + l) :: char) = char_of (16 * h' + l') \<Longrightarrow> h = h' \<and> l = (l' :: nat)"
proof -
  assume b: "h < 16" "l < 16" "h' < 16" "l' < 16" and eq: "(char_of (16 * h + l) :: char) = char_of (16 * h' + l')"
  from eq have "of_char (char_of (16 * h + l) :: char) = (of_char (char_of (16 * h' + l') :: char) :: nat)"
    by (rule arg_cong)
  then have "(16 * h + l) mod 256 = (16 * h' + l') mod 256" unfolding of_char_of .
  moreover have "16 * h + l < 256" "16 * h' + l' < 256" using b by simp_all
  ultimately have eq': "16 * h + l = 16 * h' + l'" by simp
  have "h = (16 * h + l) div 16" "h' = (16 * h' + l') div 16" using b by simp_all
  with eq' have "h = h'" by simp
  with eq' show ?thesis by simp
qed

lemma hex_pairs_inject:
  "length xs = length ys \<Longrightarrow> even (length xs) \<Longrightarrow> \<forall>c\<in>set xs \<union> set ys. lower_hex c \<Longrightarrow>
   hex_pairs xs = hex_pairs ys \<Longrightarrow> xs = ys"
proof (induction xs arbitrary: ys rule: hex_pairs.induct)
  case (1 a b rest)
  then obtain c d rest' where ys: "ys = c # d # rest'" by (auto simp: length_Suc_conv Suc_length_conv)
  obtain ha hb hc hd' where v: "hex_val a = Some ha" "ha < 16" "hex_val b = Some hb" "hb < 16"
    "hex_val c = Some hc" "hc < 16" "hex_val d = Some hd'" "hd' < 16"
    using "1.prems"(3) ys hex_val_lower [of a] hex_val_lower [of b] hex_val_lower [of c] hex_val_lower [of d] by auto
  have "hex_pairs rest = hex_pairs rest'" and "ha = hc \<and> hb = hd'"
    using "1.prems"(4) v ys byte_inject [OF v(2,4,6,8)] by simp_all
  moreover have "rest = rest'"
    by (rule "1.IH" [OF refl v(1,3)]) (use "1.prems" ys \<open>hex_pairs rest = hex_pairs rest'\<close> in auto)
  ultimately show ?case
    using "1.prems"(3) v ys hex_val_inject [of a c] hex_val_inject [of b d] by simp
qed auto

lemma length_hex_pairs:
  "even (length xs) \<Longrightarrow> \<forall>c\<in>set xs. lower_hex c \<Longrightarrow> 2 * length (hex_pairs xs) = length xs"
proof (induction xs rule: hex_pairs.induct)
  case (1 a b rest)
  obtain h l where "hex_val a = Some h" "hex_val b = Some l"
    using "1.prems"(2) hex_val_lower [of a] hex_val_lower [of b] by auto
  with 1 show ?case by simp
qed auto

lemma hexBytes_inject:
  assumes "is_hash a" "is_hash b" "hexBytes a = hexBytes b"
  shows "a = b"
proof -
  have "drop 2 a = drop 2 b"
    by (rule hex_pairs_inject) (use assms in \<open>auto simp: is_hash_def is_digest_def hexBytes_def\<close>)
  then show ?thesis using assms(1,2) by (metis append_take_drop_id is_hash_def)
qed

lemma length_hexBytes: "is_hash a \<Longrightarrow> length (hexBytes a) = 32"
  using length_hex_pairs [of "drop 2 a"] by (auto simp: is_hash_def is_digest_def hexBytes_def)

text \<open>The inputs hashed for the inner nodes of a level and of the whole tree.\<close>

fun level_inputs :: "string list \<Rightarrow> string list" where
  "level_inputs [] = []"
| "level_inputs [a] = [node_input a a]"
| "level_inputs (a # b # rest) = node_input a b # level_inputs rest"

function tree_inputs :: "(string \<Rightarrow> string) \<Rightarrow> string list \<Rightarrow> string list" where
  "tree_inputs sha256 level =
     (if length level > 1 then level_inputs level @ tree_inputs sha256 (next_level sha256 level) else [])"
  by pat_completeness auto
termination by (relation "measure (\<lambda>(_, level). length level)") auto

declare tree_inputs.simps [simp del]

text \<open>Two different inputs of two trees with one digest.\<close>

definition collision :: "(string \<Rightarrow> string) \<Rightarrow> string list \<Rightarrow> string list \<Rightarrow> bool" where
  "collision sha256 xs ys \<longleftrightarrow> (\<exists>a\<in>set xs. \<exists>b\<in>set ys. a \<noteq> b \<and> sha256 a = sha256 b)"

lemma collision_mono:
  "collision H xs ys \<Longrightarrow> set xs \<subseteq> set xs' \<Longrightarrow> set ys \<subseteq> set ys' \<Longrightarrow> collision H xs' ys'"
  unfolding collision_def by blast

lemma node_inject:
  assumes "is_hash a" "is_hash b" "is_hash c" "is_hash d" "node H a b = node H c d"
  shows "a = c \<and> b = d \<or> collision H [node_input a b] [node_input c d]"
proof (cases "node_input a b = node_input c d")
  case True
  then have "hexBytes a = hexBytes c \<and> hexBytes b = hexBytes d"
    using length_hexBytes [OF assms(1)] length_hexBytes [OF assms(3)] by (simp add: node_input_def)
  then show ?thesis using hexBytes_inject assms by blast
next
  case False
  then show ?thesis using assms(5) by (simp add: node_def collision_def)
qed

lemma is_hash_node: "(\<And>x. is_digest (H x)) \<Longrightarrow> is_hash (node H a b)"
  by (simp add: node_def is_hash_def)

lemma next_level_inject:
  "\<forall>x\<in>set xs \<union> set ys. is_hash x \<Longrightarrow> length xs = length ys \<Longrightarrow> next_level H xs = next_level H ys \<Longrightarrow>
   xs = ys \<or> collision H (level_inputs xs) (level_inputs ys)"
proof (induction H xs arbitrary: ys rule: next_level.induct)
  case (2 H a)
  then obtain b where "ys = [b]" by (auto simp: length_Suc_conv Suc_length_conv)
  with 2 node_inject [of a a b b H] show ?case by auto
next
  case (3 H a b rest)
  then obtain c d rest' where "ys = c # d # rest'" by (auto simp: length_Suc_conv Suc_length_conv)
  with 3 node_inject [of a b c d H]
    collision_mono [of H "[node_input a b]" "[node_input c d]" "level_inputs (a # b # rest)" "level_inputs ys"]
    collision_mono [of H "level_inputs rest" "level_inputs rest'" "level_inputs (a # b # rest)" "level_inputs ys"]
  show ?case by auto
qed auto

lemma next_level_hashes: "(\<And>x. is_digest (H x)) \<Longrightarrow> x \<in> set (next_level H xs) \<Longrightarrow> is_hash x"
  by (induction H xs rule: next_level.induct) (auto simp: is_hash_node)

lemma root_loop_inject:
  assumes "\<And>x. is_digest (H x)"
  shows "\<forall>x\<in>set xs \<union> set ys. is_hash x \<Longrightarrow> length xs = length ys \<Longrightarrow> xs \<noteq> [] \<Longrightarrow>
    root_loop H xs = root_loop H ys \<Longrightarrow> xs = ys \<or> collision H (tree_inputs H xs) (tree_inputs H ys)"
  using assms
proof (induction H xs arbitrary: ys rule: root_loop.induct)
  case (1 H level)
  show ?case
  proof (cases "length level > 1")
    case True
    then have ys: "length ys > 1" using "1.prems"(2) by simp
    have sub: "set (level_inputs l) \<subseteq> set (tree_inputs H l) \<and> set (tree_inputs H (next_level H l)) \<subseteq> set (tree_inputs H l)"
      if "length l > 1" for l
      using that by (simp add: tree_inputs.simps [of H l])
    have "root_loop H (next_level H level) = root_loop H (next_level H ys)"
      using "1.prems" True ys by (simp add: root_loop.simps [of H level] root_loop.simps [of H ys])
    then have "next_level H level = next_level H ys
        \<or> collision H (tree_inputs H (next_level H level)) (tree_inputs H (next_level H ys))"
      using "1.prems" True next_level_hashes [of H]
      by (intro "1.IH" [OF True]) (auto simp flip: length_0_conv)
    then show ?thesis
      using next_level_inject [of level ys H] "1.prems"(1,2) collision_mono sub [OF True] sub [OF ys] by blast
  next
    case False
    with "1.prems"(3) obtain a where "level = [a]" by (cases level) auto
    moreover with "1.prems"(2) obtain b where "ys = [b]" by (cases ys) auto
    ultimately show ?thesis using "1.prems"(4) by (simp add: root_loop.simps)
  qed
qed

lemma membership_root:
  assumes "merkleMembership H hashes t = Inr steps"
  shows "fold_steps H steps t = merkleRoot H hashes"
proof -
  from membership_Inr [OF assms] obtain i where "i < length hashes" "sort_strings hashes ! i = t"
    "steps = legacy_loop H (sort_strings hashes) i" .
  then show ?thesis using legacy_loop_root [of i "sort_strings hashes" H] by (auto simp: merkleRoot_def)
qed

section \<open>Properties\<close>

text \<open>A membership that the index gives for a hash of the list leads from that hash to the Merkle
  root of the list; it exists exactly for the hashes of the list, for any others the lookup
  throws.\<close>

theorem membership_leads_to_root:
  "(case merkleMembership sha256 hashes target of
      Inl e \<Rightarrow> target \<notin> set hashes \<and> e = Error (''Merkle target '' @ target @ '' not found'')
    | Inr steps \<Rightarrow> target \<in> set hashes \<and> fold_steps sha256 steps target = merkleRoot sha256 hashes)"
proof (cases "merkleMembership sha256 hashes target")
  case (Inl e)
  then have "map_of (leaf_positions (sort_strings hashes)) target = None"
    and e: "e = Error (''Merkle target '' @ target @ '' not found'')"
    by (auto simp: merkleMembership_def merkleMembershipIndex_def Let_def split: option.splits)
  then have "target \<notin> set hashes" by (simp add: leaf_positions_None)
  with e show ?thesis unfolding Inl by simp
next
  case (Inr steps)
  from membership_Inr [OF Inr] obtain i where i: "i < length hashes" "sort_strings hashes ! i = target"
    "steps = legacy_loop sha256 (sort_strings hashes) i" .
  have "target \<in> set (sort_strings hashes)" using i by (metis nth_mem sort_strings_facts(3))
  then show ?thesis
    using Inr i legacy_loop_root [of i "sort_strings hashes" sha256] by (auto simp: merkleRoot_def)
qed

text \<open>The number of steps of a membership is the depth of the tree: the least number of doublings
  that reaches the number of leaves.\<close>

theorem membership_depth:
  assumes "merkleMembership sha256 hashes target = Inr steps"
  shows "length hashes \<le> 2 ^ length steps \<and> (1 < length hashes \<longrightarrow> 2 ^ length steps < 2 * length hashes)"
proof -
  from membership_Inr [OF assms] obtain i where "steps = legacy_loop sha256 (sort_strings hashes) i" .
  then show ?thesis using legacy_loop_depth [of "sort_strings hashes" sha256 i] by simp
qed

text \<open>For hashes without repetition, as dependency ids and leaf hashes are, the index gives what
  the walk for a single target gives.\<close>

theorem membership_index_is_legacy:
  assumes "distinct hashes"
  shows "merkleMembershipIndex sha256 hashes target = legacyMerkleMembership sha256 hashes target"
proof -
  let ?l = "sort_strings hashes"
  have d: "distinct ?l" using assms by (simp add: sort_strings_def)
  have "map_of (leaf_positions ?l) target = index_from 0 target ?l"
  proof (cases "target \<in> set ?l")
    case True
    obtain i j where i: "map_of (leaf_positions ?l) target = Some i" and j: "index_from 0 target ?l = Some j"
      using True by (metis leaf_positions_None index_from_None not_None_eq)
    with leaf_positions_Some [OF i] index_from_first [OF j] d show ?thesis
      by (metis nth_eq_iff_index_eq)
  next
    case False
    then show ?thesis by (metis leaf_positions_None index_from_None)
  qed
  then show ?thesis
    by (simp add: merkleMembershipIndex_def legacyMerkleMembership_def Let_def membership_steps_levels split: option.split)
qed

text \<open>C6: The root binds the leaves: of two lists with equally many hashes the roots agree exactly when
  the lists hold the same hashes in some order, unless two different inputs hashed for the inner
  nodes of the two trees have the same SHA-256 digest.\<close>

theorem root_binds_leaves:
  assumes "\<And>x. is_digest (sha256 x)" and "\<forall>h\<in>set hashes \<union> set hashes'. is_hash h"
    and "length hashes = length hashes'"
  shows "(merkleRoot sha256 hashes = merkleRoot sha256 hashes' \<longleftrightarrow> mset hashes = mset hashes')
    \<or> collision sha256 (tree_inputs sha256 (sort_strings hashes)) (tree_inputs sha256 (sort_strings hashes'))"
proof (cases "hashes = []")
  case True
  then show ?thesis using assms(3) by (simp add: merkleRoot_def)
next
  case False
  with assms(3) have ne: "hashes' \<noteq> []" by auto
  have "sort_strings hashes \<noteq> []" using False by (metis length_0_conv sort_strings_facts(3))
  then have "root_loop sha256 (sort_strings hashes) = root_loop sha256 (sort_strings hashes') \<Longrightarrow>
      sort_strings hashes = sort_strings hashes'
      \<or> collision sha256 (tree_inputs sha256 (sort_strings hashes)) (tree_inputs sha256 (sort_strings hashes'))"
    using assms(2,3) by (intro root_loop_inject [OF assms(1)]) simp_all
  moreover have "sort_strings hashes = sort_strings hashes' \<longleftrightarrow> mset hashes = mset hashes'"
    using sort_strings_permute [of hashes hashes'] sort_strings_facts(1) [of hashes] sort_strings_facts(1) [of hashes']
    by metis
  ultimately show ?thesis using False ne by (auto simp: merkleRoot_def)
qed

section \<open>Witnesses\<close>

text \<open>A stand-in for SHA-256: a digest that depends on every byte.\<close>

definition ex_sha256 :: "string \<Rightarrow> string" where
  "ex_sha256 bytes = replicate 63 CHR ''0'' @ [digit_char (sum_list (map of_char bytes) mod 10)]"

definition ex_hash :: "char \<Rightarrow> string" where
  "ex_hash c = ''0x'' @ replicate 64 c"

lemma ex_sha256_digest: "is_digest (ex_sha256 bytes)"
proof -
  have "lower_hex (digit_char d)" if "d < 10" for d
    using that by (simp add: lower_hex_def digit_char_def Let_def)
  then show ?thesis by (auto simp: is_digest_def ex_sha256_def lower_hex_def)
qed

theorem membership_depth_witness:
  "\<exists>steps. merkleMembership ex_sha256 [''0xaa'', ''0xbb'', ''0xcc''] ''0xbb'' = Inr steps
     \<and> (3::nat) \<le> 2 ^ length steps \<and> 2 ^ length steps < 2 * (3::nat)"
proof -
  let ?hs = "[''0xaa'', ''0xbb'', ''0xcc'']"
  have "''0xbb'' \<in> set ?hs" by simp
  then obtain steps where "merkleMembership ex_sha256 ?hs ''0xbb'' = Inr steps"
    by (cases "merkleMembership ex_sha256 ?hs ''0xbb''")
      (auto simp: merkleMembership_def merkleMembershipIndex_def Let_def leaf_positions_None split: option.splits)
  from this membership_depth [OF this] show ?thesis by auto
qed

theorem membership_index_is_legacy_witness:
  "merkleMembershipIndex ex_sha256 [ex_hash CHR ''b'', ex_hash CHR ''a''] (ex_hash CHR ''a'')
     = legacyMerkleMembership ex_sha256 [ex_hash CHR ''b'', ex_hash CHR ''a''] (ex_hash CHR ''a'')"
  by (rule membership_index_is_legacy) (simp add: ex_hash_def)

theorem root_binds_leaves_witness:
  "(merkleRoot ex_sha256 [ex_hash CHR ''a'', ex_hash CHR ''b''] = merkleRoot ex_sha256 [ex_hash CHR ''b'', ex_hash CHR ''a''])
   \<or> collision ex_sha256 (tree_inputs ex_sha256 (sort_strings [ex_hash CHR ''a'', ex_hash CHR ''b'']))
       (tree_inputs ex_sha256 (sort_strings [ex_hash CHR ''b'', ex_hash CHR ''a'']))"
proof -
  let ?x = "[ex_hash CHR ''a'', ex_hash CHR ''b'']" and ?y = "[ex_hash CHR ''b'', ex_hash CHR ''a'']"
  have "(merkleRoot ex_sha256 ?x = merkleRoot ex_sha256 ?y \<longleftrightarrow> mset ?x = mset ?y)
    \<or> collision ex_sha256 (tree_inputs ex_sha256 (sort_strings ?x)) (tree_inputs ex_sha256 (sort_strings ?y))"
  proof (rule root_binds_leaves)
    show "is_digest (ex_sha256 x)" for x by (rule ex_sha256_digest)
    show "\<forall>h\<in>set ?x \<union> set ?y. is_hash h"
      by (simp add: ex_hash_def is_hash_def is_digest_def lower_hex_def)
  qed simp
  then show ?thesis by (simp add: add_mset_commute)
qed

end
