(* ===== verification/Bundle.thy ===== *)
theory Bundle
  imports Evidence Merkle
begin

text \<open>
  \<open>scripts/proof-bundle.mjs\<close>: claims, their dependency trees and the bundle's report tree
  (\<open>finalizeClaim\<close>, \<open>finalizeBundle\<close>), and the evidence built from relay rows
  (\<open>relayDependency\<close>, \<open>returnPathDependency\<close>).

  A claim is a record of the members the scripts read; members they copy only are in
  \<open>otherClaimMembers\<close>. The texts that are hashed consist of ASCII characters, one byte each.
\<close>

section \<open>Claims and bundles\<close>

record metrics =
  qualifiedVolumeRaw :: "int option"
  qualifiedBuyerCount :: "int option"
  volumeAToBRaw :: "int option"
  volumeBToARaw :: "int option"
  otherMetrics :: "(string \<times> json) list"

record claim =
  claim_type :: string
  subjects :: "string list"
  walletA :: "string option"
  walletB :: "string option"
  approvedBuyers :: "string list"
  approvedFunders :: "string list"
  claim_metrics :: "metrics option"
  otherClaimMembers :: "(string \<times> json) list"
  dependencyRoot :: "string option"
  claimId :: "string option"
  leafHash :: "string option"
  dependencies :: "evidence list"

record period =
  startBlock :: int
  endBlockExclusive :: int

record contracts =
  channels :: string
  usdc_address :: string
  deposits :: string

record claim_counts =
  closedLoopCount :: nat
  reciprocalCount :: nat
  totalCount :: nat

record proof_bundle =
  bundle_version :: int
  chainId :: int
  bundle_period :: period
  bundle_contracts :: contracts
  claims :: "claim list"
  claimCounts :: "claim_counts option"
  reportRoot :: "string option"

definition metrics_json :: "metrics \<Rightarrow> json" where
  "metrics_json m = JObj (member_opt ''qualifiedVolumeRaw'' (JStr \<circ> show_int) (qualifiedVolumeRaw m)
     @ member_opt ''qualifiedBuyerCount'' JNum (qualifiedBuyerCount m)
     @ member_opt ''volumeAToBRaw'' (JStr \<circ> show_int) (volumeAToBRaw m)
     @ member_opt ''volumeBToARaw'' (JStr \<circ> show_int) (volumeBToARaw m) @ otherMetrics m)"

text \<open>A claim without its dependencies, as it is hashed.\<close>

definition claim_json :: "claim \<Rightarrow> json" where
  "claim_json c = JObj (
     [(''type'', JStr (claim_type c)), (''subjects'', JArr (map JStr (subjects c)))]
     @ member_opt ''walletA'' JStr (walletA c) @ member_opt ''walletB'' JStr (walletB c)
     @ [(''approvedBuyers'', JArr (map JStr (approvedBuyers c))),
        (''approvedFunders'', JArr (map JStr (approvedFunders c)))]
     @ member_opt ''metrics'' metrics_json (claim_metrics c)
     @ otherClaimMembers c
     @ member_opt ''dependencyRoot'' JStr (dependencyRoot c)
     @ member_opt ''claimId'' JStr (claimId c)
     @ member_opt ''leafHash'' JStr (leafHash c))"

section \<open>Finalizing\<close>

text \<open>\<open>hashCanonical(domain, input)\<close>: the domain, a zero byte, the canonical text.\<close>

definition hash_text :: "(string \<Rightarrow> string) \<Rightarrow> string \<Rightarrow> string \<Rightarrow> string" where
  "hash_text sha256 domain txt = ''0x'' @ sha256 (domain @ [CHR 0x00] @ txt)"

definition hashCanonical :: "(string \<Rightarrow> string) \<Rightarrow> string \<Rightarrow> json \<Rightarrow> string" where
  "hashCanonical sha256 domain input = hash_text sha256 domain (canonicalJson input)"

definition canonical_text :: "evidence \<Rightarrow> string" where
  "canonical_text e = canonicalJson (evidence_json e)"

definition dedupeDependencies :: "evidence list \<Rightarrow> evidence list" where
  "dedupeDependencies vs =
     js_sort (\<lambda>l r. localeCompare (canonical_text l) (canonical_text r))
       (map snd (map_from (map (\<lambda>e. (canonical_text e, e)) vs)))"

definition identify_dependency :: "(string \<Rightarrow> string) \<Rightarrow> evidence \<Rightarrow> evidence" where
  "identify_dependency sha256 d = d\<lparr>dependencyId := Some (hashCanonical sha256 ''dependency'' (evidence_json d))\<rparr>"

definition dep_id :: "evidence \<Rightarrow> string" where
  "dep_id d = js_String (dependencyId d)"

definition finalize_dependencies :: "(string \<Rightarrow> string) \<Rightarrow> evidence list \<Rightarrow> evidence list" where
  "finalize_dependencies sha256 ds =
     js_sort (\<lambda>l r. localeCompare (dep_id l) (dep_id r))
       (map (identify_dependency sha256) (dedupeDependencies ds))"

definition finalizeClaim :: "(string \<Rightarrow> string) \<Rightarrow> claim \<Rightarrow> claim" where
  "finalizeClaim sha256 c =
     (let ds = finalize_dependencies sha256 (dependencies c);
          root = merkleRoot sha256 (map dep_id ds);
          claimBody = c\<lparr>dependencyRoot := Some root, dependencies := []\<rparr>;
          ident = hashCanonical sha256 ''claim-id'' (claim_json claimBody);
          leaf = claimBody\<lparr>claimId := Some ident\<rparr>
      in leaf\<lparr>leafHash := Some (hashCanonical sha256 ''claim-leaf'' (claim_json leaf)), dependencies := ds\<rparr>)"

definition claim_id :: "claim \<Rightarrow> string" where
  "claim_id c = js_String (claimId c)"

definition compareClaim :: "claim \<Rightarrow> claim \<Rightarrow> int" where
  "compareClaim l r = localeCompare (claim_id l) (claim_id r)"

definition leaf_hash :: "claim \<Rightarrow> string" where
  "leaf_hash c = js_String (leafHash c)"

definition finalizeBundle :: "(string \<Rightarrow> string) \<Rightarrow> proof_bundle \<Rightarrow> proof_bundle" where
  "finalizeBundle sha256 b =
     (let cs = js_sort compareClaim
            (map (\<lambda>c. if leafHash c \<noteq> None then c else finalizeClaim sha256 c) (claims b))
      in b\<lparr>claimCounts := Some
             \<lparr>closedLoopCount = length (filter (\<lambda>c. claim_type c = ''P0_CLOSED_LOOP'') cs),
              reciprocalCount = length (filter (\<lambda>c. claim_type c = ''P0_RECIPROCAL'') cs),
              totalCount = length cs\<rparr>,
           reportRoot := Some (merkleRoot sha256 (map leaf_hash cs)),
           claims := cs\<rparr>)"

section \<open>Evidence from relay rows\<close>

text \<open>\<open>normalizeAddress\<close> of this script: null unless the text is an address.\<close>

definition is_address :: "string \<Rightarrow> bool" where
  "is_address a \<longleftrightarrow> length a = 42 \<and> take 2 a = ''0x'' \<and> (\<forall>c\<in>set (drop 2 a). hex_val c \<noteq> None)"

definition checkedAddress :: "string option \<Rightarrow> string option" where
  "checkedAddress a = (case a of None \<Rightarrow> None | Some s \<Rightarrow> if is_address s then Some (toLowerCase s) else None)"

record relay_leg =
  leg_tx :: "string option"
  leg_logIndex :: "int option"
  leg_at :: "int option"
  leg_raw :: int

record relay_row =
  row_relay :: "string option"
  row_intermediary :: "string option"
  row_sellerPayment :: relay_leg
  row_relayForward :: relay_leg
  row_funderReceipt :: relay_leg

definition leg_locator :: "ev_type \<Rightarrow> relay_leg \<Rightarrow> string option \<Rightarrow> string option \<Rightarrow> transfer" where
  "leg_locator ty leg a b =
     (locator ty (blank\<lparr>txHash := leg_tx leg, logIndex := leg_logIndex leg, timestamp := leg_at leg\<rparr>))
     \<lparr>from_addr := a, to_addr := b, amountRaw := leg_raw leg\<rparr>"

definition relayDependency :: "relay_row \<Rightarrow> string \<Rightarrow> string \<Rightarrow> evidence" where
  "relayDependency path sellerAddress funderAddress =
     (let relay = checkedAddress (row_relay path); intermediary = checkedAddress (row_intermediary path)
      in (of_transfer (blank\<lparr>evidenceType := RELAY_PATH, seller := Some sellerAddress, funder := Some funderAddress,
            otherMembers := [(''relay'', json_opt JStr relay), (''intermediary'', json_opt JStr intermediary)]\<rparr>))
         \<lparr>sellerPayment := Some (leg_locator RELAY_SELLER_PAYMENT (row_sellerPayment path) (Some sellerAddress) relay),
          relayForward := Some (leg_locator RELAY_FORWARD (row_relayForward path) relay intermediary),
          funderReceipt := (if leg_tx (row_funderReceipt path) \<noteq> None
            then Some (leg_locator RELAY_FUNDER_RECEIPT (row_funderReceipt path) intermediary (Some funderAddress))
            else None)\<rparr>)"

text \<open>The type of the hop at an index: the first pays the relay, the last reaches the funder.\<close>

definition hop_type :: "nat \<Rightarrow> nat \<Rightarrow> ev_type" where
  "hop_type n index = (if index = 0 then RELAY_SELLER_PAYMENT
     else if index = n - 1 then RELAY_FUNDER_RECEIPT else RELAY_FORWARD)"

definition returnPathDependency :: "transfer list \<Rightarrow> string \<Rightarrow> string \<Rightarrow> evidence" where
  "returnPathDependency path_hops sellerAddress funderAddress =
     (of_transfer (blank\<lparr>evidenceType := RELAY_PATH, seller := Some sellerAddress, funder := Some funderAddress\<rparr>))
     \<lparr>hops := Some (map (\<lambda>(index, hop).
        (locator (hop_type (length path_hops) index) (hop\<lparr>txHash := None\<rparr>))
          \<lparr>from_addr := from_addr hop, to_addr := to_addr hop, amountRaw := amountRaw hop\<rparr>)
        (enumerate 0 path_hops))\<rparr>"

section \<open>Lemmas\<close>

interpretation cl: js_comparator compareClaim "\<lambda>_. True"
  by (rule js_comparatorI_key [of _ _ "collation_key \<circ> claim_id"])
    (simp_all add: compareClaim_def localeCompare_def)

interpretation dp: js_comparator "\<lambda>l r. localeCompare (canonical_text l) (canonical_text r)" "\<lambda>_. True"
  by (rule js_comparatorI_key [of _ _ "collation_key \<circ> canonical_text"]) (simp_all add: localeCompare_def)

interpretation di: js_comparator "\<lambda>l r. localeCompare (dep_id l) (dep_id r)" "\<lambda>_. True"
  by (rule js_comparatorI_key [of _ _ "collation_key \<circ> dep_id"]) (simp_all add: localeCompare_def)

text \<open>Collecting values in a map keeps, for each key, the last value.\<close>

lemma map_from_keys: "map fst (map_from kvs) = js_set (map fst kvs)"
proof -
  have "map fst (fold (\<lambda>(k, v). AList.update k v) kvs m) = foldl set_add (map fst m) (map fst kvs)" for m
    by (induction kvs arbitrary: m) (auto simp: update_keys rev_image_eqI)
  from this [of "[]"] show ?thesis by (simp add: map_from_def js_set_def)
qed

lemma distinct_map_from: "distinct (map fst (map_from kvs))"
  by (simp add: map_from_keys)

lemma map_from_set: "(k, v) \<in> set (map_from kvs) \<longleftrightarrow> map_of (rev kvs) k = Some v"
  by (metis distinct_map_from map_of_eq_Some_iff map_of_map_from)

lemma map_from_keyed_values:
  assumes "\<And>x y. x \<in> set xs \<Longrightarrow> y \<in> set xs \<Longrightarrow> f x = f y \<Longrightarrow> x = y"
  shows "set (map snd (map_from (map (\<lambda>x. (f x, x)) xs))) = set xs"
    and "distinct (map snd (map_from (map (\<lambda>x. (f x, x)) xs)))"
proof -
  let ?m = "map_from (map (\<lambda>x. (f x, x)) xs)"
  have pair: "(k, v) \<in> set ?m \<Longrightarrow> v \<in> set xs \<and> k = f v" for k v
    by (auto simp: map_from_set dest!: map_of_SomeD)
  have keys: "set (map fst ?m) = f ` set xs"
    by (simp only: map_from_keys set_js_set) (auto simp: image_image)
  show "set (map snd ?m) = set xs"
  proof
    show "set (map snd ?m) \<subseteq> set xs" using pair by auto
    show "set xs \<subseteq> set (map snd ?m)"
    proof
      fix x assume x: "x \<in> set xs"
      then have "f x \<in> fst ` set ?m" using keys by (simp only: set_map) blast
      then obtain p where "f x = fst p" "p \<in> set ?m" by (rule imageE)
      then obtain v where v: "(f x, v) \<in> set ?m" by (cases p) simp
      have "v \<in> set xs" "f x = f v" using pair [OF v] by auto
      then have "v = x" using assms [OF x] by metis
      with v have "(f x, x) \<in> set ?m" by simp
      from imageI [OF this, of snd] show "x \<in> set (map snd ?m)" by simp
    qed
  qed
  have key: "fst p = f (snd p)" if "p \<in> set ?m" for p
    using pair [of "fst p" "snd p"] that by (simp only: prod.collapse)
  have "inj_on snd (set ?m)"
    by (rule inj_onI) (simp only: prod_eq_iff key simp_thms)
  then show "distinct (map snd ?m)"
    using distinct_map_from [of "map (\<lambda>x. (f x, x)) xs"] by (simp add: distinct_map)
qed

lemma finalize_dependencies_ids:
  assumes "d \<in> set (finalize_dependencies H ds)" and "\<forall>e\<in>set ds. dependencyId e = None"
  shows "dependencyId d = Some (hashCanonical H ''dependency'' (evidence_json (d\<lparr>dependencyId := None\<rparr>)))"
proof -
  obtain e where e: "e \<in> set (map snd (map_from (map (\<lambda>e. (canonical_text e, e)) ds)))" "d = identify_dependency H e"
    using assms(1) by (auto simp: finalize_dependencies_def dedupeDependencies_def)
  have "e \<in> set ds" using e(1) by (auto simp: map_from_set dest!: map_of_SomeD)
  then have "dependencyId e = None" using assms(2) by simp
  then have "e\<lparr>dependencyId := None\<rparr> = e" by simp
  then show ?thesis by (simp add: e(2) identify_dependency_def)
qed


lemma dedupe_permute:
  assumes "set ds = set ds'"
    and "\<And>d e. d \<in> set ds \<Longrightarrow> e \<in> set ds \<Longrightarrow> canonical_text d = canonical_text e \<Longrightarrow> d = e"
  shows "dedupeDependencies ds = dedupeDependencies ds'"
proof -
  have inj': "\<And>d e. d \<in> set ds' \<Longrightarrow> e \<in> set ds' \<Longrightarrow> canonical_text d = canonical_text e \<Longrightarrow> d = e"
    using assms by simp
  define vs where "vs = map snd (map_from (map (\<lambda>e. (canonical_text e, e)) ds))"
  define vs' where "vs' = map snd (map_from (map (\<lambda>e. (canonical_text e, e)) ds'))"
  have v: "set vs = set ds" "distinct vs"
    unfolding vs_def by (rule map_from_keyed_values, rule assms(2), assumption+)+
  have v': "set vs' = set ds'" "distinct vs'"
    unfolding vs'_def by (rule map_from_keyed_values, rule inj', assumption+)+
  have "mset vs = mset vs'"
    using v v' assms(1) set_eq_iff_mset_eq_distinct [OF v(2) v'(2)] by simp
  then show ?thesis
    unfolding dedupeDependencies_def vs_def [symmetric] vs'_def [symmetric]
    by (rule dp.js_sort_permute) (use v(1) assms(2) in simp_all)
qed

text \<open>Finalizing leaves claims that carry their leaf hash as they are.\<close>

lemma finalizeClaim_leafHash [simp]: "\<exists>h. leafHash (finalizeClaim H c) = Some h"
  by (simp add: finalizeClaim_def Let_def)

lemma finalizeClaim_leafHash_None [simp]: "leafHash (finalizeClaim H c) = None \<longleftrightarrow> False"
  using finalizeClaim_leafHash [of H c] by auto

lemma finalizeClaim_fields [simp]:
  "claim_type (finalizeClaim H c) = claim_type c" "claim_metrics (finalizeClaim H c) = claim_metrics c"
  "dependencies (finalizeClaim H c) = finalize_dependencies H (dependencies c)"
  "dependencyRoot (finalizeClaim H c) = Some (merkleRoot H (map dep_id (finalize_dependencies H (dependencies c))))"
  by (simp_all add: finalizeClaim_def Let_def)

definition finalized :: "(string \<Rightarrow> string) \<Rightarrow> claim \<Rightarrow> claim" where
  "finalized sha256 c = (if leafHash c \<noteq> None then c else finalizeClaim sha256 c)"

lemma finalized_leafHash [simp]: "\<exists>h. leafHash (finalized H c) = Some h"
  by (auto simp: finalized_def)

text \<open>Setting the claims of a bundle, with their counts and their root.\<close>

definition seal :: "(string \<Rightarrow> string) \<Rightarrow> claim list \<Rightarrow> proof_bundle \<Rightarrow> proof_bundle" where
  "seal sha256 cs b = b\<lparr>claimCounts := Some
       \<lparr>closedLoopCount = length (filter (\<lambda>c. claim_type c = ''P0_CLOSED_LOOP'') cs),
        reciprocalCount = length (filter (\<lambda>c. claim_type c = ''P0_RECIPROCAL'') cs),
        totalCount = length cs\<rparr>,
     reportRoot := Some (merkleRoot sha256 (map leaf_hash cs)), claims := cs\<rparr>"

lemma finalizeBundle_seal:
  "finalizeBundle H b = seal H (js_sort compareClaim (map (finalized H) (claims b))) b"
  unfolding finalizeBundle_def seal_def finalized_def [abs_def] Let_def ..

lemma seal_simps [simp]:
  "claims (seal H cs b) = cs" "seal H cs (seal H cs' b) = seal H cs b"
  "seal H cs (b\<lparr>claims := cs'\<rparr>) = seal H cs b"
  "reportRoot (seal H cs b) = Some (merkleRoot H (map leaf_hash cs))"
  "bundle_period (seal H cs b) = bundle_period b"
  by (cases b, simp add: seal_def)+

section \<open>Properties\<close>

text \<open>The finalized claim depends on the set of its dependencies only: neither their order nor
  repetitions change its ids, its roots or the order of its dependencies.\<close>

theorem finalizeClaim_set:
  assumes "set ds = set ds'"
    and "\<And>d e. d \<in> set ds \<Longrightarrow> e \<in> set ds \<Longrightarrow> canonical_text d = canonical_text e \<Longrightarrow> d = e"
  shows "finalizeClaim sha256 (c\<lparr>dependencies := ds\<rparr>) = finalizeClaim sha256 (c\<lparr>dependencies := ds'\<rparr>)"
proof -
  have "dedupeDependencies ds = dedupeDependencies ds'"
    by (rule dedupe_permute [OF assms(1)]) (rule assms(2))
  then have "finalize_dependencies sha256 ds = finalize_dependencies sha256 ds'"
    by (simp only: finalize_dependencies_def)
  then show ?thesis by (cases c) (simp only: finalizeClaim_def Let_def claim.simps)
qed

text \<open>Finalizing a bundle twice is finalizing it once.\<close>

theorem finalizeBundle_idempotent:
  "finalizeBundle sha256 (finalizeBundle sha256 b) = finalizeBundle sha256 b"
proof -
  let ?cs = "js_sort compareClaim (map (finalized sha256) (claims b))"
  have "map (finalized sha256) ?cs = ?cs"
    by (intro map_idI) (auto simp: finalized_def)
  then show ?thesis by (simp add: finalizeBundle_seal cl.js_sort_idem)
qed

text \<open>The order in which claims are listed does not matter to the finalized bundle, as long as
  different claims have different claim ids.\<close>

theorem finalizeBundle_order_independent:
  assumes "mset cs = mset cs'"
    and "\<And>c d. c \<in> set cs \<Longrightarrow> d \<in> set cs \<Longrightarrow>
       claim_id (finalized sha256 c) = claim_id (finalized sha256 d) \<Longrightarrow> finalized sha256 c = finalized sha256 d"
  shows "finalizeBundle sha256 (b\<lparr>claims := cs\<rparr>) = finalizeBundle sha256 (b\<lparr>claims := cs'\<rparr>)"
proof -
  have "js_sort compareClaim (map (finalized sha256) cs) = js_sort compareClaim (map (finalized sha256) cs')"
  proof (rule cl.js_sort_permute)
    show "mset (map (finalized sha256) cs) = mset (map (finalized sha256) cs')"
      using assms(1) by simp
    show "x = y" if "x \<in> set (map (finalized sha256) cs)" "y \<in> set (map (finalized sha256) cs)"
      "compareClaim x y = 0" for x y
      using that assms(2) by (auto simp: compareClaim_def)
  qed simp
  then show ?thesis by (simp add: finalizeBundle_seal)
qed

section \<open>Witnesses\<close>

definition ex_dep :: "string \<Rightarrow> int \<Rightarrow> evidence" where
  "ex_dep h amt = of_transfer (blank\<lparr>evidenceType := SETTLEMENT, transactionHash := Some h, buyer := Some ''b'',
     seller := Some ''s'', amountRaw := amt\<rparr>)"

definition ex_claim :: "claim" where
  "ex_claim = \<lparr>claim_type = ''P0_CLOSED_LOOP'', subjects = [''s''], walletA = None, walletB = None,
     approvedBuyers = [''b''], approvedFunders = [''f''], claim_metrics = None, otherClaimMembers = [],
     dependencyRoot = None, claimId = None, leafHash = None, dependencies = []\<rparr>"

lemma ex_dep_texts: "canonical_text (ex_dep ''0x1'' 5) \<noteq> canonical_text (ex_dep ''0x2'' 7)"
  by code_simp

theorem finalizeClaim_set_witness:
  "finalizeClaim ex_sha256 (ex_claim\<lparr>dependencies := [ex_dep ''0x1'' 5, ex_dep ''0x2'' 7, ex_dep ''0x1'' 5]\<rparr>)
     = finalizeClaim ex_sha256 (ex_claim\<lparr>dependencies := [ex_dep ''0x2'' 7, ex_dep ''0x1'' 5]\<rparr>)"
proof (rule finalizeClaim_set)
  show "set [ex_dep ''0x1'' 5, ex_dep ''0x2'' 7, ex_dep ''0x1'' 5] = set [ex_dep ''0x2'' 7, ex_dep ''0x1'' 5]"
    by auto
  show "d = e" if "d \<in> set [ex_dep ''0x1'' 5, ex_dep ''0x2'' 7, ex_dep ''0x1'' 5]"
    "e \<in> set [ex_dep ''0x1'' 5, ex_dep ''0x2'' 7, ex_dep ''0x1'' 5]" "canonical_text d = canonical_text e" for d e
    using that ex_dep_texts by auto
qed

definition ex_bundle :: proof_bundle where
  "ex_bundle = \<lparr>bundle_version = 1, chainId = 8453, bundle_period = \<lparr>startBlock = 44469557, endBlockExclusive = 44469657\<rparr>,
     bundle_contracts = \<lparr>channels = ''0xc'', usdc_address = ''0xe'', deposits = ''0xd''\<rparr>,
     claims = [], claimCounts = None, reportRoot = None\<rparr>"

definition ex_final :: "string \<Rightarrow> claim" where
  "ex_final i = ex_claim\<lparr>claimId := Some i, leafHash := Some i\<rparr>"

theorem finalizeBundle_order_independent_witness:
  "finalizeBundle ex_sha256 (ex_bundle\<lparr>claims := [ex_final ''0xaa'', ex_final ''0xbb'']\<rparr>)
     = finalizeBundle ex_sha256 (ex_bundle\<lparr>claims := [ex_final ''0xbb'', ex_final ''0xaa'']\<rparr>)"
  by (rule finalizeBundle_order_independent)
    (auto simp: ex_final_def finalized_def claim_id_def js_String_def ex_claim_def)

end
