(* ===== verification/Ledger_Selection.thy ===== *)
theory Ledger_Selection
  imports Return_Selection
begin

text \<open>
  The selection of settlements in \<open>scripts/proof-planner.mjs\<close>: \<open>selectWithinCapacity\<close>,
  \<open>selectApprovedSettlements\<close>, \<open>selectLedgerAwareSettlements\<close> and the two bounds that
  the return evidence puts on the settled volume. The fixed point loop over a buyer's
  settlements is a partial function; a run that never ends would be the error
  \<open>NoReturn\<close>, and is shown not to occur for settlements.
\<close>

definition HISTORICAL_START_BLOCK :: int where "HISTORICAL_START_BLOCK = 44469557"

definition show_opt_int :: "int option \<Rightarrow> string" where
  "show_opt_int n = (case n of None \<Rightarrow> ''null'' | Some k \<Rightarrow> show_int k)"

definition authenticationGroup :: "int option \<Rightarrow> string res" where
  "authenticationGroup block =
     (if \<not> safe block \<or> num0 block < HISTORICAL_START_BLOCK
      then Inl (Error (''block '' @ show_opt_int block @ '' predates supported historical state coverage''))
      else Inr (''block:'' @ show_opt_int block))"

definition buyer_of :: "'a transfer_scheme \<Rightarrow> string" where
  "buyer_of e = js_String (buyer e)"

section \<open>Greedy selection within a capacity\<close>

fun fill_capacity :: "int \<Rightarrow> evidence list \<Rightarrow> int \<Rightarrow> evidence list \<Rightarrow> evidence list" where
  "fill_capacity capacityRaw [] selectedRaw selected = selected"
| "fill_capacity capacityRaw (settlement # rest) selectedRaw selected =
     (if selectedRaw + amountRaw settlement > capacityRaw
      then fill_capacity capacityRaw rest selectedRaw selected
      else fill_capacity capacityRaw rest (selectedRaw + amountRaw settlement) (selected @ [settlement]))"

definition selectWithinCapacity :: "evidence list \<Rightarrow> int \<Rightarrow> evidence list" where
  "selectWithinCapacity settlements capacityRaw =
     js_sort compareEvidence (fill_capacity capacityRaw (js_sort compareEvidence settlements) 0 [])"

section \<open>Selections\<close>

record selection =
  settlements :: "evidence list"
  selectedBuyers :: "string list"
  volumeRaw :: int
  optimizationMode :: string

text \<open>The end that both selections share: no settlement, a required buyer missing, another volume.\<close>

definition close_selection ::
  "string \<Rightarrow> evidence list \<Rightarrow> string list \<Rightarrow> int option \<Rightarrow> selection option" where
  "close_selection mode selected requiredBuyers approvedVolumeRaw =
     (if selected = [] then None
      else (let buyers = sort_strings (js_set (map buyer_of selected)) in
        if \<exists>b\<in>set requiredBuyers. b \<notin> set buyers then None
        else (let volume = sumRaw selected in
          if approvedVolumeRaw \<noteq> None \<and> Some volume \<noteq> approvedVolumeRaw then None
          else Some \<lparr>settlements = selected, selectedBuyers = buyers, volumeRaw = volume, optimizationMode = mode\<rparr>)))"

definition within_maximum :: "evidence list \<Rightarrow> int option \<Rightarrow> evidence list" where
  "within_maximum es maximumVolumeRaw =
     (case maximumVolumeRaw of None \<Rightarrow> es | Some m \<Rightarrow> selectWithinCapacity es m)"

definition selectApprovedSettlements ::
  "evidence list \<Rightarrow> string list \<Rightarrow> int list \<Rightarrow> string list \<Rightarrow> int option \<Rightarrow> int option \<Rightarrow> selection option res" where
  "selectApprovedSettlements entries fundedBuyers fixedBlocks requiredBuyers approvedVolumeRaw maximumVolumeRaw =
     (case res_map (\<lambda>b. authenticationGroup (Some b)) fixedBlocks of
        Inl e \<Rightarrow> Inl e
      | Inr _ \<Rightarrow>
          (let eligible = js_sort compareEvidence (filter (\<lambda>entry. buyer_of entry \<in> set fundedBuyers) entries)
           in Inr (close_selection ''exact-approved-evidence'' (within_maximum eligible maximumVolumeRaw)
                requiredBuyers approvedVolumeRaw)))"

section \<open>The ledger-aware selection\<close>

text \<open>\<open>eligible.reduce((maximum, entry) => compareEvidence(maximum, entry) < 0 ? entry : maximum)\<close>.\<close>

definition latest_evidence :: "evidence list \<Rightarrow> evidence" where
  "latest_evidence es = foldl (\<lambda>maximum entry. if compareEvidence maximum entry < 0 then entry else maximum) (hd es) (tl es)"

definition fundedBefore :: "evidence list \<Rightarrow> evidence \<Rightarrow> int" where
  "fundedBefore fundings latest = sumRaw (filter (\<lambda>entry. compareEvidence entry latest < 0) fundings)"

definition availableRaw :: "int \<Rightarrow> int \<Rightarrow> int" where
  "availableRaw fundedRaw balanceEnd =
     (let capacityRaw = fundedRaw * (10000 + EPSILON_LEDGER_BPS) div 10000
      in if capacityRaw > balanceEnd then capacityRaw - balanceEnd else 0)"

definition capacity_step :: "evidence list \<Rightarrow> int \<Rightarrow> evidence list \<Rightarrow> evidence list" where
  "capacity_step fundings balanceEnd eligible =
     selectWithinCapacity eligible (availableRaw (fundedBefore fundings (latest_evidence eligible)) balanceEnd)"

definition join_id :: "evidence \<Rightarrow> string" where
  "join_id e = (case dependencyId e of None \<Rightarrow> [] | Some d \<Rightarrow> d)"

definition fingerprint :: "evidence list \<Rightarrow> string" where
  "fingerprint es = js_join '':'' (map join_id es)"

text \<open>The \<open>while\<close> loop; its variables are \<open>eligible\<close> and \<open>previous\<close>.\<close>

partial_function (option) capacity_loop ::
  "evidence list \<Rightarrow> int \<Rightarrow> evidence list \<Rightarrow> string option \<Rightarrow> evidence list option" where
  "capacity_loop fundings balanceEnd eligible previous =
     (if eligible = [] then Some []
      else (let retained = capacity_step fundings balanceEnd eligible in
        if Some (fingerprint retained) = previous then Some retained
        else capacity_loop fundings balanceEnd retained (Some (fingerprint retained))))"

declare capacity_loop.simps [code]

text \<open>The funding records and the period-end balance of a buyer.\<close>

type_synonym fundings = "(string \<times> evidence list) list"
type_synonym balances = "(string \<times> int) list"

text \<open>\<open>map.get(key) ?? []\<close>.\<close>

definition get_list :: "('k \<times> 'v list) list \<Rightarrow> 'k \<Rightarrow> 'v list" where
  "get_list m k = (case map_of m k of None \<Rightarrow> [] | Some vs \<Rightarrow> vs)"

definition buyer_eligible :: "fundings \<Rightarrow> balances \<Rightarrow> string \<times> evidence list \<Rightarrow> evidence list res" where
  "buyer_eligible fundingByBuyer ledgerBalances grp =
     (case grp of (b, vs) \<Rightarrow>
        (case map_of ledgerBalances b of
           None \<Rightarrow> Inl (Error (''missing period-end ledger balance for '' @ b))
         | Some balanceEnd \<Rightarrow>
             (let fs = js_sort compareEvidence (get_list fundingByBuyer b)
              in case capacity_loop fs balanceEnd (js_sort compareEvidence vs) None of
                   None \<Rightarrow> Inl NoReturn | Some es \<Rightarrow> Inr es)))"

definition selectLedgerAwareSettlements ::
  "evidence list \<Rightarrow> fundings \<Rightarrow> balances \<Rightarrow> int list \<Rightarrow> string list \<Rightarrow> int option \<Rightarrow> int option \<Rightarrow> selection option res" where
  "selectLedgerAwareSettlements entries fundingByBuyer ledgerBalances fixedBlocks requiredBuyers approvedVolumeRaw maximumVolumeRaw =
     (case res_map (\<lambda>b. authenticationGroup (Some b)) fixedBlocks of
        Inl e \<Rightarrow> Inl e
      | Inr _ \<Rightarrow>
          (case res_map (buyer_eligible fundingByBuyer ledgerBalances)
               (groupBy buyer_of (filter (\<lambda>entry. buyer_of entry \<in> set (map fst fundingByBuyer)) entries)) of
             Inl e \<Rightarrow> Inl e
           | Inr groups \<Rightarrow>
               Inr (close_selection ''authenticated-ledger-capacity''
                 (within_maximum (js_sort compareEvidence (concat groups)) maximumVolumeRaw)
                 requiredBuyers approvedVolumeRaw)))"

section \<open>The volume the returns cover\<close>

definition closureReturned :: "evidence list \<Rightarrow> int res" where
  "closureReturned closureEvidence =
     res_fold (\<lambda>path total. case returnPathCreditRaw path of Inl e \<Rightarrow> Inl e | Inr credit \<Rightarrow> Inr (total + credit))
       closureEvidence 0"

definition returnCoverageQualifies :: "evidence list \<Rightarrow> int \<Rightarrow> int \<Rightarrow> bool res" where
  "returnCoverageQualifies closureEvidence settlementVolumeRaw returnTargetBps =
     (if closureEvidence = [] then Inr True
      else if int (length closureEvidence) > MAX_RETURN_PATHS then Inr False
      else (case closureReturned closureEvidence of Inl e \<Rightarrow> Inl e
        | Inr returned \<Rightarrow> Inr (returned * 10000 \<ge> settlementVolumeRaw * returnTargetBps)))"

definition returnSettlementCapacity :: "evidence list \<Rightarrow> int \<Rightarrow> int option res" where
  "returnSettlementCapacity closureEvidence returnTargetBps =
     (if closureEvidence = [] then Inr None
      else if int (length closureEvidence) > MAX_RETURN_PATHS then Inr (Some 0)
      else (case closureReturned closureEvidence of Inl e \<Rightarrow> Inl e
        | Inr returned \<Rightarrow> Inr (Some (returned * 10000 div returnTargetBps))))"

section \<open>Filling a capacity\<close>

lemma fill_capacity_app:
  "\<exists>ys zs. fill_capacity c xs r sel = sel @ ys \<and> subseq ys xs \<and> mset xs = mset ys + mset zs
     \<and> (ys = [] \<or> r + sumRaw ys \<le> c)
     \<and> ((\<forall>x\<in>set xs. 0 \<le> amountRaw x) \<longrightarrow> (\<forall>z\<in>set zs. c < r + sumRaw ys + amountRaw z))"
proof (induction xs arbitrary: r sel)
  case (Cons x xs)
  show ?case
  proof (cases "r + amountRaw x > c")
    case True
    from Cons.IH [of r sel] obtain ys zs where ys: "fill_capacity c xs r sel = sel @ ys" "subseq ys xs"
      "mset xs = mset ys + mset zs" "ys = [] \<or> r + sumRaw ys \<le> c"
      "(\<forall>x\<in>set xs. 0 \<le> amountRaw x) \<longrightarrow> (\<forall>z\<in>set zs. c < r + sumRaw ys + amountRaw z)" by blast
    have "0 \<le> sumRaw ys" if "\<forall>x\<in>set xs. 0 \<le> amountRaw x"
      unfolding sumRaw_sum_list
      by (rule sum_list_nonneg) (use that ys(2) in \<open>auto dest: list_emb_set\<close>)
    with True ys show ?thesis
      by (intro exI [of _ ys] exI [of _ "x # zs"]) auto
  next
    case False
    from Cons.IH [of "r + amountRaw x" "sel @ [x]"] obtain ys zs where
      ys: "fill_capacity c xs (r + amountRaw x) (sel @ [x]) = sel @ [x] @ ys" "subseq ys xs"
      "mset xs = mset ys + mset zs" "ys = [] \<or> r + amountRaw x + sumRaw ys \<le> c"
      "(\<forall>x\<in>set xs. 0 \<le> amountRaw x) \<longrightarrow> (\<forall>z\<in>set zs. c < r + amountRaw x + sumRaw ys + amountRaw z)" by auto
    with False show ?thesis
      by (intro exI [of _ "x # ys"] exI [of _ zs]) (auto simp: algebra_simps)
  qed
qed simp

lemma selectWithinCapacity_filled:
  obtains ys zs where "selectWithinCapacity es c = js_sort compareEvidence ys"
    "subseq ys (js_sort compareEvidence es)" "mset es = mset ys + mset zs" "ys = [] \<or> sumRaw ys \<le> c"
    "(\<forall>x\<in>set es. 0 \<le> amountRaw x) \<longrightarrow> (\<forall>z\<in>set zs. c < sumRaw ys + amountRaw z)"
  using fill_capacity_app [of c "js_sort compareEvidence es" 0 "[]"]
  by (auto simp: selectWithinCapacity_def)

text \<open>
  What a selection within a capacity promises to its callers: a part of the candidates that
  fits, and that no candidate left out could join.
\<close>

locale capacity_selector =
  fixes select :: "'e list \<Rightarrow> int \<Rightarrow> 'e list" and amount :: "'e \<Rightarrow> int"
  assumes select_part: "mset (select es c) \<subseteq># mset es"
    and select_fits: "select es c = [] \<or> sum_list (map amount (select es c)) \<le> c"
    and select_greedy: "\<forall>x\<in>set es. 0 \<le> amount x \<Longrightarrow> mset es = mset (select es c) + N \<Longrightarrow> x \<in># N \<Longrightarrow>
      c < sum_list (map amount (select es c)) + amount x"
begin

lemma select_subset: "set (select es c) \<subseteq> set es"
  using set_mset_mono [OF select_part] by simp

lemma select_length: "length (select es c) \<le> length es"
  using size_mset_mono [OF select_part, of es c] by simp

lemma part_sum: "mset xs \<subseteq># mset es \<Longrightarrow> \<forall>x\<in>set es. 0 \<le> amount x \<Longrightarrow>
  sum_list (map amount xs) \<le> sum_list (map amount es)"
proof -
  assume part: "mset xs \<subseteq># mset es" and nn: "\<forall>x\<in>set es. 0 \<le> amount x"
  obtain zs where zs: "mset es = mset xs + mset zs"
    using part by (metis ex_mset subset_mset.le_iff_add)
  then have "sum_list (map amount es) = sum_list (map amount xs) + sum_list (map amount zs)"
    by (metis map_append mset_append mset_map sum_list_append sum_mset_sum_list)
  moreover have "set zs \<subseteq> set es" using zs by (metis set_mset_mset set_mset_union sup_ge2)
  then have "0 \<le> sum_list (map amount zs)" using nn by (intro sum_list_nonneg) auto
  ultimately show ?thesis by simp
qed

text \<open>Where all candidates fit together, all are selected.\<close>

lemma select_all:
  assumes "\<forall>x\<in>set es. 0 < amount x" "sum_list (map amount es) \<le> c"
  shows "mset (select es c) = mset es"
proof -
  obtain zs where zs: "mset es = mset (select es c) + mset zs"
    using select_part by (metis ex_mset subset_mset.le_iff_add)
  have tot: "sum_list (map amount es) = sum_list (map amount (select es c)) + sum_list (map amount zs)"
    using zs by (metis map_append mset_append mset_map sum_list_append sum_mset_sum_list)
  have "zs = []"
  proof (rule ccontr)
    assume "zs \<noteq> []"
    then obtain z zs' where Cons: "zs = z # zs'" by (cases zs) auto
    have sub: "set zs \<subseteq> set es" using zs by (metis set_mset_mset set_mset_union sup_ge2)
    have "0 \<le> sum_list (map amount zs')"
      by (rule sum_list_nonneg) (use assms(1) sub Cons in fastforce)
    then have "sum_list (map amount (select es c)) + amount z \<le> c" using tot assms(2) Cons by simp
    moreover have "c < sum_list (map amount (select es c)) + amount z"
      by (rule select_greedy [OF _ zs]) (use assms(1) Cons in \<open>auto simp: less_imp_le\<close>)
    ultimately show False by simp
  qed
  then show ?thesis using zs by simp
qed

end

interpretation cap: capacity_selector selectWithinCapacity amountRaw
proof
  fix es :: "evidence list" and c :: int
  obtain ys zs where ys: "selectWithinCapacity es c = js_sort compareEvidence ys"
    "mset es = mset ys + mset zs" "ys = [] \<or> sumRaw ys \<le> c"
    "(\<forall>x\<in>set es. 0 \<le> amountRaw x) \<longrightarrow> (\<forall>z\<in>set zs. c < sumRaw ys + amountRaw z)"
    by (rule selectWithinCapacity_filled [of es c])
  show "mset (selectWithinCapacity es c) \<subseteq># mset es" using ys(1,2) by simp
  show "selectWithinCapacity es c = [] \<or> sum_list (map amountRaw (selectWithinCapacity es c)) \<le> c"
    using ys(1,3) by (auto simp: sumRaw_sum_list)
  show "c < sum_list (map amountRaw (selectWithinCapacity es c)) + amountRaw x"
    if "\<forall>x\<in>set es. 0 \<le> amountRaw x" "mset es = mset (selectWithinCapacity es c) + N" "x \<in># N" for x N
    using ys(1,2,4) that by (auto simp: sumRaw_sum_list)
qed

lemma subseq_mset: "subseq ys xs \<Longrightarrow> mset ys \<subseteq># mset xs"
  by (induction rule: list_emb.induct) (auto intro: subset_mset.order_trans)

lemma subseq_sorted_wrt: "subseq ys xs \<Longrightarrow> sorted_wrt P xs \<Longrightarrow> sorted_wrt P ys"
  by (induction rule: list_emb.induct) (auto dest: list_emb_set)

lemma selectWithinCapacity_subseq:
  assumes "\<forall>e\<in>set es. is_atomic e"
  shows "subseq (selectWithinCapacity es c) (js_sort compareEvidence es)"
    and "sorted_wrt (\<lambda>a b. compareEvidence a b \<le> 0) (selectWithinCapacity es c)"
proof -
  obtain ys where ys: "selectWithinCapacity es c = js_sort compareEvidence ys"
    "subseq ys (js_sort compareEvidence es)"
    by (rule selectWithinCapacity_filled [of es c])
  have "sorted_wrt (\<lambda>a b. compareEvidence a b \<le> 0) ys"
    by (rule subseq_sorted_wrt [OF ys(2) ev.sorted_js_sort [OF assms]])
  then have "selectWithinCapacity es c = ys" using ys(1) ev.js_sort_sorted by simp
  with ys(2) \<open>sorted_wrt _ ys\<close>
  show "subseq (selectWithinCapacity es c) (js_sort compareEvidence es)"
    and "sorted_wrt (\<lambda>a b. compareEvidence a b \<le> 0) (selectWithinCapacity es c)" by simp_all
qed

section \<open>The fixed point loop\<close>

text \<open>The entries the loop works on: atomic, in order, identified.\<close>

definition loop_ok :: "evidence list \<Rightarrow> bool" where
  "loop_ok es \<longleftrightarrow> (\<forall>e\<in>set es. is_atomic e \<and> join_id e \<noteq> [])
     \<and> sorted_wrt (\<lambda>a b. compareEvidence a b \<le> 0) es"

lemma capacity_step_ok:
  assumes "loop_ok es"
  shows "subseq (capacity_step fs b es) es" "loop_ok (capacity_step fs b es)"
proof -
  have at: "\<forall>e\<in>set es. is_atomic e" using assms by (simp add: loop_ok_def)
  have "js_sort compareEvidence es = es"
    by (rule ev.js_sort_sorted) (use assms in \<open>simp add: loop_ok_def\<close>)
  then show sub: "subseq (capacity_step fs b es) es"
    using selectWithinCapacity_subseq(1) [OF at] by (simp add: capacity_step_def)
  show "loop_ok (capacity_step fs b es)"
    using assms selectWithinCapacity_subseq(2) [OF at] cap.select_subset
    by (auto simp: loop_ok_def capacity_step_def dest: subsetD [OF cap.select_subset])
qed

lemma length_js_join: "length (js_join [c] xs) = sum_list (map (\<lambda>x. Suc (length x)) xs) - 1"
  by (induction "[c]" xs rule: js_join.induct) auto

text \<open>Dropping an entry shortens the fingerprint, so equal fingerprints mean equal entries.\<close>

lemma fingerprint_subseq:
  assumes "subseq ys xs" "\<forall>e\<in>set xs. join_id e \<noteq> []" "fingerprint ys = fingerprint xs"
  shows "ys = xs"
proof (rule ccontr)
  assume ne: "ys \<noteq> xs"
  let ?w = "\<lambda>es. sum_list (map (\<lambda>e. Suc (length (join_id e))) es)"
  have two: "2 \<le> Suc (length (join_id e))" if "e \<in> set xs" for e
    using assms(2) that by (cases "join_id e") auto
  have "?w ys + 2 \<le> ?w xs" using assms(1) ne two
  proof (induction rule: list_emb.induct)
    case (list_emb_Nil zs)
    show ?case
    proof (cases zs)
      case (Cons a l)
      then show ?thesis using list_emb_Nil.prems(2) [of a] by simp
    qed (use list_emb_Nil.prems in simp)
  next
    case (list_emb_Cons ys zs z)
    show ?case
    proof (cases "ys = zs")
      case False
      have "?w ys + 2 \<le> ?w zs" by (rule list_emb_Cons.IH [OF False]) (use list_emb_Cons.prems in auto)
      then show ?thesis by simp
    qed (use list_emb_Cons.prems(2) [of z] in simp)
  next
    case (list_emb_Cons2 y z ys zs)
    then have "?w ys + 2 \<le> ?w zs" by auto
    with list_emb_Cons2.hyps(1) show ?case by simp
  qed
  moreover have "length (fingerprint ys) = length (fingerprint xs)" using assms(3) by simp
  ultimately show False by (simp add: fingerprint_def length_js_join comp_def)
qed

lemma capacity_loop_ends:
  assumes "loop_ok es" "prev = None \<or> prev = Some (fingerprint es)"
  shows "\<exists>r. capacity_loop fs b es prev = Some r \<and> subseq r es \<and> loop_ok r \<and> (r = [] \<or> capacity_step fs b r = r)"
  using assms
proof (induction "length es" arbitrary: es prev rule: less_induct)
  case less
  define es' where "es' = capacity_step fs b es"
  note step = capacity_step_ok [OF less.prems(1), of fs b, folded es'_def]
  have unfold: "capacity_loop fs b es prev = (if es = [] then Some []
     else if Some (fingerprint es') = prev then Some es' else capacity_loop fs b es' (Some (fingerprint es')))" for prev
    by (subst capacity_loop.simps) (simp add: es'_def Let_def)
  show ?case
  proof (cases "es = []")
    case True
    then have "capacity_loop fs b es prev = Some []" by (subst capacity_loop.simps) simp
    then show ?thesis using less.prems(1) True by simp
  next
    case ne: False
    show ?thesis
    proof (cases "es' = es")
      case True
      then have "capacity_loop fs b es prev = Some es"
        using ne less.prems(2) by (auto simp: unfold [of prev] unfold [of "Some (fingerprint es)"])
      then show ?thesis using True less.prems(1) by (simp add: es'_def)
    next
      case False
      have "length es' < length es"
        using step(1) False by (metis list_emb_length subseq_same_length order_le_imp_less_or_eq)
      moreover have "Some (fingerprint es') \<noteq> prev"
        using less.prems False fingerprint_subseq [OF step(1)] by (auto simp: loop_ok_def)
      ultimately show ?thesis
        using less.hyps [of es' "Some (fingerprint es')"] step ne unfold [of prev]
        by (auto intro: subseq_order.order_trans)
    qed
  qed
qed


section \<open>The ledger of one buyer\<close>

lemma sumRaw_filter_sort: "sumRaw (filter P (js_sort cmp es)) = sumRaw (filter P es)"
proof -
  have "mset (filter P (js_sort cmp es)) = mset (filter P es)" by (simp only: mset_filter mset_js_sort)
  from arg_cong [OF this, of "\<lambda>m. sum_mset (image_mset amountRaw m)"] show ?thesis
    by (simp only: sumRaw_sum_list flip: sum_mset_sum_list mset_map)
qed

lemma fundedBefore_sort [simp]: "fundedBefore (js_sort cmp fs) s = fundedBefore fs s"
  by (simp add: fundedBefore_def sumRaw_filter_sort)

lemma latest_in: "es \<noteq> [] \<Longrightarrow> latest_evidence es \<in> set es"
proof -
  have "foldl (\<lambda>m x. if compareEvidence m x < 0 then x else m) a xs \<in> insert a (set xs)" for a xs
    by (induction xs arbitrary: a) auto
  then show "es \<noteq> [] \<Longrightarrow> latest_evidence es \<in> set es"
    by (cases es) (auto simp: latest_evidence_def dest: spec)
qed

text \<open>A fixed point of the loop satisfies the ledger inequality of the predicate.\<close>

lemma fixed_point_ledger:
  assumes "capacity_step fs b r = r" "r \<noteq> []" "0 < sumRaw r"
  shows "(sumRaw r + b) * 10000 \<le> fundedBefore fs (latest_evidence r) * (10000 + EPSILON_LEDGER_BPS)"
proof -
  let ?f = "fundedBefore fs (latest_evidence r) * (10000 + EPSILON_LEDGER_BPS)"
  have "sumRaw r \<le> availableRaw (fundedBefore fs (latest_evidence r)) b"
    using cap.select_fits [of r "availableRaw (fundedBefore fs (latest_evidence r)) b"] assms(1,2)
    by (simp add: capacity_step_def sumRaw_sum_list)
  then have "sumRaw r + b \<le> ?f div 10000"
    using assms(3) by (simp add: availableRaw_def Let_def split: if_splits)
  then show ?thesis by (simp add: floor_div_galois)
qed

lemma buyer_eligible_ok:
  assumes "buyer_eligible fundingByBuyer balances (b, vs) = Inr r"
    and "\<forall>e\<in>set vs. is_atomic e \<and> join_id e \<noteq> [] \<and> 0 < amountRaw e"
  shows "mset r \<subseteq># mset vs"
    and "r \<noteq> [] \<Longrightarrow> \<exists>balanceEnd. map_of balances b = Some balanceEnd \<and>
      (\<exists>s\<in>set r. (sumRaw r + balanceEnd) * 10000
        \<le> fundedBefore (get_list fundingByBuyer b) s * (10000 + EPSILON_LEDGER_BPS))"
proof -
  let ?fs = "get_list fundingByBuyer b"
  obtain balanceEnd where bal: "map_of balances b = Some balanceEnd"
    and loop: "capacity_loop (js_sort compareEvidence ?fs) balanceEnd (js_sort compareEvidence vs) None = Some r"
    using assms(1) by (auto simp: buyer_eligible_def Let_def split: option.splits)
  have "loop_ok (js_sort compareEvidence vs)"
    using assms(2) ev.sorted_js_sort [of vs] by (auto simp: loop_ok_def)
  from capacity_loop_ends [OF this, of None "js_sort compareEvidence ?fs" balanceEnd] loop
  have r: "subseq r (js_sort compareEvidence vs)" "r = [] \<or> capacity_step (js_sort compareEvidence ?fs) balanceEnd r = r"
    by auto
  then show part: "mset r \<subseteq># mset vs" using subseq_mset by fastforce
  show "\<exists>balanceEnd. map_of balances b = Some balanceEnd \<and>
      (\<exists>s\<in>set r. (sumRaw r + balanceEnd) * 10000 \<le> fundedBefore ?fs s * (10000 + EPSILON_LEDGER_BPS))" if "r \<noteq> []"
  proof -
    have "\<forall>e\<in>set r. 0 < amountRaw e" using assms(2) set_mset_mono [OF part] by auto
    moreover have "0 \<le> sum_list (map amountRaw (tl r))"
      by (rule sum_list_nonneg) (use \<open>\<forall>e\<in>set r. 0 < amountRaw e\<close> that in \<open>auto simp: less_imp_le dest: list.set_sel(2)\<close>)
    ultimately have "0 < sumRaw r" using that by (cases r) (auto simp: sumRaw_sum_list)
    with fixed_point_ledger r(2) that latest_in bal show ?thesis by (metis fundedBefore_sort)
  qed
qed

text \<open>Of several groups with different keys, the entries of one key are those of its group.\<close>

lemma filter_groups:
  assumes "list_all2 (\<lambda>g r. \<forall>e\<in>set r. key e = fst g) gs rs" "distinct (map fst gs)"
  shows "filter (\<lambda>e. key e = k) (concat rs) =
    get_list (zip (map fst gs) rs) k"
  using assms
proof (induction rule: list_all2_induct)
  case (Cons g gs r rs)
  have "map_of (zip (map fst gs) rs) (fst g) = None"
    using Cons.prems by (auto simp: map_of_eq_None_iff dest: set_zip_leftD)
  with Cons show ?case
    by (cases "fst g = k") (auto simp: get_list_def filter_id_conv filter_empty_conv)
qed (simp add: get_list_def)


lemma groupBy_entry: "(k, vs) \<in> set (groupBy key xs) \<Longrightarrow> set vs \<subseteq> set xs \<and> (\<forall>e\<in>set vs. key e = k)"
  by (auto dest: groupBy_group)

lemma ledger_groups:
  assumes "res_map (buyer_eligible F B) (groupBy buyer_of es) = Inr rs"
    and "\<forall>e\<in>set es. is_atomic e \<and> join_id e \<noteq> [] \<and> 0 < amountRaw e"
    and "e \<in> set (concat rs)"
  obtains r vs where "filter (\<lambda>x. buyer_of x = buyer_of e) (concat rs) = r" "r \<noteq> []" "set vs \<subseteq> set es"
    "buyer_eligible F B (buyer_of e, vs) = Inr r" "\<forall>x\<in>set vs. buyer_of x = buyer_of e" "mset r \<subseteq># mset vs"
proof -
  let ?gs = "groupBy buyer_of es"
  have all: "list_all2 (\<lambda>g r. buyer_eligible F B g = Inr r) ?gs rs"
    using assms(1) by (simp add: res_map_Inr_iff)
  have keyed: "mset r \<subseteq># mset (snd g) \<and> (\<forall>x\<in>set r. buyer_of x = fst g) \<and> set (snd g) \<subseteq> set es"
    if "g \<in> set ?gs" "buyer_eligible F B g = Inr r" for g r
  proof -
    have g: "set (snd g) \<subseteq> set es" "\<forall>x\<in>set (snd g). buyer_of x = fst g"
      using groupBy_entry [of "fst g" "snd g" buyer_of es] that(1) by simp_all
    have "mset r \<subseteq># mset (snd g)"
      by (rule buyer_eligible_ok(1) [of F B "fst g"]) (use that g(1) assms(2) in auto)
    with g show ?thesis using set_mset_mono [of "mset r" "mset (snd g)"] by auto
  qed
  have groups: "filter (\<lambda>x. buyer_of x = k) (concat rs) = get_list (zip (map fst ?gs) rs) k" for k
  proof (rule filter_groups)
    show "list_all2 (\<lambda>g r. \<forall>e\<in>set r. buyer_of e = fst g) ?gs rs"
      using all by (rule list.rel_mono_strong) (use keyed in blast)
  qed simp
  have len: "length ?gs = length rs" using all by (rule list_all2_lengthD)
  obtain r where "r \<in> set rs" and er: "e \<in> set r" using assms(3) by auto
  then obtain i where i: "i < length rs" "rs ! i = r" by (auto simp: in_set_conv_nth)
  define g where "g = ?gs ! i"
  have gr: "(g, r) \<in> set (zip ?gs rs)" "e \<in> set r"
    using nth_mem [of i "zip ?gs rs"] i len er by (simp_all add: g_def)
  then have g: "g \<in> set ?gs" "buyer_eligible F B g = Inr r"
    using all by (auto simp: list_all2_iff dest: set_zip_leftD)
  with keyed gr(2) have k: "fst g = buyer_of e" by auto
  have "(buyer_of e, r) \<in> set (zip (map fst ?gs) rs)"
    using nth_mem [of i "zip (map fst ?gs) rs"] i len k by (simp add: g_def del: groupBy_keys)
  then have "map_of (zip (map fst ?gs) rs) (buyer_of e) = Some r"
    using len map_fst_zip [of "map fst ?gs" rs] by (intro map_of_is_SomeI) (simp_all del: groupBy_keys, simp)
  then have "filter (\<lambda>x. buyer_of x = buyer_of e) (concat rs) = r" by (simp add: groups get_list_def)
  moreover have "r \<noteq> []" using gr(2) by auto
  ultimately show ?thesis
    using that [of r "snd g"] g k keyed [OF g] groupBy_entry [of "fst g" "snd g" buyer_of es]
    by (metis prod.collapse)
qed

lemma within_maximum_part: "mset (within_maximum es m) \<subseteq># mset es"
  by (cases m) (simp_all add: within_maximum_def cap.select_part)

lemma close_selection_Some:
  assumes "close_selection mode es req appr = Some sel"
  shows "settlements sel = es" "set (selectedBuyers sel) = buyer_of ` set es" "volumeRaw sel = sumRaw es"
    "es \<noteq> []" "set req \<subseteq> buyer_of ` set es" "appr = None \<or> appr = Some (sumRaw es)"
  using assms by (auto simp: close_selection_def Let_def split: if_splits)

section \<open>Properties\<close>

text \<open>The greedy selection within a capacity takes a part of the settlements that fits the capacity,
  and every settlement it leaves out would exceed it.\<close>

theorem capacity_selection_greedy:
  assumes "\<forall>e\<in>set es. 0 \<le> amountRaw e"
  shows "(selectWithinCapacity es capacity = [] \<or> sumRaw (selectWithinCapacity es capacity) \<le> capacity)
    \<and> mset (selectWithinCapacity es capacity) \<subseteq># mset es
    \<and> (\<forall>e. e \<in># mset es - mset (selectWithinCapacity es capacity) \<longrightarrow>
          capacity < sumRaw (selectWithinCapacity es capacity) + amountRaw e)"
proof -
  let ?s = "selectWithinCapacity es capacity"
  have "mset es = mset ?s + (mset es - mset ?s)" using cap.select_part by simp
  then show ?thesis
    using cap.select_fits [of es capacity] cap.select_part [of es capacity] cap.select_greedy [OF assms]
    unfolding sumRaw_sum_list by blast
qed

text \<open>C8: The ledger-aware selection satisfies the ledger inequality of the predicate: for every
  selected buyer, what is selected and the buyer's period-end balance together stay within 105%
  of the funding the buyer received before one of the buyer's settlements, a selected one when
  no maximum volume is set.\<close>

theorem ledger_selection_safe:
  assumes "selectLedgerAwareSettlements entries fundingByBuyer balances fixed required approved maximum = Inr (Some sel)"
    and "\<forall>e\<in>set entries. is_atomic e \<and> join_id e \<noteq> [] \<and> 0 < amountRaw e"
    and "b \<in> set (selectedBuyers sel)"
  shows "\<exists>balanceEnd s. map_of balances b = Some balanceEnd \<and> s \<in> set entries \<and> buyer_of s = b
     \<and> (maximum = None \<longrightarrow> s \<in> set (settlements sel))
     \<and> (sumRaw (filter (\<lambda>e. buyer_of e = b) (settlements sel)) + balanceEnd) * 10000
         \<le> fundedBefore (get_list fundingByBuyer b) s * (10000 + EPSILON_LEDGER_BPS)"
proof -
  let ?es = "filter (\<lambda>entry. buyer_of entry \<in> set (map fst fundingByBuyer)) entries"
  obtain rs where rs: "res_map (buyer_eligible fundingByBuyer balances) (groupBy buyer_of ?es) = Inr rs"
    and close: "close_selection ''authenticated-ledger-capacity''
       (within_maximum (js_sort compareEvidence (concat rs)) maximum) required approved = Some sel"
    using assms(1) by (auto simp: selectLedgerAwareSettlements_def split: sum.splits)
  note sel = close_selection_Some [OF close]
  have part: "mset (settlements sel) \<subseteq># mset (concat rs)"
    using within_maximum_part [of "js_sort compareEvidence (concat rs)" maximum] sel(1) by simp
  have ent: "\<forall>e\<in>set ?es. is_atomic e \<and> join_id e \<noteq> [] \<and> 0 < amountRaw e" using assms(2) by simp
  obtain e where e: "e \<in> set (settlements sel)" "buyer_of e = b"
    using assms(3) sel(1,2) by auto
  then have "e \<in> set (concat rs)" using set_mset_mono [OF part] by auto
  then obtain r vs where r: "filter (\<lambda>x. buyer_of x = buyer_of e) (concat rs) = r" "r \<noteq> []" "set vs \<subseteq> set ?es"
    "buyer_eligible fundingByBuyer balances (buyer_of e, vs) = Inr r" "\<forall>x\<in>set vs. buyer_of x = buyer_of e"
    "mset r \<subseteq># mset vs"
    by (rule ledger_groups [OF rs ent])
  obtain balanceEnd s where bal: "map_of balances b = Some balanceEnd" and s: "s \<in> set r"
    "(sumRaw r + balanceEnd) * 10000 \<le> fundedBefore (get_list fundingByBuyer b) s * (10000 + EPSILON_LEDGER_BPS)"
  proof -
    have "\<forall>e\<in>set vs. is_atomic e \<and> join_id e \<noteq> [] \<and> 0 < amountRaw e" using r(3) ent by blast
    from buyer_eligible_ok(2) [OF r(4) this r(2)] that e(2) show thesis by blast
  qed
  have svs: "s \<in> set vs" using s(1) set_mset_mono [OF r(6)] by auto
  have "mset (filter (\<lambda>e. buyer_of e = b) (settlements sel)) \<subseteq># mset r"
    using multiset_filter_mono [OF part, of "\<lambda>e. buyer_of e = b"] r(1) e(2) by (metis mset_filter)
  then have "sumRaw (filter (\<lambda>e. buyer_of e = b) (settlements sel)) \<le> sumRaw r"
    unfolding sumRaw_sum_list
    by (rule cap.part_sum) (use r(3) ent set_mset_mono [OF r(6)] in \<open>auto simp: less_imp_le subset_iff\<close>)
  moreover have "s \<in> set (settlements sel)" if "maximum = None"
    using that sel(1) s(1) r(1) by (auto simp: within_maximum_def)
  moreover have "s \<in> set entries" "buyer_of s = b" using svs r(3,5) e(2) by auto
  ultimately show ?thesis using bal s(2) by (smt (verit, best) mult_right_mono)
qed


text \<open>C9: For atomic, identified settlements the ledger-aware selection always returns: its loop ends,
  and it throws only for a fixed block before the supported history or for a funded buyer without
  a period-end balance.\<close>

theorem ledger_selection_returns:
  assumes "\<forall>e\<in>set entries. is_atomic e \<and> join_id e \<noteq> []"
  shows "(case selectLedgerAwareSettlements entries fundingByBuyer balances fixed required approved maximum of
      Inr _ \<Rightarrow> True
    | Inl e \<Rightarrow> (\<exists>blk\<in>set fixed. authenticationGroup (Some blk) = Inl e)
        \<or> (\<exists>s\<in>set entries. map_of balances (buyer_of s) = None
             \<and> e = Error (''missing period-end ledger balance for '' @ buyer_of s)))"
proof -
  have err: "\<exists>x\<in>set xs. f x = Inl e" if "res_map f xs = Inl e" for f :: "'a \<Rightarrow> 'b res" and xs e
    using that by (induction xs) (auto split: sum.splits)
  let ?es = "filter (\<lambda>entry. buyer_of entry \<in> set (map fst fundingByBuyer)) entries"
  have "\<exists>s\<in>set entries. map_of balances (buyer_of s) = None
      \<and> e = Error (''missing period-end ledger balance for '' @ buyer_of s)"
    if "(b, vs) \<in> set (groupBy buyer_of ?es)" "buyer_eligible fundingByBuyer balances (b, vs) = Inl e" for b vs e
  proof -
    have vs: "set vs \<subseteq> set ?es" "\<forall>x\<in>set vs. buyer_of x = b" "vs \<noteq> []"
      using groupBy_entry [OF that(1)] groupBy_group [OF that(1)] by auto
    have ok: "loop_ok (js_sort compareEvidence vs)"
      using assms vs(1) ev.sorted_js_sort [of vs] by (auto simp: loop_ok_def subset_iff)
    have "map_of balances b = None"
    proof (rule ccontr)
      assume "map_of balances b \<noteq> None"
      then obtain balanceEnd where "map_of balances b = Some balanceEnd" by auto
      moreover obtain r where "capacity_loop (js_sort compareEvidence (get_list fundingByBuyer b)) balanceEnd
          (js_sort compareEvidence vs) None = Some r"
        using capacity_loop_ends [OF ok, of None] by blast
      ultimately show False using that(2) by (simp add: buyer_eligible_def Let_def)
    qed
    moreover from this that(2) have "e = Error (''missing period-end ledger balance for '' @ b)"
      by (simp add: buyer_eligible_def)
    moreover obtain s where "s \<in> set vs" using vs(3) by (cases vs) auto
    ultimately show ?thesis using vs(1,2) by auto
  qed
  then show ?thesis
    by (auto simp: selectLedgerAwareSettlements_def split: sum.split dest!: err)
qed

text \<open>The settlement capacity of the return evidence is exactly the largest volume that it covers:
  a volume qualifies if and only if it is within the capacity.\<close>

theorem return_capacity_covers:
  assumes "returnSettlementCapacity closure target = Inr (Some capacity)"
    and "0 < target" and "int (length closure) \<le> MAX_RETURN_PATHS"
  shows "returnCoverageQualifies closure volume target = Inr (volume \<le> capacity)"
proof -
  from assms(1,3) obtain returned where r: "closureReturned closure = Inr returned"
    and c: "capacity = returned * 10000 div target" and ne: "closure \<noteq> []"
    by (auto simp: returnSettlementCapacity_def split: if_splits sum.splits)
  have "volume \<le> capacity \<longleftrightarrow> volume * target \<le> returned * 10000"
    unfolding c by (rule floor_div_galois [OF assms(2)])
  with r ne assms(3) show ?thesis by (simp add: returnCoverageQualifies_def)
qed

section \<open>Witnesses\<close>

definition ex_settle :: "string \<Rightarrow> int \<Rightarrow> int \<Rightarrow> evidence" where
  "ex_settle i blk amt = of_transfer (blank\<lparr>evidenceType := SETTLEMENT, blockNumber := Some blk,
     transactionIndex := Some 0, logIndex := Some 0, buyer := Some ''b'', seller := Some ''s'',
     amountRaw := amt, dependencyId := Some i\<rparr>)"

definition ex_fund :: "string \<Rightarrow> int \<Rightarrow> int \<Rightarrow> evidence" where
  "ex_fund i blk amt = of_transfer (blank\<lparr>evidenceType := USDC_FUNDING, blockNumber := Some blk,
     transactionIndex := Some 0, logIndex := Some 0, buyer := Some ''b'', funder := Some ''f'',
     amountRaw := amt, dependencyId := Some i\<rparr>)"

definition ex_settles :: "evidence list" where
  "ex_settles = [ex_settle ''0x1'' 44469600 60, ex_settle ''0x2'' 44469601 50, ex_settle ''0x3'' 44469602 40]"

definition ex_fundings :: fundings where
  "ex_fundings = [(''b'', [ex_fund ''0xf'' 44469590 100])]"

lemma ex_settles_ok: "\<forall>e\<in>set ex_settles. is_atomic e \<and> join_id e \<noteq> [] \<and> 0 < amountRaw e"
  by (simp add: ex_settles_def ex_settle_def is_atomic_def join_id_def)

theorem capacity_selection_greedy_witness:
  "\<forall>e. e \<in># mset ex_settles - mset (selectWithinCapacity ex_settles 100) \<longrightarrow>
     100 < sumRaw (selectWithinCapacity ex_settles 100) + amountRaw e"
  using capacity_selection_greedy [of ex_settles 100] ex_settles_ok by (auto simp: less_imp_le)

theorem ledger_selection_safe_witness:
  "\<exists>sel. selectLedgerAwareSettlements ex_settles ex_fundings [(''b'', 3)] [] [] None None = Inr (Some sel)
     \<and> (\<exists>balanceEnd s. map_of [(''b'', 3)] ''b'' = Some balanceEnd \<and> s \<in> set ex_settles \<and> buyer_of s = ''b''
     \<and> ((None :: int option) = None \<longrightarrow> s \<in> set (settlements sel))
     \<and> (sumRaw (filter (\<lambda>e. buyer_of e = ''b'') (settlements sel)) + balanceEnd) * 10000
         \<le> fundedBefore (get_list ex_fundings ''b'') s * (10000 + EPSILON_LEDGER_BPS))"
proof -
  let ?r = "selectLedgerAwareSettlements ex_settles ex_fundings [(''b'', 3)] [] [] None None"
  have "(case ?r of Inr (Some sel) \<Rightarrow> ''b'' \<in> set (selectedBuyers sel) | _ \<Rightarrow> False)" by code_simp
  then obtain sel where sel: "?r = Inr (Some sel)" "''b'' \<in> set (selectedBuyers sel)"
    by (auto split: sum.splits option.splits)
  from sel(1) ledger_selection_safe [OF sel(1) ex_settles_ok sel(2)] show ?thesis by blast
qed

theorem ledger_selection_returns_witness:
  "(case selectLedgerAwareSettlements ex_settles ex_fundings [] [] [] None None of
      Inr _ \<Rightarrow> True
    | Inl e \<Rightarrow> (\<exists>blk\<in>set []. authenticationGroup (Some blk) = Inl e)
        \<or> (\<exists>s\<in>set ex_settles. map_of ([] :: balances) (buyer_of s) = None
             \<and> e = Error (''missing period-end ledger balance for '' @ buyer_of s)))"
  by (rule ledger_selection_returns) (use ex_settles_ok in blast)

theorem return_capacity_covers_witness:
  "returnCoverageQualifies ex_cands 100 3000 = Inr (100 \<le> (100::int))"
proof (rule return_capacity_covers)
  show "returnSettlementCapacity ex_cands 3000 = Inr (Some 100)" by code_simp
  show "int (length ex_cands) \<le> MAX_RETURN_PATHS" by code_simp
qed simp

end
