(* ===== verification/Planner.thy ===== *)
theory Planner
  imports Bundle Ledger_Selection
begin

text \<open>
  The planning of a claim in \<open>scripts/proof-planner.mjs\<close>: from the authenticated
  dependencies of a claim, \<open>planClaim\<close> selects the evidence to prove. A closed loop is
  planned per funder (\<open>buildCohortStrategy\<close>) and the cheapest strategy is taken
  (\<open>planCohort\<close>); a reciprocal claim takes all its settlements (\<open>planReciprocal\<close>).
\<close>

section \<open>Cost\<close>

record cost =
  windows :: nat
  atomCount :: nat
  witnessBytes :: nat
  costText :: string

definition costTuple :: "evidence list \<Rightarrow> cost res" where
  "costTuple es =
     (let atomic = concat (map atomicEvidence es) in
      res_bind (res_map (\<lambda>e. authenticationGroup (blockNumber e)) atomic) (\<lambda>groups.
        Inr \<lparr>windows = length (js_set groups), atomCount = length atomic,
             witnessBytes = foldl (\<lambda>total e. total + length (stringify (evidence_json e))) 0 es,
             costText = canonicalEvidence es\<rparr>))"

definition compareCost :: "cost \<Rightarrow> cost \<Rightarrow> int" where
  "compareCost l r =
     or_else (int (windows l) - int (windows r))
       (or_else (int (atomCount l) - int (atomCount r))
         (or_else (int (witnessBytes l) - int (witnessBytes r))
           (localeCompare (costText l) (costText r))))"

definition cost_join :: "cost \<Rightarrow> string" where
  "cost_join c = js_join ''/'' [show_nat (windows c), show_nat (atomCount c), show_nat (witnessBytes c), costText c]"

text \<open>
  \<open>compareRelayPath\<close> on the costs of two paths. \<open>find\<close> returns the left value that
  differs, not the difference; it is positive for every path.
\<close>

definition compareRelayCost :: "cost \<Rightarrow> cost \<Rightarrow> int" where
  "compareRelayCost l r =
     (if windows l \<noteq> windows r then int (windows l)
      else if atomCount l \<noteq> atomCount r then int (atomCount l)
      else if witnessBytes l \<noteq> witnessBytes r then int (witnessBytes l)
      else localeCompare (costText l) (costText r))"

text \<open>Sorting calls the comparator, and with it \<open>costTuple\<close>, when there are two paths or more.\<close>

definition sort_relays :: "evidence list \<Rightarrow> evidence list res" where
  "sort_relays relays =
     (if length relays < 2 then Inr relays
      else res_bind (res_map (\<lambda>path. costTuple (atomicEvidence path)) relays) (\<lambda>costs.
        Inr (map fst (js_sort (\<lambda>l r. compareRelayCost (snd l) (snd r)) (zip relays costs)))))"

section \<open>Closures\<close>

datatype rejected_alternative =
    RejectedEvidence ev_type "string option" string
  | RejectedStrategy string cost string

definition summarizeEvidence :: "evidence \<Rightarrow> rejected_alternative" where
  "summarizeEvidence e = RejectedEvidence (evidenceType e) (dependencyId e) ''higher deterministic cost''"

definition nonSelfTransfer :: "'a transfer_scheme \<Rightarrow> bool" where
  "nonSelfTransfer e \<longleftrightarrow> from_addr e = None \<or> to_addr e = None \<or> normalize (from_addr e) \<noteq> normalize (to_addr e)"

definition in_period :: "period option \<Rightarrow> evidence list \<Rightarrow> bool" where
  "in_period p es \<longleftrightarrow> (case p of None \<Rightarrow> True
     | Some q \<Rightarrow> (\<forall>e\<in>set es. num0 (blockNumber e) \<ge> startBlock q \<and> num0 (blockNumber e) < endBlockExclusive q))"

fun relay_hops_ok :: "evidence option \<Rightarrow> evidence list \<Rightarrow> bool" where
  "relay_hops_ok prev [] = True"
| "relay_hops_ok prev (hop # rest) =
     (if amountRaw hop \<le> 0 then False
      else (case prev of None \<Rightarrow> relay_hops_ok (Some hop) rest
        | Some previous \<Rightarrow>
            (if compareEvidence previous hop \<ge> 0 \<or> num0 (timestamp hop) < num0 (timestamp previous) then False
             else if amountRaw hop * 10000 < amountRaw previous * RHO_HOP_BPS then False
             else relay_hops_ok (Some hop) rest)))"

definition validRelayPath :: "evidence \<Rightarrow> period option \<Rightarrow> bool" where
  "validRelayPath path p =
     (let hs = atomicEvidence path in
      if hs = [] \<or> length hs > 9 \<or> \<not> (\<forall>h\<in>set hs. safe (blockNumber h)) then False
      else if \<not> in_period p hs then False
      else if \<not> relay_hops_ok None hs then False
      else num0 (timestamp (last hs)) - num0 (timestamp (hd hs)) \<le> T_PATH_SECONDS)"

record closure =
  closureEvidence :: "evidence list"
  evidenceClass :: string
  closureRejected :: "rejected_alternative list"

definition direct_returns :: "evidence list \<Rightarrow> string \<Rightarrow> period option \<Rightarrow> evidence list" where
  "direct_returns deps f p =
     filter (\<lambda>e. evidenceType e = DIRECT_SELLER_FUNDER \<and> funder e = Some f \<and> amountRaw e > 0
        \<and> (\<forall>a\<in>set (atomicEvidence e). nonSelfTransfer a) \<and> in_period p (atomicEvidence e)) deps"

definition relay_ok :: "period option \<Rightarrow> evidence \<Rightarrow> bool" where
  "relay_ok p candidate \<longleftrightarrow>
     (\<forall>a\<in>set (atomicEvidence candidate). nonSelfTransfer a) \<and> validRelayPath candidate p"

definition selectClosureForFunder ::
  "evidence list \<Rightarrow> string \<Rightarrow> string option \<Rightarrow> period option \<Rightarrow> closure option res" where
  "selectClosureForFunder deps f sellerAddress p =
     (if normalize (Some f) = normalize sellerAddress
      then Inr (Some \<lparr>closureEvidence = [], evidenceClass = ''SELF_FUNDED'', closureRejected = []\<rparr>)
      else (let direct = direct_returns deps f p;
                relayCandidates = filter (\<lambda>e. evidenceType e = RELAY_PATH \<and> funder e = Some f) deps
        in res_bind (sort_relays (filter (relay_ok p) relayCandidates)) (\<lambda>relay.
             if direct @ relay = [] then Inr None
             else Inr (Some \<lparr>closureEvidence = direct @ relay,
               evidenceClass = (if direct \<noteq> [] \<and> relay \<noteq> [] then ''DIRECT_AND_RELAY''
                 else if direct \<noteq> [] then ''DIRECT_SELLER_FUNDER'' else ''RELAY_PATH''),
               closureRejected = map summarizeEvidence (filter (\<lambda>c. \<not> relay_ok p c) relayCandidates)\<rparr>))))"

definition closureOccursAfterSettlements :: "evidence list \<Rightarrow> evidence list \<Rightarrow> bool" where
  "closureOccursAfterSettlements ss closure_es =
     (case js_sort compareEvidence ss of [] \<Rightarrow> False
      | earliest # _ \<Rightarrow> (\<forall>e\<in>set (concat (map atomicEvidence closure_es)). compareEvidence e earliest > 0))"

section \<open>Cohort strategies\<close>

record funding_diagnostic =
  diagnosticBuyer :: string
  retainedRecords :: nat
  excludedLateRecords :: nat
  totalRecords :: nat
  retainedAmountRaw :: int
  excludedLateAmountRaw :: int
  totalAmountRaw :: int

record strategy =
  strategyName :: string
  strategyClosure :: closure
  strategyFunding :: "evidence list"
  strategySettlements :: "evidence list"
  strategyBuyers :: "string list"
  strategyVolume :: int
  fundingDiagnostics :: "funding_diagnostic list"
  strategyMode :: string
  strategyCost :: cost

definition group_fundings :: "evidence list \<Rightarrow> fundings" where
  "group_fundings fs = map (\<lambda>(b, records). (b, js_sort compareEvidence records)) (groupBy buyer_of fs)"

definition eligible_settlements :: "fundings \<Rightarrow> evidence list \<Rightarrow> evidence list" where
  "eligible_settlements fundingByBuyer ss =
     filter (\<lambda>e. case map_of fundingByBuyer (buyer_of e) of
         Some (f # _) \<Rightarrow> num0 (blockNumber e) > num0 (blockNumber f) | _ \<Rightarrow> False) ss"

text \<open>The return paths kept of a closure: enough for the approved volume, else as much as there is.\<close>

definition select_closure :: "closure \<Rightarrow> int option \<Rightarrow> int \<Rightarrow> closure option res" where
  "select_closure cl approvedVolumeRaw returnTargetBps =
     (if closureEvidence cl = [] then Inr (Some cl)
      else res_bind (case approvedVolumeRaw of None \<Rightarrow> closureReturned (closureEvidence cl)
                       | Some v \<Rightarrow> requiredReturnRaw v returnTargetBps) (\<lambda>targetReturnRaw.
        let selected = selectReturnEvidence (closureEvidence cl) (Some targetReturnRaw) None MAX_RETURN_PATHS []
        in if approvedVolumeRaw \<noteq> None \<and> \<not> complete selected then Inr None
           else Inr (Some (cl\<lparr>closureEvidence := selectedReturns selected\<rparr>))))"

text \<open>The latest settlement per buyer.\<close>

definition note_latest :: "(string \<times> evidence) list \<Rightarrow> evidence \<Rightarrow> (string \<times> evidence) list" where
  "note_latest m settlement =
     (case map_of m (buyer_of settlement) of
        None \<Rightarrow> AList.update (buyer_of settlement) settlement m
      | Some current \<Rightarrow> (if compareEvidence current settlement < 0
          then AList.update (buyer_of settlement) settlement m else m))"

definition latest_by_buyer :: "evidence list \<Rightarrow> (string \<times> evidence) list" where
  "latest_by_buyer ss = foldl note_latest [] ss"

definition retained_funding :: "fundings \<Rightarrow> (string \<times> evidence) list \<Rightarrow> string \<Rightarrow> evidence list" where
  "retained_funding fundingByBuyer latest b =
     filter (\<lambda>e. case map_of latest b of None \<Rightarrow> False
         | Some l \<Rightarrow> num0 (blockNumber e) < num0 (blockNumber l)) (get_list fundingByBuyer b)"

definition funding_diagnostics :: "fundings \<Rightarrow> evidence list \<Rightarrow> string \<Rightarrow> funding_diagnostic" where
  "funding_diagnostics fundingByBuyer funding b =
     (let records = get_list fundingByBuyer b;
          retained = filter (\<lambda>e. buyer_of e = b) funding;
          excludedLate = filter (\<lambda>e. e \<notin> set retained) records
      in \<lparr>diagnosticBuyer = b, retainedRecords = length retained, excludedLateRecords = length excludedLate,
          totalRecords = length records, retainedAmountRaw = sumRaw retained,
          excludedLateAmountRaw = sumRaw excludedLate, totalAmountRaw = sumRaw records\<rparr>)"

definition choose_settlements ::
  "fundings \<Rightarrow> balances option \<Rightarrow> evidence list \<Rightarrow> closure \<Rightarrow> int option \<Rightarrow> int option \<Rightarrow> selection option res" where
  "choose_settlements fundingByBuyer ledgerBalances eligible cl approvedVolumeRaw maximumVolumeRaw =
     (let fixedBlocks = map num0 (filter safe (map blockNumber (concat (map atomicEvidence (closureEvidence cl)))));
          requiredBuyers = map buyer_of (filter (\<lambda>e. evidenceType e = DIRECT_SELLER_BUYER) (closureEvidence cl))
      in case ledgerBalances of
           Some bs \<Rightarrow> selectLedgerAwareSettlements eligible fundingByBuyer bs fixedBlocks requiredBuyers
             approvedVolumeRaw maximumVolumeRaw
         | None \<Rightarrow> selectApprovedSettlements eligible (map fst fundingByBuyer) fixedBlocks requiredBuyers
             approvedVolumeRaw maximumVolumeRaw)"

text \<open>The last checks of a strategy and its record.\<close>

definition close_strategy ::
  "fundings \<Rightarrow> bool \<Rightarrow> closure \<Rightarrow> selection \<Rightarrow> int \<Rightarrow> strategy option res" where
  "close_strategy fundingByBuyer withLedger cl sel returnTargetBps =
     (if closureEvidence cl \<noteq> [] \<and> \<not> closureOccursAfterSettlements (settlements sel) (closureEvidence cl) then Inr None
      else res_bind (returnCoverageQualifies (closureEvidence cl) (volumeRaw sel) returnTargetBps) (\<lambda>covered.
        if \<not> covered then Inr None
        else (let latest = latest_by_buyer (settlements sel);
                  funding = concat (map (retained_funding fundingByBuyer latest) (selectedBuyers sel))
          in if withLedger \<and> sumRaw funding * 10000 < volumeRaw sel * ALPHA_FUND_BPS then Inr None
             else res_bind (costTuple (closureEvidence cl @ funding @ settlements sel)) (\<lambda>c.
               Inr (Some \<lparr>strategyName = ''USDC'', strategyClosure = cl, strategyFunding = funding,
                 strategySettlements = settlements sel, strategyBuyers = selectedBuyers sel,
                 strategyVolume = volumeRaw sel,
                 fundingDiagnostics = map (funding_diagnostics fundingByBuyer funding) (selectedBuyers sel),
                 strategyMode = optimizationMode sel, strategyCost = c\<rparr>)))))"

definition buildCohortStrategy ::
  "evidence list \<Rightarrow> evidence list \<Rightarrow> closure \<Rightarrow> int option \<Rightarrow> balances option \<Rightarrow> int \<Rightarrow> strategy option res" where
  "buildCohortStrategy fs ss cl approvedVolumeRaw ledgerBalances returnTargetBps =
     (let fundingByBuyer = group_fundings fs;
          eligible = eligible_settlements fundingByBuyer ss
      in if fundingByBuyer = [] \<or> eligible = [] then Inr None
         else res_bind (select_closure cl approvedVolumeRaw returnTargetBps) (\<lambda>kept.
           case kept of None \<Rightarrow> Inr None
           | Some cl' \<Rightarrow>
               res_bind (returnSettlementCapacity (closureEvidence cl') returnTargetBps) (\<lambda>maximumVolumeRaw.
               res_bind (choose_settlements fundingByBuyer ledgerBalances eligible cl' approvedVolumeRaw maximumVolumeRaw)
                 (\<lambda>selected. case selected of None \<Rightarrow> Inr None
                  | Some sel \<Rightarrow> close_strategy fundingByBuyer (ledgerBalances \<noteq> None) cl' sel returnTargetBps))))"

definition nth_opt :: "'a list \<Rightarrow> nat \<Rightarrow> 'a option" where
  "nth_opt xs i = (if i < length xs then Some (xs ! i) else None)"

definition cohort_fundings :: "claim \<Rightarrow> evidence list \<Rightarrow> evidence list" where
  "cohort_fundings c deps = filter (\<lambda>e. evidenceType e = USDC_FUNDING
     \<and> buyer e \<in> Some ` set (approvedBuyers c) \<and> funder e \<in> Some ` set (approvedFunders c)) deps"

definition cohort_settlements :: "claim \<Rightarrow> evidence list \<Rightarrow> evidence list" where
  "cohort_settlements c deps =
     filter (\<lambda>e. evidenceType e = SETTLEMENT \<and> buyer e \<in> Some ` set (approvedBuyers c)) deps"

definition funder_of :: "evidence \<Rightarrow> string" where
  "funder_of e = js_String (funder e)"

definition buildCohortStrategies ::
  "claim \<Rightarrow> evidence list \<Rightarrow> period option \<Rightarrow> balances option \<Rightarrow> bool \<Rightarrow> int \<Rightarrow> strategy list res" where
  "buildCohortStrategies c deps p ledgerBalances allowLedgerSelection returnTargetBps =
     (let fs = cohort_fundings c deps;
          ss = cohort_settlements c deps;
          funderGroups = sort_strings (js_set (map funder_of fs))
      in res_bind (res_map (\<lambda>selectedFunder.
           res_bind (selectClosureForFunder deps selectedFunder (nth_opt (subjects c) 0) p) (\<lambda>found.
             case found of None \<Rightarrow> Inr []
             | Some cl \<Rightarrow>
                 res_bind (buildCohortStrategy (filter (\<lambda>e. funder_of e = selectedFunder) fs) ss cl
                     (if allowLedgerSelection then None else Option.bind (claim_metrics c) qualifiedVolumeRaw)
                     ledgerBalances returnTargetBps) (\<lambda>candidate.
                   case candidate of None \<Rightarrow> Inr [] | Some s \<Rightarrow> Inr [s])))
         funderGroups) (\<lambda>lists. Inr (concat lists)))"


section \<open>Plans\<close>

record cohort_details =
  selectionReason :: string
  rejectedAlternatives :: "rejected_alternative list"
  provenBuyerCount :: nat
  provenVolumeRaw :: int
  fundingStrategy :: string
  closureType :: string
  detailsMode :: string
  detailsDiagnostics :: "funding_diagnostic list"
  detailsTargetBps :: int
  selectionObjective :: string

record reciprocal_details =
  reciprocalReason :: string
  provenSettlementCount :: nat
  provenDirections :: nat
  reciprocalMode :: string

datatype plan_details = Cohort cohort_details | Reciprocal reciprocal_details

record plan =
  planClaimId :: "string option"
  planType :: string
  planSubjects :: "string list"
  planReportRoot :: "string option"
  planDependencyRoot :: "string option"
  selectedEvidence :: "evidence list"
  selectedBlocks :: "int list"
  materializationBlocks :: "int list"
  planCost :: cost
  details :: plan_details

definition settlement_types :: "ev_type list" where
  "settlement_types = [SETTLEMENT, RECIPROCAL_SETTLEMENT]"

text \<open>Comparing with an element of an array that may be too short: \<open>undefined\<close> equals no address.\<close>

definition is_addr :: "string option \<Rightarrow> string option \<Rightarrow> bool" where
  "is_addr x a = (case a of None \<Rightarrow> False | Some s \<Rightarrow> normalize x = Some s)"

definition volume_between :: "evidence list \<Rightarrow> string option \<Rightarrow> string option \<Rightarrow> int" where
  "volume_between ss a b = sumRaw (filter (\<lambda>e. is_addr (buyer e) a \<and> is_addr (seller e) b) ss)"

definition claim_name :: "claim \<Rightarrow> string" where
  "claim_name c = (case claimId c of None \<Rightarrow> ''undefined'' | Some i \<Rightarrow> i)"

definition validateAnalysisVolume :: "claim \<Rightarrow> evidence list \<Rightarrow> unit res" where
  "validateAnalysisVolume c selected =
     (case claim_metrics c of None \<Rightarrow> Inr ()
      | Some m \<Rightarrow>
          (let ss = filter (\<lambda>e. evidenceType e \<in> set settlement_types) selected in
           if claim_type c = ''P0_CLOSED_LOOP''
           then (case qualifiedVolumeRaw m of None \<Rightarrow> Inl TypeError
             | Some expected \<Rightarrow> require (sumRaw ss = expected)
                 (claim_name c @ '': selected settlement volume '' @ show_int (sumRaw ss)
                   @ '' does not equal approved analysis volume '' @ show_int expected))
           else (let addresses = sort_strings (map toLowerCase (subjects c));
                     aToB = volume_between ss (nth_opt addresses 0) (nth_opt addresses 1);
                     bToA = volume_between ss (nth_opt addresses 1) (nth_opt addresses 0)
             in case (volumeAToBRaw m, volumeBToARaw m) of
                  (Some expectedAToB, Some expectedBToA) \<Rightarrow> require (aToB = expectedAToB \<and> bToA = expectedBToA)
                    (claim_name c @ '': selected reciprocal volumes '' @ show_int aToB @ ''/'' @ show_int bToA
                      @ '' do not equal approved analysis volumes '' @ show_int expectedAToB @ ''/'' @ show_int expectedBToA)
                | _ \<Rightarrow> Inl TypeError)))"

definition finalizePlanClaim :: "claim \<Rightarrow> evidence list \<Rightarrow> plan_details \<Rightarrow> proof_bundle \<Rightarrow> plan res" where
  "finalizePlanClaim c es ds b =
     (let selected = js_sort compareEvidence (dedupe es) in
      res_bind (validateAnalysisVolume c selected) (\<lambda>_.
        let blocks = js_sort numberAscending
              (js_set (map (\<lambda>e. num0 (blockNumber e)) (concat (map atomicEvidence selected))))
        in res_bind (costTuple selected) (\<lambda>k.
          Inr \<lparr>planClaimId = claimId c, planType = claim_type c, planSubjects = subjects c,
            planReportRoot = reportRoot b, planDependencyRoot = dependencyRoot c,
            selectedEvidence = selected, selectedBlocks = blocks, materializationBlocks = blocks,
            planCost = k, details = ds\<rparr>)))"

definition totals_of :: "evidence list \<Rightarrow> evidence list" where
  "totals_of deps = filter (\<lambda>e. evidenceType e = TOTAL_SETTLEMENT) deps"

definition cohortDiagnostics :: "claim \<Rightarrow> evidence list \<Rightarrow> string" where
  "cohortDiagnostics c deps =
     (let ss = cohort_settlements c deps;
          fs = cohort_fundings c deps;
          postFunding = filter (\<lambda>e. \<exists>f\<in>set fs. buyer f = buyer e \<and> num0 (blockNumber e) > num0 (blockNumber f)) ss
      in ''usdcFundings='' @ show_nat (length fs) @ '',buyers='' @ show_nat (length (js_set (map buyer_of fs)))
         @ '',postFundingVolumeRaw='' @ show_int (sumRaw postFunding))"

definition compareStrategy :: "bool \<Rightarrow> strategy \<Rightarrow> strategy \<Rightarrow> int" where
  "compareStrategy maximizeVolume l r =
     (if maximizeVolume \<and> strategyVolume l \<noteq> strategyVolume r
      then (if strategyVolume l > strategyVolume r then -1 else 1)
      else compareCost (strategyCost l) (strategyCost r))"

definition summarizeAlternative :: "strategy \<Rightarrow> rejected_alternative" where
  "summarizeAlternative s = RejectedStrategy (strategyName s) (strategyCost s) ''higher deterministic cost''"

definition cohort_plan_details :: "strategy \<Rightarrow> strategy list \<Rightarrow> int \<Rightarrow> bool \<Rightarrow> cohort_details" where
  "cohort_plan_details selected others returnTargetBps maximizeVolume =
     \<lparr>selectionReason = strategyName selected @ '' cohort; '' @ evidenceClass (strategyClosure selected)
        @ ''; cost='' @ cost_join (strategyCost selected),
      rejectedAlternatives = closureRejected (strategyClosure selected) @ map summarizeAlternative others,
      provenBuyerCount = length (strategyBuyers selected), provenVolumeRaw = strategyVolume selected,
      fundingStrategy = strategyName selected, closureType = evidenceClass (strategyClosure selected),
      detailsMode = strategyMode selected, detailsDiagnostics = fundingDiagnostics selected,
      detailsTargetBps = returnTargetBps,
      selectionObjective = (if maximizeVolume then ''maximize-volume-then-minimize-cost'' else ''minimize-cost'')\<rparr>"

text \<open>The claim that a ledger-selected plan is checked against states the selected volume.\<close>

definition planned_claim :: "claim \<Rightarrow> strategy \<Rightarrow> bool \<Rightarrow> claim" where
  "planned_claim c selected allowLedgerSelection =
     (if allowLedgerSelection then
        c\<lparr>claim_metrics := Some
          ((case claim_metrics c of Some m \<Rightarrow> m
            | None \<Rightarrow> \<lparr>qualifiedVolumeRaw = None, qualifiedBuyerCount = None, volumeAToBRaw = None,
                volumeBToARaw = None, otherMetrics = []\<rparr>)
           \<lparr>qualifiedVolumeRaw := Some (strategyVolume selected),
            qualifiedBuyerCount := Some (int (length (strategyBuyers selected)))\<rparr>)\<rparr>
      else c)"

definition strategy_evidence :: "strategy \<Rightarrow> evidence list \<Rightarrow> evidence list" where
  "strategy_evidence s deps =
     closureEvidence (strategyClosure s) @ strategyFunding s @ strategySettlements s @ totals_of deps"

definition planCohort ::
  "claim \<Rightarrow> evidence list \<Rightarrow> proof_bundle \<Rightarrow> balances option \<Rightarrow> bool \<Rightarrow> int \<Rightarrow> bool \<Rightarrow> plan res" where
  "planCohort c deps b ledgerBalances allowLedgerSelection returnTargetBps maximizeVolume =
     res_bind (buildCohortStrategies c deps (Some (bundle_period b)) ledgerBalances allowLedgerSelection returnTargetBps)
       (\<lambda>candidates.
         case js_sort (compareStrategy maximizeVolume) candidates of
           [] \<Rightarrow> Inl (Error (claim_name c @ '': no valid cohort funding strategy; '' @ cohortDiagnostics c deps))
         | selected # others \<Rightarrow>
             finalizePlanClaim (planned_claim c selected allowLedgerSelection) (strategy_evidence selected deps)
               (Cohort (cohort_plan_details selected others returnTargetBps maximizeVolume)) b)"

section \<open>Reciprocal claims\<close>

definition MINIMUM_RECIPROCAL_VOLUME_BPS :: int where "MINIMUM_RECIPROCAL_VOLUME_BPS = 8000"

definition reciprocalVolumesQualify :: "int \<Rightarrow> int \<Rightarrow> bool" where
  "reciprocalVolumesQualify volumeAToB volumeBToA =
     (if volumeAToB \<le> 0 \<or> volumeBToA \<le> 0 then False
      else (let minimum = (if volumeAToB < volumeBToA then volumeAToB else volumeBToA);
                maximum = (if volumeAToB > volumeBToA then volumeAToB else volumeBToA)
            in minimum * 10000 \<ge> maximum * MINIMUM_RECIPROCAL_VOLUME_BPS))"

definition directed_volume :: "evidence list \<Rightarrow> string option \<Rightarrow> string option \<Rightarrow> int" where
  "directed_volume ss a b = sumRaw (filter (\<lambda>e. buyer e = a \<and> seller e = b) ss)"

definition internal_deposits :: "claim \<Rightarrow> evidence list \<Rightarrow> evidence list" where
  "internal_deposits c deps =
     (let subjectSet = set (map toLowerCase (subjects c)) in
      filter (\<lambda>e. evidenceType e = USDC_FUNDING \<and> depositLogIndex e \<noteq> None
        \<and> normalize (buyer e) \<in> Some ` subjectSet \<and> normalize (funder e) \<in> Some ` subjectSet) deps)"

definition planReciprocal :: "claim \<Rightarrow> evidence list \<Rightarrow> proof_bundle \<Rightarrow> plan res" where
  "planReciprocal c deps b =
     (let selected = js_sort compareEvidence (filter (\<lambda>e. evidenceType e = RECIPROCAL_SETTLEMENT) deps);
          totals = js_sort compareEvidence (totals_of deps)
      in res_bind (require (reciprocalVolumesQualify (directed_volume selected (walletA c) (walletB c))
             (directed_volume selected (walletB c) (walletA c)))
           ''reciprocal selection cannot satisfy 80% reciprocity'') (\<lambda>_.
         res_bind (costTuple selected) (\<lambda>k.
           finalizePlanClaim c (internal_deposits c deps @ selected @ totals)
             (Reciprocal \<lparr>reciprocalReason =
                 ''exact approved settlements; at least 80% volume reciprocity; cost='' @ cost_join k,
               provenSettlementCount = length selected, provenDirections = 2, reciprocalMode = ''exact''\<rparr>) b)))"

definition planClaim ::
  "claim \<Rightarrow> evidence list \<Rightarrow> proof_bundle \<Rightarrow> balances option \<Rightarrow> bool \<Rightarrow> int \<Rightarrow> bool \<Rightarrow> plan res" where
  "planClaim c deps b ledgerBalances allowLedgerSelection returnTargetBps maximizeVolume =
     res_bind (requiredReturnRaw 0 returnTargetBps) (\<lambda>_.
       if claim_type c = ''P0_RECIPROCAL'' then planReciprocal c deps b
       else if claim_type c \<noteq> ''P0_CLOSED_LOOP''
       then Inl (Error (claim_name c @ '': unsupported claim type '' @ claim_type c))
       else planCohort c deps b ledgerBalances allowLedgerSelection returnTargetBps maximizeVolume)"


section \<open>Lemmas\<close>

definition cost_key :: "cost \<Rightarrow> int \<times> int \<times> int \<times> (nat list \<times> nat list)" where
  "cost_key c = (int (windows c), int (atomCount c), int (witnessBytes c), collation_key (costText c))"

lemma compareCost_key:
  "compareCost l r < 0 \<longleftrightarrow> cost_key l < cost_key r" "compareCost l r = 0 \<longleftrightarrow> cost_key l = cost_key r"
  by (auto simp: compareCost_def cost_key_def or_else_def localeCompare_def less_prod_def)

interpretation cost: js_comparator compareCost "\<lambda>_. True"
  by (rule js_comparatorI_key [of _ _ cost_key]) (simp_all add: compareCost_key)

definition strategy_key :: "bool \<Rightarrow> strategy \<Rightarrow> int \<times> int \<times> int \<times> int \<times> (nat list \<times> nat list)" where
  "strategy_key maximizeVolume s =
     (if maximizeVolume then - strategyVolume s else 0, cost_key (strategyCost s))"

interpretation strat: js_comparator "compareStrategy maximizeVolume" "\<lambda>_. True" for maximizeVolume
  by (rule js_comparatorI_key [of _ _ "strategy_key maximizeVolume"])
    (auto simp: compareStrategy_def strategy_key_def compareCost_key less_prod_def)

lemma sort_head:
  assumes "js_sort compareEvidence es = e # rest" "\<forall>x\<in>set es. is_atomic x"
  shows "e \<in> set es" "\<forall>x\<in>set es. compareEvidence e x \<le> 0"
proof -
  have eq: "set (e # rest) = set es" using assms(1) by (metis set_js_sort)
  then show "e \<in> set es" by auto
  have "sorted_wrt (\<lambda>a b. compareEvidence a b \<le> 0) (e # rest)"
    using ev.sorted_js_sort [OF assms(2)] assms(1) by simp
  moreover have "compareEvidence e e = 0" using ev.cmp_refl [of e] assms(2) eq by auto
  ultimately show "\<forall>x\<in>set es. compareEvidence e x \<le> 0" unfolding eq [symmetric] by auto
qed

lemma select_closure_ok:
  assumes "select_closure cl appr target = Inr (Some cl')"
  shows "distinct (concat (map path_keys (closureEvidence cl')))"
    and "set (closureEvidence cl') \<subseteq> set (closureEvidence cl)"
    and "\<forall>p\<in>set (closureEvidence cl'). validReturnEvidence p None"
proof -
  have "distinct (concat (map path_keys (closureEvidence cl')))
      \<and> set (closureEvidence cl') \<subseteq> set (closureEvidence cl)
      \<and> (\<forall>p\<in>set (closureEvidence cl'). validReturnEvidence p None)"
  proof (cases "closureEvidence cl = []")
    case True
    with assms show ?thesis by (simp add: select_closure_def)
  next
    case False
    then obtain n where "closureEvidence cl' =
        selectedReturns (selectReturnEvidence (closureEvidence cl) (Some n) None MAX_RETURN_PATHS [])"
      using assms by (auto simp: select_closure_def res_bind_Inr Let_def split: if_splits)
    with selectReturnEvidence_state [where cands = "closureEvidence cl" and t = None
        and maxPaths = MAX_RETURN_PATHS and reserved = "[]" and req = "Some n"]
    show ?thesis by (auto simp: select_inv_def dest: ret.ledger_keys_distinct)
  qed
  then show "distinct (concat (map path_keys (closureEvidence cl')))"
    and "set (closureEvidence cl') \<subseteq> set (closureEvidence cl)"
    and "\<forall>p\<in>set (closureEvidence cl'). validReturnEvidence p None" by blast+
qed

lemma within_maximum_subset: "set (within_maximum es m) \<subseteq> set es"
  using set_mset_mono [OF within_maximum_part [of es m]] by simp

lemma selectLedgerAware_subset:
  assumes "selectLedgerAwareSettlements es F B fixed req appr mx = Inr (Some sel)"
    and "\<forall>e\<in>set es. is_atomic e \<and> join_id e \<noteq> [] \<and> 0 < amountRaw e"
  shows "set (settlements sel) \<subseteq> set es"
proof
  fix e assume e: "e \<in> set (settlements sel)"
  let ?es = "filter (\<lambda>entry. buyer_of entry \<in> set (map fst F)) es"
  obtain rs where rs: "res_map (buyer_eligible F B) (groupBy buyer_of ?es) = Inr rs"
    and close: "close_selection ''authenticated-ledger-capacity''
       (within_maximum (js_sort compareEvidence (concat rs)) mx) req appr = Some sel"
    using assms(1) by (auto simp: selectLedgerAwareSettlements_def split: sum.splits)
  have "e \<in> set (concat rs)"
    using e within_maximum_subset [of "js_sort compareEvidence (concat rs)" mx] close_selection_Some(1) [OF close] by auto
  have ent: "\<forall>e\<in>set ?es. is_atomic e \<and> join_id e \<noteq> [] \<and> 0 < amountRaw e" using assms(2) by simp
  obtain r vs where r: "filter (\<lambda>x. buyer_of x = buyer_of e) (concat rs) = r" "set vs \<subseteq> set ?es" "mset r \<subseteq># mset vs"
    using ledger_groups [OF rs ent \<open>e \<in> set (concat rs)\<close>] by metis
  have "e \<in> set r" using r(1) \<open>e \<in> set (concat rs)\<close> by auto
  then show "e \<in> set es" using r(2) set_mset_mono [OF r(3)] by auto
qed

lemma choose_settlements_ok:
  assumes "choose_settlements F B eligible cl appr mx = Inr (Some sel)"
    and "\<forall>e\<in>set eligible. is_atomic e \<and> join_id e \<noteq> [] \<and> 0 < amountRaw e"
  shows "set (settlements sel) \<subseteq> set eligible" "settlements sel \<noteq> []" "volumeRaw sel = sumRaw (settlements sel)"
    "set (selectedBuyers sel) = buyer_of ` set (settlements sel)" "appr = None \<or> appr = Some (volumeRaw sel)"
proof -
  have "(\<exists>mode es req. close_selection mode es req appr = Some sel) \<and> set (settlements sel) \<subseteq> set eligible"
  proof (cases B)
    case None
    then obtain req where close: "close_selection ''exact-approved-evidence''
        (within_maximum (js_sort compareEvidence (filter (\<lambda>e. buyer_of e \<in> set (map fst F)) eligible)) mx) req appr = Some sel"
      using assms(1) by (auto simp: choose_settlements_def selectApprovedSettlements_def Let_def split: sum.splits)
    with within_maximum_subset [of "js_sort compareEvidence (filter (\<lambda>e. buyer_of e \<in> set (map fst F)) eligible)" mx]
      close_selection_Some(1) [OF close]
    show ?thesis by auto
  next
    case (Some bs)
    then obtain fixed req where sel: "selectLedgerAwareSettlements eligible F bs fixed req appr mx = Inr (Some sel)"
      using assms(1) by (auto simp: choose_settlements_def Let_def)
    then have "\<exists>mode es req. close_selection mode es req appr = Some sel"
      by (auto simp: selectLedgerAwareSettlements_def split: sum.splits)
    with selectLedgerAware_subset [OF sel assms(2)] show ?thesis by blast
  qed
  then obtain mode es req where c: "close_selection mode es req appr = Some sel"
    and sub: "set (settlements sel) \<subseteq> set eligible" by blast
  note facts = close_selection_Some [OF c]
  show "set (settlements sel) \<subseteq> set eligible" by (rule sub)
  show "settlements sel \<noteq> []" "volumeRaw sel = sumRaw (settlements sel)"
    "set (selectedBuyers sel) = buyer_of ` set (settlements sel)" "appr = None \<or> appr = Some (volumeRaw sel)"
    using facts by auto
qed

lemma latest_by_buyer_in: "map_of (latest_by_buyer ss) b = Some l \<Longrightarrow> l \<in> set ss \<and> buyer_of l = b"
proof -
  have "map_of (foldl note_latest m ss) b = Some l \<Longrightarrow> map_of m b = Some l \<or> l \<in> set ss \<and> buyer_of l = b" for m
  proof (induction ss arbitrary: m)
    case (Cons s ss)
    then have "map_of (note_latest m s) b = Some l \<or> l \<in> set ss \<and> buyer_of l = b" by simp
    then show ?case by (auto simp: note_latest_def update_conv' split: option.splits if_splits)
  qed simp
  from this [of "[]"] show "map_of (latest_by_buyer ss) b = Some l \<Longrightarrow> l \<in> set ss \<and> buyer_of l = b"
    by (auto simp: latest_by_buyer_def)
qed

lemma coverage_sum:
  assumes "returnCoverageQualifies es v t = Inr True" "es \<noteq> []" "\<forall>p\<in>set es. validReturnEvidence p None"
  shows "v * t \<le> sum_list (map pathCredit es) * 10000"
proof -
  have "closureReturned es = Inr (sum_list (map pathCredit es))"
  proof -
    have credit: "returnPathCreditRaw p = Inr (pathCredit p)" if "p \<in> set es" for p
      using that assms(3) pathCredit_Min [of p] validReturnEvidence_atoms(1) by blast
    have "res_fold (\<lambda>path total. case returnPathCreditRaw path of Inl e \<Rightarrow> Inl e | Inr credit \<Rightarrow> Inr (total + credit)) ps a
        = Inr (a + sum_list (map pathCredit ps))" if "set ps \<subseteq> set es" for ps a
      using that by (induction ps arbitrary: a) (auto simp: credit)
    from this [of es 0] show ?thesis by (simp add: closureReturned_def)
  qed
  with assms(1,2) show ?thesis by (auto simp: returnCoverageQualifies_def split: if_splits)
qed

lemma group_fundings_Some:
  assumes "map_of (group_fundings fs) b = Some records"
  shows "records = js_sort compareEvidence (filter (\<lambda>f. buyer_of f = b) fs)" "records \<noteq> []"
proof -
  obtain vs where "(b, vs) \<in> set (groupBy buyer_of fs)" "records = js_sort compareEvidence vs"
    using map_of_SomeD [OF assms] by (auto simp: group_fundings_def)
  then show "records = js_sort compareEvidence (filter (\<lambda>f. buyer_of f = b) fs)" "records \<noteq> []"
    using groupBy_group [of b vs buyer_of fs] by auto
qed

lemma group_fundings_set: "f \<in> set (get_list (group_fundings fs) b) \<Longrightarrow> f \<in> set fs \<and> buyer_of f = b"
  by (cases "map_of (group_fundings fs) b") (auto simp: get_list_def dest: group_fundings_Some(1))

section \<open>Properties of a strategy\<close>

text \<open>The record a strategy satisfies, whichever way it was selected.\<close>

definition after_earliest :: "evidence list \<Rightarrow> evidence list \<Rightarrow> bool" where
  "after_earliest closure_es ss \<longleftrightarrow>
     (\<exists>e\<in>set ss. (\<forall>s\<in>set ss. compareEvidence e s \<le> 0)
        \<and> (\<forall>a\<in>set (concat (map atomicEvidence closure_es)). compareEvidence a e > 0))"

lemma closure_after_earliest:
  assumes "closureOccursAfterSettlements ss es" "\<forall>s\<in>set ss. is_atomic s"
  shows "after_earliest es ss"
proof -
  obtain e rest where e: "js_sort compareEvidence ss = e # rest"
    and after: "\<forall>a\<in>set (concat (map atomicEvidence es)). compareEvidence a e > 0"
    using assms(1) by (auto simp: closureOccursAfterSettlements_def split: list.splits)
  from sort_head [OF e assms(2)] after show ?thesis
    unfolding after_earliest_def by blast
qed



section \<open>Properties of a plan\<close>

lemma dedupe_facts:
  "set (dedupe es) \<subseteq> set es" "distinct (map identity_text (dedupe es))"
  "identity_text ` set (dedupe es) = identity_text ` set es"
proof -
  let ?m = "map_from (map (\<lambda>v. (identity_text v, v)) es)"
  have pair: "(k, v) \<in> set ?m \<Longrightarrow> v \<in> set es \<and> k = identity_text v" for k v
    by (auto simp: map_from_set dest!: map_of_SomeD)
  then have fsts: "map identity_text (map snd ?m) = map fst ?m" by auto
  show "set (dedupe es) \<subseteq> set es" using pair by (auto simp: dedupe_def)
  show "distinct (map identity_text (dedupe es))"
    unfolding dedupe_def fsts by (rule distinct_map_from)
  have "set (map identity_text (dedupe es)) = set (map fst ?m)" unfolding dedupe_def fsts ..
  also have "\<dots> = identity_text ` set es" by (simp add: map_from_keys image_image)
  finally show "identity_text ` set (dedupe es) = identity_text ` set es" by simp
qed

lemma costTuple_blocks:
  assumes "costTuple es = Inr c" "a \<in> set (concat (map atomicEvidence es))"
  shows "\<exists>k. blockNumber a = Some k \<and> isSafeInteger k \<and> HISTORICAL_START_BLOCK \<le> k"
proof -
  obtain groups where "res_map (\<lambda>e. authenticationGroup (blockNumber e)) (concat (map atomicEvidence es)) = Inr groups"
    using assms(1) by (auto simp: costTuple_def Let_def res_bind_Inr)
  then obtain g where "authenticationGroup (blockNumber a) = Inr g"
    using res_map_each [OF _ assms(2)] by blast
  then show ?thesis
    by (cases "blockNumber a") (auto simp: authenticationGroup_def safe_def split: if_splits)
qed

text \<open>C10: The plan holds, once per identity, the evidence it was made from; its blocks are exactly the
  blocks of the transfers and settlements in it, in strictly ascending order, and all of them lie
  in the supported history.\<close>

theorem plan_evidence_and_blocks:
  assumes "finalizePlanClaim c es ds b = Inr pl"
  shows "set (selectedEvidence pl) \<subseteq> set es
    \<and> identity_text ` set (selectedEvidence pl) = identity_text ` set es
    \<and> distinct (map identity_text (selectedEvidence pl))
    \<and> set (selectedBlocks pl) = (\<lambda>a. num0 (blockNumber a)) ` set (concat (map atomicEvidence (selectedEvidence pl)))
    \<and> sorted_wrt (<) (selectedBlocks pl)
    \<and> (\<forall>blk\<in>set (selectedBlocks pl). HISTORICAL_START_BLOCK \<le> blk)"
proof -
  let ?sel = "js_sort compareEvidence (dedupe es)"
  let ?blocks = "js_sort numberAscending (js_set (map (\<lambda>e. num0 (blockNumber e)) (concat (map atomicEvidence ?sel))))"
  obtain k where sel: "selectedEvidence pl = ?sel" and blocks: "selectedBlocks pl = ?blocks" and k: "costTuple ?sel = Inr k"
    using assms by (auto simp: finalizePlanClaim_def Let_def res_bind_Inr)
  have "distinct ?blocks" by simp
  moreover have "sorted_wrt (\<lambda>a b. numberAscending a b \<le> 0) ?blocks" by (rule num.sorted_js_sort) simp
  ultimately have sorted: "sorted_wrt (<) ?blocks"
    by (auto simp: sorted_wrt_iff_nth_less numberAscending_def nth_eq_iff_index_eq less_le)
  have "mset (map identity_text ?sel) = mset (map identity_text (dedupe es))" by simp
  then have dist: "distinct (map identity_text ?sel)"
    using dedupe_facts(2) by (metis mset_eq_imp_distinct_iff)
  have hist: "\<forall>blk\<in>set ?blocks. HISTORICAL_START_BLOCK \<le> blk"
    using costTuple_blocks [OF k] by fastforce
  show ?thesis
    unfolding sel blocks using sorted dist hist dedupe_facts(1,3) [of es] by (intro conjI) auto
qed

lemma planCohort_Inr:
  assumes "planCohort c deps b balances allow target maximize = Inr pl"
  obtains candidates s others where
    "buildCohortStrategies c deps (Some (bundle_period b)) balances allow target = Inr candidates"
    "js_sort (compareStrategy maximize) candidates = s # others"
    "finalizePlanClaim (planned_claim c s allow) (strategy_evidence s deps)
       (Cohort (cohort_plan_details s others target maximize)) b = Inr pl"
proof -
  obtain candidates where c: "buildCohortStrategies c deps (Some (bundle_period b)) balances allow target = Inr candidates"
    using assms by (auto simp: planCohort_def res_bind_Inr)
  then show ?thesis
    using assms that [OF c] by (cases "js_sort (compareStrategy maximize) candidates") (simp_all add: planCohort_def)
qed

text \<open>Without ledger selection, a planned closed loop settles exactly the approved analysis volume.\<close>

theorem plan_volume_is_analysis_volume:
  assumes "planClaim c deps b balances False target maximize = Inr pl"
    and "claim_type c = ''P0_CLOSED_LOOP''" and "claim_metrics c = Some m"
  shows "qualifiedVolumeRaw m =
     Some (sumRaw (filter (\<lambda>e. evidenceType e = SETTLEMENT \<or> evidenceType e = RECIPROCAL_SETTLEMENT) (selectedEvidence pl)))"
proof -
  obtain es ds where fin: "finalizePlanClaim c es ds b = Inr pl"
  proof -
    have "planCohort c deps b balances False target maximize = Inr pl"
      using assms(1,2) by (auto simp: planClaim_def res_bind_Inr)
    then show thesis by (rule planCohort_Inr) (auto simp: planned_claim_def intro: that)
  qed
  then have "validateAnalysisVolume c (js_sort compareEvidence (dedupe es)) = Inr ()"
    "selectedEvidence pl = js_sort compareEvidence (dedupe es)"
    by (auto simp: finalizePlanClaim_def Let_def res_bind_Inr)
  then show ?thesis
    using assms(2,3) by (cases "qualifiedVolumeRaw m") (auto simp: validateAnalysisVolume_def settlement_types_def Let_def)
qed

text \<open>The plan of a closed loop is made from one of the strategies found, and no other strategy is
  cheaper (or, when volume is maximised, settles more).\<close>

theorem plan_cohort_optimal:
  assumes "planCohort c deps b balances allow target maximize = Inr pl"
  shows "\<exists>candidates s.
      buildCohortStrategies c deps (Some (bundle_period b)) balances allow target = Inr candidates
    \<and> s \<in> set candidates
    \<and> (\<forall>s'\<in>set candidates. compareStrategy maximize s s' \<le> 0)
    \<and> identity_text ` set (selectedEvidence pl) = identity_text ` set (strategy_evidence s deps)"
proof -
  obtain candidates s others where c: "buildCohortStrategies c deps (Some (bundle_period b)) balances allow target = Inr candidates"
    and sorted: "js_sort (compareStrategy maximize) candidates = s # others"
    and fin: "finalizePlanClaim (planned_claim c s allow) (strategy_evidence s deps)
       (Cohort (cohort_plan_details s others target maximize)) b = Inr pl"
    by (rule planCohort_Inr [OF assms])
  have mem: "set (s # others) = set candidates" using sorted by (metis set_js_sort)
  have "sorted_wrt (\<lambda>a b. compareStrategy maximize a b \<le> 0) (s # others)"
    using strat.sorted_js_sort [where maximizeVolume = maximize and xs = candidates] sorted by simp
  then have "\<forall>s'\<in>set (s # others). compareStrategy maximize s s' \<le> 0"
    using strat.cmp_refl [where maximizeVolume = maximize and x = s] by auto
  moreover have "identity_text ` set (selectedEvidence pl) = identity_text ` set (strategy_evidence s deps)"
    using plan_evidence_and_blocks [OF fin] by blast
  ultimately show ?thesis using c mem by (metis list.set_intros(1))
qed

lemma reciprocalVolumesQualify_iff:
  "reciprocalVolumesQualify a b \<longleftrightarrow> 0 < a \<and> 0 < b \<and> b * 8000 \<le> a * 10000 \<and> a * 8000 \<le> b * 10000"
  by (auto simp: reciprocalVolumesQualify_def Let_def MINIMUM_RECIPROCAL_VOLUME_BPS_def)

text \<open>C11: A planned reciprocal claim trades in both directions, each direction at least 80% of the
  other, and the plan holds every reciprocal and every total settlement of the claim.\<close>

theorem reciprocal_plan_sound:
  assumes "planReciprocal c deps b = Inr pl"
  shows "let ss = filter (\<lambda>e. evidenceType e = RECIPROCAL_SETTLEMENT) deps;
             aToB = directed_volume ss (walletA c) (walletB c);
             bToA = directed_volume ss (walletB c) (walletA c)
         in 0 < aToB \<and> 0 < bToA \<and> bToA * 8000 \<le> aToB * 10000 \<and> aToB * 8000 \<le> bToA * 10000
          \<and> identity_text ` set ss \<subseteq> identity_text ` set (selectedEvidence pl)
          \<and> identity_text ` set (totals_of deps) \<subseteq> identity_text ` set (selectedEvidence pl)"
proof -
  let ?ss = "js_sort compareEvidence (filter (\<lambda>e. evidenceType e = RECIPROCAL_SETTLEMENT) deps)"
  obtain ds where q: "reciprocalVolumesQualify (directed_volume ?ss (walletA c) (walletB c)) (directed_volume ?ss (walletB c) (walletA c))"
    and fin: "finalizePlanClaim c (internal_deposits c deps @ ?ss @ js_sort compareEvidence (totals_of deps)) ds b = Inr pl"
    using assms by (auto simp: planReciprocal_def Let_def res_bind_Inr)
  have "identity_text ` set (selectedEvidence pl) =
      identity_text ` set (internal_deposits c deps @ ?ss @ js_sort compareEvidence (totals_of deps))"
    using plan_evidence_and_blocks [OF fin] by blast
  with q show ?thesis
    unfolding directed_volume_def sumRaw_filter_sort reciprocalVolumesQualify_iff Let_def by auto
qed

end
