(* ===== verification/Planner_Examples.thy ===== *)
theory Planner_Examples
  imports Planner
begin

text \<open>
  Concrete claims for the planner: what its strategies do where a volume bound, a broken relay
  path or an inconsistent comparator is involved, and instances of the properties of
  \<open>Planner\<close>.
\<close>

definition ex_direct :: "string \<Rightarrow> int \<Rightarrow> int \<Rightarrow> evidence" where
  "ex_direct i blk amt = of_transfer (blank\<lparr>evidenceType := DIRECT_SELLER_FUNDER, blockNumber := Some blk,
     transactionHash := Some i, transactionIndex := Some 0, logIndex := Some 0, timestamp := Some (2 * blk),
     from_addr := Some ''s'', to_addr := Some ''f'', funder := Some ''f'', amountRaw := amt, dependencyId := Some i\<rparr>)"

definition ex_hop :: "string \<Rightarrow> string \<Rightarrow> string \<Rightarrow> int \<Rightarrow> transfer" where
  "ex_hop h a b blk = blank\<lparr>evidenceType := RELAY_FORWARD, blockNumber := Some blk, transactionHash := Some h,
     transactionIndex := Some 0, logIndex := Some 0, timestamp := Some (2 * blk), from_addr := Some a,
     to_addr := Some b, amountRaw := 100\<rparr>"

definition ex_relay :: "string \<Rightarrow> transfer list \<Rightarrow> evidence" where
  "ex_relay i hs = (of_transfer (blank\<lparr>evidenceType := RELAY_PATH, seller := Some ''s'', funder := Some ''f'',
     dependencyId := Some i\<rparr>))\<lparr>hops := Some hs\<rparr>"

definition ex_closure :: "evidence list \<Rightarrow> closure" where
  "ex_closure es = \<lparr>closureEvidence = es, evidenceClass = ''RELAY_PATH'', closureRejected = []\<rparr>"

section \<open>The ledger after a volume bound\<close>

text \<open>
  Two settlements, each after a funding; a return that covers a volume of 200. The buyer's ledger
  is checked with both fundings, then the bound leaves the first settlement only, and with it
  the first funding only.
\<close>

definition ex_bounded :: "strategy option res" where
  "ex_bounded = buildCohortStrategy [ex_fund ''0xf1'' 44469591 100, ex_fund ''0xf2'' 44469600 1000]
     [ex_settle ''0x1'' 44469592 108, ex_settle ''0x2'' 44469601 900]
     (ex_closure [ex_direct ''0x9'' 44469610 60]) None (Some [(''b'', 0)]) 3000"

text \<open>A strategy whose volume was bounded by its returns can violate the ledger inequality that the
  predicate checks: the buyer's settlements exceed 105% of the funding in the strategy, although
  the ledger-aware selection and the 90% funding check accepted it.\<close>

theorem bounded_strategy_breaks_ledger:
  "(case ex_bounded of Inr (Some s) \<Rightarrow>
        strategyVolume s = 108 \<and> sumRaw (strategyFunding s) = 100
      \<and> sumRaw (strategyFunding s) * (10000 + EPSILON_LEDGER_BPS) < (strategyVolume s + 0) * 10000
    | _ \<Rightarrow> False)"
  by code_simp

section \<open>A closure that loses all its paths\<close>

text \<open>A path whose second hop does not start where the first one ended.\<close>

definition ex_broken :: evidence where
  "ex_broken = ex_relay ''0x5'' [ex_hop ''0x51'' ''s'' ''r'' 44469610, ex_hop ''0x52'' ''q'' ''f'' 44469611]"

text \<open>\<open>validRelayPath\<close> does not check that the hops of a path are connected. When ledger selection is
  allowed, a closure of such paths is accepted, the return selection then drops every path, and
  a strategy without any return results for a funder that is not the seller.\<close>

theorem broken_relay_needs_no_return:
  "validRelayPath ex_broken None
   \<and> (case buildCohortStrategy [ex_fund ''0xf1'' 44469591 1000] [ex_settle ''0x1'' 44469592 900]
         (ex_closure [ex_broken]) None (Some [(''b'', 0)]) 3000 of
       Inr (Some s) \<Rightarrow> strategyVolume s = 900 \<and> closureEvidence (strategyClosure s) = []
     | _ \<Rightarrow> False)"
  by code_simp

section \<open>Comparators\<close>

definition ex_cost :: "nat \<Rightarrow> cost" where
  "ex_cost n = \<lparr>windows = n, atomCount = n, witnessBytes = 100 * n, costText = ''a''\<rparr>"

text \<open>The comparators the planner sorts with are not orders where relay paths are involved:
  \<open>compareRelayPath\<close> puts each of two paths of different cost after the other, and
  \<open>compareEvidence\<close> has a cycle through a relay path and two settlements.\<close>

theorem comparators_inconsistent:
  "compareRelayCost (ex_cost 1) (ex_cost 2) > 0 \<and> compareRelayCost (ex_cost 2) (ex_cost 1) > 0
   \<and> (\<exists>a b p. compareEvidence a b < 0 \<and> compareEvidence b p < 0 \<and> compareEvidence p a < 0)"
proof -
  have "compareEvidence (ex_settle ''0x3'' 1 1) (ex_settle ''0x1'' 2 1) < 0
      \<and> compareEvidence (ex_settle ''0x1'' 2 1) (ex_relay ''0x2'' []) < 0
      \<and> compareEvidence (ex_relay ''0x2'' []) (ex_settle ''0x3'' 1 1) < 0"
    by code_simp
  then show ?thesis by (auto simp: compareRelayCost_def ex_cost_def)
qed

section \<open>Instances\<close>

lemma ex_settlements_ok:
  "\<forall>e\<in>set [ex_settle ''0x1'' 44469592 108, ex_settle ''0x2'' 44469601 900].
     is_atomic e \<and> join_id e \<noteq> [] \<and> 0 < amountRaw e"
  by (simp add: ex_settle_def is_atomic_def join_id_def)


definition ex_loop_claim :: claim where
  "ex_loop_claim = ex_claim\<lparr>claimId := Some ''c'',
     claim_metrics := Some \<lparr>qualifiedVolumeRaw = Some 90, qualifiedBuyerCount = Some 1, volumeAToBRaw = None,
       volumeBToARaw = None, otherMetrics = []\<rparr>\<rparr>"

definition ex_loop_deps :: "evidence list" where
  "ex_loop_deps = [ex_fund ''0xf1'' 44469591 100, ex_settle ''0x1'' 44469592 90, ex_direct ''0x9'' 44469610 60]"

definition ex_loop_plan :: "plan res" where
  "ex_loop_plan = planClaim ex_loop_claim ex_loop_deps ex_bundle (Some [(''b'', 0)]) False 3000 False"

lemma ex_loop_planned: "\<not> isl ex_loop_plan"
  by code_simp

theorem plan_volume_is_analysis_volume_witness:
  "\<exists>pl. ex_loop_plan = Inr pl \<and>
     sumRaw (filter (\<lambda>e. evidenceType e = SETTLEMENT \<or> evidenceType e = RECIPROCAL_SETTLEMENT) (selectedEvidence pl)) = 90"
proof -
  obtain pl where pl: "ex_loop_plan = Inr pl" using ex_loop_planned by (metis sum.collapse(2))
  have "claim_type ex_loop_claim = ''P0_CLOSED_LOOP''" by (simp add: ex_loop_claim_def ex_claim_def)
  moreover have "claim_metrics ex_loop_claim = Some \<lparr>qualifiedVolumeRaw = Some 90, qualifiedBuyerCount = Some 1,
      volumeAToBRaw = None, volumeBToARaw = None, otherMetrics = []\<rparr>" by (simp add: ex_loop_claim_def)
  ultimately show ?thesis
    using plan_volume_is_analysis_volume [OF pl [unfolded ex_loop_plan_def]] pl by (intro exI [of _ pl]) simp
qed

lemma ex_loop_cohort:
  "ex_loop_plan = planCohort ex_loop_claim ex_loop_deps ex_bundle (Some [(''b'', 0)]) False 3000 False"
proof -
  have "requiredReturnRaw 0 3000 = Inr 0" by code_simp
  then show ?thesis by (simp add: ex_loop_plan_def planClaim_def ex_loop_claim_def ex_claim_def)
qed

theorem plan_cohort_optimal_witness:
  "\<exists>candidates s. buildCohortStrategies ex_loop_claim ex_loop_deps (Some (bundle_period ex_bundle)) (Some [(''b'', 0)]) False 3000
       = Inr candidates \<and> s \<in> set candidates \<and> (\<forall>s'\<in>set candidates. compareStrategy False s s' \<le> 0)"
proof -
  obtain pl where "ex_loop_plan = Inr pl" using ex_loop_planned by (metis sum.collapse(2))
  from plan_cohort_optimal [OF this [unfolded ex_loop_cohort]] show ?thesis by blast
qed

theorem plan_evidence_and_blocks_witness:
  "\<exists>pl ds. finalizePlanClaim ex_claim ex_loop_deps ds ex_bundle = Inr pl
     \<and> sorted_wrt (<) (selectedBlocks pl) \<and> (\<forall>blk\<in>set (selectedBlocks pl). HISTORICAL_START_BLOCK \<le> blk)"
proof -
  define ds where "ds = Reciprocal \<lparr>reciprocalReason = ''r'', provenSettlementCount = 1, provenDirections = 1, reciprocalMode = ''exact''\<rparr>"
  have "\<not> isl (finalizePlanClaim ex_claim ex_loop_deps ds ex_bundle)" unfolding ds_def by code_simp
  then obtain pl where pl: "finalizePlanClaim ex_claim ex_loop_deps ds ex_bundle = Inr pl" by (metis sum.collapse(2))
  note plan_evidence_and_blocks [OF pl]
  then have "sorted_wrt (<) (selectedBlocks pl) \<and> (\<forall>blk\<in>set (selectedBlocks pl). HISTORICAL_START_BLOCK \<le> blk)"
    by (elim conjE) (intro conjI)
  with pl show ?thesis by (intro exI conjI) (assumption, elim conjunct1, elim conjunct2)
qed

definition ex_recip :: "string \<Rightarrow> string \<Rightarrow> string \<Rightarrow> int \<Rightarrow> evidence" where
  "ex_recip i a b amt = of_transfer (blank\<lparr>evidenceType := RECIPROCAL_SETTLEMENT, blockNumber := Some 44469600,
     transactionIndex := Some 0, logIndex := Some 0, buyer := Some a, seller := Some b, amountRaw := amt, dependencyId := Some i\<rparr>)"

definition ex_recip_claim :: claim where
  "ex_recip_claim = ex_claim\<lparr>claim_type := ''P0_RECIPROCAL'', subjects := [''a'', ''b''], walletA := Some ''a'', walletB := Some ''b''\<rparr>"

theorem reciprocal_plan_sound_witness:
  "\<exists>pl. planReciprocal ex_recip_claim [ex_recip ''0x1'' ''a'' ''b'' 100, ex_recip ''0x2'' ''b'' ''a'' 90] ex_bundle = Inr pl
     \<and> identity_text (ex_recip ''0x2'' ''b'' ''a'' 90) \<in> identity_text ` set (selectedEvidence pl)"
proof -
  let ?deps = "[ex_recip ''0x1'' ''a'' ''b'' 100, ex_recip ''0x2'' ''b'' ''a'' 90]"
  have "\<not> isl (planReciprocal ex_recip_claim ?deps ex_bundle)" by code_simp
  then obtain pl where pl: "planReciprocal ex_recip_claim ?deps ex_bundle = Inr pl" by (metis sum.collapse(2))
  have "identity_text ` set (filter (\<lambda>e. evidenceType e = RECIPROCAL_SETTLEMENT) ?deps) \<subseteq> identity_text ` set (selectedEvidence pl)"
    using reciprocal_plan_sound [OF pl] by (simp only: Let_def)
  then show ?thesis using pl by (auto simp: ex_recip_def)
qed

end
