(* ===== verification/Hex.thy ===== *)
theory Hex
  imports Merkle Json
begin

text \<open>
  Hexadecimal text: \<open>BigInt('0x...')\<close>, \<open>n.toString(16)\<close> and the words padded to a
  fixed number of digits of which the calldata and the JSON-RPC calls consist. The locale
  \<open>fixed_width\<close> is the contract of such a codec.
\<close>

section \<open>Reading and writing\<close>

fun parse_hex :: "int \<Rightarrow> string \<Rightarrow> int option" where
  "parse_hex acc [] = Some acc"
| "parse_hex acc (c # cs) = (case hex_val c of None \<Rightarrow> None | Some d \<Rightarrow> parse_hex (16 * acc + int d) cs)"

function hex_digits :: "int \<Rightarrow> string" where
  "hex_digits n = (if n < 16 then [hex_digit (nat n)] else hex_digits (n div 16) @ [hex_digit (nat (n mod 16))])"
  by pat_completeness auto
termination by (relation "measure nat") auto

declare hex_digits.simps [simp del]

text \<open>\<open>n.toString(16)\<close>.\<close>

definition show_hex :: "int \<Rightarrow> string" where
  "show_hex n = (if n < 0 then ''-'' @ hex_digits (- n) else hex_digits n)"

definition all_hex :: "string \<Rightarrow> bool" where
  "all_hex s \<longleftrightarrow> (\<forall>c\<in>set s. hex_val c \<noteq> None)"

lemma all_hex_simps [simp]:
  "all_hex []" "all_hex (c # s) \<longleftrightarrow> hex_val c \<noteq> None \<and> all_hex s"
  "all_hex (s @ t) \<longleftrightarrow> all_hex s \<and> all_hex t" "all_hex (replicate k (CHR ''0''))"
  by (auto simp: all_hex_def hex_val_def)

lemma hex_val_hex_digit [simp]: "d < 16 \<Longrightarrow> hex_val (hex_digit d) = Some d"
  by (simp add: hex_val_def hex_digit_def Let_def)

lemma parse_hex_append:
  "parse_hex acc (xs @ ys) = (case parse_hex acc xs of None \<Rightarrow> None | Some a \<Rightarrow> parse_hex a ys)"
  by (induction xs arbitrary: acc) (auto split: option.splits)

lemma parse_hex_zeros [simp]: "parse_hex 0 (replicate k (CHR ''0'') @ s) = parse_hex 0 s"
  by (induction k) (simp_all add: hex_val_def)

lemma parse_hex_digits: "0 \<le> n \<Longrightarrow> parse_hex 0 (hex_digits n) = Some n"
proof (induction n rule: hex_digits.induct)
  case (1 n)
  then show ?case
    by (cases "n < 16") (simp_all add: hex_digits.simps [of n] parse_hex_append nat_less_iff)
qed

lemma all_hex_digits [simp]: "0 \<le> n \<Longrightarrow> all_hex (hex_digits n)"
proof (induction n rule: hex_digits.induct)
  case (1 n)
  then show ?case
    by (cases "n < 16") (simp_all add: hex_digits.simps [of n] nat_less_iff)
qed

lemma length_hex_digits: "0 \<le> n \<Longrightarrow> n < 16 ^ k \<Longrightarrow> 0 < k \<Longrightarrow> length (hex_digits n) \<le> k"
proof (induction n arbitrary: k rule: hex_digits.induct)
  case (1 n)
  show ?case
  proof (cases "n < 16")
    case True
    with "1.prems" show ?thesis by (simp add: hex_digits.simps [of n])
  next
    case False
    then obtain j where k: "k = Suc j" "0 < j"
      using "1.prems" by (cases k; cases "k - 1") auto
    have "n div 16 < 16 ^ j" using "1.prems" k by (simp add: div_less_iff_less_mult)
    with False "1.IH" [of j] "1.prems" k show ?thesis by (simp add: hex_digits.simps [of n])
  qed
qed

text \<open>\<open>BigInt(text)\<close> of a hexadecimal or a decimal text; the empty text is 0.\<close>

definition js_BigInt :: "string \<Rightarrow> int res" where
  "js_BigInt s =
     (case (if s = [] then Some 0
            else if take 2 s = ''0x'' then (if drop 2 s = [] then None else parse_hex 0 (drop 2 s))
            else if take 1 s = ''-'' then map_option (\<lambda>n. - int n) (parse_nat (drop 1 s))
            else map_option int (parse_nat s)) of
        Some n \<Rightarrow> Inr n | None \<Rightarrow> Inl (Error (''Cannot convert '' @ s @ '' to a BigInt'')))"

section \<open>Words of a fixed number of digits\<close>

text \<open>\<open>n.toString(16).padStart(width, '0')\<close>.\<close>

definition hex_word :: "nat \<Rightarrow> int \<Rightarrow> string" where
  "hex_word width n = padStart width (CHR ''0'') (show_hex n)"

definition fits :: "nat \<Rightarrow> int \<Rightarrow> bool" where
  "fits width n \<longleftrightarrow> 0 \<le> n \<and> n < 16 ^ width"

lemma hex_word_parse: "0 \<le> n \<Longrightarrow> parse_hex 0 (hex_word width n) = Some n"
  by (simp add: hex_word_def padStart_def show_hex_def parse_hex_digits)

lemma hex_word_length: "fits width n \<Longrightarrow> 0 < width \<Longrightarrow> length (hex_word width n) = width"
  using length_hex_digits [of n width] by (simp add: hex_word_def fits_def show_hex_def)

lemma hex_word_all_hex [simp]: "0 \<le> n \<Longrightarrow> all_hex (hex_word width n)"
  by (simp add: hex_word_def padStart_def show_hex_def)

text \<open>
  A codec whose texts all have the same length. A text that begins with an encoded value is
  read back from its first \<open>width\<close> characters, so encodings can be concatenated.
\<close>

locale fixed_width =
  fixes enc :: "'a \<Rightarrow> string" and dec :: "string \<Rightarrow> 'a option" and ok :: "'a \<Rightarrow> bool" and width :: nat
  assumes length_enc: "ok x \<Longrightarrow> length (enc x) = width"
    and dec_enc: "ok x \<Longrightarrow> dec (enc x) = Some x"
    and width_pos: "0 < width"
begin

lemma dec_prefix: "ok x \<Longrightarrow> dec (take width (enc x @ rest)) = Some x"
  by (simp add: length_enc dec_enc)

lemma drop_prefix: "ok x \<Longrightarrow> drop width (enc x @ rest) = rest"
  by (simp add: length_enc)

lemma enc_inject: "ok x \<Longrightarrow> ok y \<Longrightarrow> enc x = enc y \<Longrightarrow> x = y"
  by (metis dec_enc option.inject)

text \<open>A sequence of values is read back word by word.\<close>

fun dec_words :: "nat \<Rightarrow> string \<Rightarrow> 'a list option" where
  "dec_words 0 s = Some []"
| "dec_words (Suc n) s =
     (case dec (take width s) of None \<Rightarrow> None
      | Some x \<Rightarrow> map_option (\<lambda>xs. x # xs) (dec_words n (drop width s)))"

lemma dec_words_enc: "\<forall>x\<in>set xs. ok x \<Longrightarrow> dec_words (length xs) (concat (map enc xs) @ rest) = Some xs"
  by (induction xs) (simp_all add: dec_prefix drop_prefix del: take_append drop_append)

lemma nth_word: "\<forall>x\<in>set xs. ok x \<Longrightarrow> i < length xs \<Longrightarrow>
    dec (take width (drop (i * width) (concat (map enc xs) @ rest))) = Some (xs ! i)"
proof (induction xs arbitrary: i)
  case (Cons x xs)
  show ?case
  proof (cases i)
    case 0
    with Cons.prems show ?thesis by (simp add: length_enc dec_enc)
  next
    case (Suc j)
    have "drop (i * width) (concat (map enc (x # xs)) @ rest) = drop (j * width) (concat (map enc xs) @ rest)"
      using Cons.prems(1) Suc by (simp add: length_enc)
    with Cons Suc show ?thesis by simp
  qed
qed simp

end

interpretation word32: fixed_width "hex_word 64" "parse_hex 0" "fits 64" 64
  by unfold_locales (simp_all add: hex_word_length hex_word_parse fits_def)

section \<open>JSON strings read back\<close>

text \<open>One character of a JSON string, undoing \<open>escape_char\<close>.\<close>

definition unescape :: "string \<Rightarrow> (char \<times> string) option" where
  "unescape s = (case s of
     [] \<Rightarrow> None
   | c # rest \<Rightarrow>
       if c \<noteq> CHR 0x5C then Some (c, rest)
       else (case rest of
         [] \<Rightarrow> None
       | e # rest' \<Rightarrow>
           if e = CHR ''b'' then Some (CHR 0x08, rest') else if e = CHR ''f'' then Some (CHR 0x0C, rest')
           else if e = CHR ''n'' then Some (CHR 0x0A, rest') else if e = CHR ''r'' then Some (CHR 0x0D, rest')
           else if e = CHR ''t'' then Some (CHR 0x09, rest')
           else if e = CHR ''u'' then map_option (\<lambda>n. (char_of n, drop 4 rest')) (parse_hex 0 (take 4 rest'))
           else Some (e, rest')))"

lemma char_code: "(of_char c :: nat) = n \<Longrightarrow> c = char_of n"
  by auto

lemma escaped_chars:
  "char_of (34 :: nat) = CHR 0x22" "char_of (92 :: nat) = CHR 0x5C" "char_of (8 :: nat) = CHR 0x08"
  "char_of (12 :: nat) = CHR 0x0C" "char_of (10 :: nat) = CHR 0x0A" "char_of (13 :: nat) = CHR 0x0D"
  "char_of (9 :: nat) = CHR 0x09"
  by code_simp+

lemma unescape_escape: "unescape (escape_char c @ s) = Some (c, s)"
proof -
  let ?n = "of_char c :: nat"
  consider "?n = 34" | "?n = 92" | "?n = 8" | "?n = 12" | "?n = 10" | "?n = 13" | "?n = 9"
    | "?n < 32" "?n \<notin> {34, 92, 8, 12, 10, 13, 9}" | "32 \<le> ?n" "?n \<noteq> 34" "?n \<noteq> 92" by fastforce
  then show ?thesis
  proof cases
    case 8
    have d: "?n div 16 < 16" "?n mod 16 < 16" using 8 by simp_all
    have e: "escape_char c = [CHR 0x5C, CHR ''u'', CHR ''0'', CHR ''0'', hex_digit (?n div 16), hex_digit (?n mod 16)]"
      using 8 by (simp add: escape_char_def Let_def)
    have "parse_hex 0 [CHR ''0'', CHR ''0'', hex_digit (?n div 16), hex_digit (?n mod 16)]
        = Some (16 * int (?n div 16) + int (?n mod 16))"
      by (simp add: d hex_val_hex_digit hex_val_def [of "CHR ''0''"] del: of_char_mod_256)
    also have "16 * int (?n div 16) + int (?n mod 16) = int ?n"
      by (metis mult_div_mod_eq of_nat_add of_nat_mult of_nat_numeral)
    finally show ?thesis by (simp add: unescape_def e of_nat_of_char)
  next
    case 9
    then have "c \<noteq> CHR 0x5C" by auto
    with 9 show ?thesis by (simp add: unescape_def escape_char_def Let_def)
  qed (drule char_code, simp only: escaped_chars, simp add: unescape_def escape_char_def)+
qed

text \<open>So different strings have different JSON texts.\<close>

lemma escape_char_not_Nil [simp]: "escape_char c \<noteq> []"
  by (simp add: escape_char_def Let_def)

lemma escape_inject: "concat (map escape_char s) = concat (map escape_char t) \<longleftrightarrow> s = t"
proof (induction s arbitrary: t)
  case Nil
  show ?case by (cases t) simp_all
next
  case (Cons c s)
  show ?case
  proof (cases t)
    case Nil
    then show ?thesis by simp
  next
    case (Cons d t')
    have "escape_char c @ xs = escape_char d @ ys \<longleftrightarrow> c = d \<and> xs = ys" for xs ys
      by (metis option.inject prod.inject unescape_escape)
    then show ?thesis unfolding Cons by (simp only: list.map concat.simps Cons.IH list.inject)
  qed
qed

lemma quote_inject [simp]: "quote s = quote t \<longleftrightarrow> s = t"
  by (simp add: quote_def escape_inject)

lemma escape_char_head: "escape_char c \<noteq> CHR 0x22 # s"
  by (auto simp: escape_char_def Let_def)

lemma escape_quote_prefix:
  "concat (map escape_char s) @ CHR 0x22 # x = concat (map escape_char t) @ CHR 0x22 # y \<longleftrightarrow> s = t \<and> x = y"
proof (induction s arbitrary: t)
  case Nil
  show ?case
  proof (cases t)
    case (Cons d t')
    obtain e es where "escape_char d = e # es" "e \<noteq> CHR 0x22"
      using escape_char_head [of d] escape_char_not_Nil [of d] by (cases "escape_char d") auto
    with Cons show ?thesis by simp
  qed simp
next
  case (Cons c s)
  show ?case
  proof (cases t)
    case Nil
    obtain e es where "escape_char c = e # es" "e \<noteq> CHR 0x22"
      using escape_char_head [of c] escape_char_not_Nil [of c] by (cases "escape_char c") auto
    with Nil show ?thesis by simp
  next
    case (Cons d t')
    have "escape_char c @ xs = escape_char d @ ys \<longleftrightarrow> c = d \<and> xs = ys" for xs ys
      by (metis option.inject prod.inject unescape_escape)
    then show ?thesis unfolding Cons by (simp only: list.map concat.simps append_assoc Cons.IH list.inject conj_assoc)
  qed
qed

lemma quote_prefix: "quote s @ x = quote t @ y \<longleftrightarrow> s = t \<and> x = y"
  by (simp add: quote_def escape_quote_prefix)

lemma number_prefix:
  "show_int m @ CHR '','' # x = show_int n @ CHR '','' # y \<longleftrightarrow> m = n \<and> x = y"
proof -
  have split: "a @ c # x = b @ c # y \<longleftrightarrow> a = b \<and> x = y" if "c \<notin> set a" "c \<notin> set b" for a b and c :: char
    using that by (induction a arbitrary: b) (case_tac b; auto)+
  show ?thesis using split [OF show_int_no_comma show_int_no_comma] by simp
qed

end
