(* ===== verification/Calldata.thy ===== *)
theory Calldata
  imports Hex
begin

text \<open>
  What is submitted on chain for a seller proof: the calldata of \<open>stageSellerProof\<close>
  (\<open>scripts/generate-aggregate-calldata.mjs\<close>) and the chunks of block references
  (\<open>scripts/generate-block-authentication-chunks.mjs\<close>). A seller proof artifact is a
  record of the members the two scripts read.
\<close>

section \<open>The artifact\<close>

record block_reference =
  ref_number :: "int option"
  ref_blockHash :: "string option"

record reference_chunk =
  chunk_index :: "int option"
  chunk_references :: "block_reference list option"
  chunk_proof :: "string option list option"

record seller_proof =
  sp_version :: "int option"
  sp_kind :: "string option"
  sp_architecture :: "string option"
  sp_proved :: "bool option"
  sp_verified :: "bool option"
  sp_securityMode :: "string option"
  sp_chainId :: "int option"
  sp_seller :: string
  sp_programVKey :: "string option"
  sp_publicValues :: "string option"
  sp_proofBytes :: "string option"
  sp_chunkSize :: "int option"
  sp_chunkCount :: "int option"
  sp_chunks :: "reference_chunk list option"
  sp_referenceCount :: "int option"
  sp_evidenceDigest :: "string option"
  sp_authenticationRoot :: "string option"

definition direct_seller_proof :: "seller_proof \<Rightarrow> bool" where
  "direct_seller_proof p \<longleftrightarrow> sp_version p = Some 3 \<and> sp_kind p = Some ''antseed-wash-trading-seller-proof''
     \<and> sp_architecture p = Some ''direct-seller-v1''"

section \<open>Calldata\<close>

definition stageSellerProofSignature :: string where
  "stageSellerProofSignature = ''stageSellerProof(bytes,bytes)''"

definition stageSellerProofSelector :: string where
  "stageSellerProofSelector = ''2be631a3''"

definition text_or_empty :: "string option \<Rightarrow> string" where
  "text_or_empty v = (case v of None \<Rightarrow> [] | Some s \<Rightarrow> s)"

definition fixedHex :: "string option \<Rightarrow> nat \<Rightarrow> string \<Rightarrow> string res" where
  "fixedHex v byteLength label =
     (let s = text_or_empty v in
      if take 2 s = ''0x'' \<and> length s = 2 + byteLength * 2 \<and> all_hex (drop 2 s) then Inr (toLowerCase s)
      else Inl (Error (''invalid '' @ label)))"

definition dynamicHex :: "string option \<Rightarrow> string \<Rightarrow> string res" where
  "dynamicHex v label =
     (let s = text_or_empty v in
      if take 2 s = ''0x'' \<and> even (length s) \<and> all_hex (drop 2 s) then Inr (toLowerCase s)
      else Inl (Error (''invalid '' @ label)))"

definition word_of :: "nat \<Rightarrow> string" where
  "word_of n = hex_word 64 (int n)"

definition encodeDynamicBytes :: "string \<Rightarrow> string" where
  "encodeDynamicBytes v =
     (let bytes = drop 2 v; byteLength = length bytes div 2;
          paddedLength = ((byteLength + 31) div 32) * 64
      in word_of byteLength @ padEnd paddedLength (CHR ''0'') bytes)"

definition encodeStageSellerProof :: "string option \<Rightarrow> string option \<Rightarrow> string res" where
  "encodeStageSellerProof publicValues proofBytes =
     res_bind (dynamicHex publicValues ''public values'') (\<lambda>pv.
     res_bind (dynamicHex proofBytes ''proof bytes'') (\<lambda>pb.
     let publicValuesBody = encodeDynamicBytes pv; proofBody = encodeDynamicBytes pb; headSize = 64;
         proofOffset = headSize + length publicValuesBody div 2
     in Inr (''0x'' @ stageSellerProofSelector @ word_of headSize @ word_of proofOffset @ publicValuesBody @ proofBody)))"

record calldata_artifact =
  ca_securityMode :: "string option"
  ca_chainId :: "int option"
  ca_seller :: string
  ca_programVKey :: string
  ca_callSignature :: string
  ca_publicValues :: string
  ca_proofBytes :: string
  ca_calldata :: string

definition buildSellerCalldataArtifact :: "seller_proof \<Rightarrow> calldata_artifact res" where
  "buildSellerCalldataArtifact p =
     res_bind (require (direct_seller_proof p \<and> sp_proved p = Some True \<and> sp_verified p = Some True)
       ''invalid direct seller proof artifact'') (\<lambda>_.
     res_bind (fixedHex (sp_programVKey p) 32 ''seller program vkey'') (\<lambda>vkey.
     res_bind (dynamicHex (sp_publicValues p) ''public values'') (\<lambda>pv.
     res_bind (dynamicHex (sp_proofBytes p) ''proof bytes'') (\<lambda>pb.
     res_bind (require (pb \<noteq> ''0x'') ''proof bytes are empty'') (\<lambda>_.
     res_bind (encodeStageSellerProof (Some pv) (Some pb)) (\<lambda>cd.
     Inr \<lparr>ca_securityMode = sp_securityMode p, ca_chainId = sp_chainId p, ca_seller = toLowerCase (sp_seller p),
       ca_programVKey = vkey, ca_callSignature = stageSellerProofSignature, ca_publicValues = pv,
       ca_proofBytes = pb, ca_calldata = cd\<rparr>))))))"

section \<open>Chunks of block references\<close>

definition chunkHash :: "string option \<Rightarrow> string res" where
  "chunkHash v =
     (let s = text_or_empty v in
      if take 2 s = ''0x'' \<and> length s = 66 \<and> all_hex (drop 2 s) then Inr (toLowerCase s)
      else Inl (Error (''invalid bytes32 '' @ js_String v)))"

text \<open>The references seen so far, the last one first.\<close>

definition add_reference :: "int \<Rightarrow> block_reference \<Rightarrow> (int \<times> string) list \<Rightarrow> (int \<times> string) list res" where
  "add_reference index r seen =
     res_bind (chunkHash (ref_blockHash r)) (\<lambda>h.
     res_bind (case ref_number r of None \<Rightarrow> Inl (Error (''invalid block number in chunk '' @ show_int index))
         | Some n \<Rightarrow> if isSafeInteger n \<and> 0 < n then Inr n
             else Inl (Error (''invalid block number in chunk '' @ show_int index))) (\<lambda>n.
     res_bind (require (case seen of [] \<Rightarrow> True | (m, _) # _ \<Rightarrow> m < n) ''block references must be strictly ordered'') (\<lambda>_.
     Inr ((n, h) # seen))))"

definition chunk_ok :: "int \<Rightarrow> int \<Rightarrow> reference_chunk \<Rightarrow> bool" where
  "chunk_ok chunkSize index c \<longleftrightarrow> chunk_index c = Some index
     \<and> (case chunk_references c of None \<Rightarrow> False | Some rs \<Rightarrow> rs \<noteq> [] \<and> int (length rs) \<le> chunkSize)
     \<and> chunk_proof c \<noteq> None"

definition list_of :: "'a list option \<Rightarrow> 'a list" where
  "list_of xs = (case xs of None \<Rightarrow> [] | Some ys \<Rightarrow> ys)"

definition add_chunk :: "int \<Rightarrow> nat \<times> reference_chunk \<Rightarrow> (int \<times> string) list \<Rightarrow> (int \<times> string) list res" where
  "add_chunk chunkSize ic seen = (case ic of (i, c) \<Rightarrow>
     res_bind (require (chunk_ok chunkSize (int i) c) ''invalid block-authentication chunk'') (\<lambda>_.
     res_fold (add_reference (int i)) (list_of (chunk_references c)) seen))"

record built_chunk =
  bc_index :: int
  bc_offset :: int
  bc_references :: "(int \<times> string) list"
  bc_proof :: "string list"

record chunk_file =
  cf_chainId :: "int option"
  cf_seller :: string
  cf_evidenceDigest :: string
  cf_referenceCount :: nat
  cf_authenticationRoot :: string
  cf_chunkSize :: int
  cf_chunks :: "built_chunk list"

definition number_of :: "block_reference \<Rightarrow> int" where
  "number_of r = num0 (ref_number r)"

definition read_reference :: "block_reference \<Rightarrow> (int \<times> string) res" where
  "read_reference r = res_bind (chunkHash (ref_blockHash r)) (\<lambda>h. Inr (number_of r, h))"

definition build_chunk :: "int \<Rightarrow> reference_chunk \<Rightarrow> built_chunk res" where
  "build_chunk chunkSize c =
     res_bind (res_map read_reference (list_of (chunk_references c))) (\<lambda>rs.
     res_bind (res_map chunkHash (list_of (chunk_proof c))) (\<lambda>pf.
     Inr \<lparr>bc_index = num0 (chunk_index c), bc_offset = num0 (chunk_index c) * chunkSize, bc_references = rs, bc_proof = pf\<rparr>))"

definition buildBlockAuthenticationChunks :: "seller_proof \<Rightarrow> int \<Rightarrow> chunk_file res" where
  "buildBlockAuthenticationChunks p chunkSize =
     res_bind (require (direct_seller_proof p) ''invalid direct seller proof artifact'') (\<lambda>_.
     res_bind (require (isSafeInteger chunkSize \<and> 0 < chunkSize) ''chunk size must be positive'') (\<lambda>_.
     res_bind (require (sp_chunkSize p = Some chunkSize) ''chunk size differs from SP1 commitment'') (\<lambda>_.
     let cs = list_of (sp_chunks p) in
     res_bind (require (sp_chunks p \<noteq> None \<and> sp_chunkCount p = Some (int (length cs)))
       ''seller block-authentication chunk count mismatch'') (\<lambda>_.
     res_bind (res_fold (add_chunk chunkSize) (enumerate 0 cs) []) (\<lambda>references.
     res_bind (require (sp_referenceCount p = Some (int (length references))) ''seller block-reference count mismatch'') (\<lambda>_.
     res_bind (chunkHash (sp_evidenceDigest p)) (\<lambda>digest.
     res_bind (chunkHash (sp_authenticationRoot p)) (\<lambda>root.
     res_bind (res_map (build_chunk chunkSize) cs) (\<lambda>built.
     Inr \<lparr>cf_chainId = sp_chainId p, cf_seller = toLowerCase (sp_seller p), cf_evidenceDigest = digest,
       cf_referenceCount = length references, cf_authenticationRoot = root, cf_chunkSize = chunkSize,
       cf_chunks = built\<rparr>)))))))))"

section \<open>Reading calldata back\<close>

text \<open>
  The ABI of a call with two dynamic \<open>bytes\<close> arguments: after the selector the byte offsets
  of the two arguments, and at each offset the length in bytes and the bytes.
\<close>

definition abi_word :: "string \<Rightarrow> nat \<Rightarrow> nat option" where
  "abi_word args offset = map_option nat (parse_hex 0 (take 64 (drop (2 * offset) args)))"

definition abi_bytes :: "string \<Rightarrow> nat \<Rightarrow> string option" where
  "abi_bytes args offset =
     map_option (\<lambda>n. take (2 * n) (drop (2 * offset + 64) args)) (abi_word args offset)"

definition abi_decode :: "string \<Rightarrow> (string \<times> string) option" where
  "abi_decode cd =
     (let args = drop 10 cd in
      if take 10 cd \<noteq> ''0x2be631a3'' then None
      else (case (abi_word args 0, abi_word args 32) of
          (Some a, Some b) \<Rightarrow>
            (case (abi_bytes args a, abi_bytes args b) of (Some x, Some y) \<Rightarrow> Some (x, y) | _ \<Rightarrow> None)
        | _ \<Rightarrow> None))"

lemma word_of_length: "fits 64 (int n) \<Longrightarrow> length (word_of n) = 64"
  by (simp add: word_of_def hex_word_length)

lemma abi_word_at:
  assumes "length pre = 2 * offset" "fits 64 (int n)"
  shows "abi_word (pre @ word_of n @ rest) offset = Some n"
  using assms by (simp add: abi_word_def word_of_length) (simp add: word_of_def hex_word_parse)

lemma encodeDynamicBytes_length:
  assumes "even (length b)" "fits 64 (int (length b))" "drop 2 v = b"
  shows "64 dvd length (encodeDynamicBytes v)"
    and "length b \<le> length (encodeDynamicBytes v)" "length (encodeDynamicBytes v) \<le> length b + 192"
proof -
  let ?n = "length b div 2"
  have "fits 64 (int ?n)" using assms(2) by (auto simp: fits_def)
  moreover have "length b \<le> ((?n + 31) div 32) * 64" using assms(1) by auto
  ultimately have len: "length (encodeDynamicBytes v) = 64 + ((?n + 31) div 32) * 64"
    unfolding encodeDynamicBytes_def Let_def assms(3) by (simp add: word_of_length max_def)
  then show "64 dvd length (encodeDynamicBytes v)" by simp
  show "length b \<le> length (encodeDynamicBytes v)" "length (encodeDynamicBytes v) \<le> length b + 192"
    using len assms(1) by auto
qed

lemma abi_bytes_at:
  assumes "length pre = 2 * offset" "even (length b)" "fits 64 (int (length b))" "drop 2 v = b"
  shows "abi_bytes (pre @ encodeDynamicBytes v @ rest) offset = Some b"
proof -
  let ?n = "length b div 2"
  define padding where "padding = replicate (((?n + 31) div 32) * 64 - length b) (CHR ''0'')"
  have n: "fits 64 (int ?n)" using assms(3) by (auto simp: fits_def)
  have enc: "encodeDynamicBytes v = word_of ?n @ b @ padding"
    by (simp add: encodeDynamicBytes_def Let_def assms(4) padEnd_def padding_def)
  have "abi_word (pre @ word_of ?n @ (b @ padding @ rest)) offset = Some ?n"
    by (rule abi_word_at [OF assms(1) n])
  then show ?thesis
    using assms(1,2) word_of_length [OF n] by (simp add: abi_bytes_def enc)
qed

lemma dynamicHex_Inr:
  "dynamicHex v label = Inr s \<longleftrightarrow> s = toLowerCase (text_or_empty v) \<and> take 2 (text_or_empty v) = ''0x''
     \<and> even (length (text_or_empty v)) \<and> all_hex (drop 2 (text_or_empty v))"
  by (auto simp: dynamicHex_def Let_def)

lemma calldata_decoded:
  assumes "encodeStageSellerProof publicValues proofBytes = Inr cd"
    and "length (text_or_empty publicValues) + length (text_or_empty proofBytes) + 1024 < 16 ^ 64"
  shows "abi_decode cd = Some (drop 2 (toLowerCase (text_or_empty publicValues)), drop 2 (toLowerCase (text_or_empty proofBytes)))
    \<and> length cd mod 64 = 10"
proof -
  define pv where "pv = toLowerCase (text_or_empty publicValues)"
  define pb where "pb = toLowerCase (text_or_empty proofBytes)"
  let ?b1 = "encodeDynamicBytes pv" and ?b2 = "encodeDynamicBytes pb"
  let ?o = "64 + length ?b1 div 2"
  have cd: "cd = ''0x'' @ stageSellerProofSelector @ word_of 64 @ word_of ?o @ ?b1 @ ?b2"
    and ev: "even (length pv)" "even (length pb)"
    and two: "2 \<le> length pv" "2 \<le> length pb"
    using assms(1)
    by (auto simp: encodeStageSellerProof_def Let_def res_bind_Inr dynamicHex_Inr pv_def pb_def
        dest!: arg_cong [of "take 2 _" _ length])
  have le: "length pv + length pb + 1024 < 16 ^ 64" using assms(2) by (simp add: pv_def pb_def)
  have fits: "fits 64 (int n)" if "n \<le> length pv + length pb + 1024" for n
  proof -
    have "n < 16 ^ 64" using that le by simp
    then have "int n < int (16 ^ 64)" by (rule of_nat_less_iff [THEN iffD2])
    then show ?thesis by (simp add: fits_def)
  qed
  have e1: "even (length (drop 2 pv))" "even (length (drop 2 pb))" using ev by simp_all
  have f1: "fits 64 (int (length (drop 2 pv)))" "fits 64 (int (length (drop 2 pb)))"
    by (rule fits, simp)+
  note l1 = encodeDynamicBytes_length [OF e1(1) f1(1) refl] and l2 = encodeDynamicBytes_length [OF e1(2) f1(2) refl]
  have len: "64 dvd length ?b1" "length ?b1 \<le> length pv + 192" "64 dvd length ?b2"
    using l1 l2 two by auto
  have fo: "fits 64 (int ?o)" "fits 64 (int 64)"
    by (rule fits, use len(2) in linarith)+
  define args where "args = word_of 64 @ word_of ?o @ ?b1 @ ?b2"
  have w: "abi_word args 0 = Some 64" "abi_word args 32 = Some ?o"
    unfolding args_def
    using abi_word_at [of "[]" 0 64] abi_word_at [of "word_of 64" 32 ?o] fo by (simp_all add: word_of_length)
  have d1: "abi_bytes args 64 = Some (drop 2 pv)"
    unfolding args_def
    using abi_bytes_at [of "word_of 64 @ word_of ?o" 64 "drop 2 pv" pv ?b2] fo e1 f1 by (simp add: word_of_length)
  have d2: "abi_bytes args ?o = Some (drop 2 pb)"
  proof -
    have "even (length ?b1)" using len(1) by auto
    then have "length (word_of 64 @ word_of ?o @ ?b1) = 2 * ?o" using fo by (simp add: word_of_length)
    from abi_bytes_at [OF this e1(2) f1(2) refl, of "[]"] show ?thesis by (simp add: args_def)
  qed
  have split: "take 10 cd = ''0x2be631a3''" "drop 10 cd = args"
    by (simp_all add: cd args_def stageSellerProofSelector_def)
  have "length cd = 10 + 64 + 64 + length ?b1 + length ?b2"
    using fo by (simp add: cd word_of_length stageSellerProofSelector_def)
  then have "length cd mod 64 = 10" using len(1,3) by (auto elim!: dvdE)
  then show ?thesis
    unfolding pv_def [symmetric] pb_def [symmetric]
    using split w d1 d2 by (simp add: abi_decode_def Let_def)
qed

text \<open>C20: The calldata of a seller proof is read back by the ABI as exactly the public values and the proof
  bytes (in lower case), and its arguments fill whole 32-byte words.\<close>

theorem calldata_roundtrip:
  assumes "encodeStageSellerProof publicValues proofBytes = Inr cd"
    and "length (text_or_empty publicValues) + length (text_or_empty proofBytes) + 1024 < 16 ^ 64"
  shows "abi_decode cd = Some (drop 2 (toLowerCase (text_or_empty publicValues)), drop 2 (toLowerCase (text_or_empty proofBytes)))
    \<and> length cd mod 64 = 10"
  using assms by (rule calldata_decoded)

section \<open>Chunks\<close>

lemma add_reference_Inr:
  "add_reference i r seen = Inr out \<longleftrightarrow>
     (\<exists>n h. chunkHash (ref_blockHash r) = Inr h \<and> ref_number r = Some n \<and> isSafeInteger n \<and> 0 < n
       \<and> (case seen of [] \<Rightarrow> True | (m, _) # _ \<Rightarrow> m < n) \<and> out = (n, h) # seen)"
  by (auto simp: add_reference_def res_bind_Inr split: option.splits)

text \<open>The references are collected newest first: in descending order.\<close>

definition collected :: "(int \<times> string) list \<Rightarrow> bool" where
  "collected seen \<longleftrightarrow> sorted_wrt (>) (map fst seen) \<and> (\<forall>x\<in>set seen. 0 < fst x)"

lemma collected_step:
  assumes "add_reference i r seen = Inr out" "collected seen"
  shows "collected out" and "\<exists>x. read_reference r = Inr x \<and> out = x # seen"
  using assms
  by (cases seen; force simp: add_reference_Inr collected_def read_reference_def number_of_def res_bind_Inr)+

lemma add_references:
  "res_fold (add_reference i) rs seen = Inr out \<Longrightarrow> collected seen \<Longrightarrow>
   collected out \<and> (\<exists>new. res_map read_reference rs = Inr new \<and> out = rev new @ seen)"
proof (induction rs arbitrary: seen)
  case (Cons r rs)
  from Cons.prems(1) obtain mid where mid: "add_reference i r seen = Inr mid" "res_fold (add_reference i) rs mid = Inr out"
    by (auto split: sum.splits)
  obtain x where x: "read_reference r = Inr x" "mid = x # seen" using collected_step [OF mid(1) Cons.prems(2)] by blast
  from Cons.IH [OF mid(2) collected_step(1) [OF mid(1) Cons.prems(2)]] x show ?case by auto
qed simp

lemma add_chunk_Inr: "add_chunk n (i, c) seen = Inr out \<longleftrightarrow> chunk_ok n (int i) c
    \<and> res_fold (add_reference (int i)) (list_of (chunk_references c)) seen = Inr out"
  by (auto simp: add_chunk_def res_bind_Inr)

lemma add_chunks:
  "res_fold (add_chunk n) (enumerate k cs) seen = Inr out \<Longrightarrow> collected seen \<Longrightarrow> res_map (build_chunk n) cs = Inr built \<Longrightarrow>
   collected out \<and> out = rev (concat (map bc_references built)) @ seen
   \<and> (\<forall>i<length cs. chunk_ok n (int (k + i)) (cs ! i))"
proof (induction cs arbitrary: k seen built)
  case (Cons c cs)
  from Cons.prems(1) obtain mid where ok: "chunk_ok n (int k) c"
    and mid: "res_fold (add_reference (int k)) (list_of (chunk_references c)) seen = Inr mid"
    and rest: "res_fold (add_chunk n) (enumerate (Suc k) cs) mid = Inr out"
    by (auto simp: add_chunk_Inr split: sum.splits)
  from Cons.prems(3) obtain b bs where b: "build_chunk n c = Inr b" "res_map (build_chunk n) cs = Inr bs" "built = b # bs"
    by (auto split: sum.splits)
  from add_references [OF mid Cons.prems(2)] obtain new where new: "collected mid"
    "res_map read_reference (list_of (chunk_references c)) = Inr new" "mid = rev new @ seen" by blast
  then have refs: "bc_references b = new" using b(1) by (auto simp: build_chunk_def res_bind_Inr)
  have IH: "collected out \<and> out = rev (concat (map bc_references bs)) @ mid \<and> (\<forall>i<length cs. chunk_ok n (int (Suc k + i)) (cs ! i))"
    by (rule Cons.IH [OF rest new(1) b(2)])
  have "\<forall>i<length (c # cs). chunk_ok n (int (k + i)) ((c # cs) ! i)"
    using ok IH by (auto simp: nth_Cons ac_simps split: nat.splits)
  moreover have "out = rev (concat (map bc_references built)) @ seen"
    using IH by (simp only: b(3) list.map concat.simps refs new(3) rev_append append_assoc)
  ultimately show ?case using IH by blast
qed simp

lemma build_chunk_Inr:
  "build_chunk n c = Inr b \<Longrightarrow> bc_index b = num0 (chunk_index c) \<and> bc_offset b = num0 (chunk_index c) * n
    \<and> length (bc_references b) = length (list_of (chunk_references c))"
  by (auto simp: build_chunk_def res_bind_Inr dest: res_map_length)

text \<open>The chunks that are written hold the block references in strictly ascending order across all
  chunks, as many as the proof commits to; the i-th chunk has index i, between one and
  chunkSize references and the offset i * chunkSize, which is the number of references before
  it when the chunks before it are full.\<close>

theorem chunks_sound:
  assumes "buildBlockAuthenticationChunks p n = Inr f"
  shows "sorted_wrt (<) (map fst (concat (map bc_references (cf_chunks f))))
    \<and> sp_referenceCount p = Some (int (length (concat (map bc_references (cf_chunks f)))))
    \<and> (\<forall>i<length (cf_chunks f).
         bc_index (cf_chunks f ! i) = int i \<and> bc_offset (cf_chunks f ! i) = int i * n
       \<and> 1 \<le> length (bc_references (cf_chunks f ! i)) \<and> int (length (bc_references (cf_chunks f ! i))) \<le> n
       \<and> ((\<forall>j<i. int (length (bc_references (cf_chunks f ! j))) = n) \<longrightarrow>
            bc_offset (cf_chunks f ! i) = int (length (concat (map bc_references (take i (cf_chunks f)))))))"
proof -
  let ?cs = "list_of (sp_chunks p)" and ?b = "cf_chunks f"
  obtain seen where seen: "res_fold (add_chunk n) (enumerate 0 ?cs) [] = Inr seen"
    and count: "sp_referenceCount p = Some (int (length seen))"
    and built: "res_map (build_chunk n) ?cs = Inr ?b"
    using assms by (auto simp: buildBlockAuthenticationChunks_def Let_def res_bind_Inr)
  have all: "collected seen" "seen = rev (concat (map bc_references ?b))" "\<forall>i<length ?cs. chunk_ok n (int i) (?cs ! i)"
    using add_chunks [OF seen _ built] by (auto simp: collected_def)
  have sorted: "sorted_wrt (<) (map fst (concat (map bc_references ?b)))"
    using all(1,2) by (simp add: collected_def sorted_wrt_rev flip: rev_map)
  have len: "length ?b = length ?cs" using res_map_length [OF built] .
  have each: "bc_index (?b ! i) = int i \<and> bc_offset (?b ! i) = int i * n
       \<and> 1 \<le> length (bc_references (?b ! i)) \<and> int (length (bc_references (?b ! i))) \<le> n" if i: "i < length ?b" for i
  proof -
    have "build_chunk n (?cs ! i) = Inr (?b ! i)" using res_map_nth [OF built] i len by simp
    from build_chunk_Inr [OF this] all(3) i len show ?thesis
      by (auto simp: chunk_ok_def list_of_def Suc_le_eq split: option.splits)
  qed
  have offset: "bc_offset (?b ! i) = int (length (concat (map bc_references (take i ?b))))"
    if i: "i < length ?b" and full: "\<forall>j<i. int (length (bc_references (?b ! j))) = n" for i
  proof -
    have "int (length (concat (map bc_references (take k ?b)))) = int k * n" if "k \<le> i" for k
      using that
    proof (induction k)
      case (Suc k)
      then show ?case using full i by (simp add: take_Suc_conv_app_nth algebra_simps)
    qed simp
    from this [of i] each [OF i] show ?thesis by simp
  qed
  show ?thesis using sorted count all(2) each offset by simp
qed

text \<open>Nothing makes the chunks before the last one full: a proof whose first chunk is short passes,
  and the offset of its second chunk is not the number of references before it.\<close>

definition ex_ref :: "int \<Rightarrow> block_reference" where
  "ex_ref n = \<lparr>ref_number = Some n, ref_blockHash = Some (ex_hash (CHR ''a''))\<rparr>"

definition ex_short_chunks :: seller_proof where
  "ex_short_chunks = \<lparr>sp_version = Some 3, sp_kind = Some ''antseed-wash-trading-seller-proof'',
     sp_architecture = Some ''direct-seller-v1'', sp_proved = Some True, sp_verified = Some True,
     sp_securityMode = Some ''production'', sp_chainId = Some 8453, sp_seller = ''0xA'', sp_programVKey = None,
     sp_publicValues = None, sp_proofBytes = None, sp_chunkSize = Some 2, sp_chunkCount = Some 2,
     sp_chunks = Some [\<lparr>chunk_index = Some 0, chunk_references = Some [ex_ref 5], chunk_proof = Some []\<rparr>,
       \<lparr>chunk_index = Some 1, chunk_references = Some [ex_ref 6, ex_ref 7], chunk_proof = Some []\<rparr>],
     sp_referenceCount = Some 3, sp_evidenceDigest = Some (ex_hash (CHR ''b'')),
     sp_authenticationRoot = Some (ex_hash (CHR ''c''))\<rparr>"

theorem short_chunk_shifts_offset:
  "case buildBlockAuthenticationChunks ex_short_chunks 2 of
     Inr f \<Rightarrow> map bc_offset (cf_chunks f) = [0, 2] \<and> map (length \<circ> bc_references) (cf_chunks f) = [1, 2]
   | Inl e \<Rightarrow> False"
  by code_simp

section \<open>Witnesses\<close>

theorem chunks_sound_witness:
  "\<exists>f. buildBlockAuthenticationChunks ex_short_chunks 2 = Inr f
     \<and> sorted_wrt (<) (map fst (concat (map bc_references (cf_chunks f))))"
proof -
  have "\<not> isl (buildBlockAuthenticationChunks ex_short_chunks 2)" by code_simp
  then obtain f where "buildBlockAuthenticationChunks ex_short_chunks 2 = Inr f"
    using sum.collapse(2) by metis
  with chunks_sound [OF this] show ?thesis by blast
qed

theorem calldata_roundtrip_witness:
  "\<exists>cd. encodeStageSellerProof (Some ''0xABcd'') (Some ''0x'') = Inr cd \<and> abi_decode cd = Some (''abcd'', [])"
proof -
  obtain cd where cd: "encodeStageSellerProof (Some ''0xABcd'') (Some ''0x'') = Inr cd"
    by (auto simp: encodeStageSellerProof_def dynamicHex_def text_or_empty_def hex_val_def Let_def)
  have "length (text_or_empty (Some ''0xABcd'')) + length (text_or_empty (Some ''0x'')) + 1024 < 16 ^ 64"
    by (simp add: text_or_empty_def)
  from calldata_roundtrip [OF cd this] cd show ?thesis
    by (simp add: text_or_empty_def toLowerCase_def lower_char_def Let_def) code_simp?
qed

end
