(* ===== verification/Cost_Quote.thy ===== *)
theory Cost_Quote
  imports Bundle
begin

text \<open>
  The cost quote that must be approved before paid proving (\<open>scripts/proving-cost-quote.mjs\<close>):
  \<open>buildCostQuote\<close>, \<open>approveCostQuote\<close> and their readers of amounts. Dates are the
  engine's: the parameters \<open>parse_date\<close> (\<open>new Date(text)\<close> in milliseconds, nothing for an
  invalid date) and \<open>iso_text\<close> (\<open>toISOString\<close>). Command line numbers are given as the whole
  number they denote, if any.
\<close>

section \<open>Amounts\<close>

definition USD_SCALE :: int where "USD_SCALE = 1000000"
definition MAX_U64 :: int where "MAX_U64 = 18446744073709551615"

definition all_digits :: "string \<Rightarrow> bool" where
  "all_digits s \<longleftrightarrow> (\<forall>c\<in>set s. char_digit c \<noteq> None)"

definition digits_value :: "string \<Rightarrow> int" where
  "digits_value s = (case parse_digits 0 s of Some n \<Rightarrow> int n | None \<Rightarrow> 0)"

text \<open>The whole part and the fraction of \<open>/^\d+(?:\.\d{1,6})?$/\<close>.\<close>

definition usd_parts :: "string \<Rightarrow> (string \<times> string) option" where
  "usd_parts s =
     (let whole = takeWhile (\<lambda>c. c \<noteq> CHR ''.'') s; rest = dropWhile (\<lambda>c. c \<noteq> CHR ''.'') s in
      if whole = [] \<or> \<not> all_digits whole then None
      else if rest = [] then Some (whole, [])
      else (let fraction = tl rest in
        if fraction \<noteq> [] \<and> length fraction \<le> 6 \<and> all_digits fraction then Some (whole, fraction) else None))"

definition parseUsd :: "string option \<Rightarrow> string \<Rightarrow> int res" where
  "parseUsd v label =
     (case Option.bind v usd_parts of
        None \<Rightarrow> Inl (Error (label @ '' must be a nonnegative USD amount with at most six decimals''))
      | Some (whole, fraction) \<Rightarrow> Inr (digits_value whole * USD_SCALE + digits_value (padEnd 6 (CHR ''0'') fraction)))"

definition formatUsd :: "int \<Rightarrow> string" where
  "formatUsd micros = show_int (micros div USD_SCALE) @ ''.'' @ padStart 6 (CHR ''0'') (show_int (micros mod USD_SCALE))"

definition parseU64 :: "string option \<Rightarrow> string \<Rightarrow> int res" where
  "parseU64 v label =
     (case v of None \<Rightarrow> Inl (Error (label @ '' must be an unsigned integer string''))
      | Some s \<Rightarrow>
          if s = [] \<or> \<not> all_digits s then Inl (Error (label @ '' must be an unsigned integer string''))
          else if MAX_U64 < digits_value s then Inl (Error (label @ '' exceeds uint64''))
          else Inr (digits_value s))"

definition positiveInteger :: "int option \<Rightarrow> string \<Rightarrow> int res" where
  "positiveInteger v label =
     (case v of None \<Rightarrow> Inl (Error (label @ '' must be a positive integer''))
      | Some n \<Rightarrow> if isSafeInteger n \<and> 1 \<le> n then Inr n
          else Inl (Error (label @ '' must be a positive integer'')))"

definition normalizeSeller :: "string \<Rightarrow> string res" where
  "normalizeSeller v = (if is_address v then Inr (toLowerCase v) else Inl (Error (v @ '': invalid seller address'')))"

section \<open>Quotes\<close>

record quote_body =
  qb_version :: int
  qb_kind :: string
  qb_chainId :: int
  approvalMode :: "string option"
  currency :: "string option"
  provider :: string
  generatedAt :: string
  expiresAt :: string
  scopeSeller :: "string option"
  sellerProofs :: int
  unitMaxCostUsd :: "string option"
  aggregateMaxCostUsd :: "string option"
  maxPricePerPguWei :: "string option"
  proofTimeoutSeconds :: "int option"
  auctionTimeoutSeconds :: "int option"
  quotedBundleSha256 :: string
  quotedPlanSha256 :: string

record cost_quote =
  quote_body :: quote_body
  quote_digest :: "string option"

definition body_json :: "quote_body \<Rightarrow> json" where
  "body_json b = JObj (
     [(''version'', JNum (qb_version b)), (''kind'', JStr (qb_kind b)), (''chainId'', JNum (qb_chainId b))]
     @ member_opt ''approvalMode'' JStr (approvalMode b)
     @ [(''currency'', json_opt JStr (currency b)), (''provider'', JStr (provider b)),
        (''generatedAt'', JStr (generatedAt b)), (''expiresAt'', JStr (expiresAt b)),
        (''scope'', JObj [(''seller'', json_opt JStr (scopeSeller b))]),
        (''counts'', JObj [(''sellerProofs'', JNum (sellerProofs b))]),
        (''unitMaxCostUsd'', json_opt (\<lambda>u. JObj [(''sellerProofUsd'', JStr u)]) (unitMaxCostUsd b)),
        (''aggregateMaxCostUsd'', json_opt JStr (aggregateMaxCostUsd b)),
        (''networkLimits'', JObj (member_opt ''maxPricePerPguWei'' JStr (maxPricePerPguWei b)
           @ member_opt ''proofTimeoutSeconds'' JNum (proofTimeoutSeconds b)
           @ member_opt ''auctionTimeoutSeconds'' JNum (auctionTimeoutSeconds b))),
        (''sources'', JObj [(''proofBundleSha256'', JStr (quotedBundleSha256 b)), (''proofPlanSha256'', JStr (quotedPlanSha256 b))])])"

definition sha256_text :: "(string \<Rightarrow> string) \<Rightarrow> string \<Rightarrow> string" where
  "sha256_text sha256 v = ''0x'' @ sha256 v"

definition quoteDigest :: "(string \<Rightarrow> string) \<Rightarrow> quote_body \<Rightarrow> string" where
  "quoteDigest sha256 b = sha256_text sha256 (canonicalJson (body_json b))"

text \<open>The approved bundle: its header, the subjects of its claims, and the document.\<close>

record approved_bundle =
  ab_version :: int
  ab_kind :: string
  ab_chainId :: int
  ab_subjects :: "string list list option"
  ab_json :: json

definition validateApprovedBundle :: "approved_bundle \<Rightarrow> unit res" where
  "validateApprovedBundle b = require (ab_version b = 1 \<and> ab_kind b = ''antseed-wash-trading-proof-bundle''
     \<and> ab_chainId b = 8453 \<and> ab_subjects b \<noteq> None \<and> ab_subjects b \<noteq> Some [])
     ''proof bundle must contain a nonempty approved Base claim set''"

record quote_request =
  qr_bundle :: approved_bundle
  qr_planSha256 :: "string option"
  qr_unitUsd :: "string option"
  qr_maxPrice :: "string option"
  qr_proofTimeout :: "int option"
  qr_auctionTimeout :: "int option"
  qr_provider :: string
  qr_expiresAt :: string
  qr_seller :: "string option"

definition is_sha256 :: "string option \<Rightarrow> bool" where
  "is_sha256 v = (case v of None \<Rightarrow> False
     | Some s \<Rightarrow> length s = 66 \<and> take 2 s = ''0x'' \<and> (\<forall>c\<in>set (drop 2 s). hex_val c \<noteq> None))"

definition quoted_body ::
  "(string \<Rightarrow> string) \<Rightarrow> (int \<Rightarrow> string) \<Rightarrow> quote_request \<Rightarrow> int \<Rightarrow> int \<Rightarrow> string option \<Rightarrow> int \<Rightarrow> int option
    \<Rightarrow> int \<Rightarrow> int \<Rightarrow> int \<Rightarrow> quote_body" where
  "quoted_body sha256 iso_text q now expiration normalized proofCount usd maxPrice proofTimeout auctionTimeout =
     \<lparr>qb_version = 6, qb_kind = ''antseed-sp1-proof-cost-quote'', qb_chainId = 8453,
       approvalMode = Some (if usd \<noteq> None then ''usd-and-network-limits'' else ''network-price-cap-only''),
       currency = (if usd \<noteq> None then Some ''USD'' else None), provider = qr_provider q,
       generatedAt = iso_text now, expiresAt = iso_text expiration, scopeSeller = normalized, sellerProofs = proofCount,
       unitMaxCostUsd = map_option formatUsd usd,
       aggregateMaxCostUsd = map_option (\<lambda>u. formatUsd (u * proofCount)) usd,
       maxPricePerPguWei = Some (show_int maxPrice), proofTimeoutSeconds = Some proofTimeout,
       auctionTimeoutSeconds = Some auctionTimeout,
       quotedBundleSha256 = sha256_text sha256 (canonicalJson (ab_json (qr_bundle q))),
       quotedPlanSha256 = js_String (qr_planSha256 q)\<rparr>"

definition buildCostQuote ::
  "(string \<Rightarrow> string) \<Rightarrow> (string \<Rightarrow> int option) \<Rightarrow> (int \<Rightarrow> string) \<Rightarrow> quote_request \<Rightarrow> int \<Rightarrow> cost_quote res" where
  "buildCostQuote sha256 parse_date iso_text q now =
     res_bind (validateApprovedBundle (qr_bundle q)) (\<lambda>_.
     res_bind (require (is_sha256 (qr_planSha256 q)) ''proof plan sha256 is required'') (\<lambda>_.
     res_bind (require (qr_provider q \<noteq> []) ''cost quote provider is required'') (\<lambda>_.
     res_bind (case parse_date (qr_expiresAt q) of
         None \<Rightarrow> Inl (Error ''cost quote expiration must be in the future'')
       | Some t \<Rightarrow> if t \<le> now then Inl (Error ''cost quote expiration must be in the future'') else Inr t) (\<lambda>expiration.
     res_bind (case qr_seller q of None \<Rightarrow> Inr None
       | Some s \<Rightarrow> res_bind (normalizeSeller s) (\<lambda>n. Inr (Some n))) (\<lambda>normalized.
     res_bind (res_map normalizeSeller (concat (case ab_subjects (qr_bundle q) of None \<Rightarrow> [] | Some ss \<Rightarrow> ss))) (\<lambda>sellers.
     let allSellers = js_set sellers in
     res_bind (require (allSellers \<noteq> []) ''proof bundle has no sellers'') (\<lambda>_.
     res_bind (require (case normalized of None \<Rightarrow> True | Some s \<Rightarrow> s \<in> set allSellers)
       (js_String normalized @ '': seller is not approved'')) (\<lambda>_.
     let proofCount = (if normalized = None then int (length allSellers) else 1) in
     res_bind (case qr_unitUsd q of None \<Rightarrow> Inr None
       | Some u \<Rightarrow> res_bind (parseUsd (Some u) ''seller proof unit cost'') (\<lambda>usd. Inr (Some usd))) (\<lambda>usd.
     res_bind (parseU64 (qr_maxPrice q) ''max price per PGU'') (\<lambda>maxPrice.
     res_bind (require (maxPrice \<noteq> 0) ''max price per PGU must be nonzero'') (\<lambda>_.
     res_bind (positiveInteger (qr_proofTimeout q) ''proof timeout'') (\<lambda>proofTimeout.
     res_bind (positiveInteger (qr_auctionTimeout q) ''auction timeout'') (\<lambda>auctionTimeout.
     let body = quoted_body sha256 iso_text q now expiration normalized proofCount usd maxPrice proofTimeout auctionTimeout
     in Inr \<lparr>quote_body = body, quote_digest = Some (quoteDigest sha256 body)\<rparr>)))))))))))))"

definition lower_equal :: "string option \<Rightarrow> string \<Rightarrow> bool" where
  "lower_equal v s \<longleftrightarrow> map_option toLowerCase v = Some (toLowerCase s)"

text \<open>\<open>new Date(expiresAt) <= now\<close> is false for an invalid date.\<close>

definition expired :: "(string \<Rightarrow> int option) \<Rightarrow> string \<Rightarrow> int \<Rightarrow> bool" where
  "expired parse_date txt now = (case parse_date txt of None \<Rightarrow> False | Some t \<Rightarrow> t \<le> now)"

definition check_limits_usd :: "quote_body \<Rightarrow> unit res" where
  "check_limits_usd b =
     res_bind (require (currency b = Some ''USD'') ''USD proving cost quote has invalid currency'') (\<lambda>_.
     res_bind (parseUsd (unitMaxCostUsd b) ''seller proof unit cost'') (\<lambda>u.
     require (aggregateMaxCostUsd b = Some (formatUsd (u * sellerProofs b))) ''proving cost quote aggregate is invalid''))"

definition check_approval_mode :: "quote_body \<Rightarrow> unit res" where
  "check_approval_mode b =
     (let mode = (case approvalMode b of None \<Rightarrow> ''usd-and-network-limits'' | Some m \<Rightarrow> m) in
      if mode = ''usd-and-network-limits'' then check_limits_usd b
      else if mode = ''network-price-cap-only''
      then require (currency b = None \<and> unitMaxCostUsd b = None \<and> aggregateMaxCostUsd b = None)
        ''network-price-cap-only quote must not claim USD limits''
      else Inl (Error ''unsupported proving cost approval mode''))"

definition approveCostQuote ::
  "(string \<Rightarrow> string) \<Rightarrow> (string \<Rightarrow> int option) \<Rightarrow> cost_quote \<Rightarrow> string option \<Rightarrow> int \<Rightarrow> string option \<Rightarrow> int \<Rightarrow> cost_quote res" where
  "approveCostQuote sha256 parse_date q approvedDigest expectedCount expectedSeller now =
     (let b = quote_body q; digest = quoteDigest sha256 b in
     res_bind (require (qb_version b = 6 \<and> qb_kind b = ''antseed-sp1-proof-cost-quote'' \<and> qb_chainId b = 8453)
       ''unsupported proving cost quote'') (\<lambda>_.
     res_bind (require (lower_equal (quote_digest q) digest) ''proving cost quote digest mismatch'') (\<lambda>_.
     res_bind (require (lower_equal approvedDigest digest)
       (''explicit approval requires --approve-cost-digest '' @ digest)) (\<lambda>_.
     res_bind (require (\<not> expired parse_date (expiresAt b) now) ''proving cost quote has expired'') (\<lambda>_.
     res_bind (require (sellerProofs b = expectedCount) ''proving cost quote sellerProofs mismatch'') (\<lambda>_.
     res_bind (case expectedSeller of None \<Rightarrow> Inr None
       | Some s \<Rightarrow> res_bind (normalizeSeller s) (\<lambda>n. Inr (Some n))) (\<lambda>seller.
     res_bind (require (scopeSeller b = seller) ''proving cost quote seller scope mismatch'') (\<lambda>_.
     res_bind (check_approval_mode b) (\<lambda>_.
     res_bind (parseU64 (maxPricePerPguWei b) ''max price per PGU'') (\<lambda>_.
     res_bind (positiveInteger (proofTimeoutSeconds b) ''proof timeout'') (\<lambda>_.
     res_bind (positiveInteger (auctionTimeoutSeconds b) ''auction timeout'') (\<lambda>_.
     Inr q))))))))))))"

section \<open>Reading amounts back\<close>

lemma all_digits_simps [simp]:
  "all_digits []" "all_digits (c # s) \<longleftrightarrow> char_digit c \<noteq> None \<and> all_digits s"
  "all_digits (s @ t) \<longleftrightarrow> all_digits s \<and> all_digits t" "all_digits (show_nat n)"
  "all_digits (replicate k (CHR ''0''))"
  using show_nat_digits [of _ n] by (auto simp: all_digits_def char_digit_def set_replicate_conv_if split: if_splits)

lemma digits_value_show [simp]: "digits_value (show_nat n) = int n"
  by (simp add: digits_value_def parse_digits_show_nat)

lemma parse_digits_zeros: "parse_digits 0 (replicate k (CHR ''0'') @ s) = parse_digits 0 s"
  by (induction k) (simp_all add: char_digit_def)

lemma digits_value_padStart [simp]: "digits_value (padStart k (CHR ''0'') s) = digits_value s"
  by (simp add: digits_value_def padStart_def parse_digits_zeros)

lemma digits_value_nonneg [simp]: "0 \<le> digits_value s"
  by (simp add: digits_value_def split: option.split)

lemma length_show_nat: "n < 10 ^ k \<Longrightarrow> 0 < k \<Longrightarrow> length (show_nat n) \<le> k"
proof (induction n arbitrary: k rule: show_nat.induct)
  case (1 n)
  show ?case
  proof (cases "n < 10")
    case True
    with "1.prems" show ?thesis by (simp add: show_nat.simps [of n])
  next
    case False
    then obtain j where k: "k = Suc j" "0 < j"
      using "1.prems" by (cases k; cases "k - 1") auto
    have "n div 10 < 10 ^ j" using "1.prems" k by (simp add: div_less_iff_less_mult)
    with False "1.IH" [of j] k show ?thesis by (simp add: show_nat.simps [of n])
  qed
qed

lemma show_int_nat: "0 \<le> n \<Longrightarrow> show_int n = show_nat (nat n)"
  by (simp add: show_int_def)

lemma parseUsd_nonneg: "parseUsd v label = Inr u \<Longrightarrow> 0 \<le> u"
  by (auto simp: parseUsd_def USD_SCALE_def split: option.splits prod.splits)

lemma no_point: "CHR ''.'' \<notin> set (show_nat n)"
  using show_nat_digits [of "CHR ''.''" n] by (auto simp: char_digit_def)

text \<open>Formatting an amount and reading it again gives the amount.\<close>

theorem usd_roundtrip:
  assumes "0 \<le> micros"
  shows "parseUsd (Some (formatUsd micros)) label = Inr micros"
proof -
  let ?w = "show_nat (nat (micros div USD_SCALE))" and ?f = "show_nat (nat (micros mod USD_SCALE))"
  have parts: "0 \<le> micros div USD_SCALE" "0 \<le> micros mod USD_SCALE" "micros mod USD_SCALE < USD_SCALE"
    using assms by (simp_all add: USD_SCALE_def pos_imp_zdiv_nonneg_iff)
  have len: "length ?f \<le> 6"
    by (rule length_show_nat) (use parts in \<open>auto simp: USD_SCALE_def nat_less_iff\<close>)
  let ?fr = "padStart 6 (CHR ''0'') ?f"
  have fmt: "formatUsd micros = ?w @ CHR ''.'' # ?fr"
    by (simp add: formatUsd_def show_int_nat parts)
  have fr: "?fr \<noteq> []" "length ?fr = 6" "all_digits ?fr" "padEnd 6 (CHR ''0'') ?fr = ?fr"
    using len by (auto simp: padStart_def padEnd_def)
  have "\<forall>c\<in>set ?w. c \<noteq> CHR ''.''" using no_point by auto
  then have "takeWhile (\<lambda>c. c \<noteq> CHR ''.'') (?w @ CHR ''.'' # ?fr) = ?w"
    "dropWhile (\<lambda>c. c \<noteq> CHR ''.'') (?w @ CHR ''.'' # ?fr) = CHR ''.'' # ?fr"
    by (simp_all add: takeWhile_append2 dropWhile_append2)
  then have "usd_parts (formatUsd micros) = Some (?w, ?fr)"
    unfolding fmt usd_parts_def Let_def using fr by simp
  moreover have "digits_value ?w * USD_SCALE + digits_value ?fr = micros"
    using parts by simp
  ultimately show ?thesis using fr(4) by (simp add: parseUsd_def)
qed

lemma parseU64_show: "0 \<le> n \<Longrightarrow> n \<le> MAX_U64 \<Longrightarrow> parseU64 (Some (show_int n)) label = Inr n"
  by (simp add: parseU64_def show_int_nat)

lemma parseU64_bounds: "parseU64 v label = Inr n \<Longrightarrow> 0 \<le> n \<and> n \<le> MAX_U64"
  by (auto simp: parseU64_def split: option.splits if_splits)

lemma positiveInteger_Inr: "positiveInteger v label = Inr n \<longleftrightarrow> v = Some n \<and> isSafeInteger n \<and> 1 \<le> n"
  by (auto simp: positiveInteger_def split: option.splits)

section \<open>Properties of quotes\<close>

text \<open>A quote that is built is approved with its own digest, for the seller it was built for and the
  number of proofs it states, until it expires.\<close>

theorem built_quote_is_approved:
  assumes "buildCostQuote sha256 parse_date iso_text q now = Inr qt"
    and "parse_date (qr_expiresAt q) = Some t" "parse_date (iso_text t) = Some t" "later < t"
  shows "approveCostQuote sha256 parse_date qt (quote_digest qt) (sellerProofs (quote_body qt)) (qr_seller q) later
     = Inr qt"
proof -
  obtain normalized proofCount usd maxPrice proofTimeout auctionTimeout where
    seller: "(case qr_seller q of None \<Rightarrow> Inr None | Some s \<Rightarrow> res_bind (normalizeSeller s) (\<lambda>n. Inr (Some n))) = Inr normalized"
    and usd: "(case qr_unitUsd q of None \<Rightarrow> Inr None
       | Some u \<Rightarrow> res_bind (parseUsd (Some u) ''seller proof unit cost'') (\<lambda>usd. Inr (Some usd))) = Inr usd"
    and price: "parseU64 (qr_maxPrice q) ''max price per PGU'' = Inr maxPrice"
    and times: "positiveInteger (qr_proofTimeout q) ''proof timeout'' = Inr proofTimeout"
      "positiveInteger (qr_auctionTimeout q) ''auction timeout'' = Inr auctionTimeout"
    and body: "quote_body qt = quoted_body sha256 iso_text q now t normalized proofCount usd maxPrice proofTimeout auctionTimeout"
    and digest: "quote_digest qt = Some (quoteDigest sha256 (quote_body qt))"
    using assms(1,2) by (auto simp: buildCostQuote_def Let_def res_bind_Inr split: if_splits)
  note body = body [unfolded quoted_body_def]
  have mode: "check_approval_mode (quote_body qt) = Inr ()"
  proof (cases usd)
    case None
    with body show ?thesis by (simp add: check_approval_mode_def require_def)
  next
    case (Some u)
    then have "0 \<le> u" using usd parseUsd_nonneg by (auto simp: res_bind_Inr split: option.splits)
    with Some body show ?thesis
      by (simp add: check_approval_mode_def check_limits_usd_def usd_roundtrip require_def)
  qed
  have "\<not> expired parse_date (expiresAt (quote_body qt)) later"
    using assms(3,4) body by (simp add: expired_def)
  moreover have "positiveInteger (Some proofTimeout) ''proof timeout'' = Inr proofTimeout"
    "positiveInteger (Some auctionTimeout) ''auction timeout'' = Inr auctionTimeout"
    using times by (simp_all add: positiveInteger_Inr)
  ultimately show ?thesis using body digest mode seller price parseU64_bounds [OF price]
    by (simp add: approveCostQuote_def Let_def require_def lower_equal_def parseU64_show)
qed

section \<open>Examples\<close>

text \<open>Dates as decimal milliseconds.\<close>

definition ex_date :: "string \<Rightarrow> int option" where
  "ex_date s = map_option int (parse_nat s)"

definition ex_address :: string where
  "ex_address = ''0xAb'' @ replicate 38 (CHR ''1'')"

definition ex_request :: quote_request where
  "ex_request = \<lparr>qr_bundle = \<lparr>ab_version = 1, ab_kind = ''antseed-wash-trading-proof-bundle'', ab_chainId = 8453,
       ab_subjects = Some [[ex_address]], ab_json = JNull\<rparr>,
     qr_planSha256 = Some (ex_hash (CHR ''d'')), qr_unitUsd = Some ''0.00001'', qr_maxPrice = Some ''7'',
     qr_proofTimeout = Some 60, qr_auctionTimeout = Some 30, qr_provider = ''p'', qr_expiresAt = ''99'',
     qr_seller = None\<rparr>"

text \<open>A digest that is the length of its input.\<close>

definition ex_length :: "string \<Rightarrow> string" where
  "ex_length bytes = show_int (int (length bytes))"

theorem usd_roundtrip_witness:
  "formatUsd 1250000 = ''1.250000'' \<and> parseUsd (Some ''1.250000'') ''x'' = Inr 1250000"
proof -
  have f: "formatUsd 1250000 = ''1.250000''" by code_simp
  with usd_roundtrip [of 1250000 "''x''"] show ?thesis by simp
qed

theorem built_quote_is_approved_witness:
  "\<exists>q. buildCostQuote ex_length ex_date show_int ex_request 50 = Inr q
     \<and> approveCostQuote ex_length ex_date q (quote_digest q) (sellerProofs (quote_body q)) None 98 = Inr q"
proof -
  have "\<not> isl (buildCostQuote ex_length ex_date show_int ex_request 50)" by code_simp
  then obtain q where q: "buildCostQuote ex_length ex_date show_int ex_request 50 = Inr q"
    using sum.collapse(2) by metis
  have "ex_date (qr_expiresAt ex_request) = Some 99" by code_simp
  moreover have "ex_date (show_int 99) = Some 99" by code_simp
  ultimately have "approveCostQuote ex_length ex_date q (quote_digest q) (sellerProofs (quote_body q)) (qr_seller ex_request) 98 = Inr q"
    by (rule built_quote_is_approved [OF q]) simp
  with q show ?thesis by (simp add: ex_request_def)
qed

text \<open>A quote whose \<open>expiresAt\<close> is not a date never expires: it is approved at any time.\<close>

definition ex_undated :: quote_body where
  "ex_undated = \<lparr>qb_version = 6, qb_kind = ''antseed-sp1-proof-cost-quote'', qb_chainId = 8453,
     approvalMode = Some ''network-price-cap-only'', currency = None, provider = ''p'', generatedAt = ''0'',
     expiresAt = ''never'', scopeSeller = None, sellerProofs = 1, unitMaxCostUsd = None, aggregateMaxCostUsd = None,
     maxPricePerPguWei = Some ''7'', proofTimeoutSeconds = Some 60, auctionTimeoutSeconds = Some 30,
     quotedBundleSha256 = [], quotedPlanSha256 = []\<rparr>"

theorem undated_quote_never_expires:
  "approveCostQuote ex_length ex_date \<lparr>quote_body = ex_undated, quote_digest = Some (quoteDigest ex_length ex_undated)\<rparr>
     (Some (quoteDigest ex_length ex_undated)) 1 None now =
   Inr \<lparr>quote_body = ex_undated, quote_digest = Some (quoteDigest ex_length ex_undated)\<rparr>"
proof -
  have mode: "check_approval_mode ex_undated = Inr ()" by code_simp
  have price: "\<exists>n. parseU64 (Some ''7'') ''max price per PGU'' = Inr n"
    by (simp add: parseU64_def digits_value_def MAX_U64_def char_digit_def)
  have date: "\<not> expired ex_date ''never'' now"
    by (simp add: expired_def ex_date_def parse_nat_def char_digit_def)
  show ?thesis
    using mode price date
    by (auto simp: approveCostQuote_def ex_undated_def lower_equal_def require_def Let_def positiveInteger_def
        isSafeInteger_def MAX_SAFE_INTEGER_def)
qed

end
