(* ===== verification/Artifacts.thy ===== *)
theory Artifacts
  imports Cost_Quote Hex
begin

text \<open>
  The JSON documents of the proving pipeline and their checks: the development artifacts and
  manifests of \<open>scripts/replay-seller-development.mjs\<close> (\<open>validateArtifact\<close>,
  \<open>validateManifest\<close>), the gas estimates and budgets of
  \<open>scripts/prepare-seller-proving.mjs\<close> (\<open>validateEstimate\<close>, \<open>calculateBudget\<close>)
  and the evidence per seller of \<open>scripts/seller-evidence.mjs\<close>. A document is a
  \<open>json\<close> value; a member that is not there (\<open>undefined\<close>) is \<open>None\<close>, and so is
  every member of something that is no object.
\<close>

section \<open>Documents\<close>

definition mem :: "json \<Rightarrow> string \<Rightarrow> json option" where
  "mem j k = (case j of JObj ms \<Rightarrow> map_of ms k | _ \<Rightarrow> None)"

definition sub_mem :: "json \<Rightarrow> string \<Rightarrow> string \<Rightarrow> json option" where
  "sub_mem j k l = Option.bind (mem j k) (\<lambda>v. mem v l)"

text \<open>The object with members replaced or added: \<open>{ ...j, k: v, ... }\<close>.\<close>

definition obj_assign :: "json \<Rightarrow> (string \<times> json) list \<Rightarrow> json" where
  "obj_assign j kvs = (case j of JObj ms \<Rightarrow> JObj (fold (\<lambda>(k, v). AList.update k v) kvs ms)
     | _ \<Rightarrow> JObj (fold (\<lambda>(k, v). AList.update k v) kvs []))"

definition js_truthy :: "json option \<Rightarrow> bool" where
  "js_truthy v = (case v of None \<Rightarrow> False | Some JNull \<Rightarrow> False | Some (JBool b) \<Rightarrow> b
     | Some (JNum n) \<Rightarrow> n \<noteq> 0 | Some (JStr s) \<Rightarrow> s \<noteq> [] | Some _ \<Rightarrow> True)"

definition elements :: "json option \<Rightarrow> json list" where
  "elements v = (case v of Some (JArr js) \<Rightarrow> js | _ \<Rightarrow> [])"

definition is_array :: "json option \<Rightarrow> bool" where
  "is_array v = (case v of Some (JArr js) \<Rightarrow> True | _ \<Rightarrow> False)"

definition str_of :: "json option \<Rightarrow> string" where
  "str_of v = (case v of Some (JStr s) \<Rightarrow> s | _ \<Rightarrow> [])"

text \<open>\<open>String(value)\<close>, which a pattern's \<open>test\<close> applies to its argument.\<close>

fun js_text :: "json \<Rightarrow> string" where
  "js_text JNull = ''null''"
| "js_text (JBool b) = (if b then ''true'' else ''false'')"
| "js_text (JNum n) = show_int n"
| "js_text (JStr s) = s"
| "js_text (JArr []) = []"
| "js_text (JArr (j # js)) = (if j = JNull then [] else js_text j)
     @ concat (map (\<lambda>i. CHR '','' # (if i = JNull then [] else js_text i)) js)"
| "js_text (JObj ms) = ''[object Object]''"

definition text_of :: "json option \<Rightarrow> string" where
  "text_of v = (case v of None \<Rightarrow> ''undefined'' | Some j \<Rightarrow> js_text j)"

definition present :: "json option \<Rightarrow> bool" where
  "present v \<longleftrightarrow> v \<noteq> None \<and> v \<noteq> Some JNull"

text \<open>
  \<open>value.k\<close>, which throws on \<open>undefined\<close> and \<open>null\<close>;
  \<open>value.toLowerCase()\<close>, which only a string has; and the elements a
  \<open>for ... of\<close> visits.
\<close>

definition field :: "json option \<Rightarrow> string \<Rightarrow> json option res" where
  "field v k = (if present v then Inr (mem (the v) k) else Inl TypeError)"

definition lower_text :: "json option \<Rightarrow> string res" where
  "lower_text v = (case v of Some (JStr s) \<Rightarrow> Inr (toLowerCase s) | _ \<Rightarrow> Inl TypeError)"

text \<open>\<open>value?.toLowerCase()\<close>, and \<open>value ?? ""\<close> as the argument of a pattern.\<close>

definition optional_lower :: "json option \<Rightarrow> string option res" where
  "optional_lower v = (if present v then res_bind (lower_text v) (\<lambda>s. Inr (Some s)) else Inr None)"

definition known_text :: "json option \<Rightarrow> string" where
  "known_text v = (if present v then text_of v else [])"

definition iterate :: "json option \<Rightarrow> json list res" where
  "iterate v = (case v of Some (JArr js) \<Rightarrow> Inr js | Some (JStr s) \<Rightarrow> Inr (map (\<lambda>c. JStr [c]) s) | _ \<Rightarrow> Inl TypeError)"

text \<open>\<open>a === b\<close>: two documents read from different files share no object.\<close>

definition same_value :: "json option \<Rightarrow> json option \<Rightarrow> bool" where
  "same_value a b \<longleftrightarrow> a = b \<and> (case a of Some (JArr js) \<Rightarrow> False | Some (JObj ms) \<Rightarrow> False | _ \<Rightarrow> True)"

text \<open>An object literal: \<open>JSON.stringify\<close> leaves out the members that are \<open>undefined\<close>.\<close>

definition known_members :: "(string \<times> json option) list \<Rightarrow> (string \<times> json) list" where
  "known_members ms = List.map_filter (\<lambda>(k, v). map_option (Pair k) v) ms"

text \<open>\<open>BigInt(value)\<close>.\<close>

definition big_int :: "json option \<Rightarrow> int res" where
  "big_int v = (case v of Some (JStr s) \<Rightarrow> js_BigInt s | Some (JNum n) \<Rightarrow> Inr n
     | Some (JBool b) \<Rightarrow> Inr (if b then 1 else 0) | _ \<Rightarrow> Inl TypeError)"

text \<open>\<open>values.reduce((total, value) => total + BigInt(value.k), 0n)\<close>.\<close>

definition sum_member :: "string \<Rightarrow> json list \<Rightarrow> int res" where
  "sum_member k js = res_fold (\<lambda>j sofar. res_bind (big_int (mem j k)) (\<lambda>n. Inr (sofar + n))) js 0"

section \<open>Patterns\<close>

text \<open>\<open>/^0x[0-9a-f]{n}$/\<close>, with capitals where the pattern says so, and \<open>/^0x(?:[0-9a-fA-F]{2})+$/\<close>.\<close>

definition hex_text :: "nat \<Rightarrow> string \<Rightarrow> bool" where
  "hex_text n s \<longleftrightarrow> take 2 s = ''0x'' \<and> length s = n + 2 \<and> all_hex (drop 2 s)"

definition lower_hex_text :: "nat \<Rightarrow> string \<Rightarrow> bool" where
  "lower_hex_text n s \<longleftrightarrow> hex_text n s \<and> toLowerCase (drop 2 s) = drop 2 s"

definition byte_text :: "string \<Rightarrow> bool" where
  "byte_text s \<longleftrightarrow> take 2 s = ''0x'' \<and> 4 \<le> length s \<and> even (length s) \<and> all_hex (drop 2 s)"

definition positive_decimal :: "string \<Rightarrow> bool" where
  "positive_decimal s \<longleftrightarrow> s \<noteq> [] \<and> all_digits s \<and> hd s \<noteq> CHR ''0''"

section \<open>Development artifacts and manifests\<close>

definition expected_members :: "json \<Rightarrow> json \<Rightarrow> (string \<times> json option) list" where
  "expected_members sl manifest =
     [(''version'', Some (JNum 3)), (''kind'', Some (JStr ''antseed-wash-trading-seller-proof'')),
      (''proofArchitecture'', Some (JStr ''direct-seller-v1'')), (''securityMode'', Some (JStr ''development'')),
      (''alphaReturnBps'', Some (JNum 3000)), (''seller'', mem sl ''seller''),
      (''periodStartBlock'', mem manifest ''periodStartBlock''), (''periodEndBlock'', mem manifest ''periodEndBlock''),
      (''sellerProgramVKey'', mem manifest ''sellerProgramVKey''),
      (''provenWashVolumeRaw'', mem sl ''provenWashVolumeRaw''),
      (''totalSellerVolumeRaw'', mem sl ''totalSellerVolumeRaw''), (''evidenceDigest'', mem sl ''evidenceDigest''),
      (''proved'', Some (JBool True)), (''verified'', Some (JBool True)), (''proverNetworkSubmitted'', Some (JBool False))]"

definition validateArtifact :: "json \<Rightarrow> json \<Rightarrow> json \<Rightarrow> unit res" where
  "validateArtifact artifact sl manifest =
     res_bind (res_fold (\<lambda>(k, v) _. require (mem artifact k = v) (str_of (mem sl ''seller'') @ '': unexpected '' @ k))
       (expected_members sl manifest) ()) (\<lambda>_.
     res_bind (require (byte_text (text_of (mem artifact ''proofBytes''))) ''missing development proof bytes'') (\<lambda>_.
     res_bind (require (byte_text (text_of (mem artifact ''publicValues''))) ''missing public values'') (\<lambda>_.
     require (is_array (mem artifact ''blockAuthenticationChunks'')
         \<and> mem artifact ''blockAuthenticationChunkCount'' = Some (JNum (int (length (elements (mem artifact ''blockAuthenticationChunks'')))))
         \<and> elements (mem artifact ''blockAuthenticationChunks'') \<noteq> [])
       ''missing block authentication chunks'')))"

definition safe_number :: "json option \<Rightarrow> bool" where
  "safe_number v = (case v of Some (JNum n) \<Rightarrow> isSafeInteger n | _ \<Rightarrow> False)"

definition num_of :: "json option \<Rightarrow> int" where
  "num_of v = (case v of Some (JNum n) \<Rightarrow> n | _ \<Rightarrow> 0)"

definition check_seller :: "json \<Rightarrow> string list \<Rightarrow> string list res" where
  "check_seller sl seen =
     res_bind (require (lower_hex_text 40 (text_of (mem sl ''seller'')) \<and> str_of (mem sl ''seller'') \<notin> set seen)
       ''invalid or duplicate seller'') (\<lambda>_.
     res_bind (require (\<not> (js_truthy (mem sl ''sellerInput'') = js_truthy (mem sl ''evidencePath'')
         \<or> (\<not> js_truthy (mem sl ''sellerInput'') \<and> (\<not> js_truthy (mem sl ''totalVolumePath'')
              \<or> mem sl ''evidenceKind'' \<notin> {Some (JStr ''closed-loop''), Some (JStr ''reciprocal'')}))))
       ''select exactly one saved seller input or evidence with total-volume witness'') (\<lambda>_.
     Inr (seen @ [str_of (mem sl ''seller'')])))"

definition validateManifest :: "json \<Rightarrow> unit res" where
  "validateManifest m =
     res_bind (require (mem m ''alphaReturnBps'' = Some (JNum 3000) \<and> mem m ''securityMode'' = Some (JStr ''development'')
         \<and> mem m ''productionReady'' = Some (JBool False) \<and> is_array (mem m ''sellers'') \<and> elements (mem m ''sellers'') \<noteq> []
         \<and> safe_number (mem m ''periodStartBlock'') \<and> 1 \<le> num_of (mem m ''periodStartBlock'')
         \<and> safe_number (mem m ''periodEndBlock'') \<and> num_of (mem m ''periodStartBlock'') \<le> num_of (mem m ''periodEndBlock''))
       ''invalid development manifest'') (\<lambda>_.
     res_bind (res_fold check_seller (elements (mem m ''sellers'')) []) (\<lambda>_. Inr ()))"

section \<open>Estimates and budgets\<close>

definition estimate_fields :: "string list" where
  "estimate_fields = [''version'', ''kind'', ''proofArchitecture'', ''alphaReturnBps'', ''seller'', ''sellerProgramVKey'',
     ''periodStartBlock'', ''periodEndBlock'', ''provenWashVolumeRaw'', ''totalSellerVolumeRaw'', ''evidenceDigest'',
     ''publicValues'', ''blockAuthenticationRoot'', ''blockReferenceCount'', ''instructionCount'']"

definition validateEstimate :: "json \<Rightarrow> json \<Rightarrow> unit res" where
  "validateEstimate estimate baseline =
     res_bind (res_fold (\<lambda>f _. require (mem estimate f = mem baseline f) (''estimate changed '' @ f)) estimate_fields ()) (\<lambda>_.
     res_bind (require (mem estimate ''securityMode'' = Some (JStr ''development'') \<and> mem estimate ''proved'' = Some (JBool False)
         \<and> mem estimate ''verified'' = Some (JBool True) \<and> mem estimate ''proverNetworkSubmitted'' = Some (JBool False)
         \<and> mem estimate ''proofBytes'' = Some (JStr ''0x'') \<and> \<not> present (mem estimate ''requestId''))
       ''expected execution-only estimate'') (\<lambda>_.
     require (positive_decimal (str_of (mem estimate ''proverGasUnits''))) ''missing positive PGU measurement''))"

definition positive :: "json option \<Rightarrow> int res" where
  "positive v = (if positive_decimal (str_of v) then Inr (digits_value (str_of v))
     else Inl (Error ''expected positive decimal amount''))"

definition nonnegative :: "json option \<Rightarrow> int res" where
  "nonnegative v = (if str_of v = ''0'' \<or> positive_decimal (str_of v) then Inr (digits_value (str_of v))
     else Inl (Error ''expected nonnegative decimal amount''))"

record budget =
  bg_proofCount :: nat
  totalProverGasUnits :: int
  baseFeesWei :: int
  computationAtPriceCapWei :: int
  totalAtPriceCapWei :: int
  sufficientAtPriceCap :: bool
  shortfallWei :: int

definition calculateBudget :: "json list \<Rightarrow> json option \<Rightarrow> json option \<Rightarrow> json option \<Rightarrow> budget res" where
  "calculateBudget gasUnits pricePerPguWei baseFeeWei balanceWei =
     res_bind (require (gasUnits \<noteq> []) ''empty estimate batch'') (\<lambda>_.
     res_bind (res_fold (\<lambda>v total. res_bind (positive (Some v)) (\<lambda>n. Inr (total + n))) gasUnits 0) (\<lambda>totalPgu.
     res_bind (positive pricePerPguWei) (\<lambda>price.
     res_bind (nonnegative baseFeeWei) (\<lambda>fee.
     res_bind (nonnegative balanceWei) (\<lambda>balance.
     let computation = totalPgu * price; baseFees = int (length gasUnits) * fee; t = computation + baseFees in
     Inr \<lparr>bg_proofCount = length gasUnits, totalProverGasUnits = totalPgu, baseFeesWei = baseFees,
       computationAtPriceCapWei = computation, totalAtPriceCapWei = t, sufficientAtPriceCap = (balance \<ge> t),
       shortfallWei = (if t > balance then t - balance else 0)\<rparr>)))))"

section \<open>Evidence per seller\<close>

text \<open>
  \<open>sellerEvidenceByAddress\<close>: the entries are keyed by their claim's id; a claim of the bundle
  is its id and its subjects.
\<close>

definition add_entry :: "string \<times> 'e \<Rightarrow> (string \<times> 'e) list \<Rightarrow> (string \<times> 'e) list res" where
  "add_entry entry byClaim = (case entry of (i, e) \<Rightarrow>
     res_bind (require (map_of byClaim (toLowerCase i) = None) (toLowerCase i @ '': duplicate evidence entry'')) (\<lambda>_.
     Inr (byClaim @ [(toLowerCase i, e)])))"

definition add_subject :: "'e \<Rightarrow> string \<Rightarrow> (string \<times> 'e) list \<Rightarrow> (string \<times> 'e) list res" where
  "add_subject e subject found =
     res_bind (require (map_of found (toLowerCase subject) = None)
       (toLowerCase subject @ '': exactly one evidence bundle is supported per seller proof'')) (\<lambda>_.
     Inr (found @ [(toLowerCase subject, e)]))"

definition add_claim :: "(string \<times> 'e) list \<Rightarrow> string \<times> string list \<Rightarrow> (string \<times> 'e) list \<Rightarrow> (string \<times> 'e) list res" where
  "add_claim byClaim cl found = (case cl of (i, subs) \<Rightarrow>
     (case map_of byClaim (toLowerCase i) of
        None \<Rightarrow> Inl (Error (i @ '': approved evidence is missing''))
      | Some e \<Rightarrow> res_fold (add_subject e) subs found))"

definition sellerEvidenceByAddress ::
  "(string \<times> string list) list \<Rightarrow> (string \<times> 'e) list \<Rightarrow> (string \<times> 'e) list res" where
  "sellerEvidenceByAddress cs entries =
     res_bind (res_fold add_entry entries []) (\<lambda>byClaim. res_fold (add_claim byClaim) cs [])"

definition singleEvidenceEntry :: "json option \<Rightarrow> string \<Rightarrow> json res" where
  "singleEvidenceEntry entry sl =
     (case entry of None \<Rightarrow> Inl (Error (sl @ '': exactly one evidence bundle is required''))
      | Some e \<Rightarrow>
          if e = JNull \<or> is_array (Some e) \<or> \<not> js_truthy (mem e ''kind'') \<or> \<not> js_truthy (mem e ''witnessPath'')
          then Inl (Error (sl @ '': exactly one evidence bundle is required'')) else Inr e)"

section \<open>Lemmas\<close>

lemma sum_member_Inr: "sum_member k js = Inr t \<Longrightarrow> t = (\<Sum>j\<leftarrow>js. projr (big_int (mem j k)))"
proof -
  have "res_fold (\<lambda>j sofar. res_bind (big_int (mem j k)) (\<lambda>n. Inr (sofar + n))) js a = Inr t
      \<Longrightarrow> t = a + (\<Sum>j\<leftarrow>js. projr (big_int (mem j k)))" for a
  proof (induction js arbitrary: a)
    case (Cons j js)
    then show ?case by (cases "big_int (mem j k)") (simp, fastforce)
  qed simp
  from this [of 0] show "sum_member k js = Inr t \<Longrightarrow> t = (\<Sum>j\<leftarrow>js. projr (big_int (mem j k)))"
    by (simp add: sum_member_def)
qed

lemma mem_JObj [simp]: "mem (JObj ms) k = map_of ms k"
  by (simp add: mem_def)

lemma map_of_known: "distinct (map fst ms) \<Longrightarrow> map_of (known_members ms) k = Option.bind (map_of ms k) (\<lambda>v. v)"
proof (induction ms)
  case (Cons x xs)
  then show ?case
    by (cases x; cases "snd x")
      (auto simp: known_members_def map_filter_simps dest: map_of_SomeD split: option.splits, force dest: map_of_SomeD split: bind_splits)
qed (simp add: known_members_def map_filter_simps)

lemma mem_obj_assign:
  "mem (obj_assign (JObj ms) kvs) k = map_of (fold (\<lambda>(k, v). AList.update k v) kvs ms) k"
  by (simp add: mem_def obj_assign_def)

lemma map_of_fold_update: "map_of (fold (\<lambda>(k, v). AList.update k v) kvs ms) = map_of ms ++ map_of (rev kvs)"
  by (induction kvs arbitrary: ms) (auto simp: update_conv' map_add_def fun_eq_iff split: option.splits)

lemma mem_assigned:
  "mem (obj_assign j kvs) k = (case map_of (rev kvs) k of None \<Rightarrow> mem j k | Some v \<Rightarrow> Some v)"
  by (cases j) (simp_all add: mem_def obj_assign_def map_of_fold_update map_add_def split: option.splits)

lemma require_fold_Inr:
  "res_fold (\<lambda>x _. require (p x) (m x)) xs () = Inr () \<longleftrightarrow> (\<forall>x\<in>set xs. p x)"
  by (induction xs) (auto simp: require_def split: if_splits)

lemma add_subject_Inr:
  "add_subject e s found = Inr out \<longleftrightarrow> toLowerCase s \<notin> fst ` set found \<and> out = found @ [(toLowerCase s, e)]"
  by (auto simp: add_subject_def res_bind_Inr map_of_eq_None_iff)

lemma add_subjects_Inr:
  "res_fold (add_subject e) subs found = Inr out \<longleftrightarrow>
     out = found @ map (\<lambda>s. (toLowerCase s, e)) subs
   \<and> distinct (map toLowerCase subs) \<and> set (map toLowerCase subs) \<inter> fst ` set found = {}"
proof (induction subs arbitrary: found)
  case (Cons s subs)
  show ?case unfolding res_fold_Cons_Inr add_subject_Inr by (auto simp: Cons.IH)
qed auto

lemma add_entry_Inr:
  "add_entry (i, e) found = Inr out \<longleftrightarrow> toLowerCase i \<notin> fst ` set found \<and> out = found @ [(toLowerCase i, e)]"
  by (auto simp: add_entry_def res_bind_Inr map_of_eq_None_iff)

lemma add_entries_Inr:
  "res_fold add_entry entries found = Inr out \<Longrightarrow> distinct (map fst found) \<Longrightarrow>
   out = found @ map (\<lambda>(i, e). (toLowerCase i, e)) entries \<and> distinct (map fst out)"
proof (induction entries arbitrary: found)
  case (Cons x xs)
  obtain i e where x: "x = (i, e)" by (cases x)
  from Cons.prems(1) have new: "toLowerCase i \<notin> fst ` set found"
    and rest: "res_fold add_entry xs (found @ [(toLowerCase i, e)]) = Inr out"
    unfolding res_fold_Cons_Inr x add_entry_Inr by auto
  from new Cons.prems(2) have "distinct (map fst (found @ [(toLowerCase i, e)]))" by auto
  note IH = Cons.IH [OF rest this]
  have "out = found @ map (\<lambda>(i, e). (toLowerCase i, e)) (x # xs)"
    using conjunct1 [OF IH] by (simp add: x)
  with conjunct2 [OF IH] show ?case by blast
qed simp

lemma add_claim_Inr:
  "add_claim byClaim (i, subs) found = Inr out \<longleftrightarrow>
     (\<exists>e. map_of byClaim (toLowerCase i) = Some e \<and> res_fold (add_subject e) subs found = Inr out)"
  by (auto simp: add_claim_def split: option.splits)

lemma add_claims_Inr:
  "res_fold (add_claim byClaim) cs found = Inr out \<Longrightarrow> distinct (map fst found) \<Longrightarrow>
   distinct (map fst out)
   \<and> map fst out = map fst found @ concat (map (\<lambda>(i, subs). map toLowerCase subs) cs)
   \<and> (\<forall>(s, e)\<in>set out. (s, e) \<in> set found \<or> (\<exists>(i, subs)\<in>set cs. s \<in> toLowerCase ` set subs \<and> map_of byClaim (toLowerCase i) = Some e))"
proof (induction cs arbitrary: found)
  case (Cons x xs)
  obtain i subs where x: "x = (i, subs)" by (cases x)
  from Cons.prems(1) obtain e mid where e: "map_of byClaim (toLowerCase i) = Some e"
    and mid: "res_fold (add_subject e) subs found = Inr mid" and rest: "res_fold (add_claim byClaim) xs mid = Inr out"
    unfolding res_fold_Cons_Inr x add_claim_Inr by blast
  from mid have m: "mid = found @ map (\<lambda>s. (toLowerCase s, e)) subs" "distinct (map fst mid)"
    using Cons.prems(2) by (auto simp: add_subjects_Inr comp_def)
  note IH = Cons.IH [OF rest m(2)]
  have "map fst out = map fst found @ concat (map (\<lambda>(i, subs). map toLowerCase subs) (x # xs))"
    using IH by (simp add: x m(1) comp_def)
  moreover have "(s, a) \<in> set found
      \<or> (\<exists>(i, subs)\<in>set (x # xs). s \<in> toLowerCase ` set subs \<and> map_of byClaim (toLowerCase i) = Some a)"
    if "(s, a) \<in> set out" for s a
  proof -
    from IH that consider "(s, a) \<in> set mid"
      | "\<exists>(i, subs)\<in>set xs. s \<in> toLowerCase ` set subs \<and> map_of byClaim (toLowerCase i) = Some a" by blast
    then show ?thesis by cases (use e in \<open>auto simp: m(1) x\<close>)
  qed
  ultimately show ?case using conjunct1 [OF IH] by blast
qed simp

text \<open>The evidence per seller holds every subject of every claim exactly once (in lower case), each
  with the entry of the claim that names it.\<close>

theorem seller_evidence_exact:
  assumes "sellerEvidenceByAddress cs entries = Inr found"
  shows "map fst found = concat (map (\<lambda>(i, subs). map toLowerCase subs) cs)
    \<and> distinct (map fst found)
    \<and> (\<forall>(s, e)\<in>set found. \<exists>(i, subs)\<in>set cs. \<exists>(i', e')\<in>set entries.
         s \<in> toLowerCase ` set subs \<and> toLowerCase i' = toLowerCase i \<and> e' = e)"
proof -
  obtain byClaim where bc: "res_fold add_entry entries [] = Inr byClaim"
    and fold: "res_fold (add_claim byClaim) cs [] = Inr found"
    using assms by (auto simp: sellerEvidenceByAddress_def res_bind_Inr)
  have b: "byClaim = map (\<lambda>(i, e). (toLowerCase i, e)) entries" using add_entries_Inr [OF bc] by simp
  note f = add_claims_Inr [OF fold]
  have "\<exists>(i, subs)\<in>set cs. \<exists>(i', e')\<in>set entries. s \<in> toLowerCase ` set subs \<and> toLowerCase i' = toLowerCase i \<and> e' = e"
    if "(s, e) \<in> set found" for s e
  proof -
    from f that obtain i subs where c: "(i, subs) \<in> set cs" "s \<in> toLowerCase ` set subs" "map_of byClaim (toLowerCase i) = Some e"
      by fastforce
    from map_of_SomeD [OF c(3)] obtain i' where "(i', e) \<in> set entries" "toLowerCase i' = toLowerCase i"
      by (auto simp: b)
    with c show ?thesis by fastforce
  qed
  with f show ?thesis by auto
qed

theorem seller_evidence_exact_witness:
  "sellerEvidenceByAddress [(''0xA'', [''0xS'', ''0xT'']), (''0xB'', [''0xU''])] [(''0xb'', 2), (''0xa'', 1 :: nat)]
     = Inr [(''0xs'', 1), (''0xt'', 1), (''0xu'', 2)]
   \<and> distinct [''0xs'', ''0xt'', ''0xu'']"
proof -
  have r: "sellerEvidenceByAddress [(''0xA'', [''0xS'', ''0xT'']), (''0xB'', [''0xU''])] [(''0xb'', 2), (''0xa'', 1 :: nat)]
     = Inr [(''0xs'', 1), (''0xt'', 1), (''0xu'', 2)]" by code_simp
  have "distinct (map fst [(''0xs'', 1), (''0xt'', 1), (''0xu'', 2 :: nat)])"
    using seller_evidence_exact [OF r] by blast
  with r show ?thesis by (simp only: list.map fst_conv)
qed

end
