(* ===== verification/Json_Parse.thy ===== *)
theory Json_Parse
  imports Hex
begin

text \<open>
  \<open>JSON.parse\<close> on the documents of \<open>Json\<close>: numbers are whole, strings have one byte
  per character, and of the members of one name the last counts. The first argument of the
  parsers bounds the recursion; \<open>JSON_parse\<close> gives one more than the text's length, which
  is enough because every recursive call is behind a character that has been read.
\<close>

section \<open>The parser\<close>

definition white :: "char \<Rightarrow> bool" where
  "white c \<longleftrightarrow> c \<in> {CHR '' '', CHR 0x0A, CHR 0x0D, CHR 0x09}"

definition skip_white :: "string \<Rightarrow> string" where
  "skip_white = dropWhile white"

text \<open>A character of a string, with the escapes that JSON knows.\<close>

definition json_char :: "string \<Rightarrow> (char \<times> string) option" where
  "json_char s = (case s of
     [] \<Rightarrow> None
   | c # rest \<Rightarrow>
       if (of_char c :: nat) < 32 then None
       else if c = CHR 0x5C \<and> (rest = [] \<or> hd rest \<notin> set ([CHR 0x22, CHR 0x5C] @ ''/bfnrtu'')) then None
       else unescape s)"

fun json_chars :: "nat \<Rightarrow> string \<Rightarrow> (string \<times> string) option" where
  "json_chars 0 s = None"
| "json_chars (Suc n) s =
     (if s \<noteq> [] \<and> hd s = CHR 0x22 then Some ([], tl s)
      else case json_char s of None \<Rightarrow> None
        | Some (c, rest) \<Rightarrow> map_option (\<lambda>(cs, rest'). (c # cs, rest')) (json_chars n rest))"

definition digit :: "char \<Rightarrow> bool" where
  "digit c \<longleftrightarrow> char_digit c \<noteq> None"

text \<open>\<open>-?(0|[1-9][0-9]*)\<close>.\<close>

definition json_natural :: "string \<Rightarrow> (nat \<times> string) option" where
  "json_natural s =
     (let ds = takeWhile digit s in
      if ds = [] then None
      else if hd ds = CHR ''0'' then Some (0, tl s)
      else map_option (\<lambda>n. (n, dropWhile digit s)) (parse_nat ds))"

definition json_number :: "string \<Rightarrow> (int \<times> string) option" where
  "json_number s =
     (if s \<noteq> [] \<and> hd s = CHR ''-'' then map_option (\<lambda>(n, rest). (- int n, rest)) (json_natural (tl s))
      else map_option (\<lambda>(n, rest). (int n, rest)) (json_natural s))"

definition json_scalar :: "string \<Rightarrow> (json \<times> string) option" where
  "json_scalar s =
     (if take 4 s = ''null'' then Some (JNull, drop 4 s)
      else if take 4 s = ''true'' then Some (JBool True, drop 4 s)
      else if take 5 s = ''false'' then Some (JBool False, drop 5 s)
      else map_option (\<lambda>(n, rest). (JNum n, rest)) (json_number s))"

definition keyed :: "(string \<times> json) list \<Rightarrow> (string \<times> json) list" where
  "keyed ms = fold (\<lambda>(k, v). AList.update k v) ms []"

fun json_value :: "nat \<Rightarrow> string \<Rightarrow> (json \<times> string) option"
  and json_items :: "nat \<Rightarrow> string \<Rightarrow> (json list \<times> string) option"
  and json_members :: "nat \<Rightarrow> string \<Rightarrow> ((string \<times> json) list \<times> string) option" where
  "json_value 0 s = None"
| "json_value (Suc n) s =
     (case skip_white s of
        [] \<Rightarrow> None
      | c # r \<Rightarrow>
          if c = CHR ''{'' then
            (if skip_white r \<noteq> [] \<and> hd (skip_white r) = CHR ''}'' then Some (JObj [], tl (skip_white r))
             else map_option (\<lambda>(ms, t). (JObj (keyed ms), t)) (json_members n r))
          else if c = CHR ''['' then
            (if skip_white r \<noteq> [] \<and> hd (skip_white r) = CHR '']'' then Some (JArr [], tl (skip_white r))
             else map_option (\<lambda>(js, t). (JArr js, t)) (json_items n r))
          else if c = CHR 0x22 then map_option (\<lambda>(cs, t). (JStr cs, t)) (json_chars n r)
          else json_scalar (c # r))"
| "json_items 0 s = None"
| "json_items (Suc n) s =
     (case json_value n s of None \<Rightarrow> None
      | Some (j, r) \<Rightarrow> (case skip_white r of
          [] \<Rightarrow> None
        | c # t \<Rightarrow> if c = CHR '','' then map_option (\<lambda>(js, t'). (j # js, t')) (json_items n t)
            else if c = CHR '']'' then Some ([j], t) else None))"
| "json_members 0 s = None"
| "json_members (Suc n) s =
     (if skip_white s = [] \<or> hd (skip_white s) \<noteq> CHR 0x22 then None
      else case json_chars n (tl (skip_white s)) of None \<Rightarrow> None
      | Some (k, r) \<Rightarrow>
          if skip_white r = [] \<or> hd (skip_white r) \<noteq> CHR '':'' then None
          else case json_value n (tl (skip_white r)) of None \<Rightarrow> None
          | Some (v, r') \<Rightarrow> (case skip_white r' of
              [] \<Rightarrow> None
            | c # t \<Rightarrow> if c = CHR '','' then map_option (\<lambda>(ms, t'). ((k, v) # ms, t')) (json_members n t)
                else if c = CHR ''}'' then Some ([(k, v)], t) else None))"

definition JSON_parse :: "string \<Rightarrow> json res" where
  "JSON_parse s =
     (case json_value (Suc (length s)) s of
        Some (j, r) \<Rightarrow> if skip_white r = [] then Inr j else Inl (Error ''SyntaxError'')
      | None \<Rightarrow> Inl (Error ''SyntaxError''))"

section \<open>Reading back what \<open>JSON.stringify\<close> writes\<close>

lemma json_char_escape: "json_char (escape_char c @ s) = Some (c, s)"
proof -
  have "of_char (hd (escape_char c)) \<ge> (32 :: nat)"
    by (auto simp: escape_char_def Let_def)
  moreover have "hd (escape_char c) = CHR 0x5C \<Longrightarrow> tl (escape_char c) \<noteq> [] \<and> hd (tl (escape_char c)) \<in> set ([CHR 0x22, CHR 0x5C] @ ''/bfnrtu'')"
    by (auto simp: escape_char_def Let_def split: if_splits)
  moreover have "escape_char c \<noteq> []" by simp
  ultimately show ?thesis using unescape_escape [of c s]
    by (cases "escape_char c") (auto simp: json_char_def)
qed

lemma json_chars_escape: "length s < n \<Longrightarrow> json_chars n (concat (map escape_char s) @ CHR 0x22 # rest) = Some (s, rest)"
proof (induction s arbitrary: n)
  case Nil
  then show ?case by (cases n) auto
next
  case (Cons c s)
  then obtain m where n: "n = Suc m" "length s < m" by (cases n) auto
  have "hd (escape_char c @ x) \<noteq> CHR 0x22" for x
    using escape_char_head [of c] by (cases "escape_char c") auto
  then show ?case using Cons.IH[OF n(2)] n(1)
    by (simp add: json_char_escape)
qed

lemma json_chars_quote: "length s < n \<Longrightarrow> json_chars n (tl (quote s) @ rest) = Some (s, rest)"
  using json_chars_escape [of s n rest] by (simp add: quote_def)

lemma digit_digit_char [simp]: "d < 10 \<Longrightarrow> digit (digit_char d)"
  by (simp add: digit_def)

lemma show_nat_all_digits: "c \<in> set (show_nat n) \<Longrightarrow> digit c"
  using show_nat_digits by (auto simp: digit_def)

lemma show_nat_head: "0 < n \<Longrightarrow> hd (show_nat n) \<noteq> CHR ''0''"
proof (induction n rule: show_nat.induct)
  case (1 n)
  show ?case
  proof (cases "n < 10")
    case True
    have "char_digit (digit_char n) \<noteq> char_digit (CHR ''0'')"
      using True 1(2) by (simp, simp add: char_digit_def)
    then have "digit_char n \<noteq> CHR ''0''" by metis
    then show ?thesis using True by (simp add: show_nat.simps [of n])
  next
    case False
    then have "0 < n div 10" by simp
    then show ?thesis using False 1(1) by (simp add: show_nat.simps [of n] del: show_nat.simps)
  qed
qed

definition ends_number :: "string \<Rightarrow> bool" where
  "ends_number rest \<longleftrightarrow> rest = [] \<or> \<not> digit (hd rest)"

lemma json_natural_show: "ends_number rest \<Longrightarrow> json_natural (show_nat n @ rest) = Some (n, rest)"
proof -
  assume rest: "ends_number rest"
  have all: "\<forall>c\<in>set (show_nat n). digit c" by (simp add: show_nat_all_digits del: show_nat.simps)
  have stop: "takeWhile digit rest = []" "dropWhile digit rest = rest"
    using rest by (cases rest; simp add: ends_number_def)+
  have split: "takeWhile digit (show_nat n @ rest) = show_nat n" "dropWhile digit (show_nat n @ rest) = rest"
    using all stop by (simp_all add: takeWhile_append2 dropWhile_append2 del: show_nat.simps)
  show ?thesis
  proof (cases "n = 0")
    case True
    moreover have "show_nat 0 = ''0''" by code_simp
    ultimately have "show_nat n = ''0''" by simp
    then show ?thesis using split(1) True by (simp add: json_natural_def Let_def)
  next
    case False
    then have "hd (show_nat n) \<noteq> CHR ''0''" by (simp add: show_nat_head del: show_nat.simps)
    then show ?thesis using split by (simp add: json_natural_def Let_def del: show_nat.simps)
  qed
qed

lemma digit_range: "digit c \<Longrightarrow> c \<notin> {CHR ''-'', CHR ''n'', CHR ''t'', CHR ''f'', CHR ''{'', CHR ''['', CHR 0x22} \<and> \<not> white c"
  by (auto simp: digit_def char_digit_def white_def)

lemma json_number_show: "ends_number rest \<Longrightarrow> json_number (show_int n @ rest) = Some (n, rest)"
proof -
  assume rest: "ends_number rest"
  have "digit (hd (show_nat k))" for k
    using show_nat_all_digits [of "hd (show_nat k)" k] by (simp del: show_nat.simps)
  then have "hd (show_nat k) \<noteq> CHR ''-''" for k using digit_range by blast
  then show ?thesis
    using json_natural_show [OF rest] by (simp add: json_number_def show_int_def hd_append del: show_nat.simps)
qed

lemma show_int_head: "digit (hd (show_int n)) \<or> hd (show_int n) = CHR ''-''"
  using show_nat_all_digits [of "hd (show_nat (nat n))" "nat n"] by (auto simp: show_int_def simp del: show_nat.simps)

lemma json_scalar_number: "ends_number rest \<Longrightarrow> json_scalar (show_int n @ rest) = Some (JNum n, rest)"
proof -
  assume rest: "ends_number rest"
  obtain c cs where c: "show_int n = c # cs" by (cases "show_int n") (auto simp: show_int_def simp del: show_nat.simps split: if_splits)
  then have "c \<notin> {CHR ''n'', CHR ''t'', CHR ''f''}" using show_int_head [of n] digit_range by fastforce
  then show ?thesis using json_number_show [OF rest, of n] c by (auto simp: json_scalar_def)
qed

lemma stringify_head: "\<exists>c cs. stringify j = c # cs \<and> \<not> white c \<and> c \<notin> {CHR '']'', CHR ''}''}"
proof (cases j)
  case (JNum n)
  obtain c cs where "show_int n = c # cs" by (cases "show_int n") (auto simp: show_int_def simp del: show_nat.simps split: if_splits)
  moreover have "digit c \<or> c = CHR ''-''" using show_int_head [of n] calculation by simp
  ultimately show ?thesis using JNum by (auto simp: white_def digit_def char_digit_def)
qed (auto simp: white_def quote_def)

lemma skip_nonwhite [simp]: "\<not> white c \<Longrightarrow> skip_white (c # s) = c # s"
  by (simp add: skip_white_def)

lemma skip_stringify: "skip_white (stringify j @ s) = stringify j @ s"
  using stringify_head [of j] by fastforce

lemma skip_punctuation [simp]:
  "skip_white (CHR '','' # s) = CHR '','' # s" "skip_white (CHR '']'' # s) = CHR '']'' # s"
  "skip_white (CHR ''}'' # s) = CHR ''}'' # s" "skip_white (CHR '':'' # s) = CHR '':'' # s"
  "skip_white (CHR 0x22 # s) = CHR 0x22 # s" "skip_white (CHR ''{'' # s) = CHR ''{'' # s"
  "skip_white (CHR ''['' # s) = CHR ''['' # s"
  by (simp_all add: white_def)

lemma ends_number_punctuation [simp]:
  "ends_number (CHR '','' # s)" "ends_number (CHR '']'' # s)" "ends_number (CHR ''}'' # s)" "ends_number []"
  by (simp_all add: ends_number_def digit_def char_digit_def)

lemma update_fresh: "k \<notin> fst ` set al \<Longrightarrow> AList.update k v al = al @ [(k, v)]"
  by (induction al) auto

lemma keyed_distinct: "distinct (map fst ms) \<Longrightarrow> keyed ms = ms"
proof -
  have "distinct (map fst (al @ ms)) \<Longrightarrow> fold (\<lambda>(k, v). AList.update k v) ms al = al @ ms" for al
    by (induction ms arbitrary: al) (auto simp: update_fresh)
  from this [of "[]"] show "distinct (map fst ms) \<Longrightarrow> keyed ms = ms" by (simp add: keyed_def)
qed

lemma length_escape: "length s \<le> length (concat (map escape_char s))"
proof (induction s)
  case (Cons c s)
  have "1 \<le> length (escape_char c)" by (cases "escape_char c") auto
  then show ?case using Cons.IH by simp
qed simp

lemma length_quote: "length s + 2 \<le> length (quote s)"
  using length_escape [of s] by (simp add: quote_def)

lemma json_value_object:
  "skip_white t = t \<Longrightarrow> t \<noteq> [] \<Longrightarrow> hd t \<noteq> CHR ''}'' \<Longrightarrow>
   json_value (Suc n) (CHR ''{'' # t) = map_option (\<lambda>(ms, t). (JObj (keyed ms), t)) (json_members n t)"
  by simp

lemma json_value_array:
  "skip_white t = t \<Longrightarrow> t \<noteq> [] \<Longrightarrow> hd t \<noteq> CHR '']'' \<Longrightarrow>
   json_value (Suc n) (CHR ''['' # t) = map_option (\<lambda>(js, t). (JArr js, t)) (json_items n t)"
  by simp

lemma js_join_Cons: "xs \<noteq> [] \<Longrightarrow> js_join sep (x # xs) = x @ sep @ js_join sep xs"
  by (cases xs) simp_all

lemma stringify_members_Nil [simp]: "stringify_members ms = [] \<longleftrightarrow> ms = []"
  by (cases ms) auto

lemma parse_stringify_all:
  shows "wf_json j \<Longrightarrow> length (stringify j) \<le> n \<Longrightarrow> ends_number rest \<Longrightarrow> json_value (Suc n) (stringify j @ rest) = Some (j, rest)"
    and "wf_list js \<Longrightarrow> js \<noteq> [] \<Longrightarrow> length (js_join '','' (stringify_list js)) < n \<Longrightarrow>
      json_items (Suc n) (js_join '','' (stringify_list js) @ CHR '']'' # rest) = Some (js, rest)"
    and "wf_members ms \<Longrightarrow> ms \<noteq> [] \<Longrightarrow> length (js_join '','' (stringify_members ms)) < n \<Longrightarrow>
      json_members (Suc n) (js_join '','' (stringify_members ms) @ CHR ''}'' # rest) = Some (ms, rest)"
proof (induction j and js and ms arbitrary: n rest and n rest and n rest rule: stringify_stringify_list_stringify_members.induct)
  case 1
  then show ?case by (simp add: json_scalar_def white_def)
next
  case (2 b)
  then show ?case by (cases b) (simp_all add: json_scalar_def white_def)
next
  case (3 k)
  obtain c cs where c: "show_int k = c # cs" "digit c \<or> c = CHR ''-''"
    using show_int_head [of k] by (cases "show_int k") (auto simp: show_int_def simp del: show_nat.simps split: if_splits)
  have "\<not> white c" "c \<notin> {CHR ''{'', CHR ''['', CHR 0x22}"
    using c(2) digit_range [of c] by (cases "digit c"; simp add: white_def)+
  then have "json_value (Suc n) (c # cs @ rest) = json_scalar (c # cs @ rest)" by simp
  moreover have "json_scalar (c # cs @ rest) = Some (JNum k, rest)"
    using json_scalar_number [OF 3(3), of k] unfolding c(1) by simp
  ultimately show ?case using c(1) by (simp del: json_value.simps)
next
  case (4 s)
  have "length s < n" using 4(2) length_quote [of s] by simp
  then show ?case using json_chars_escape [of s n rest] by (simp add: quote_def)
next
  case (5 js)
  show ?case
  proof (cases "js = []")
    case False
    let ?t = "js_join '','' (stringify_list js)"
    obtain m where m: "n = Suc m" "length ?t < m" using 5(3) by (cases n) auto
    obtain j js' where js: "js = j # js'" using False by (cases js) auto
    obtain u where u: "?t = stringify j @ u" by (cases js') (auto simp: js)
    obtain c cs where c: "stringify j = c # cs" "\<not> white c" "c \<noteq> CHR '']''" using stringify_head [of j] by auto
    have "json_value (Suc n) (CHR ''['' # (?t @ CHR '']'' # rest))
        = map_option (\<lambda>(js, t). (JArr js, t)) (json_items n (?t @ CHR '']'' # rest))"
      by (rule json_value_array) (use u c in simp_all)
    also have "json_items n (?t @ CHR '']'' # rest) = Some (js, rest)"
      using 5(1) [OF _ False m(2)] 5(2) m(1) by simp
    finally show ?thesis by simp
  qed simp
next
  case (6 ms)
  show ?case
  proof (cases "ms = []")
    case False
    let ?t = "js_join '','' (stringify_members ms)"
    obtain m where m: "n = Suc m" "length ?t < m" using 6(3) by (cases n) auto
    obtain k v ms' where ms: "ms = (k, v) # ms'" using False by (cases ms) auto
    obtain u where u: "?t = CHR 0x22 # u" by (cases ms') (auto simp: ms quote_def)
    have "json_value (Suc n) (CHR ''{'' # (?t @ CHR ''}'' # rest))
        = map_option (\<lambda>(ms, t). (JObj (keyed ms), t)) (json_members n (?t @ CHR ''}'' # rest))"
      by (rule json_value_object) (simp_all add: u)
    also have "json_members n (?t @ CHR ''}'' # rest) = Some (ms, rest)"
      using 6(1) [OF _ False m(2)] 6(2) m(1) by simp
    finally show ?thesis using 6(2) by (simp add: keyed_distinct)
  qed simp
next
  case 7
  then show ?case by simp
next
  case (8 j js)
  let ?t = "js_join '','' (stringify_list js)"
  have j: "wf_json j" "wf_list js" using 8(3) by simp_all
  obtain m where n: "n = Suc m" using 8(5) by (cases n) auto
  show ?case
  proof (cases "js = []")
    case True
    then show ?thesis using 8(1) [OF j(1), of m "CHR '']'' # rest"] 8(5) n by simp
  next
    case False
    then have shape: "js_join '','' (stringify j # map stringify js) = stringify j @ '','' @ ?t" by (simp add: js_join_Cons)
    then have "length (stringify j) \<le> m" and t: "length ?t < m" using 8(5) n stringify_head [of j] by auto
    then have "json_value n (stringify j @ CHR '','' # ?t @ CHR '']'' # rest) = Some (j, CHR '','' # ?t @ CHR '']'' # rest)"
      using 8(1) [OF j(1), of m "CHR '','' # ?t @ CHR '']'' # rest"] n by simp
    moreover have "json_items n (?t @ CHR '']'' # rest) = Some (js, rest)"
      using 8(2) [OF j(2) False t] n by simp
    ultimately show ?thesis by (simp add: shape)
  qed
next
  case 9
  then show ?case by simp
next
  case (10 k v ms)
  let ?t = "js_join '','' (stringify_members ms)" and ?k = "concat (map escape_char k)"
  have v: "wf_json v" "wf_members ms" using 10(3) by simp_all
  obtain m where n: "n = Suc m" using 10(5) by (cases n) auto
  have entry: "quote k @ '':'' @ stringify v = CHR 0x22 # ?k @ CHR 0x22 # CHR '':'' # stringify v" by (simp add: quote_def)
  show ?case
  proof (cases "ms = []")
    case True
    then have len: "length k < n" "length (stringify v) \<le> m" using 10(5) n length_escape [of k] by (simp_all add: quote_def)
    then have "json_value n (stringify v @ CHR ''}'' # rest) = Some (v, CHR ''}'' # rest)"
      using 10(1) [OF v(1), of m "CHR ''}'' # rest"] n by simp
    then show ?thesis using True len(1) by (simp add: quote_def json_chars_escape)
  next
    case False
    then have shape: "js_join '','' ((quote k @ CHR '':'' # stringify v) # stringify_members ms)
        = CHR 0x22 # ?k @ CHR 0x22 # CHR '':'' # stringify v @ '','' @ ?t"
      by (simp add: quote_def js_join_Cons)
    then have len: "length k < n" "length (stringify v) \<le> m" "length ?t < m"
      using 10(5) n length_escape [of k] by simp_all
    then have "json_value n (stringify v @ CHR '','' # ?t @ CHR ''}'' # rest) = Some (v, CHR '','' # ?t @ CHR ''}'' # rest)"
      using 10(1) [OF v(1), of m "CHR '','' # ?t @ CHR ''}'' # rest"] n by simp
    moreover have "json_members n (?t @ CHR ''}'' # rest) = Some (ms, rest)"
      using 10(2) [OF v(2) False len(3)] n by simp
    ultimately show ?thesis using len(1) by (simp add: shape json_chars_escape)
  qed
qed

lemma parse_stringify: "wf_json j \<Longrightarrow> JSON_parse (stringify j) = Inr j"
  using parse_stringify_all(1) [of j "length (stringify j)" "[]"] by (simp add: JSON_parse_def skip_white_def)

end
