(* ===== verification/Plan_Stream.thy ===== *)
theory Plan_Stream
  imports Json_Parse
begin

text \<open>
  Reading a plan file as a stream: the scanner of \<open>shardProofPlan\<close>
  (\<open>scripts/generate-approved-development-proofs.mjs\<close>). The file arrives in chunks; the
  text before the marker is the metadata, and after it the scanner cuts the text of one claim
  after the other out of the chunks without parsing the whole file. What is done with the
  metadata and with a claim's text is a parameter.
\<close>

section \<open>The scanner\<close>

definition marker :: string where
  "marker = quote ''claims'' @ '':[''"

text \<open>\<open>text.indexOf(marker)\<close>.\<close>

fun indexOf_from :: "nat \<Rightarrow> string \<Rightarrow> string \<Rightarrow> nat option" where
  "indexOf_from i pat [] = (if pat = [] then Some i else None)"
| "indexOf_from i pat (c # s) = (if take (length pat) (c # s) = pat then Some i else indexOf_from (Suc i) pat s)"

definition text_indexOf :: "string \<Rightarrow> string \<Rightarrow> nat option" where
  "text_indexOf pat s = indexOf_from 0 pat s"

record 'a scan_state =
  claimChunks :: "string list"
  claimDepth :: nat
  inString :: bool
  escaped :: bool
  claimsEnded :: bool
  claimStart :: "nat option"
  scanned :: 'a

record 'a stream_state =
  pending :: string
  parsingClaims :: bool
  scanning :: "'a scan_state"

definition text_slice :: "nat option \<Rightarrow> nat \<Rightarrow> string \<Rightarrow> string" where
  "text_slice start upto_i s = (case start of None \<Rightarrow> take upto_i s | Some a \<Rightarrow> drop a (take upto_i s))"

text \<open>One character: \<open>pending[index]\<close>.\<close>

definition scan_char :: "(string \<Rightarrow> 'a \<Rightarrow> 'a res) \<Rightarrow> string \<Rightarrow> nat \<times> char \<Rightarrow> 'a scan_state \<Rightarrow> 'a scan_state res" where
  "scan_char on_claim text ic s = (case ic of (i, c) \<Rightarrow>
     if claimsEnded s then Inr s
     else if claimDepth s = 0 then
       (if c = CHR ''{'' then Inr (s\<lparr>claimDepth := 1, claimStart := Some i, inString := False, escaped := False\<rparr>)
        else if c = CHR '']'' then Inr (s\<lparr>claimsEnded := True\<rparr>) else Inr s)
     else if inString s then
       (if escaped s then Inr (s\<lparr>escaped := False\<rparr>)
        else if c = CHR 0x5C then Inr (s\<lparr>escaped := True\<rparr>)
        else if c = CHR 0x22 then Inr (s\<lparr>inString := False\<rparr>) else Inr s)
     else if c = CHR 0x22 then Inr (s\<lparr>inString := True\<rparr>)
     else if c = CHR ''{'' then Inr (s\<lparr>claimDepth := claimDepth s + 1\<rparr>)
     else if c = CHR ''}'' then
       (if claimDepth s = 1 then
          res_bind (on_claim (concat (claimChunks s @ [text_slice (claimStart s) (i + 1) text])) (scanned s)) (\<lambda>a.
          Inr (s\<lparr>claimDepth := 0, claimChunks := [], claimStart := None, scanned := a\<rparr>))
        else Inr (s\<lparr>claimDepth := claimDepth s - 1\<rparr>))
     else Inr s)"

definition scan_chunk :: "(string \<Rightarrow> 'a \<Rightarrow> 'a res) \<Rightarrow> string \<Rightarrow> 'a scan_state \<Rightarrow> 'a scan_state res" where
  "scan_chunk on_claim text s =
     res_bind (res_fold (scan_char on_claim text) (enumerate 0 text)
       (s\<lparr>claimStart := (if 0 < claimDepth s then Some 0 else None)\<rparr>)) (\<lambda>s'.
     Inr (if 0 < claimDepth s' \<and> claimStart s' \<noteq> None
       then s'\<lparr>claimChunks := claimChunks s' @ [text_slice (claimStart s') (length text) text]\<rparr> else s'))"

definition read_chunk :: "(string \<Rightarrow> 'a \<Rightarrow> 'a res) \<Rightarrow> (string \<Rightarrow> 'a \<Rightarrow> 'a res) \<Rightarrow> string \<Rightarrow> 'a stream_state
    \<Rightarrow> 'a stream_state res" where
  "read_chunk on_metadata on_claim chunk s =
     (let text = pending s @ chunk in
      if parsingClaims s
      then res_bind (scan_chunk on_claim text (scanning s)) (\<lambda>sc. Inr (s\<lparr>pending := [], scanning := sc\<rparr>))
      else (case text_indexOf marker text of
          None \<Rightarrow> Inr (s\<lparr>pending := text\<rparr>)
        | Some m \<Rightarrow>
            res_bind (on_metadata (take m text @ marker @ '']}'') (scanned (scanning s))) (\<lambda>a.
            res_bind (scan_chunk on_claim (drop (m + length marker) text) ((scanning s)\<lparr>scanned := a\<rparr>)) (\<lambda>sc.
            Inr \<lparr>pending = [], parsingClaims = True, scanning = sc\<rparr>))))"

definition stream_start :: "'a \<Rightarrow> 'a stream_state" where
  "stream_start a = \<lparr>pending = [], parsingClaims = False,
     scanning = \<lparr>claimChunks = [], claimDepth = 0, inString = False, escaped = False, claimsEnded = False,
       claimStart = None, scanned = a\<rparr>\<rparr>"

definition read_stream :: "(string \<Rightarrow> 'a \<Rightarrow> 'a res) \<Rightarrow> (string \<Rightarrow> 'a \<Rightarrow> 'a res) \<Rightarrow> 'a \<Rightarrow> string list \<Rightarrow> 'a res" where
  "read_stream on_metadata on_claim a chunks =
     res_bind (res_fold (read_chunk on_metadata on_claim) chunks (stream_start a)) (\<lambda>s.
     res_bind (require (parsingClaims s \<and> claimsEnded (scanning s) \<and> claimDepth (scanning s) = 0)
       ''incomplete proof plan JSON'') (\<lambda>_. Inr (scanned (scanning s))))"

section \<open>The scanner without chunks\<close>

text \<open>What the scanner does to the characters: the current claim's text grows by one character at a time.\<close>

record 'a cut_state =
  cut_depth :: nat
  cut_inString :: bool
  cut_escaped :: bool
  cut_ended :: bool
  cut_text :: string
  cut_value :: 'a

definition cut_char :: "(string \<Rightarrow> 'a \<Rightarrow> 'a res) \<Rightarrow> char \<Rightarrow> 'a cut_state \<Rightarrow> 'a cut_state res" where
  "cut_char on_claim c s =
     (if cut_ended s then Inr s
      else if cut_depth s = 0 then
        (if c = CHR ''{'' then Inr (s\<lparr>cut_depth := 1, cut_inString := False, cut_escaped := False, cut_text := [c]\<rparr>)
         else if c = CHR '']'' then Inr (s\<lparr>cut_ended := True\<rparr>) else Inr s)
      else
        (let s' = s\<lparr>cut_text := cut_text s @ [c]\<rparr> in
         if cut_inString s then
           (if cut_escaped s then Inr (s'\<lparr>cut_escaped := False\<rparr>)
            else if c = CHR 0x5C then Inr (s'\<lparr>cut_escaped := True\<rparr>)
            else if c = CHR 0x22 then Inr (s'\<lparr>cut_inString := False\<rparr>) else Inr s')
         else if c = CHR 0x22 then Inr (s'\<lparr>cut_inString := True\<rparr>)
         else if c = CHR ''{'' then Inr (s'\<lparr>cut_depth := cut_depth s + 1\<rparr>)
         else if c = CHR ''}'' then
           (if cut_depth s = 1
            then res_bind (on_claim (cut_text s @ [c]) (cut_value s)) (\<lambda>a.
              Inr (s\<lparr>cut_depth := 0, cut_text := [], cut_value := a\<rparr>))
            else Inr (s'\<lparr>cut_depth := cut_depth s - 1\<rparr>))
         else Inr s'))"

text \<open>The scanner at position \<open>i\<close> of a chunk, seen as the scanner without chunks.\<close>

definition cut_of :: "string \<Rightarrow> nat \<Rightarrow> 'a scan_state \<Rightarrow> 'a cut_state" where
  "cut_of text i s = \<lparr>cut_depth = claimDepth s, cut_inString = inString s, cut_escaped = escaped s,
     cut_ended = claimsEnded s,
     cut_text = (if claimDepth s = 0 then [] else concat (claimChunks s) @ text_slice (claimStart s) i text),
     cut_value = scanned s\<rparr>"

definition scan_ok :: "nat \<Rightarrow> 'a scan_state \<Rightarrow> bool" where
  "scan_ok i s \<longleftrightarrow> (claimsEnded s \<longrightarrow> claimDepth s = 0) \<and> (if claimDepth s = 0 then claimChunks s = [] \<and> claimStart s = None
     else \<exists>a\<le>i. claimStart s = Some a)"

lemma slice_Suc:
  "i < length text \<Longrightarrow> a \<le> i \<Longrightarrow> text_slice (Some a) (Suc i) text = text_slice (Some a) i text @ [text ! i]"
  by (simp add: text_slice_def take_Suc_conv_app_nth)

lemma slice_Nil [simp]: "text_slice (Some i) i text = []"
  by (simp add: text_slice_def)

lemma scan_char_cut:
  assumes "scan_ok i s" and "i < length text"
  shows "case scan_char on_claim text (i, text ! i) s of
      Inl e \<Rightarrow> cut_char on_claim (text ! i) (cut_of text i s) = Inl e
    | Inr s' \<Rightarrow> cut_char on_claim (text ! i) (cut_of text i s) = Inr (cut_of text (Suc i) s') \<and> scan_ok (Suc i) s'"
proof (cases "claimDepth s = 0")
  case True
  then show ?thesis using assms
    by (auto simp: scan_char_def cut_char_def cut_of_def scan_ok_def slice_Suc)
next
  case False
  then obtain a where a: "claimStart s = Some a" "a \<le> i" using assms(1) by (auto simp: scan_ok_def)
  then have "text_slice (claimStart s) (Suc i) text = text_slice (claimStart s) i text @ [text ! i]"
    using assms(2) by (simp add: slice_Suc)
  moreover have "\<not> claimsEnded s" using assms(1) False by (simp add: scan_ok_def)
  ultimately show ?thesis using False a
    by (auto simp: scan_char_def cut_char_def cut_of_def scan_ok_def Let_def res_bind_def split: sum.splits)
qed

lemma scan_chars_cut:
  assumes "scan_ok i s" and "text = pre @ rest" and "length pre = i"
  shows "case res_fold (scan_char on_claim text) (enumerate i rest) s of
      Inl e \<Rightarrow> res_fold (cut_char on_claim) rest (cut_of text i s) = Inl e
    | Inr s' \<Rightarrow> res_fold (cut_char on_claim) rest (cut_of text i s) = Inr (cut_of text (length text) s') \<and> scan_ok (length text) s'"
  using assms
proof (induction rest arbitrary: i s pre)
  case Nil
  then show ?case by simp
next
  case (Cons c rest)
  have "i < length text" "text ! i = c" using Cons.prems(2,3) by auto
  note step = scan_char_cut [OF Cons.prems(1) this(1), of on_claim, unfolded this(2)]
  show ?case
  proof (cases "scan_char on_claim text (i, c) s")
    case (Inl e)
    then show ?thesis using step by simp
  next
    case (Inr s')
    then have next_char: "cut_char on_claim c (cut_of text i s) = Inr (cut_of text (Suc i) s')" "scan_ok (Suc i) s'"
      using step by simp_all
    have "text = (pre @ [c]) @ rest" "length (pre @ [c]) = Suc i" using Cons.prems(2,3) by simp_all
    from Cons.IH [OF next_char(2) this] show ?thesis using Inr next_char(1) by (auto split: sum.splits)
  qed
qed

text \<open>Between two chunks the text of an unfinished claim is in \<open>claimChunks\<close>.\<close>

definition between :: "'a scan_state \<Rightarrow> 'a cut_state" where
  "between s = \<lparr>cut_depth = claimDepth s, cut_inString = inString s, cut_escaped = escaped s,
     cut_ended = claimsEnded s, cut_text = (if claimDepth s = 0 then [] else concat (claimChunks s)), cut_value = scanned s\<rparr>"

definition chunks_ok :: "'a scan_state \<Rightarrow> bool" where
  "chunks_ok s \<longleftrightarrow> (claimDepth s = 0 \<longrightarrow> claimChunks s = []) \<and> (claimsEnded s \<longrightarrow> claimDepth s = 0)"

lemma scan_chunk_cut:
  assumes "chunks_ok s"
  shows "case scan_chunk on_claim text s of
      Inl e \<Rightarrow> res_fold (cut_char on_claim) text (between s) = Inl e
    | Inr s' \<Rightarrow> res_fold (cut_char on_claim) text (between s) = Inr (between s') \<and> chunks_ok s'"
proof -
  let ?s = "s\<lparr>claimStart := (if 0 < claimDepth s then Some 0 else None)\<rparr>"
  have "scan_ok 0 ?s" using assms by (simp add: scan_ok_def chunks_ok_def)
  note scan = scan_chars_cut [OF this, of "text" "[]" "text" on_claim]
  have "cut_of text 0 ?s = between s" by (simp add: cut_of_def between_def text_slice_def)
  note scan = scan [unfolded this]
  have closing: "between (if 0 < claimDepth u \<and> claimStart u \<noteq> None
        then u\<lparr>claimChunks := claimChunks u @ [text_slice (claimStart u) (length text) text]\<rparr> else u) = cut_of text (length text) u"
    if "scan_ok (length text) u" for u
    using that by (auto simp: between_def cut_of_def scan_ok_def)
  show ?thesis
  proof (cases "res_fold (scan_char on_claim text) (enumerate 0 text) ?s")
    case (Inl e)
    then show ?thesis using scan by (simp add: scan_chunk_def)
  next
    case (Inr u)
    then have u: "res_fold (cut_char on_claim) text (between s) = Inr (cut_of text (length text) u)" "scan_ok (length text) u"
      using scan by simp_all
    then show ?thesis using Inr closing [OF u(2)]
      by (auto simp: scan_chunk_def chunks_ok_def scan_ok_def)
  qed
qed

section \<open>Chunks do not matter\<close>

definition cut_start :: "'a \<Rightarrow> 'a cut_state" where
  "cut_start a = \<lparr>cut_depth = 0, cut_inString = False, cut_escaped = False, cut_ended = False, cut_text = [], cut_value = a\<rparr>"

definition cut_finish :: "'a cut_state res \<Rightarrow> 'a res" where
  "cut_finish r = res_bind r (\<lambda>s.
     res_bind (require (cut_ended s \<and> cut_depth s = 0) ''incomplete proof plan JSON'') (\<lambda>_. Inr (cut_value s)))"

text \<open>The whole file at once.\<close>

definition cut_file :: "(string \<Rightarrow> 'a \<Rightarrow> 'a res) \<Rightarrow> (string \<Rightarrow> 'a \<Rightarrow> 'a res) \<Rightarrow> 'a \<Rightarrow> string \<Rightarrow> 'a res" where
  "cut_file on_metadata on_claim a body = (case text_indexOf marker body of
     None \<Rightarrow> Inl (Error ''incomplete proof plan JSON'')
   | Some m \<Rightarrow> res_bind (on_metadata (take m body @ marker @ '']}'') a) (\<lambda>b.
       cut_finish (res_fold (cut_char on_claim) (drop (m + length marker) body) (cut_start b))))"

definition stream_finish :: "'a stream_state res \<Rightarrow> 'a res" where
  "stream_finish r = res_bind r (\<lambda>s.
     res_bind (require (parsingClaims s \<and> claimsEnded (scanning s) \<and> claimDepth (scanning s) = 0)
       ''incomplete proof plan JSON'') (\<lambda>_. Inr (scanned (scanning s))))"

lemma parsing_chunks:
  assumes "parsingClaims s" and "pending s = []" and "chunks_ok (scanning s)"
  shows "stream_finish (res_fold (read_chunk on_metadata on_claim) chunks s)
    = cut_finish (res_fold (cut_char on_claim) (concat chunks) (between (scanning s)))"
  using assms
proof (induction chunks arbitrary: s)
  case Nil
  then show ?case by (simp add: stream_finish_def cut_finish_def between_def)
next
  case (Cons chunk chunks)
  note scan = scan_chunk_cut [OF Cons.prems(3), of on_claim chunk]
  show ?case
  proof (cases "scan_chunk on_claim chunk (scanning s)")
    case (Inl e)
    then show ?thesis using scan Cons.prems
      by (simp add: read_chunk_def stream_finish_def cut_finish_def res_fold_append)
  next
    case (Inr sc)
    then have "res_fold (cut_char on_claim) chunk (between (scanning s)) = Inr (between sc)" "chunks_ok sc"
      using scan by simp_all
    then show ?thesis using Inr Cons.prems Cons.IH [of "s\<lparr>pending := [], scanning := sc\<rparr>"]
      by (simp add: read_chunk_def res_fold_append)
  qed
qed

lemma indexOf_from_Some: "indexOf_from i pat s = Some m \<Longrightarrow> i \<le> m \<and> m - i + length pat \<le> length s"
proof (induction s arbitrary: i)
  case (Cons c s)
  show ?case
  proof (cases "take (length pat) (c # s) = pat")
    case True
    then have "length pat \<le> length (c # s)" by (metis length_take min.absorb_iff2 nat_le_linear)
    then show ?thesis using True Cons.prems by simp
  next
    case False
    then have "Suc i \<le> m" and "m - Suc i + length pat \<le> length s" using False Cons.IH [of "Suc i"] Cons.prems by auto
    then show ?thesis by (simp only: list.size) arith
  qed
qed (simp split: if_splits)

lemma indexOf_from_append: "indexOf_from i pat s = Some m \<Longrightarrow> indexOf_from i pat (s @ t) = Some m"
proof (induction s arbitrary: i)
  case Nil
  then show ?case by (cases t) (simp_all split: if_splits)
next
  case (Cons c s)
  show ?case
  proof (cases "take (length pat) (c # s) = pat")
    case True
    then have "length pat \<le> length (c # s)" by (metis length_take min.absorb_iff2 nat_le_linear)
    then have "take (length pat) ((c # s) @ t) = pat" using True by (metis append_Nil2 diff_is_0_eq' take0 take_append)
    then show ?thesis using True Cons.prems by simp
  next
    case False
    then have found: "indexOf_from (Suc i) pat s = Some m" using Cons.prems by simp
    then have "length pat \<le> length s" using indexOf_from_Some by fastforce
    then have "take (length pat) ((c # s) @ t) = take (length pat) (c # s)" by (cases pat) simp_all
    then have "take (length pat) ((c # s) @ t) \<noteq> pat" using False by simp
    then show ?thesis using found Cons.IH by simp
  qed
qed

lemma text_indexOf_append: "text_indexOf pat s = Some m \<Longrightarrow> text_indexOf pat (s @ t) = Some m \<and> m + length pat \<le> length s"
  using indexOf_from_append [of 0 pat s m t] indexOf_from_Some [of 0 pat s m] by (simp add: text_indexOf_def)

lemma waiting_chunks:
  assumes "text_indexOf marker p = None"
  shows "stream_finish (res_fold (read_chunk on_metadata on_claim) chunks ((stream_start a)\<lparr>pending := p\<rparr>))
    = cut_file on_metadata on_claim a (p @ concat chunks)"
  using assms
proof (induction chunks arbitrary: p)
  case Nil
  then show ?case by (simp add: stream_finish_def stream_start_def cut_file_def require_def)
next
  case (Cons chunk chunks)
  let ?s = "(stream_start a)\<lparr>pending := p\<rparr>"
  show ?case
  proof (cases "text_indexOf marker (p @ chunk)")
    case None
    then have "read_chunk on_metadata on_claim chunk ?s = Inr ((stream_start a)\<lparr>pending := p @ chunk\<rparr>)"
      by (simp add: read_chunk_def stream_start_def)
    then show ?thesis using Cons.IH [OF None] by simp
  next
    case (Some m)
    define body where "body = p @ chunk"
    note Some = Some [folded body_def]
    let ?rest = "concat chunks"
    have all: "p @ concat (chunk # chunks) = body @ ?rest" by (simp add: body_def)
    have chunk_read: "read_chunk on_metadata on_claim chunk ?s =
        res_bind (on_metadata (take m body @ marker @ '']}'') a) (\<lambda>b.
        res_bind (scan_chunk on_claim (drop (m + length marker) body) ((scanning (stream_start a))\<lparr>scanned := b\<rparr>)) (\<lambda>sc.
        Inr \<lparr>pending = [], parsingClaims = True, scanning = sc\<rparr>))"
      using Some by (simp add: read_chunk_def stream_start_def body_def)
    have at: "text_indexOf marker (body @ ?rest) = Some m" "m + length marker \<le> length body"
      using text_indexOf_append [OF Some] by blast+
    have parts: "take m (body @ ?rest) = take m body" "drop (m + length marker) (body @ ?rest) = drop (m + length marker) body @ ?rest"
      using at(2) by simp_all
    have cut_here: "cut_file on_metadata on_claim a (body @ ?rest) = res_bind (on_metadata (take m body @ marker @ '']}'') a)
        (\<lambda>b. cut_finish (res_fold (cut_char on_claim) (drop (m + length marker) body @ ?rest) (cut_start b)))"
      by (simp only: cut_file_def at(1) option.case parts)
    show ?thesis
    proof (cases "on_metadata (take m body @ marker @ '']}'') a")
      case (Inl e)
      then show ?thesis unfolding all cut_here using chunk_read by (simp add: stream_finish_def)
    next
      case (Inr b)
      let ?sc = "(scanning (stream_start a))\<lparr>scanned := b\<rparr>"
      have start: "chunks_ok ?sc" "between ?sc = cut_start b"
        by (simp_all add: chunks_ok_def between_def stream_start_def cut_start_def)
      note scan = scan_chunk_cut [OF start(1), of on_claim "drop (m + length marker) body", unfolded start(2)]
      have whole: "cut_file on_metadata on_claim a (body @ ?rest)
          = cut_finish (res_fold (cut_char on_claim) (drop (m + length marker) body @ ?rest) (cut_start b))"
        unfolding cut_here using Inr by simp
      show ?thesis
      proof (cases "scan_chunk on_claim (drop (m + length marker) body) ?sc")
        case (Inl e)
        then show ?thesis unfolding all using chunk_read \<open>on_metadata _ a = Inr b\<close> scan whole
          by (simp add: stream_finish_def cut_finish_def res_fold_append)
      next
        case (Inr sc)
        then have cut: "res_fold (cut_char on_claim) (drop (m + length marker) body) (cut_start b) = Inr (between sc)" "chunks_ok sc"
          using scan by simp_all
        have "read_chunk on_metadata on_claim chunk ?s = Inr \<lparr>pending = [], parsingClaims = True, scanning = sc\<rparr>"
          using chunk_read \<open>on_metadata _ a = Inr b\<close> Inr by simp
        then show ?thesis unfolding all
          using whole cut parsing_chunks [of "\<lparr>pending = [], parsingClaims = True, scanning = sc\<rparr>" on_metadata on_claim chunks]
          by (simp add: res_fold_append)
      qed
    qed
  qed
qed

text \<open>The chunks in which the file arrives do not matter.\<close>

lemma read_stream_cut: "read_stream on_metadata on_claim a chunks = cut_file on_metadata on_claim a (concat chunks)"
proof -
  have "text_indexOf marker [] = None" by code_simp
  then show ?thesis using waiting_chunks [of "[]" on_metadata on_claim chunks a]
    by (simp add: read_stream_def stream_finish_def stream_start_def)
qed

section \<open>Claims are cut out whole\<close>

definition inside :: "'a cut_state \<Rightarrow> bool" where
  "inside s \<longleftrightarrow> 0 < cut_depth s \<and> \<not> cut_inString s \<and> \<not> cut_escaped s \<and> \<not> cut_ended s"

abbreviation grown :: "'a cut_state \<Rightarrow> string \<Rightarrow> 'a cut_state" where
  "grown s t \<equiv> s\<lparr>cut_text := cut_text s @ t\<rparr>"

lemma inside_grown [simp]: "inside (grown s t) = inside s"
  by (simp add: inside_def)

lemma cut_plain:
  "inside s \<Longrightarrow> \<forall>c\<in>set t. c \<notin> {CHR 0x22, CHR ''{'', CHR ''}''} \<Longrightarrow> res_fold (cut_char on_claim) t s = Inr (grown s t)"
proof (induction t arbitrary: s)
  case (Cons c t)
  then have "cut_char on_claim c s = Inr (grown s [c])" by (simp add: cut_char_def inside_def Let_def)
  then show ?case using Cons.IH [of "grown s [c]"] Cons.prems by simp
qed simp

lemma escape_char_forms:
  "(\<exists>d. escape_char c = [CHR 0x5C, d])
   \<or> (\<exists>x y. x < 16 \<and> y < 16 \<and> escape_char c = [CHR 0x5C, CHR ''u'', CHR ''0'', CHR ''0'', hex_digit x, hex_digit y])
   \<or> escape_char c = [c] \<and> c \<notin> {CHR 0x22, CHR 0x5C}"
proof (cases "of_char c \<in> {34, 92, 8, 12, 10, 13, 9 :: nat}")
  case True
  then have "\<exists>d. escape_char c = [CHR 0x5C, d]" by (auto simp: escape_char_def Let_def)
  then show ?thesis by blast
next
  case False
  show ?thesis
  proof (cases "of_char c < (32 :: nat)")
    case True
    then have "escape_char c = [CHR 0x5C, CHR ''u'', CHR ''0'', CHR ''0'', hex_digit (of_char c div 16), hex_digit (of_char c mod 16)]"
      using False by (simp add: escape_char_def Let_def)
    moreover have "of_char c div 16 < (16 :: nat)" "of_char c mod 16 < (16 :: nat)" using True by simp_all
    ultimately show ?thesis by blast
  next
    case long: False
    have "escape_char c = [c]" using False long by (simp add: escape_char_def Let_def)
    moreover have "c \<notin> {CHR 0x22, CHR 0x5C}" using False by auto
    ultimately show ?thesis by blast
  qed
qed

lemma cut_escaped_char:
  assumes "0 < cut_depth s" and "cut_inString s" and "\<not> cut_escaped s" and "\<not> cut_ended s"
  shows "res_fold (cut_char on_claim) (escape_char c) s = Inr (grown s (escape_char c))"
proof -
  have quiet: "res_fold (cut_char on_claim) t s = Inr (grown s t)" if "\<forall>c\<in>set t. c \<notin> {CHR 0x22, CHR 0x5C}"
      and "0 < cut_depth s" "cut_inString s" "\<not> cut_escaped s" "\<not> cut_ended s" for t and s :: "'a cut_state"
    using that by (induction t arbitrary: s) (simp_all add: cut_char_def Let_def)
  have first: "cut_char on_claim (CHR 0x5C) s = Inr (s\<lparr>cut_text := cut_text s @ [CHR 0x5C], cut_escaped := True\<rparr>)"
    using assms by (simp add: cut_char_def Let_def)
  have second: "cut_char on_claim d (s\<lparr>cut_text := cut_text s @ [CHR 0x5C], cut_escaped := True\<rparr>)
      = Inr (grown s [CHR 0x5C, d])" for d
    using assms by (simp add: cut_char_def Let_def)
  have hex: "hex_digit d \<notin> {CHR 0x22, CHR 0x5C}" if "d < 16" for d
    using hex_val_hex_digit [OF that] by (auto simp: hex_val_def split: if_splits)
  consider (one) "\<exists>d. escape_char c = [CHR 0x5C, d]"
    | (unicode) "\<exists>x y. x < 16 \<and> y < 16 \<and> escape_char c = [CHR 0x5C, CHR ''u'', CHR ''0'', CHR ''0'', hex_digit x, hex_digit y]"
    | (plain) "escape_char c = [c]" "c \<notin> {CHR 0x22, CHR 0x5C}"
    using escape_char_forms [of c] by blast
  then show ?thesis
  proof cases
    case one
    then show ?thesis using first second by auto
  next
    case unicode
    then obtain x y where x: "x < 16" "y < 16"
      and e: "escape_char c = [CHR 0x5C, CHR ''u'', CHR ''0'', CHR ''0'', hex_digit x, hex_digit y]" by blast
    have "res_fold (cut_char on_claim) [CHR ''0'', CHR ''0'', hex_digit x, hex_digit y] (grown s [CHR 0x5C, CHR ''u''])
        = Inr (grown (grown s [CHR 0x5C, CHR ''u'']) [CHR ''0'', CHR ''0'', hex_digit x, hex_digit y])"
      using assms hex x by (intro quiet) auto
    then show ?thesis unfolding e using first second [of "CHR ''u''"] by simp
  next
    case plain
    then show ?thesis using quiet [of "[c]" s] assms by simp
  qed
qed

lemma cut_quote:
  assumes "inside s"
  shows "res_fold (cut_char on_claim) (quote k) s = Inr (grown s (quote k))"
proof -
  have body: "res_fold (cut_char on_claim) (concat (map escape_char k)) t = Inr (grown t (concat (map escape_char k)))"
    if "0 < cut_depth t" "cut_inString t" "\<not> cut_escaped t" "\<not> cut_ended t" for t
    using that by (induction k arbitrary: t) (simp_all add: res_fold_append cut_escaped_char)
  let ?t = "s\<lparr>cut_text := cut_text s @ [CHR 0x22], cut_inString := True\<rparr>"
  have "cut_char on_claim (CHR 0x22) s = Inr ?t" using assms by (simp add: cut_char_def inside_def Let_def)
  moreover have "res_fold (cut_char on_claim) (concat (map escape_char k)) ?t = Inr (grown ?t (concat (map escape_char k)))"
    using assms by (intro body) (simp_all add: inside_def)
  moreover have "cut_char on_claim (CHR 0x22) (grown ?t (concat (map escape_char k))) = Inr (grown s (quote k))"
    using assms by (cases s) (simp add: cut_char_def inside_def Let_def quote_def)
  ultimately show ?thesis by (simp add: quote_def res_fold_append)
qed

lemma show_int_plain: "c \<in> set (show_int n) \<Longrightarrow> c \<notin> {CHR 0x22, CHR ''{'', CHR ''}''}"
proof -
  assume "c \<in> set (show_int n)"
  then have "digit c \<or> c = CHR ''-''" by (auto simp: show_int_def simp del: show_nat.simps split: if_splits dest: show_nat_all_digits)
  then show ?thesis using digit_range [of c] by (auto simp: digit_def char_digit_def)
qed

definition member_text :: "string \<times> json \<Rightarrow> string" where
  "member_text m = (case m of (k, v) \<Rightarrow> quote k @ '':'' @ stringify v)"

lemma stringify_members_map: "stringify_members ms = map member_text ms"
  by (induction ms) (auto simp: member_text_def)

lemma cut_joined:
  assumes "inside s" and "\<And>x t. x \<in> set xs \<Longrightarrow> inside t \<Longrightarrow> res_fold (cut_char on_claim) (f x) t = Inr (grown t (f x))"
  shows "res_fold (cut_char on_claim) (js_join '','' (map f xs)) s = Inr (grown s (js_join '','' (map f xs)))"
  using assms
proof (induction xs arbitrary: s)
  case (Cons x xs)
  show ?case
  proof (cases xs)
    case (Cons y ys)
    have comma: "cut_char on_claim (CHR '','') (grown s (f x)) = Inr (grown s (f x @ '',''))"
      using Cons.prems(1) by (simp add: cut_char_def inside_def Let_def)
    have "res_fold (cut_char on_claim) (js_join '','' (map f xs)) (grown s (f x @ '',''))
        = Inr (grown (grown s (f x @ '','')) (js_join '','' (map f xs)))"
      by (rule Cons.IH) (use Cons.prems in simp_all)
    then show ?thesis using Cons.prems comma by (simp add: \<open>xs = y # ys\<close> res_fold_append)
  qed (use Cons.prems in simp)
qed simp

lemma cut_stringify: "inside s \<Longrightarrow> res_fold (cut_char on_claim) (stringify j) s = Inr (grown s (stringify j))"
proof (induction j arbitrary: s)
  case JNull
  then show ?case using cut_plain [of s "''null''"] by simp
next
  case (JBool b)
  then show ?case using cut_plain [of s "''true''"] cut_plain [of s "''false''"] by simp
next
  case (JNum n)
  then show ?case using cut_plain [of s "show_int n"] show_int_plain by auto
next
  case (JStr k)
  then show ?case by (simp add: cut_quote)
next
  case (JArr js)
  have "res_fold (cut_char on_claim) (js_join '','' (map stringify js)) (grown s ''['')
      = Inr (grown (grown s ''['') (js_join '','' (map stringify js)))"
    using JArr by (intro cut_joined) simp_all
  moreover have "cut_char on_claim (CHR ''['') s = Inr (grown s ''['')"
    and "cut_char on_claim (CHR '']'') (grown s (''['' @ x)) = Inr (grown s (''['' @ x @ '']''))" for x
    using JArr(2) by (simp_all add: cut_char_def inside_def Let_def)
  ultimately show ?case by (simp add: res_fold_append)
next
  case (JObj ms)
  let ?t = "s\<lparr>cut_text := cut_text s @ ''{'', cut_depth := cut_depth s + 1\<rparr>"
  have member: "res_fold (cut_char on_claim) (member_text m) t = Inr (grown t (member_text m))"
    if "m \<in> set ms" "inside t" for m t
  proof (cases m)
    case (Pair k v)
    have "res_fold (cut_char on_claim) (stringify v) u = Inr (grown u (stringify v))" if "inside u" for u
      using JObj(1) [of m v u] \<open>m \<in> set ms\<close> Pair that by simp
    moreover have "cut_char on_claim (CHR '':'') (grown t (quote k)) = Inr (grown t (quote k @ '':''))"
      using that(2) by (simp add: cut_char_def inside_def Let_def)
    ultimately show ?thesis using that(2) Pair by (simp add: member_text_def res_fold_append cut_quote)
  qed
  have "res_fold (cut_char on_claim) (js_join '','' (map member_text ms)) ?t
      = Inr (grown ?t (js_join '','' (map member_text ms)))"
    using JObj(2) member by (intro cut_joined) (simp_all add: inside_def)
  moreover have "cut_char on_claim (CHR ''{'') s = Inr ?t"
    and "cut_char on_claim (CHR ''}'') (grown ?t x) = Inr (grown s (''{'' @ x @ ''}''))" for x
    using JObj(2) by (cases s; simp add: cut_char_def inside_def Let_def)+
  ultimately show ?case by (simp add: res_fold_append stringify_members_map)
qed

definition idle :: "'a cut_state \<Rightarrow> bool" where
  "idle s \<longleftrightarrow> cut_depth s = 0 \<and> \<not> cut_inString s \<and> \<not> cut_escaped s \<and> \<not> cut_ended s \<and> cut_text s = []"

lemma cut_object:
  assumes "idle s"
  shows "res_fold (cut_char on_claim) (stringify (JObj ms)) s
    = res_bind (on_claim (stringify (JObj ms)) (cut_value s)) (\<lambda>a. Inr (s\<lparr>cut_value := a\<rparr>))"
proof -
  let ?t = "s\<lparr>cut_text := ''{'', cut_depth := 1\<rparr>"
  have "inside ?t" using assms by (simp add: inside_def idle_def)
  have member: "res_fold (cut_char on_claim) (member_text m) t = Inr (grown t (member_text m))" if "inside t" for m t
  proof (cases m)
    case (Pair k v)
    have "cut_char on_claim (CHR '':'') (grown t (quote k)) = Inr (grown t (quote k @ '':''))"
      using that by (simp add: cut_char_def inside_def Let_def)
    then show ?thesis using that Pair by (simp add: member_text_def res_fold_append cut_quote cut_stringify)
  qed
  have "res_fold (cut_char on_claim) (js_join '','' (map member_text ms)) ?t
      = Inr (grown ?t (js_join '','' (map member_text ms)))"
    using \<open>inside ?t\<close> member by (intro cut_joined) simp_all
  moreover have "cut_char on_claim (CHR ''{'') s = Inr ?t"
    using assms by (cases s) (simp add: cut_char_def idle_def)
  moreover have "cut_char on_claim (CHR ''}'') (grown ?t x)
      = res_bind (on_claim (''{'' @ x @ ''}'') (cut_value s)) (\<lambda>a. Inr (s\<lparr>cut_value := a\<rparr>))" for x
    using assms by (cases s) (simp add: cut_char_def idle_def Let_def)
  ultimately show ?thesis
    by (simp add: res_fold_append stringify_members_map res_bind_def split: sum.split)
qed

fun is_object :: "json \<Rightarrow> bool" where
  "is_object (JObj ms) = True"
| "is_object j = False"

lemma cut_claims:
  assumes "idle s" and "\<forall>c\<in>set cs. is_object c"
  shows "res_fold (cut_char on_claim) (js_join '','' (map stringify cs)) s
    = res_bind (res_fold on_claim (map stringify cs) (cut_value s)) (\<lambda>a. Inr (s\<lparr>cut_value := a\<rparr>))"
  using assms
proof (induction cs arbitrary: s)
  case (Cons c cs)
  obtain ms where c: "c = JObj ms" using Cons.prems(2) by (cases c) auto
  note object = cut_object [OF Cons.prems(1), of on_claim ms, folded c]
  show ?case
  proof (cases "on_claim (stringify c) (cut_value s)")
    case (Inl e)
    then show ?thesis using object by (cases cs) (simp_all add: res_fold_append)
  next
    case (Inr a)
    let ?s = "s\<lparr>cut_value := a\<rparr>"
    have idle: "idle ?s" using Cons.prems(1) by (simp add: idle_def)
    then have "cut_char on_claim (CHR '','') ?s = Inr ?s" by (simp add: cut_char_def idle_def)
    then show ?thesis using object Inr Cons.IH [OF idle] Cons.prems(2)
      by (cases cs) (simp_all add: res_fold_append)
  qed
qed simp

lemma cut_file_claims:
  assumes "text_indexOf marker (pre @ marker) = Some (length pre)" and "\<forall>c\<in>set cs. is_object c"
  shows "cut_file on_metadata on_claim a (pre @ marker @ js_join '','' (map stringify cs) @ CHR '']'' # rest)
    = res_bind (on_metadata (pre @ marker @ '']}'') a) (res_fold on_claim (map stringify cs))"
proof -
  have at: "text_indexOf marker (pre @ marker @ t) = Some (length pre)" for t
    using text_indexOf_append [OF assms(1), of t] by simp
  have ended: "res_fold (cut_char on_claim) t s = Inr s" if "cut_ended s" for t s
    using that by (induction t) (simp_all add: cut_char_def)
  have "cut_finish (res_fold (cut_char on_claim) (js_join '','' (map stringify cs) @ CHR '']'' # rest) (cut_start b))
      = res_fold on_claim (map stringify cs) b" for b
  proof -
    have "idle (cut_start b)" by (simp add: idle_def cut_start_def)
    note claims = cut_claims [OF this assms(2), of on_claim]
    show ?thesis
    proof (cases "res_fold on_claim (map stringify cs) b")
      case (Inl e)
      then show ?thesis using claims by (simp add: res_fold_append cut_finish_def cut_start_def)
    next
      case (Inr v)
      define u where "u = (cut_start b)\<lparr>cut_value := v\<rparr>"
      have read: "res_fold (cut_char on_claim) (js_join '','' (map stringify cs)) (cut_start b) = Inr u"
        using claims Inr by (simp add: u_def cut_start_def)
      have close: "cut_char on_claim (CHR '']'') u = Inr (u\<lparr>cut_ended := True\<rparr>)"
        by (simp add: u_def cut_char_def cut_start_def)
      have "cut_depth u = 0" "cut_value u = v" by (simp_all add: u_def cut_start_def)
      then show ?thesis using Inr read close by (simp add: res_fold_append cut_finish_def ended require_def)
    qed
  qed
  then show ?thesis by (simp add: cut_file_def at)
qed

end
