(* ===== verification/Authentication.thy ===== *)
theory Authentication
  imports Planner Hex
begin

text \<open>
  Authentication of dependencies against a Base node in \<open>scripts/proof-planner.mjs\<close>:
  \<open>resolveDependency\<close> with \<open>locateLog\<close>, \<open>validateLog\<close> and \<open>logMatches\<close>, the
  claim's \<open>authenticateClaim\<close> and \<open>loadClaimLedgerBalances\<close>, and the retry loops of
  \<open>rpc\<close> and \<open>defaultFetchJson\<close>. The node is the parameter \<open>rpc_api\<close>: its answers
  by method, each of which may throw. Quantities are the hexadecimal texts of the JSON-RPC.
\<close>

section \<open>What a node answers\<close>

record rpc_log =
  log_address :: "string option"
  log_topics :: "string list"
  log_data :: string
  log_logIndex :: string

record rpc_receipt =
  receipt_status :: "string option"
  receipt_blockNumber :: string
  receipt_blockHash :: "string option"
  receipt_transactionIndex :: string
  receipt_logs :: "rpc_log list"

record rpc_block =
  block_number :: string
  block_hash :: "string option"
  block_timestamp :: string

record rpc_transaction =
  tx_type :: "string option"
  tx_from :: "string option"
  tx_to :: "string option"
  tx_value :: string

record rpc_api =
  getTransactionReceipt :: "string \<Rightarrow> rpc_receipt option res"
  getBlockByNumber :: "string \<Rightarrow> rpc_block option res"
  getTransactionByHash :: "string \<Rightarrow> rpc_transaction option res"
  ethCall :: "string \<Rightarrow> string \<Rightarrow> string \<Rightarrow> string option res"

section \<open>Quantities, topics, words\<close>

definition hexNumber :: "string \<Rightarrow> int res" where
  "hexNumber v = res_bind (js_BigInt v) (\<lambda>n.
     if isSafeInteger n then Inr n else Inl (Error (''unsafe numeric RPC value '' @ v)))"

definition slice :: "nat \<Rightarrow> nat \<Rightarrow> string \<Rightarrow> string" where
  "slice a b s = take (b - a) (drop a s)"

definition dataWord :: "string \<Rightarrow> nat \<Rightarrow> int res" where
  "dataWord data index = js_BigInt (''0x'' @ slice (2 + index * 64) (2 + (index + 1) * 64) data)"

definition topicAddress :: "string option \<Rightarrow> string option" where
  "topicAddress topic = (case topic of None \<Rightarrow> None
     | Some t \<Rightarrow> if t = [] then None else Some (toLowerCase (''0x'' @ drop (length t - 40) t)))"

definition normalizeHash :: "string option \<Rightarrow> string option" where
  "normalizeHash v = (case v of None \<Rightarrow> None
     | Some s \<Rightarrow> if length s = 66 \<and> take 2 s = ''0x'' \<and> (\<forall>c\<in>set (drop 2 s). hex_val c \<noteq> None)
         then Some (toLowerCase s) else None)"

definition BUYERS_SELECTOR :: string where "BUYERS_SELECTOR = ''0x97a993aa''"
definition TRANSFER_TOPIC :: string where
  "TRANSFER_TOPIC = ''0xddf252ad1be2c89b69c2b068fc378daa952ba7f163c4a11628f55a4df523b3ef''"
definition CHANNEL_SETTLED_TOPIC :: string where
  "CHANNEL_SETTLED_TOPIC = ''0x0b287f37d8bd14ef37f2966734ab387c243cc1a1663616a25a4cc259877736b1''"
definition DEPOSITED_TOPIC :: string where
  "DEPOSITED_TOPIC = ''0x2da466a7b24304f47e87fa2e1e5a81b9831ce54fec19055ce277ca2f39ba42c4''"

section \<open>Matching a log\<close>

definition settlement_kinds :: "ev_type list" where
  "settlement_kinds = [SETTLEMENT, RECIPROCAL_SETTLEMENT, TOTAL_SETTLEMENT]"

definition transfer_kinds :: "ev_type list" where
  "transfer_kinds = [USDC_FUNDING, DIRECT_SELLER_FUNDER, DIRECT_SELLER_BUYER,
     RELAY_SELLER_PAYMENT, RELAY_FORWARD, RELAY_FUNDER_RECEIPT]"

text \<open>A string the code tests for truth: absent and empty are false.\<close>

definition truthy :: "string option \<Rightarrow> bool" where
  "truthy s \<longleftrightarrow> s \<noteq> None \<and> s \<noteq> Some []"

definition logMatches :: "rpc_log \<Rightarrow> transfer \<Rightarrow> contracts \<Rightarrow> bool res" where
  "logMatches l d cs =
     (let topics = map toLowerCase (log_topics l) in
      if evidenceType d \<in> set settlement_kinds then
        (if normalize (log_address l) = normalize (Some (channels cs)) \<and> nth_opt topics 0 = Some CHANNEL_SETTLED_TOPIC
            \<and> topicAddress (nth_opt topics 2) = buyer d \<and> topicAddress (nth_opt topics 3) = seller d
         then res_bind (dataWord (log_data l) 1) (\<lambda>w. Inr (w = amountRaw d)) else Inr False)
      else if evidenceType d \<notin> set transfer_kinds then Inr False
      else if normalize (log_address l) \<noteq> normalize (Some (usdc_address cs)) \<or> nth_opt topics 0 \<noteq> Some TRANSFER_TOPIC
      then Inr False
      else (let source = topicAddress (nth_opt topics 1); target = topicAddress (nth_opt topics 2) in
        if truthy (from_addr d) \<and> source \<noteq> from_addr d then Inr False
        else if truthy (to_addr d) \<and> target \<noteq> to_addr d then Inr False
        else if truthy (funder d) \<and> truthy (buyer d) \<and> source \<noteq> funder d then Inr False
        else if truthy (funder d) \<and> truthy (buyer d) \<and> target \<noteq> buyer d \<and> target \<noteq> normalize (Some (deposits cs))
        then Inr False
        else res_bind (dataWord (log_data l) 0) (\<lambda>w. Inr (w = amountRaw d))))"

fun res_filter :: "('a \<Rightarrow> bool res) \<Rightarrow> 'a list \<Rightarrow> 'a list res" where
  "res_filter p [] = Inr []"
| "res_filter p (x # xs) = res_bind (p x) (\<lambda>b. res_bind (res_filter p xs) (\<lambda>ys. Inr (if b then x # ys else ys)))"

fun res_find :: "('a \<Rightarrow> bool res) \<Rightarrow> 'a list \<Rightarrow> 'a option res" where
  "res_find p [] = Inr None"
| "res_find p (x # xs) = res_bind (p x) (\<lambda>b. if b then Inr (Some x) else res_find p xs)"

definition dep_name :: "transfer \<Rightarrow> string" where
  "dep_name d = (case dependencyId d of None \<Rightarrow> ''undefined'' | Some i \<Rightarrow> i)"

text \<open>\<open>throw new Error(`${dependency.dependencyId}: ...`)\<close>, and the guards that end in it.\<close>

definition fail :: "transfer \<Rightarrow> string \<Rightarrow> 'a res" where
  "fail d message = Inl (Error (dep_name d @ '': '' @ message))"

definition check_that :: "transfer \<Rightarrow> string \<Rightarrow> bool \<Rightarrow> unit res" where
  "check_that d message b = (if b then Inr () else fail d message)"

definition found_or :: "transfer \<Rightarrow> string \<Rightarrow> 'a option \<Rightarrow> 'a res" where
  "found_or d message x = (case x of None \<Rightarrow> fail d message | Some y \<Rightarrow> Inr y)"

definition single_or :: "transfer \<Rightarrow> string \<Rightarrow> 'a list \<Rightarrow> 'a res" where
  "single_or d message xs =
     (case xs of [x] \<Rightarrow> Inr x | _ \<Rightarrow> fail d (message @ show_nat (length xs)))"

lemma fail_Inr [simp]: "fail d message = Inr x \<longleftrightarrow> False"
  by (simp add: fail_def)

lemma check_that_Inr [simp]: "check_that d message b = Inr u \<longleftrightarrow> b"
  by (simp add: check_that_def)

lemma found_or_Inr [simp]: "found_or d message x = Inr y \<longleftrightarrow> x = Some y"
  by (simp add: found_or_def split: option.split)

lemma single_or_Inr [simp]: "single_or d message xs = Inr x \<longleftrightarrow> xs = [x]"
  by (simp add: single_or_def split: list.split)

definition locateLog :: "rpc_log list \<Rightarrow> transfer \<Rightarrow> contracts \<Rightarrow> rpc_log res" where
  "locateLog ls d cs =
     res_bind (case logIndex d of None \<Rightarrow> Inr None
       | Some i \<Rightarrow> res_find (\<lambda>l. res_bind (hexNumber (log_logIndex l)) (\<lambda>n. Inr (n = i))) ls) (\<lambda>found.
     case found of Some l \<Rightarrow> Inr l
     | None \<Rightarrow> res_bind (res_filter (\<lambda>l. logMatches l d cs) ls)
         (single_or d ''expected one matching log, found ''))"

definition validateLog :: "rpc_log \<Rightarrow> transfer \<Rightarrow> contracts \<Rightarrow> unit res" where
  "validateLog l d cs = res_bind (logMatches l d cs) (check_that d ''authenticated log mismatch'')"

text \<open>\<open>array.indexOf(log)\<close>: the receipt's log objects are different objects, so the first equal one.\<close>

definition indexOf :: "rpc_log list \<Rightarrow> rpc_log \<Rightarrow> int" where
  "indexOf ls l = (case index_from 0 l ls of Some i \<Rightarrow> int i | None \<Rightarrow> -1)"

section \<open>Resolving a dependency\<close>

text \<open>The receipt of the dependency's transaction, which must exist and not have reverted.\<close>

definition resolve_receipt :: "transfer \<Rightarrow> rpc_api \<Rightarrow> rpc_receipt res" where
  "resolve_receipt d api =
     res_bind (check_that d ''missing transaction hash'' (truthy (transactionHash d))) (\<lambda>_.
     res_bind (getTransactionReceipt api (js_String (transactionHash d))) (\<lambda>found.
     res_bind (found_or d ''receipt not found'' found) (\<lambda>r.
     res_bind (found_or d ''receipt reverted'' (receipt_status r)) (\<lambda>st.
     res_bind (js_BigInt st) (\<lambda>n.
     res_bind (check_that d ''receipt reverted'' (n = 1)) (\<lambda>_. Inr r))))))"

text \<open>The position of the receipt: block, transaction index and, where the dependency has one, time.\<close>

definition resolve_timestamp :: "transfer \<Rightarrow> rpc_api \<Rightarrow> rpc_receipt \<Rightarrow> int \<Rightarrow> int option res" where
  "resolve_timestamp d api r blk =
     (if timestamp d = None then Inr None
      else res_bind (getBlockByNumber api (receipt_blockNumber r)) (\<lambda>found.
        res_bind (found_or d ''receipt block identity mismatch'' found) (\<lambda>b.
        res_bind (hexNumber (block_number b)) (\<lambda>n.
        res_bind (check_that d ''receipt block identity mismatch''
          (n = blk \<and> normalizeHash (block_hash b) = normalizeHash (receipt_blockHash r))) (\<lambda>_.
        res_bind (hexNumber (block_timestamp b)) (\<lambda>tm. Inr (Some tm)))))))"

definition resolve_position :: "transfer \<Rightarrow> period \<Rightarrow> rpc_api \<Rightarrow> rpc_receipt \<Rightarrow> transfer res" where
  "resolve_position d p api r =
     res_bind (hexNumber (receipt_blockNumber r)) (\<lambda>blk.
     res_bind (check_that d (''block '' @ show_int blk @ '' outside approved period'')
       (\<not> (evidenceType d \<in> set settlement_kinds \<and> (blk < startBlock p \<or> blk \<ge> endBlockExclusive p)))) (\<lambda>_.
     res_bind (authenticationGroup (Some blk)) (\<lambda>_.
     res_bind (hexNumber (receipt_transactionIndex r)) (\<lambda>txIndex.
     res_bind (resolve_timestamp d api r blk) (\<lambda>authenticatedTimestamp.
     Inr (d\<lparr>blockNumber := Some blk, transactionIndex := Some txIndex,
            timestamp := nullish authenticatedTimestamp (timestamp d)\<rparr>))))))"

definition resolve_native :: "transfer \<Rightarrow> transfer \<Rightarrow> rpc_api \<Rightarrow> transfer res" where
  "resolve_native d resolved api =
     res_bind (getTransactionByHash api (js_String (transactionHash d))) (\<lambda>found.
     res_bind (found_or d ''transaction not found'' found) (\<lambda>t.
     res_bind (case tx_type t of None \<Rightarrow> Inr 0 | Some ty \<Rightarrow> hexNumber ty) (\<lambda>type.
     res_bind (check_that d (''unsupported transaction type '' @ show_int type) (type \<in> {0, 1, 2})) (\<lambda>_.
     res_bind (check_that d ''native funding parties/value mismatch''
       (normalize (tx_from t) = funder d \<and> normalize (tx_to t) = buyer d)) (\<lambda>_.
     res_bind (js_BigInt (tx_value t)) (\<lambda>v.
     res_bind (check_that d ''native funding parties/value mismatch'' (0 < v \<and> v = amountWei d)) (\<lambda>_.
     Inr (resolved\<lparr>otherMembers := otherMembers resolved
       @ [(''transactionType'', JNum type), (''valueWei'', JStr (show_int v))]\<rparr>))))))))"

definition depositMatches :: "transfer \<Rightarrow> contracts \<Rightarrow> rpc_log \<Rightarrow> bool res" where
  "depositMatches d cs l =
     (let topics = map toLowerCase (log_topics l) in
      if normalize (log_address l) = normalize (Some (deposits cs)) \<and> nth_opt topics 0 = Some DEPOSITED_TOPIC
         \<and> topicAddress (nth_opt topics 1) = buyer d
      then res_bind (dataWord (log_data l) 0) (\<lambda>w. Inr (w = amountRaw d)) else Inr False)"

definition resolve_deposit :: "transfer \<Rightarrow> transfer \<Rightarrow> contracts \<Rightarrow> rpc_receipt \<Rightarrow> transfer res" where
  "resolve_deposit d resolvedLog cs r =
     res_bind (res_filter (depositMatches d cs) (receipt_logs r)) (\<lambda>deposited.
     res_bind (single_or d ''expected one matching Deposited log, found '' deposited) (\<lambda>l.
     res_bind (hexNumber (log_logIndex l)) (\<lambda>i.
     res_bind (check_that d ''Deposited log must follow the funding transfer''
       (num0 (logIndex resolvedLog) < i)) (\<lambda>_.
     Inr (resolvedLog\<lparr>depositLogIndex := Some i, otherMembers := otherMembers resolvedLog
       @ [(''depositReceiptLogIndex'', JNum (indexOf (receipt_logs r) l))]\<rparr>)))))"

definition resolve_funding :: "transfer \<Rightarrow> rpc_api \<Rightarrow> unit res" where
  "resolve_funding d api =
     (if evidenceType d \<noteq> USDC_FUNDING then Inr ()
      else res_bind (check_that d ''USDC funding must be positive'' (0 < amountRaw d)) (\<lambda>_.
        if depositLogIndex d = None then Inr ()
        else res_bind (getTransactionByHash api (js_String (transactionHash d))) (\<lambda>found.
          res_bind (found_or d ''funding transaction signer mismatch'' found) (\<lambda>t.
          check_that d ''funding transaction signer mismatch'' (normalize (tx_from t) = funder d)))))"

definition resolve_log :: "transfer \<Rightarrow> transfer \<Rightarrow> contracts \<Rightarrow> rpc_api \<Rightarrow> rpc_receipt \<Rightarrow> transfer res" where
  "resolve_log d resolved cs api r =
     res_bind (locateLog (receipt_logs r) d cs) (\<lambda>l.
     res_bind (validateLog l d cs) (\<lambda>_.
     res_bind (hexNumber (log_logIndex l)) (\<lambda>i.
     let resolvedLog = resolved\<lparr>logIndex := Some i, receiptLogIndex := Some (indexOf (receipt_logs r) l)\<rparr> in
     res_bind (resolve_funding d api) (\<lambda>_.
     if evidenceType d = USDC_FUNDING
        \<and> topicAddress (map_option toLowerCase (nth_opt (log_topics l) 2)) = normalize (Some (deposits cs))
     then resolve_deposit d resolvedLog cs r else Inr resolvedLog))))"

definition resolve_atomic :: "period \<Rightarrow> contracts \<Rightarrow> rpc_api \<Rightarrow> transfer \<Rightarrow> transfer res" where
  "resolve_atomic p cs api d =
     res_bind (resolve_receipt d api) (\<lambda>r.
     res_bind (resolve_position d p api r) (\<lambda>resolved.
     if evidenceType d = NATIVE_FUNDING then resolve_native d resolved api
     else resolve_log d resolved cs api r))"

definition resolve_opt :: "('a \<Rightarrow> 'b res) \<Rightarrow> 'a option \<Rightarrow> 'b option res" where
  "resolve_opt f x = (case x of None \<Rightarrow> Inr None | Some y \<Rightarrow> res_bind (f y) (\<lambda>z. Inr (Some z)))"

text \<open>
  \<open>resolveDependency\<close>: the hops of a path one by one. (A legacy path without its first two
  legs makes the source fail in \<open>dependency.evidenceType\<close>.)
\<close>

definition resolveDependency :: "period \<Rightarrow> contracts \<Rightarrow> rpc_api \<Rightarrow> evidence \<Rightarrow> evidence res" where
  "resolveDependency p cs api d =
     (if evidenceType d = RELAY_PATH then
        (case hops d of
           Some hs \<Rightarrow> res_bind (res_map (resolve_atomic p cs api) hs) (\<lambda>hs'. Inr (d\<lparr>hops := Some hs'\<rparr>))
         | None \<Rightarrow>
             (if sellerPayment d = None \<or> relayForward d = None then Inl TypeError
              else res_bind (resolve_opt (resolve_atomic p cs api) (sellerPayment d)) (\<lambda>sp.
                res_bind (resolve_opt (resolve_atomic p cs api) (relayForward d)) (\<lambda>rf.
                res_bind (resolve_opt (resolve_atomic p cs api) (funderReceipt d)) (\<lambda>fr.
                Inr (d\<lparr>sellerPayment := sp, relayForward := rf, funderReceipt := fr\<rparr>))))))
      else res_bind (resolve_atomic p cs api (transfer.truncate d)) (\<lambda>t.
        Inr (transfer.extend t \<lparr>hops = hops d, sellerPayment = sellerPayment d, relayForward = relayForward d,
          funderReceipt = funderReceipt d\<rparr>)))"


section \<open>What a resolved dependency is\<close>

text \<open>The members that identify the dependency in the report; resolving adds a position, no more.\<close>

definition same_claimed :: "transfer \<Rightarrow> transfer \<Rightarrow> bool" where
  "same_claimed d r \<longleftrightarrow> evidenceType r = evidenceType d \<and> transactionHash r = transactionHash d
     \<and> from_addr r = from_addr d \<and> to_addr r = to_addr d \<and> buyer r = buyer d \<and> seller r = seller d
     \<and> funder r = funder d \<and> amountRaw r = amountRaw d \<and> amountWei r = amountWei d
     \<and> dependencyId r = dependencyId d"

lemma resolve_receipt_Inr:
  assumes "resolve_receipt d api = Inr r"
  shows "\<exists>h st. transactionHash d = Some h \<and> getTransactionReceipt api h = Inr (Some r)
    \<and> receipt_status r = Some st \<and> js_BigInt st = Inr 1"
  using assms
  by (cases "transactionHash d") (auto simp: resolve_receipt_def truthy_def js_String_def res_bind_Inr)

lemma resolve_position_Inr:
  assumes "resolve_position d p api r = Inr q"
  shows "\<exists>blk. hexNumber (receipt_blockNumber r) = Inr blk \<and> blockNumber q = Some blk
      \<and> HISTORICAL_START_BLOCK \<le> blk
      \<and> (evidenceType d \<in> set settlement_kinds \<longrightarrow> startBlock p \<le> blk \<and> blk < endBlockExclusive p)"
    and "same_claimed d q"
proof -
  obtain blk txIndex tm where b: "hexNumber (receipt_blockNumber r) = Inr blk"
    "\<not> (evidenceType d \<in> set settlement_kinds \<and> (blk < startBlock p \<or> blk \<ge> endBlockExclusive p))"
    "isl (authenticationGroup (Some blk)) = False"
    and q: "q = d\<lparr>blockNumber := Some blk, transactionIndex := Some txIndex, timestamp := tm\<rparr>"
    using assms by (auto simp: resolve_position_def res_bind_Inr)
  have "HISTORICAL_START_BLOCK \<le> blk"
    using b(3) by (auto simp: authenticationGroup_def split: if_splits)
  with b q show "\<exists>blk. hexNumber (receipt_blockNumber r) = Inr blk \<and> blockNumber q = Some blk
      \<and> HISTORICAL_START_BLOCK \<le> blk
      \<and> (evidenceType d \<in> set settlement_kinds \<longrightarrow> startBlock p \<le> blk \<and> blk < endBlockExclusive p)" by auto
  show "same_claimed d q" by (simp add: same_claimed_def q)
qed

lemma res_find_Some: "res_find f xs = Inr (Some x) \<Longrightarrow> x \<in> set xs \<and> f x = Inr True"
  by (induction xs) (auto simp: res_bind_Inr split: if_splits)

lemma res_filter_set:
  assumes "res_filter f xs = Inr ys"
  shows "ys = filter (\<lambda>x. f x = Inr True) xs"
  using assms
proof (induction xs arbitrary: ys)
  case (Cons x xs)
  from Cons.prems obtain b where b: "f x = Inr b" by (cases "f x") simp_all
  from Cons.prems obtain zs where zs: "res_filter f xs = Inr zs" by (cases "res_filter f xs") (simp_all add: b)
  with Cons.prems b have "ys = (if b then x # zs else zs)" by simp
  with Cons.IH [OF zs] b show ?case by simp
qed simp

lemma locateLog_in:
  assumes "locateLog ls d cs = Inr l"
  shows "l \<in> set ls"
proof -
  consider i where "res_find (\<lambda>l. res_bind (hexNumber (log_logIndex l)) (\<lambda>n. Inr (n = i))) ls = Inr (Some l)"
    | "res_filter (\<lambda>l. logMatches l d cs) ls = Inr [l]"
    using assms by (auto simp: locateLog_def res_bind_Inr split: option.splits)
  then show ?thesis
  proof cases
    case 1
    then show ?thesis using res_find_Some by fast
  next
    case 2
    then have "l \<in> set (filter (\<lambda>l. logMatches l d cs = Inr True) ls)"
      by (simp flip: res_filter_set [OF 2])
    then show ?thesis by simp
  qed
qed

lemma resolve_log_Inr:
  assumes "resolve_log d q cs api r = Inr t"
  shows "\<exists>l\<in>set (receipt_logs r). logMatches l d cs = Inr True \<and> (\<exists>i. hexNumber (log_logIndex l) = Inr i \<and> logIndex t = Some i)"
    and "same_claimed q t" "blockNumber t = blockNumber q"
proof -
  obtain l i where l: "locateLog (receipt_logs r) d cs = Inr l" "validateLog l d cs = Inr ()"
    "hexNumber (log_logIndex l) = Inr i"
    and t: "t = q\<lparr>logIndex := Some i, receiptLogIndex := Some (indexOf (receipt_logs r) l)\<rparr>
      \<or> resolve_deposit d (q\<lparr>logIndex := Some i, receiptLogIndex := Some (indexOf (receipt_logs r) l)\<rparr>) cs r = Inr t"
    using assms by (auto simp: resolve_log_def res_bind_Inr Let_def split: if_splits)
  have m: "logMatches l d cs = Inr True"
    using l(2) by (auto simp: validateLog_def res_bind_Inr)
  have t': "\<exists>di om. t = q\<lparr>logIndex := Some i, receiptLogIndex := Some (indexOf (receipt_logs r) l),
      depositLogIndex := di, otherMembers := om\<rparr>"
    using t
  proof
    assume "t = q\<lparr>logIndex := Some i, receiptLogIndex := Some (indexOf (receipt_logs r) l)\<rparr>"
    then have "t = q\<lparr>logIndex := Some i, receiptLogIndex := Some (indexOf (receipt_logs r) l),
      depositLogIndex := depositLogIndex q, otherMembers := otherMembers q\<rparr>" by simp
    then show ?thesis by blast
  next
    assume "resolve_deposit d (q\<lparr>logIndex := Some i, receiptLogIndex := Some (indexOf (receipt_logs r) l)\<rparr>) cs r = Inr t"
    then show ?thesis
      by (simp add: resolve_deposit_def res_bind_Inr) (elim exE conjE, intro exI, erule sym)
  qed
  then show "\<exists>l\<in>set (receipt_logs r). logMatches l d cs = Inr True \<and> (\<exists>i. hexNumber (log_logIndex l) = Inr i \<and> logIndex t = Some i)"
    using locateLog_in [OF l(1)] m l(3) by auto
  from t' show "same_claimed q t" "blockNumber t = blockNumber q" by (auto simp: same_claimed_def)
qed


section \<open>Witness\<close>

definition ex_log :: rpc_log where
  "ex_log = \<lparr>log_address = Some ''0xC'', log_topics = [CHANNEL_SETTLED_TOPIC, ''0x01'', ''0b'', ''05''],
     log_data = ''0x'' @ replicate 64 (CHR ''0'') @ replicate 62 (CHR ''0'') @ ''2A'', log_logIndex = ''0x7''\<rparr>"

definition ex_api :: rpc_api where
  "ex_api = \<lparr>getTransactionReceipt = (\<lambda>h. Inr (if h = ''0x1'' then Some \<lparr>receipt_status = Some ''0x1'',
       receipt_blockNumber = ''0x2a68d95'', receipt_blockHash = Some ''0xb'', receipt_transactionIndex = ''0x3'',
       receipt_logs = [ex_log]\<rparr> else None)),
     getBlockByNumber = (\<lambda>_. Inr None), getTransactionByHash = (\<lambda>_. Inr None),
     ethCall = (\<lambda>_ _ _. Inr None)\<rparr>"

definition ex_settled :: transfer where
  "ex_settled = blank\<lparr>evidenceType := SETTLEMENT, transactionHash := Some ''0x1'', buyer := Some ''0x0b'',
     seller := Some ''0x05'', amountRaw := 42, dependencyId := Some ''0xd''\<rparr>"

lemma ex_settled_resolves:
  "\<not> isl (resolve_atomic \<lparr>startBlock = 44469557, endBlockExclusive = 44469657\<rparr>
     \<lparr>channels = ''0xc'', usdc_address = ''0xe'', deposits = ''0xd''\<rparr> ex_api ex_settled)"
  by code_simp


end
