(* ===== verification/Rpc.thy ===== *)
theory Rpc
  imports Json
begin

text \<open>
  The transport of \<open>scripts/proof-planner.mjs\<close>: one HTTP request with its retries
  (\<open>defaultFetchJson\<close>), one JSON-RPC call with its retries (\<open>rpc\<close>), a batch
  (\<open>rpcBatch\<close>) and the pause between attempts (\<open>retryDelay\<close>). What the network answers
  at the n-th attempt is the parameter of these definitions; their result is the value or the
  error, together with the attempts after which the code paused.
\<close>

section \<open>Pauses\<close>

text \<open>\<open>retryDelay(attempt, minimumMilliseconds)\<close>: \<open>Math.random()\<close> is \<open>random / 2 ^ 53\<close>.\<close>

definition exponential_ms :: "nat \<Rightarrow> int" where
  "exponential_ms attempt = 250 * 2 ^ min attempt 6"

definition retryDelay :: "nat \<Rightarrow> int \<Rightarrow> int \<Rightarrow> int" where
  "retryDelay attempt minimumMilliseconds random =
     (let jitter = (random * max 4 (exponential_ms attempt)) div (4 * 2 ^ 53)
      in max minimumMilliseconds (exponential_ms attempt) + jitter)"

definition ATTEMPTS :: nat where "ATTEMPTS = 9"

section \<open>One HTTP request\<close>

datatype 'a http = Http_response int "'a res" int | Http_failure string

text \<open>
  A response has its status, what \<open>response.json()\<close> gives, and the milliseconds of its
  \<open>retry-after\<close> header; a failure is an exception of \<open>fetch\<close> with its message.
\<close>

definition retryable_statuses :: "int list" where
  "retryable_statuses = [429, 500, 502, 503, 504]"

definition response_ok :: "int \<Rightarrow> bool" where
  "response_ok status \<longleftrightarrow> 200 \<le> status \<and> status \<le> 299"

definition http_error :: "int \<Rightarrow> js_error" where
  "http_error status = RpcTransportError (''RPC HTTP '' @ show_int status)"

function fetch_loop :: "(nat \<Rightarrow> 'a http) \<Rightarrow> nat \<Rightarrow> js_error \<Rightarrow> 'a res \<times> (nat \<times> int) list" where
  "fetch_loop fetch attempt lastError =
     (if attempt < ATTEMPTS then
        (case fetch attempt of
           Http_response status body retryAfter \<Rightarrow>
             if response_ok status then (body, [])
             else if status \<notin> set retryable_statuses then (Inl (http_error status), [])
             else (case fetch_loop fetch (Suc attempt) (http_error status) of
               (r, pauses) \<Rightarrow> (r, (attempt, retryAfter) # pauses))
         | Http_failure message \<Rightarrow>
             (case fetch_loop fetch (Suc attempt) (RpcTransportError message) of
               (r, pauses) \<Rightarrow> (r, (attempt, 0) # pauses)))
      else (Inl lastError, []))"
  by pat_completeness auto
termination by (relation "measure (\<lambda>(_, attempt, _). ATTEMPTS - attempt)") auto

declare fetch_loop.simps [simp del]

definition defaultFetchJson :: "(nat \<Rightarrow> 'a http) \<Rightarrow> 'a res \<times> (nat \<times> int) list" where
  "defaultFetchJson fetch = fetch_loop fetch 0 TypeError"

section \<open>One JSON-RPC call\<close>

datatype 'a rpc_response = Rpc_result 'a | Rpc_error "int option" json

definition retryable_codes :: "int list" where
  "retryable_codes = [-32000, -32005, -32600, -32603]"

definition retryable_code :: "int option \<Rightarrow> bool" where
  "retryable_code code \<longleftrightarrow> (case code of None \<Rightarrow> False | Some c \<Rightarrow> c \<in> set retryable_codes)"

definition rpc_message :: "string \<Rightarrow> json \<Rightarrow> string" where
  "rpc_message method err = method @ '': '' @ stringify err"

function rpc_loop :: "string \<Rightarrow> (nat \<Rightarrow> 'a rpc_response res) \<Rightarrow> nat \<Rightarrow> string \<Rightarrow> 'a res \<times> nat list" where
  "rpc_loop method fetchJson attempt lastError =
     (if attempt < ATTEMPTS then
        (case fetchJson attempt of
           Inl e \<Rightarrow> (Inl e, [])
         | Inr (Rpc_result r) \<Rightarrow> (Inr r, [])
         | Inr (Rpc_error code err) \<Rightarrow>
             if \<not> retryable_code code then (Inl (Error (rpc_message method err)), [])
             else (case rpc_loop method fetchJson (Suc attempt) (rpc_message method err) of
               (r, pauses) \<Rightarrow> (r, attempt # pauses)))
      else (Inl (RpcTransportError lastError), []))"
  by pat_completeness auto
termination by (relation "measure (\<lambda>(_, _, attempt, _). ATTEMPTS - attempt)") auto

declare rpc_loop.simps [simp del]

definition rpc :: "string \<Rightarrow> (nat \<Rightarrow> 'a rpc_response res) \<Rightarrow> 'a res \<times> nat list" where
  "rpc method fetchJson = rpc_loop method fetchJson 0 []"

text \<open>\<open>rpcBatch\<close>: the answers by id; a response that is no array is a transport error.\<close>

definition rpcBatch :: "('a list option) res \<Rightarrow> ('a \<Rightarrow> int) \<Rightarrow> (int \<times> 'a) list res" where
  "rpcBatch response ident = res_bind response (\<lambda>entries.
     case entries of None \<Rightarrow> Inl (RpcTransportError ''RPC batch returned a non-array response'')
     | Some es \<Rightarrow> Inr (map_from (map (\<lambda>e. (ident e, e)) es)))"

section \<open>What the retries give\<close>

text \<open>
  A loop over at most nine attempts: an attempt either calls for another one, after a pause and
  with its error remembered, or is the answer. Both loops above are of this form.
\<close>

locale retry_loop =
  fixes loop :: "nat \<Rightarrow> 'e \<Rightarrow> 'r \<times> 'p list" and again :: "nat \<Rightarrow> bool" and answer :: "nat \<Rightarrow> 'r"
    and remember :: "nat \<Rightarrow> 'e" and pause :: "nat \<Rightarrow> 'p" and giveup :: "'e \<Rightarrow> 'r"
  assumes loop_again: "n < ATTEMPTS \<Longrightarrow> again n \<Longrightarrow>
      loop n e = (fst (loop (Suc n) (remember n)), pause n # snd (loop (Suc n) (remember n)))"
    and loop_answer: "n < ATTEMPTS \<Longrightarrow> \<not> again n \<Longrightarrow> loop n e = (answer n, [])"
    and loop_giveup: "loop ATTEMPTS e = (giveup e, [])"
begin

lemma loop_until:
  "m \<le> n \<Longrightarrow> n < ATTEMPTS \<Longrightarrow> \<forall>k. m \<le> k \<and> k < n \<longrightarrow> again k \<Longrightarrow> \<not> again n \<Longrightarrow>
   loop m e = (answer n, map pause [m..<n])"
proof (induction "n - m" arbitrary: m e)
  case 0
  then show ?case by (simp add: loop_answer)
next
  case (Suc d)
  then have "m < ATTEMPTS" "again m" by auto
  moreover have "loop (Suc m) e' = (answer n, map pause [Suc m..<n])" for e'
    using Suc.hyps(2) Suc.prems by (intro Suc.hyps(1)) auto
  ultimately show ?case using Suc.hyps(2) by (simp add: loop_again upt_rec [of m])
qed

lemma loop_exhausted:
  "m < ATTEMPTS \<Longrightarrow> \<forall>k. m \<le> k \<and> k < ATTEMPTS \<longrightarrow> again k \<Longrightarrow>
   loop m e = (giveup (remember (ATTEMPTS - 1)), map pause [m..<ATTEMPTS])"
proof (induction "ATTEMPTS - m" arbitrary: m e)
  case 0
  then show ?case by simp
next
  case (Suc d)
  show ?case
  proof (cases "Suc m < ATTEMPTS")
    case True
    with Suc.hyps(2) Suc.prems
    have "loop (Suc m) e' = (giveup (remember (ATTEMPTS - 1)), map pause [Suc m..<ATTEMPTS])" for e'
      by (intro Suc.hyps(1)) auto
    with Suc.prems show ?thesis by (simp add: loop_again upt_rec [of m])
  next
    case False
    with Suc.prems have last: "Suc m = ATTEMPTS" "ATTEMPTS - 1 = m" "[m..<ATTEMPTS] = [m]"
      by (simp_all add: upt_rec [of m])
    with Suc.prems show ?thesis by (simp add: loop_again loop_giveup del: One_nat_def)
  qed
qed

lemma outcome:
  "loop 0 e = (case find (\<lambda>n. \<not> again n) [0..<9] of
     Some n \<Rightarrow> (answer n, map pause [0..<n]) | None \<Rightarrow> (giveup (remember 8), map pause [0..<9]))"
proof (cases "find (\<lambda>n. \<not> again n) [0..<9]")
  case None
  then have "\<forall>k. 0 \<le> k \<and> k < ATTEMPTS \<longrightarrow> again k"
    by (auto simp: find_None_iff ATTEMPTS_def)
  from loop_exhausted [OF _ this, of e] show ?thesis unfolding None by (simp add: ATTEMPTS_def)
next
  case (Some n)
  then have "n < 9" "\<not> again n" "\<forall>k. 0 \<le> k \<and> k < n \<longrightarrow> again k"
    by (auto simp: find_Some_iff)
  with loop_until [of 0 n e] show ?thesis unfolding Some by (simp add: ATTEMPTS_def)
qed

end

text \<open>JSON-RPC: retryable error codes are worth another attempt.\<close>

definition rpc_again :: "'a rpc_response res \<Rightarrow> bool" where
  "rpc_again x \<longleftrightarrow> (case x of Inr (Rpc_error code err) \<Rightarrow> retryable_code code | _ \<Rightarrow> False)"

definition rpc_verdict :: "string \<Rightarrow> 'a rpc_response res \<Rightarrow> 'a res" where
  "rpc_verdict method x = (case x of Inl e \<Rightarrow> Inl e | Inr (Rpc_result r) \<Rightarrow> Inr r
     | Inr (Rpc_error code err) \<Rightarrow> Inl (Error (rpc_message method err)))"

definition rpc_error_text :: "string \<Rightarrow> 'a rpc_response res \<Rightarrow> string" where
  "rpc_error_text method x = (case x of Inr (Rpc_error code err) \<Rightarrow> rpc_message method err | _ \<Rightarrow> [])"

interpretation calls: retry_loop "rpc_loop name answers" "\<lambda>n. rpc_again (answers n)"
  "\<lambda>n. rpc_verdict name (answers n)" "\<lambda>n. rpc_error_text name (answers n)" "\<lambda>n. n"
  "\<lambda>e. Inl (RpcTransportError e)" for name answers
  by unfold_locales
    (subst rpc_loop.simps; auto simp: rpc_again_def rpc_verdict_def rpc_error_text_def
      split: sum.splits rpc_response.splits prod.splits)+

text \<open>HTTP: failures and the retryable statuses are.\<close>

definition http_again :: "'a http \<Rightarrow> bool" where
  "http_again x \<longleftrightarrow> (case x of Http_response status body retryAfter \<Rightarrow>
       \<not> response_ok status \<and> status \<in> set retryable_statuses
     | Http_failure message \<Rightarrow> True)"

definition http_answer :: "'a http \<Rightarrow> 'a res" where
  "http_answer x = (case x of Http_response status body retryAfter \<Rightarrow>
       if response_ok status then body else Inl (http_error status)
     | Http_failure message \<Rightarrow> Inl (RpcTransportError message))"

definition http_pause :: "nat \<Rightarrow> 'a http \<Rightarrow> nat \<times> int" where
  "http_pause n x = (n, case x of Http_response status body retryAfter \<Rightarrow> retryAfter | Http_failure message \<Rightarrow> 0)"

definition http_last :: "'a http \<Rightarrow> js_error" where
  "http_last x = (case x of Http_response status body retryAfter \<Rightarrow> http_error status
     | Http_failure message \<Rightarrow> RpcTransportError message)"

interpretation requests: retry_loop "fetch_loop fetch" "\<lambda>n. http_again (fetch n)"
  "\<lambda>n. http_answer (fetch n)" "\<lambda>n. http_last (fetch n)" "\<lambda>n. http_pause n (fetch n)" Inl for fetch
  by unfold_locales
    (subst fetch_loop.simps; auto simp: http_again_def http_answer_def http_last_def http_pause_def
      split: http.splits prod.splits)+

text \<open>A JSON-RPC call is answered by the first of nine attempts that is not answered by a retryable
  error, and a permanent error of the node is an ordinary error; only when all nine attempts
  are answered by retryable errors the call fails with a transport error, with the last
  error's text.\<close>

theorem rpc_outcome:
  "rpc method fetchJson =
     (case find (\<lambda>n. \<not> rpc_again (fetchJson n)) [0..<9] of
        Some n \<Rightarrow> (rpc_verdict method (fetchJson n), [0..<n])
      | None \<Rightarrow> (Inl (RpcTransportError (rpc_error_text method (fetchJson 8))), [0..<9]))"
  unfolding rpc_def calls.outcome by (simp add: map_idI split: option.split)

text \<open>The HTTP request in the same way; the error of a good response's body is not retried.\<close>

lemma http_outcome:
  "defaultFetchJson fetch =
     (case find (\<lambda>n. \<not> http_again (fetch n)) [0..<9] of
        Some n \<Rightarrow> (http_answer (fetch n), map (\<lambda>k. http_pause k (fetch k)) [0..<n])
      | None \<Rightarrow> (Inl (http_last (fetch 8)), map (\<lambda>k. http_pause k (fetch k)) [0..<9]))"
  unfolding defaultFetchJson_def by (rule requests.outcome)

text \<open>What an HTTP request throws is a transport error, with one exception: the body of a good
  response that cannot be read (cut off, timed out, not JSON) is thrown as it is and after no
  further attempt.\<close>

theorem http_errors:
  "(\<forall>e. fst (defaultFetchJson fetch) = Inl e \<longrightarrow> (\<exists>m. e = RpcTransportError m)
      \<or> (\<exists>n<9. \<exists>status retryAfter. fetch n = Http_response status (Inl e) retryAfter \<and> response_ok status))
   \<and> (\<forall>e retryAfter. fetch 0 = Http_response 200 (Inl e) retryAfter \<longrightarrow> defaultFetchJson fetch = (Inl e, []))"
proof (intro conjI allI impI)
  fix e assume e: "fst (defaultFetchJson fetch) = Inl e"
  show "(\<exists>m. e = RpcTransportError m)
      \<or> (\<exists>n<9. \<exists>status retryAfter. fetch n = Http_response status (Inl e) retryAfter \<and> response_ok status)"
  proof (cases "find (\<lambda>n. \<not> http_again (fetch n)) [0..<9]")
    case None
    with e show ?thesis by (auto simp: http_outcome http_last_def http_error_def split: http.splits)
  next
    case (Some n)
    then have "n < 9" by (auto simp: find_Some_iff)
    with Some e show ?thesis
      by (auto simp: http_outcome http_answer_def http_error_def split: http.splits if_splits)
  qed
next
  fix e :: js_error and retryAfter
  assume "fetch 0 = Http_response 200 (Inl e) retryAfter"
  then show "defaultFetchJson fetch = (Inl e, [])"
    by (simp add: defaultFetchJson_def fetch_loop.simps ATTEMPTS_def response_ok_def)
qed

theorem http_errors_witness:
  "defaultFetchJson (\<lambda>n. Http_response 200 (Inl TypeError) 0 :: nat http) = (Inl TypeError, [])"
  using http_errors [of "\<lambda>n. Http_response 200 (Inl TypeError) 0 :: nat http"] by simp

lemma retryDelay_bounds:
  assumes "0 \<le> random" "random < 2 ^ 53"
  shows "exponential_ms attempt \<le> retryDelay attempt m random"
    and "m \<le> retryDelay attempt m random"
    and "4 * (retryDelay attempt m random - max m (exponential_ms attempt)) < exponential_ms attempt"
proof -
  have e: "4 \<le> exponential_ms attempt"
  proof -
    have "(1 :: int) \<le> 2 ^ min attempt 6" by simp
    then show ?thesis unfolding exponential_ms_def by linarith
  qed
  let ?j = "(random * exponential_ms attempt) div (4 * 2 ^ 53)"
  have nonneg: "0 \<le> ?j" using assms e by (simp add: pos_imp_zdiv_nonneg_iff)
  have "?j * (4 * 2 ^ 53) \<le> random * exponential_ms attempt"
    using floor_div_galois [of "4 * 2 ^ 53" ?j "random * exponential_ms attempt"] by simp
  also have "random * exponential_ms attempt < 2 ^ 53 * exponential_ms attempt"
    using assms e by (intro mult_strict_right_mono) simp_all
  finally have "4 * ?j < exponential_ms attempt" by simp
  with nonneg show "exponential_ms attempt \<le> retryDelay attempt m random" "m \<le> retryDelay attempt m random"
    "4 * (retryDelay attempt m random - max m (exponential_ms attempt)) < exponential_ms attempt"
    using e by (auto simp: retryDelay_def Let_def max_def)
qed

end
