(* ===== verification/Claim_Authentication.thy ===== *)
theory Claim_Authentication
  imports Authentication Rpc
begin

text \<open>
  Authenticating a whole claim in \<open>scripts/proof-planner.mjs\<close>: the batched prefetch of
  receipts and transactions (\<open>prefetchDependencies\<close>, \<open>uniqueRpcRequests\<close>), the cached
  \<open>callRpc\<close>, \<open>authenticateClaim\<close> and \<open>loadClaimLedgerBalances\<close>. The node is the
  \<open>rpc_api\<close> of single calls and the function \<open>batch\<close> that answers a batch of requests.
\<close>

section \<open>Prefetching\<close>

datatype rpc_method = GetReceipt | GetTransaction

definition method_name :: "rpc_method \<Rightarrow> string" where
  "method_name m = (case m of GetReceipt \<Rightarrow> ''eth_getTransactionReceipt'' | GetTransaction \<Rightarrow> ''eth_getTransactionByHash'')"

datatype rpc_answer = Receipt "rpc_receipt option" | Transaction "rpc_transaction option"

record rpc_request =
  req_key :: string
  req_method :: rpc_method
  req_hash :: string
  req_id :: int

definition rpc_key :: "rpc_method \<Rightarrow> string \<Rightarrow> string" where
  "rpc_key m h = method_name m @ '':'' @ stringify (JArr [JStr h])"

definition add_request :: "rpc_method \<Rightarrow> evidence \<Rightarrow> rpc_request list \<Rightarrow> rpc_request list" where
  "add_request m d requests =
     (if \<not> truthy (transactionHash d) then requests
      else (let h = js_String (transactionHash d) in
        if rpc_key m h \<in> set (map req_key requests) then requests
        else requests @ [\<lparr>req_key = rpc_key m h, req_method = m, req_hash = h, req_id = 0\<rparr>]))"

definition uniqueRpcRequests :: "evidence list \<Rightarrow> rpc_method \<Rightarrow> rpc_request list" where
  "uniqueRpcRequests ds m = fold (add_request m) ds []"

definition prefetch_requests :: "evidence list \<Rightarrow> rpc_request list" where
  "prefetch_requests ds =
     (let atomic = concat (map atomicEvidence ds);
          receipts = uniqueRpcRequests atomic GetReceipt;
          transactions = uniqueRpcRequests (filter (\<lambda>e. evidenceType e = NATIVE_FUNDING) atomic) GetTransaction
      in map (\<lambda>(index, r). r\<lparr>req_id := int index + 1\<rparr>) (enumerate 0 (receipts @ transactions)))"

text \<open>\<open>slice(index, index + size)\<close> for every \<open>size\<close>-th index.\<close>

fun chunks_of :: "nat \<Rightarrow> 'a list \<Rightarrow> 'a list list" where
  "chunks_of n [] = []"
| "chunks_of n (x # xs) = (x # take (n - 1) xs) # chunks_of n (drop (n - 1) xs)"

type_synonym rpc_cache = "(string \<times> rpc_answer) list"
type_synonym batch_node = "rpc_request list \<Rightarrow> (int \<times> rpc_answer option) list res"

text \<open>An answer that is missing or an error is not cached: the single call will ask again.\<close>

definition cache_chunk :: "(int \<times> rpc_answer option) list \<Rightarrow> rpc_request list \<Rightarrow> rpc_cache \<Rightarrow> rpc_cache" where
  "cache_chunk responses chunk cache =
     fold (\<lambda>request c. case map_of responses (req_id request) of
         Some (Some answer) \<Rightarrow> AList.update (req_key request) answer c | _ \<Rightarrow> c) chunk cache"

definition prefetchDependencies :: "evidence list \<Rightarrow> int \<Rightarrow> batch_node \<Rightarrow> rpc_cache res" where
  "prefetchDependencies ds batchSize batch =
     res_bind (require (isSafeInteger batchSize \<and> 1 \<le> batchSize \<and> batchSize \<le> 100)
       ''LOOP_RPC_BATCH_SIZE must be an integer from 1 to 100'') (\<lambda>_.
     res_fold (\<lambda>chunk cache. res_bind (batch chunk) (\<lambda>responses. Inr (cache_chunk responses chunk cache)))
       (chunks_of (nat batchSize) (prefetch_requests ds)) [])"

text \<open>\<open>callRpc\<close>: what the cache holds is not asked again.\<close>

definition cached_api :: "rpc_cache \<Rightarrow> rpc_api \<Rightarrow> rpc_api" where
  "cached_api cache api = api
     \<lparr>getTransactionReceipt := (\<lambda>h. case map_of cache (rpc_key GetReceipt h) of
          Some (Receipt r) \<Rightarrow> Inr r | _ \<Rightarrow> getTransactionReceipt api h),
      getTransactionByHash := (\<lambda>h. case map_of cache (rpc_key GetTransaction h) of
          Some (Transaction t) \<Rightarrow> Inr t | _ \<Rightarrow> getTransactionByHash api h)\<rparr>"

section \<open>A claim\<close>

text \<open>The entry of a dependency: resolved, or rejected with the reason; a transport error is thrown on.\<close>

definition authenticate_entry :: "proof_bundle \<Rightarrow> rpc_api \<Rightarrow> evidence \<Rightarrow> (rejected_alternative + evidence) res" where
  "authenticate_entry b callRpc d =
     (case resolveDependency (bundle_period b) (bundle_contracts b) callRpc d of
        Inr r \<Rightarrow> Inr (Inr r)
      | Inl (RpcTransportError m) \<Rightarrow> Inl (RpcTransportError m)
      | Inl e \<Rightarrow> Inr (Inl (RejectedEvidence (evidenceType d) (dependencyId d) (error_message e))))"

definition ledger_block :: "proof_bundle \<Rightarrow> string" where
  "ledger_block b = ''0x'' @ show_hex (endBlockExclusive (bundle_period b) - 1)"

definition ledger_call :: "string \<Rightarrow> string" where
  "ledger_call buyerAddress = BUYERS_SELECTOR @ padStart 64 (CHR ''0'') (drop 2 buyerAddress)"

definition load_balance :: "claim \<Rightarrow> proof_bundle \<Rightarrow> rpc_api \<Rightarrow> string \<Rightarrow> balances \<Rightarrow> balances res" where
  "load_balance c b callRpc buyerAddress loaded =
     res_bind (ethCall callRpc (deposits (bundle_contracts b)) (ledger_call buyerAddress) (ledger_block b)) (\<lambda>result.
     res_bind (case result of
         None \<Rightarrow> Inl (Error (claim_name c @ '': invalid period-end ledger response for '' @ buyerAddress))
       | Some txt \<Rightarrow>
           if length txt < 66
           then Inl (Error (claim_name c @ '': invalid period-end ledger response for '' @ buyerAddress))
           else js_BigInt (''0x'' @ slice 2 66 txt)) (\<lambda>balance.
     Inr (AList.update buyerAddress balance loaded)))"

definition loadClaimLedgerBalances :: "claim \<Rightarrow> proof_bundle \<Rightarrow> rpc_api \<Rightarrow> balances res" where
  "loadClaimLedgerBalances c b callRpc = res_fold (load_balance c b callRpc) (approvedBuyers c) []"

record authenticated =
  auth_resolved :: "evidence list"
  auth_rejected :: "rejected_alternative list"
  auth_balances :: "balances option"

definition authenticateClaim :: "claim \<Rightarrow> proof_bundle \<Rightarrow> int \<Rightarrow> batch_node \<Rightarrow> rpc_api \<Rightarrow> authenticated res" where
  "authenticateClaim c b batchSize batch api =
     res_bind (prefetchDependencies (dependencies c) batchSize batch) (\<lambda>cache.
     let callRpc = cached_api cache api in
     res_bind (res_map (authenticate_entry b callRpc) (dependencies c)) (\<lambda>entries.
     res_bind (if claim_type c = ''P0_CLOSED_LOOP''
         then res_bind (loadClaimLedgerBalances c b callRpc) (\<lambda>bs. Inr (Some bs)) else Inr None) (\<lambda>bs.
     Inr \<lparr>auth_resolved = map projr (filter (\<lambda>e. \<not> isl e) entries),
          auth_rejected = map projl (filter isl entries), auth_balances = bs\<rparr>)))"

section \<open>Lemmas\<close>

lemma chunks_concat [simp]: "concat (chunks_of n xs) = xs"
  by (induction n xs rule: chunks_of.induct) simp_all

lemma chunks_bound: "0 < n \<Longrightarrow> chunk \<in> set (chunks_of n xs) \<Longrightarrow> chunk \<noteq> [] \<and> length chunk \<le> n"
  by (induction n xs rule: chunks_of.induct) auto

lemma chunks_subset: "chunk \<in> set (chunks_of n xs) \<Longrightarrow> set chunk \<subseteq> set xs"
  by (metis chunks_concat UN_upper set_concat)

lemma rpc_key_inject: "rpc_key m h = rpc_key m' h' \<longleftrightarrow> m = m' \<and> h = h'"
proof -
  have str: "stringify (JArr [JStr h]) = ''['' @ quote h @ '']''" for h by simp
  show ?thesis
    unfolding rpc_key_def str by (cases m; cases m') (simp_all add: method_name_def)
qed

definition keyed :: "rpc_request \<Rightarrow> bool" where
  "keyed r \<longleftrightarrow> req_key r = rpc_key (req_method r) (req_hash r)"

lemma uniqueRpcRequests_key: "\<forall>r\<in>set (uniqueRpcRequests ds m). keyed r"
  unfolding uniqueRpcRequests_def
  by (rule fold_invariant [where Q = "\<lambda>_. True"]) (auto simp: add_request_def Let_def keyed_def)

lemma prefetch_requests_key:
  assumes "r \<in> set (prefetch_requests ds)"
  shows "keyed r"
proof -
  let ?atomic = "concat (map atomicEvidence ds)"
  define rs where "rs = uniqueRpcRequests ?atomic GetReceipt
    @ uniqueRpcRequests (filter (\<lambda>e. evidenceType e = NATIVE_FUNDING) ?atomic) GetTransaction"
  have "prefetch_requests ds = map (\<lambda>(index, r). r\<lparr>req_id := int index + 1\<rparr>) (enumerate 0 rs)"
    by (simp add: prefetch_requests_def rs_def Let_def)
  with assms obtain i q where q: "(i, q) \<in> set (enumerate 0 rs)" "r = q\<lparr>req_id := int i + 1\<rparr>" by auto
  then have "i < length rs" "rs ! i = q" by (simp_all add: in_set_enumerate_eq)
  then have "q \<in> set rs" using nth_mem [of i rs] by simp
  then have "keyed q" using uniqueRpcRequests_key by (auto simp: rs_def)
  with q(2) show ?thesis by (simp add: keyed_def)
qed

text \<open>The answer of the node to a single call, as a batch would give it.\<close>

definition answers :: "rpc_api \<Rightarrow> rpc_request \<Rightarrow> rpc_answer \<Rightarrow> bool" where
  "answers api r a = (case a of
      Receipt x \<Rightarrow> req_method r = GetReceipt \<and> getTransactionReceipt api (req_hash r) = Inr x
    | Transaction x \<Rightarrow> req_method r = GetTransaction \<and> getTransactionByHash api (req_hash r) = Inr x)"

definition sound_cache :: "rpc_api \<Rightarrow> rpc_cache \<Rightarrow> bool" where
  "sound_cache api cache \<longleftrightarrow> (\<forall>k a. map_of cache k = Some a \<longrightarrow>
     (\<exists>r. k = rpc_key (req_method r) (req_hash r) \<and> answers api r a))"

lemma sound_cache_update:
  "sound_cache api c \<Longrightarrow> keyed r \<Longrightarrow> answers api r a \<Longrightarrow> sound_cache api (AList.update (req_key r) a c)"
  by (auto simp: sound_cache_def keyed_def update_conv split: if_splits)

lemma sound_cache_chunk:
  assumes "sound_cache api c" "\<forall>r\<in>set chunk. keyed r"
    and "\<forall>r\<in>set chunk. \<forall>a. map_of responses (req_id r) = Some (Some a) \<longrightarrow> answers api r a"
  shows "sound_cache api (cache_chunk responses chunk c)"
  unfolding cache_chunk_def
  by (rule fold_invariant [where Q = "\<lambda>r. r \<in> set chunk"])
    (use assms sound_cache_update in \<open>auto split: option.splits\<close>)

lemma prefetch_sound:
  assumes "prefetchDependencies ds n batch = Inr cache"
    and "\<forall>chunk\<in>set (chunks_of (nat n) (prefetch_requests ds)). \<forall>responses. batch chunk = Inr responses \<longrightarrow>
      (\<forall>r\<in>set chunk. \<forall>a. map_of responses (req_id r) = Some (Some a) \<longrightarrow> answers api r a)"
  shows "sound_cache api cache"
proof -
  have "res_fold (\<lambda>chunk cache. res_bind (batch chunk) (\<lambda>responses. Inr (cache_chunk responses chunk cache)))
     (chunks_of (nat n) (prefetch_requests ds)) [] = Inr cache"
    using assms(1) by (auto simp: prefetchDependencies_def res_bind_Inr)
  then show ?thesis
  proof (rule res_fold_invariant)
    show "sound_cache api []" by (simp add: sound_cache_def)
    fix chunk s t
    assume chunk: "chunk \<in> set (chunks_of (nat n) (prefetch_requests ds))" and s: "sound_cache api s"
      and "res_bind (batch chunk) (\<lambda>responses. Inr (cache_chunk responses chunk s)) = Inr t"
    then obtain responses where "batch chunk = Inr responses" "t = cache_chunk responses chunk s"
      by (auto simp: res_bind_Inr)
    then show "sound_cache api t"
      using assms(2) s chunk chunks_subset [OF chunk] prefetch_requests_key by (auto intro!: sound_cache_chunk)
  qed
qed

lemma cached_api_sound: "sound_cache api cache \<Longrightarrow> cached_api cache api = api"
proof -
  assume sound: "sound_cache api cache"
  have hit: "\<exists>r. rpc_key m h = rpc_key (req_method r) (req_hash r) \<and> answers api r a"
    if "map_of cache (rpc_key m h) = Some a" for m h a
    using sound that by (auto simp: sound_cache_def)
  have "(\<lambda>h. case map_of cache (rpc_key GetReceipt h) of Some (Receipt r) \<Rightarrow> Inr r | _ \<Rightarrow> getTransactionReceipt api h)
      = getTransactionReceipt api"
    by (rule ext) (auto split: option.splits rpc_answer.splits dest!: hit simp: rpc_key_inject answers_def)
  moreover have "(\<lambda>h. case map_of cache (rpc_key GetTransaction h) of Some (Transaction t) \<Rightarrow> Inr t | _ \<Rightarrow> getTransactionByHash api h)
      = getTransactionByHash api"
    by (rule ext) (auto split: option.splits rpc_answer.splits dest!: hit simp: rpc_key_inject answers_def)
  ultimately show ?thesis by (simp add: cached_api_def)
qed

lemma authenticate_entry_Inr:
  "authenticate_entry b api d = Inr e \<longleftrightarrow>
     (case resolveDependency (bundle_period b) (bundle_contracts b) api d of
        Inr r \<Rightarrow> e = Inr r
      | Inl err \<Rightarrow> (\<forall>m. err \<noteq> RpcTransportError m)
          \<and> e = Inl (RejectedEvidence (evidenceType d) (dependencyId d) (error_message err)))"
  by (auto simp: authenticate_entry_def split: sum.splits js_error.splits)

section \<open>Properties\<close>

text \<open>C14: Authenticating a claim with prefetched answers gives what single calls give, when the node
  answers a request in a batch as it answers it alone: each dependency is either resolved, or
  rejected with the reason, in the order of the claim; no dependency is lost, and none is
  rejected because of a transport error.\<close>

theorem authentication_complete:
  assumes "authenticateClaim c b n batch api = Inr auth"
    and "\<forall>chunk\<in>set (chunks_of (nat n) (prefetch_requests (dependencies c))). \<forall>responses.
      batch chunk = Inr responses \<longrightarrow>
      (\<forall>r\<in>set chunk. \<forall>a. map_of responses (req_id r) = Some (Some a) \<longrightarrow> answers api r a)"
  shows "let outcome = resolveDependency (bundle_period b) (bundle_contracts b) api
     in auth_resolved auth = map (\<lambda>d. projr (outcome d)) (filter (\<lambda>d. \<not> isl (outcome d)) (dependencies c))
      \<and> auth_rejected auth = map (\<lambda>d. RejectedEvidence (evidenceType d) (dependencyId d) (error_message (projl (outcome d))))
           (filter (\<lambda>d. isl (outcome d)) (dependencies c))
      \<and> (\<forall>d\<in>set (dependencies c). \<forall>m. outcome d \<noteq> Inl (RpcTransportError m))"
proof -
  let ?out = "resolveDependency (bundle_period b) (bundle_contracts b) api"
  obtain cache entries where cache: "prefetchDependencies (dependencies c) n batch = Inr cache"
    and entries: "res_map (authenticate_entry b (cached_api cache api)) (dependencies c) = Inr entries"
    and auth: "auth_resolved auth = map projr (filter (\<lambda>e. \<not> isl e) entries)"
      "auth_rejected auth = map projl (filter isl entries)"
    using assms(1) by (auto simp: authenticateClaim_def Let_def res_bind_Inr)
  have api: "cached_api cache api = api"
    by (rule cached_api_sound [OF prefetch_sound [OF cache assms(2)]])
  have "list_all2 (\<lambda>d e. authenticate_entry b api d = Inr e) (dependencies c) entries"
    using entries unfolding api res_map_Inr_iff .
  then have "map projr (filter (\<lambda>e. \<not> isl e) entries) = map (\<lambda>d. projr (?out d)) (filter (\<lambda>d. \<not> isl (?out d)) (dependencies c))
    \<and> map projl (filter isl entries) = map (\<lambda>d. RejectedEvidence (evidenceType d) (dependencyId d) (error_message (projl (?out d))))
         (filter (\<lambda>d. isl (?out d)) (dependencies c))
    \<and> (\<forall>d\<in>set (dependencies c). \<forall>m. ?out d \<noteq> Inl (RpcTransportError m))"
    by (induction rule: list_all2_induct) (auto simp: authenticate_entry_Inr split: sum.splits)
  then show ?thesis unfolding auth Let_def .
qed

section \<open>Witness\<close>

definition ex_auth_claim :: claim where
  "ex_auth_claim = ex_claim\<lparr>claim_type := ''P0_RECIPROCAL'',
     dependencies := [of_transfer ex_settled, of_transfer (ex_settled\<lparr>transactionHash := Some ''0x2''\<rparr>)]\<rparr>"

text \<open>A node that answers a batch with the receipts of the single calls.\<close>

definition ex_batch :: batch_node where
  "ex_batch rs = Inr (map (\<lambda>r. (req_id r,
     case getTransactionReceipt ex_api (req_hash r) of Inr x \<Rightarrow> Some (Receipt x) | Inl e \<Rightarrow> None)) rs)"

definition ex_requests :: "rpc_request list" where
  "ex_requests = [\<lparr>req_key = rpc_key GetReceipt ''0x1'', req_method = GetReceipt, req_hash = ''0x1'', req_id = 1\<rparr>,
     \<lparr>req_key = rpc_key GetReceipt ''0x2'', req_method = GetReceipt, req_hash = ''0x2'', req_id = 2\<rparr>]"

lemma ex_chunks: "chunks_of (nat 2) (prefetch_requests (dependencies ex_auth_claim)) = [ex_requests]"
  by code_simp

lemma ex_authenticated:
  "case authenticateClaim ex_auth_claim ex_bundle 2 ex_batch ex_api of
     Inr auth \<Rightarrow> length (auth_resolved auth) = 1 \<and> length (auth_rejected auth) = 1 | Inl e \<Rightarrow> False"
  by code_simp

theorem authentication_complete_witness:
  "\<exists>auth. authenticateClaim ex_auth_claim ex_bundle 2 ex_batch ex_api = Inr auth
     \<and> (\<forall>d\<in>set (dependencies ex_auth_claim). \<forall>m.
          resolveDependency (bundle_period ex_bundle) (bundle_contracts ex_bundle) ex_api d \<noteq> Inl (RpcTransportError m))"
proof -
  obtain auth where a: "authenticateClaim ex_auth_claim ex_bundle 2 ex_batch ex_api = Inr auth"
    using ex_authenticated by (auto split: sum.splits)
  have "\<forall>chunk\<in>set (chunks_of (nat 2) (prefetch_requests (dependencies ex_auth_claim))). \<forall>responses.
      ex_batch chunk = Inr responses \<longrightarrow>
      (\<forall>r\<in>set chunk. \<forall>a. map_of responses (req_id r) = Some (Some a) \<longrightarrow> answers ex_api r a)"
    unfolding ex_chunks by (auto simp: ex_requests_def ex_batch_def answers_def split: sum.splits)
  from authentication_complete [OF a this] a show ?thesis unfolding Let_def by blast
qed

end
