(* ===== verification/Concurrency.thy ===== *)
theory Concurrency
  imports Prelude
begin

text \<open>
  \<open>mapConcurrent(values, concurrency, mapper)\<close>, which the scripts use for every batch of
  asynchronous work (\<open>scripts/proof-planner.mjs\<close>, \<open>scripts/return-path-selection.mjs\<close>):
  \<open>min(concurrency, length)\<close> workers share a cursor; a worker takes the next index, runs
  the mapper and stores the result at its index. The interleaving of the workers is a step
  relation: \<open>claim_index\<close> is a worker taking an index, \<open>finish_index\<close> a call of the
  mapper completing, in any order.
\<close>

record 'b pool =
  cursor :: nat
  running :: "nat list"
  results :: "'b option list"

definition pool_start :: "'a list \<Rightarrow> 'b pool" where
  "pool_start xs = \<lparr>cursor = 0, running = [], results = replicate (length xs) None\<rparr>"

inductive pool_step :: "('a \<Rightarrow> 'b) \<Rightarrow> 'a list \<Rightarrow> nat \<Rightarrow> 'b pool \<Rightarrow> 'b pool \<Rightarrow> bool"
  for f :: "'a \<Rightarrow> 'b" and xs :: "'a list" and concurrency :: nat where
  claim_index: "cursor p < length xs \<Longrightarrow> length (running p) < min concurrency (length xs) \<Longrightarrow>
     pool_step f xs concurrency p (p\<lparr>cursor := Suc (cursor p), running := running p @ [cursor p]\<rparr>)"
| finish_index: "i \<in> set (running p) \<Longrightarrow>
     pool_step f xs concurrency p (p\<lparr>running := remove1 i (running p), results := (results p)[i := Some (f (xs ! i))]\<rparr>)"

inductive_cases pool_stepE: "pool_step f xs concurrency p q"

text \<open>Every worker has left its loop.\<close>

definition pool_done :: "'a list \<Rightarrow> 'b pool \<Rightarrow> bool" where
  "pool_done xs p \<longleftrightarrow> cursor p = length xs \<and> running p = []"

text \<open>What is before the cursor is being worked on or has its result.\<close>

definition pool_inv :: "('a \<Rightarrow> 'b) \<Rightarrow> 'a list \<Rightarrow> nat \<Rightarrow> 'b pool \<Rightarrow> bool" where
  "pool_inv f xs concurrency p \<longleftrightarrow>
     cursor p \<le> length xs \<and> length (results p) = length xs
   \<and> distinct (running p) \<and> (\<forall>i\<in>set (running p). i < cursor p)
   \<and> length (running p) \<le> concurrency
   \<and> (\<forall>i<cursor p. i \<notin> set (running p) \<longrightarrow> results p ! i = Some (f (xs ! i)))"

lemma pool_inv_start: "pool_inv f xs concurrency (pool_start xs)"
  by (simp add: pool_inv_def pool_start_def)

lemma pool_inv_step:
  assumes "pool_step f xs concurrency p q" "pool_inv f xs concurrency p"
  shows "pool_inv f xs concurrency q"
  using assms
proof (cases rule: pool_step.cases)
  case claim_index
  then show ?thesis using assms(2) by (auto simp: pool_inv_def less_Suc_eq)
next
  case (finish_index i)
  then have "i < length (results p)" using assms(2) by (auto simp: pool_inv_def)
  then show ?thesis
    using finish_index assms(2)
    by (auto simp: pool_inv_def nth_list_update length_remove1 intro: order_trans)
qed

lemma pool_inv_reachable:
  "(pool_step f xs concurrency)\<^sup>*\<^sup>* p q \<Longrightarrow> pool_inv f xs concurrency p \<Longrightarrow> pool_inv f xs concurrency q"
  by (induction rule: rtranclp_induct) (auto intro: pool_inv_step)

definition pool_measure :: "'a list \<Rightarrow> 'b pool \<Rightarrow> nat" where
  "pool_measure xs p = 2 * (length xs - cursor p) + length (running p)"

lemma pool_step_measure: "pool_step f xs concurrency p q \<Longrightarrow> pool_measure xs q < pool_measure xs p"
  by (erule pool_stepE) (auto simp: pool_measure_def length_remove1 dest: length_pos_if_in_set)


text \<open>With at least one worker \<open>mapConcurrent\<close> cannot get stuck and cannot run forever: a state that
  is not done has a next step, and every step decreases a bound.\<close>

theorem mapConcurrent_ends:
  assumes "0 < concurrency" and "(pool_step f xs concurrency)\<^sup>*\<^sup>* (pool_start xs) p"
  shows "(pool_done xs p \<or> (\<exists>q. pool_step f xs concurrency p q))
     \<and> (\<forall>q. pool_step f xs concurrency p q \<longrightarrow> pool_measure xs q < pool_measure xs p)"
proof -
  have inv: "pool_inv f xs concurrency p"
    by (rule pool_inv_reachable [OF assms(2) pool_inv_start])
  have "\<exists>q. pool_step f xs concurrency p q" if "\<not> pool_done xs p"
  proof (cases "running p")
    case Nil
    with that inv have "cursor p < length xs" by (auto simp: pool_done_def pool_inv_def)
    then have "pool_step f xs concurrency p (p\<lparr>cursor := Suc (cursor p), running := running p @ [cursor p]\<rparr>)"
      by (rule pool_step.claim_index) (use Nil assms(1) \<open>cursor p < length xs\<close> in auto)
    then show ?thesis by blast
  next
    case (Cons i rest)
    then have "i \<in> set (running p)" by simp
    from pool_step.finish_index [OF this] show ?thesis by blast
  qed
  with pool_step_measure show ?thesis by blast
qed

section \<open>Witnesses\<close>


theorem mapConcurrent_ends_witness:
  "\<exists>q. pool_step Suc [1, 2] 2 (pool_start [1, 2]) q"
  using mapConcurrent_ends [of 2 Suc "[1, 2]" "pool_start [1, 2]"] by (simp add: pool_done_def pool_start_def)

end
