(* ===== verification/Plan_Bundle.thy ===== *)
theory Plan_Bundle
  imports Planner Claim_Authentication Concurrency
begin

text \<open>
  The whole planning of a bundle in \<open>scripts/proof-planner.mjs\<close>: settling the closed loops
  on the evidence that authenticates (\<open>finalizeLedgerAwareBundle\<close>), planning each claim and
  attaching its Merkle memberships (\<open>planProofBundle\<close>, \<open>attachMemberships\<close>), the
  checkpoints of both, and the plan file (\<open>planFile\<close>, \<open>writePlanFile\<close>). Directories are
  functions from a claim id to the parsed checkpoint that is there; progress messages are left
  out. Calls in flight at the same time are taken in order (theory \<open>Concurrency\<close>).
\<close>

section \<open>Helpers\<close>

definition validateBundle :: "proof_bundle \<Rightarrow> unit res" where
  "validateBundle b = require (bundle_version b = 1 \<and> chainId b = 8453) ''unsupported proof bundle''"

definition claimAuthenticationKey :: "claim \<Rightarrow> string" where
  "claimAuthenticationKey c = claim_type c @ '':'' @ js_join '':'' (subjects c)"

definition without_id :: "'a transfer_scheme \<Rightarrow> 'a transfer_scheme" where
  "without_id t = t\<lparr>dependencyId := None\<rparr>"

definition stripDependencyId :: "evidence \<Rightarrow> evidence" where
  "stripDependencyId d =
     (let result = without_id d in
      if evidenceType d \<noteq> RELAY_PATH then result
      else (case hops d of
          Some hs \<Rightarrow> result\<lparr>hops := Some (map without_id hs)\<rparr>
        | None \<Rightarrow> result\<lparr>sellerPayment := map_option without_id (sellerPayment d),
            relayForward := map_option without_id (relayForward d),
            funderReceipt := map_option without_id (funderReceipt d)\<rparr>))"

definition rejection_type :: "rejected_alternative \<Rightarrow> ev_type" where
  "rejection_type r = (case r of RejectedEvidence t i reason \<Rightarrow> t | RejectedStrategy s k reason \<Rightarrow> UNTYPED)"

definition rejection_reason :: "rejected_alternative \<Rightarrow> string" where
  "rejection_reason r = (case r of RejectedEvidence t i reason \<Rightarrow> reason | RejectedStrategy s k reason \<Rightarrow> reason)"

definition rejectionCounts :: "rejected_alternative list \<Rightarrow> string" where
  "rejectionCounts rs = stringify (JObj (map (\<lambda>(reason, values). (reason, JNum (int (length values))))
     (groupBy rejection_reason rs)))"

definition required_rejections :: "rejected_alternative list \<Rightarrow> rejected_alternative list" where
  "required_rejections rs = filter (\<lambda>r. rejection_type r = TOTAL_SETTLEMENT) rs"

section \<open>Memberships\<close>

record attached_evidence =
  ae_entry :: evidence
  dependencyLeaf :: string
  dependencyMembership :: "membership_step list"

record attached_plan =
  ap_plan :: plan
  claimLeaf :: string
  claimMembership :: "membership_step list"
  attachedEvidence :: "attached_evidence list"
  allRejected :: "rejected_alternative list"

definition attach_entry ::
  "(string \<Rightarrow> string) \<Rightarrow> claim \<Rightarrow> evidence \<Rightarrow> attached_evidence res" where
  "attach_entry sha256 c entry =
     (case map_of (map_from (map (\<lambda>e. (dependencyId e, e)) (dependencies c))) (dependencyId entry) of
        None \<Rightarrow> Inl (Error (claim_name c @ '': selected evidence lacks a report dependency''))
      | Some original \<Rightarrow>
          res_bind (merkleMembershipIndex sha256 (map dep_id (dependencies c)) (dep_id entry)) (\<lambda>steps.
          Inr \<lparr>ae_entry = entry, dependencyLeaf = canonicalJson (evidence_json (original\<lparr>dependencyId := None\<rparr>)),
               dependencyMembership = steps\<rparr>))"

definition attachMemberships ::
  "(string \<Rightarrow> string) \<Rightarrow> plan \<Rightarrow> rejected_alternative list \<Rightarrow> claim \<Rightarrow> claim list \<Rightarrow> attached_plan res" where
  "attachMemberships sha256 pl rejected c allClaims =
     res_bind (merkleMembership sha256 (map leaf_hash allClaims) (leaf_hash c)) (\<lambda>membership.
     res_bind (res_map (attach_entry sha256 c) (selectedEvidence pl)) (\<lambda>entries.
     Inr \<lparr>ap_plan = pl, claimLeaf = canonicalJson (claim_json (c\<lparr>leafHash := None\<rparr>)),
          claimMembership = membership, attachedEvidence = entries, allRejected = rejected\<rparr>))"

section \<open>Checkpoints\<close>

text \<open>The file of a claim: none (\<open>ENOENT\<close>), the parsed checkpoint, or an error.\<close>

record claim_checkpoint = checkpoint_policy +
  sourceClaimId :: "string option"
  cp_period :: period
  cp_contracts :: contracts
  finalizedClaim :: claim

definition period_json :: "period \<Rightarrow> json" where
  "period_json p = JObj [(''startBlock'', JNum (startBlock p)), (''endBlockExclusive'', JNum (endBlockExclusive p))]"

definition contracts_json :: "contracts \<Rightarrow> json" where
  "contracts_json cs = JObj [(''channels'', JStr (channels cs)), (''usdc'', JStr (usdc_address cs)),
     (''deposits'', JStr (deposits cs))]"

definition readClaimCheckpoint ::
  "(string \<Rightarrow> string) \<Rightarrow> claim_checkpoint option res \<Rightarrow> claim \<Rightarrow> proof_bundle \<Rightarrow> claim option res" where
  "readClaimCheckpoint sha256 contents c b = res_bind contents (\<lambda>checkpoint.
     case checkpoint of None \<Rightarrow> Inr None
     | Some cp \<Rightarrow>
         if \<not> isCurrentPolicyCheckpoint sha256 checkpoint \<or> sourceClaimId cp \<noteq> claimId c
           \<or> canonicalJson (period_json (cp_period cp)) \<noteq> canonicalJson (period_json (bundle_period b))
           \<or> canonicalJson (contracts_json (cp_contracts cp)) \<noteq> canonicalJson (contracts_json (bundle_contracts b))
         then Inr None else Inr (Some (finalizedClaim cp)))"

definition writeClaimCheckpoint ::
  "(string \<Rightarrow> string) \<Rightarrow> claim \<Rightarrow> claim \<Rightarrow> proof_bundle \<Rightarrow> claim_checkpoint" where
  "writeClaimCheckpoint sha256 source final b =
     \<lparr>checkpoint_version = Some 3, predicatePolicyHash = Some (PREDICATE_POLICY_HASH sha256),
      sourceClaimId = claimId source, cp_period = bundle_period b, cp_contracts = bundle_contracts b,
      finalizedClaim = final\<rparr>"

record plan_checkpoint = checkpoint_policy +
  pc_claimId :: "string option"
  pc_reportRoot :: "string option"
  pc_plan :: attached_plan

definition readPlanCheckpoint ::
  "(string \<Rightarrow> string) \<Rightarrow> plan_checkpoint option res \<Rightarrow> claim \<Rightarrow> proof_bundle \<Rightarrow> attached_plan option res" where
  "readPlanCheckpoint sha256 contents c b = res_bind contents (\<lambda>checkpoint.
     case checkpoint of None \<Rightarrow> Inr None
     | Some cp \<Rightarrow>
         if \<not> isCurrentPolicyCheckpoint sha256 checkpoint \<or> pc_claimId cp \<noteq> claimId c \<or> pc_reportRoot cp \<noteq> reportRoot b
         then Inr None else Inr (Some (pc_plan cp)))"

definition writePlanCheckpoint ::
  "(string \<Rightarrow> string) \<Rightarrow> claim \<Rightarrow> attached_plan \<Rightarrow> proof_bundle \<Rightarrow> plan_checkpoint" where
  "writePlanCheckpoint sha256 c pl b =
     \<lparr>checkpoint_version = Some 3, predicatePolicyHash = Some (PREDICATE_POLICY_HASH sha256),
      pc_claimId = claimId c, pc_reportRoot = reportRoot b, pc_plan = pl\<rparr>"

section \<open>Settling the closed loops\<close>

type_synonym authentications = "(string \<times> authenticated) list"

definition settled_metrics :: "claim \<Rightarrow> evidence list \<Rightarrow> string list \<Rightarrow> metrics" where
  "settled_metrics c ss buyers =
     (case claim_metrics c of Some m \<Rightarrow> m
      | None \<Rightarrow> \<lparr>qualifiedVolumeRaw = None, qualifiedBuyerCount = None, volumeAToBRaw = None,
          volumeBToARaw = None, otherMetrics = []\<rparr>)
     \<lparr>qualifiedVolumeRaw := Some (sumRaw ss), qualifiedBuyerCount := Some (int (length buyers))\<rparr>"

text \<open>The claim as it is settled on a plan: its buyers, its volume, its dependencies.\<close>

definition settled_claim :: "(string \<Rightarrow> string) \<Rightarrow> claim \<Rightarrow> plan \<Rightarrow> claim" where
  "settled_claim sha256 c pl =
     (let ss = filter (\<lambda>e. evidenceType e = SETTLEMENT) (selectedEvidence pl);
          buyers = sort_strings (js_set (map buyer_of ss))
      in finalizeClaim sha256 (c\<lparr>claimId := None, leafHash := None, dependencyRoot := None,
           approvedBuyers := buyers, claim_metrics := Some (settled_metrics c ss buyers),
           dependencies := map stripDependencyId (selectedEvidence pl)\<rparr>))"

record ledger_env =
  env_batchSize :: int
  env_batch :: batch_node
  env_api :: rpc_api
  env_checkpoint :: "claim \<Rightarrow> claim_checkpoint option res"

definition settle_claim ::
  "(string \<Rightarrow> string) \<Rightarrow> ledger_env \<Rightarrow> proof_bundle \<Rightarrow> claim \<Rightarrow> (claim \<times> authenticated) res" where
  "settle_claim sha256 env b c =
     res_bind (readClaimCheckpoint sha256 (env_checkpoint env c) c b) (\<lambda>checkpoint.
     case checkpoint of
       Some final \<Rightarrow> Inr (final, \<lparr>auth_resolved = dependencies final, auth_rejected = [], auth_balances = None\<rparr>)
     | None \<Rightarrow>
         res_bind (authenticateClaim c b (env_batchSize env) (env_batch env) (env_api env)) (\<lambda>auth.
         res_bind (require (required_rejections (auth_rejected auth) = [])
           (claim_name c @ '': incomplete total-settlement authentication during ledger finalization'')) (\<lambda>_.
         res_bind (planClaim c (auth_resolved auth) b (auth_balances auth) True ALPHA_RETURN_BPS False) (\<lambda>planned.
         let final = settled_claim sha256 c planned in
         Inr (final, auth\<lparr>auth_resolved := dependencies final\<rparr>)))))"

definition ledger_step ::
  "(string \<Rightarrow> string) \<Rightarrow> ledger_env \<Rightarrow> proof_bundle \<Rightarrow> claim \<Rightarrow> claim list \<times> authentications
    \<Rightarrow> (claim list \<times> authentications) res" where
  "ledger_step sha256 env b c st = (case st of (cs, auths) \<Rightarrow>
     if claim_type c \<noteq> ''P0_CLOSED_LOOP'' then Inr (cs @ [c], auths)
     else res_bind (settle_claim sha256 env b c) (\<lambda>(final, auth).
       Inr (cs @ [final], AList.update (claimAuthenticationKey final) auth auths)))"

definition finalizeLedgerAwareBundle ::
  "(string \<Rightarrow> string) \<Rightarrow> ledger_env \<Rightarrow> proof_bundle \<Rightarrow> (proof_bundle \<times> authentications) res" where
  "finalizeLedgerAwareBundle sha256 env b =
     res_bind (res_fold (ledger_step sha256 env b) (claims b) ([], [])) (\<lambda>(cs, auths).
     Inr (finalizeBundle sha256 (b\<lparr>claims := cs\<rparr>), auths))"

section \<open>Planning the bundle\<close>

record plan_env = ledger_env +
  env_claimIds :: "string list option"
  env_planCheckpoint :: "claim \<Rightarrow> plan_checkpoint option res"
  env_finalizeLedger :: bool

definition plan_rejected :: "plan \<Rightarrow> rejected_alternative list" where
  "plan_rejected pl = (case details pl of Cohort d \<Rightarrow> rejectedAlternatives d | Reciprocal d \<Rightarrow> [])"

text \<open>An error while planning is thrown again with the counts of the authentication.\<close>

definition planning_error :: "authenticated \<Rightarrow> js_error \<Rightarrow> js_error" where
  "planning_error auth e = Error (error_message e @ ''; authenticated='' @ show_nat (length (auth_resolved auth))
     @ ''; rejected='' @ show_nat (length (auth_rejected auth)) @ ''; rejectionCounts='' @ rejectionCounts (auth_rejected auth))"

definition plan_authenticated ::
  "(string \<Rightarrow> string) \<Rightarrow> proof_bundle \<Rightarrow> claim \<Rightarrow> authenticated \<Rightarrow> attached_plan res" where
  "plan_authenticated sha256 b c auth =
     (let required = required_rejections (auth_rejected auth) in
      res_bind (require (required = []) (claim_name c @ '': incomplete total-settlement authentication; rejected=''
        @ show_nat (length required) @ ''; rejectionCounts='' @ rejectionCounts required)) (\<lambda>_.
      case planClaim c (auth_resolved auth) b (auth_balances auth) False ALPHA_RETURN_BPS False of
        Inl e \<Rightarrow> Inl (planning_error auth e)
      | Inr planned \<Rightarrow>
          attachMemberships sha256 planned (plan_rejected planned @ auth_rejected auth) c (claims b)))"

definition plan_one ::
  "(string \<Rightarrow> string) \<Rightarrow> 'a plan_env_scheme \<Rightarrow> proof_bundle \<Rightarrow> authentications \<Rightarrow> claim \<Rightarrow> attached_plan res" where
  "plan_one sha256 env b auths c =
     res_bind (readPlanCheckpoint sha256 (env_planCheckpoint env c) c b) (\<lambda>checkpoint.
     case checkpoint of Some pl \<Rightarrow> Inr pl
     | None \<Rightarrow>
         res_bind (case map_of auths (claimAuthenticationKey c) of Some auth \<Rightarrow> Inr auth
           | None \<Rightarrow> authenticateClaim c b (env_batchSize env) (env_batch env) (env_api env))
         (plan_authenticated sha256 b c))"

record plan_file =
  pf_reportRoot :: "string option"
  pf_period :: period
  pf_claims :: "attached_plan list"
  materializationBlockNumbers :: "int list"

definition selected_claims :: "string list option \<Rightarrow> claim list \<Rightarrow> claim list" where
  "selected_claims claimIds cs = (case claimIds of None \<Rightarrow> cs
     | Some ids \<Rightarrow> filter (\<lambda>c. claimId c \<in> Some ` set ids) cs)"

definition plan_claims ::
  "(string \<Rightarrow> string) \<Rightarrow> 'a plan_env_scheme \<Rightarrow> proof_bundle \<Rightarrow> authentications \<Rightarrow> plan_file res" where
  "plan_claims sha256 env b auths =
     (let selected = selected_claims (env_claimIds env) (claims b) in
      res_bind (require (selected \<noteq> []) ''no requested claims found in proof bundle'') (\<lambda>_.
      res_bind (res_map (plan_one sha256 env b auths) selected) (\<lambda>planned.
      Inr \<lparr>pf_reportRoot = reportRoot b, pf_period = bundle_period b, pf_claims = planned,
           materializationBlockNumbers =
             js_sort numberAscending (js_set (concat (map (selectedBlocks \<circ> ap_plan) planned)))\<rparr>)))"

definition planProofBundle ::
  "(string \<Rightarrow> string) \<Rightarrow> plan_env \<Rightarrow> authentications \<Rightarrow> proof_bundle \<Rightarrow> plan_file res" where
  "planProofBundle sha256 env supplied b =
     res_bind (validateBundle b) (\<lambda>_.
     if env_finalizeLedger env
     then res_bind (finalizeLedgerAwareBundle sha256 (ledger_env.truncate env\<lparr>env_checkpoint := (\<lambda>_. Inr None)\<rparr>) b)
       (\<lambda>(b', auths). plan_claims sha256 env b' auths)
     else plan_claims sha256 env b supplied)"

text \<open>\<open>planFile\<close>: the settled bundle, which it writes back, and the plan of it.\<close>

definition planFile :: "(string \<Rightarrow> string) \<Rightarrow> plan_env \<Rightarrow> proof_bundle \<Rightarrow> (proof_bundle \<times> plan_file) res" where
  "planFile sha256 env draft =
     res_bind (finalizeLedgerAwareBundle sha256 (ledger_env.truncate env) draft) (\<lambda>(b, auths).
     res_bind (planProofBundle sha256 (env\<lparr>env_finalizeLedger := False\<rparr>) auths b) (\<lambda>pl. Inr (b, pl)))"

text \<open>\<open>writePlanFile\<close>: the text is written claim by claim.\<close>

fun write_claims :: "string list \<Rightarrow> string" where
  "write_claims [] = []"
| "write_claims [c] = c"
| "write_claims (c # d # rest) = c @ '','' @ write_claims (d # rest)"

definition writePlanFile :: "(string \<times> json) list \<Rightarrow> json list \<Rightarrow> string" where
  "writePlanFile metadata cs =
     butlast (stringify (JObj metadata)) @ '','' @ quote ''claims'' @ '':['' @ write_claims (map stringify cs) @ '']}'' @ [CHR 0x0A]"

section \<open>Lemmas\<close>

lemma period_json_inject: "canonicalJson (period_json p) = canonicalJson (period_json q) \<longleftrightarrow> p = q"
proof -
  have "canonicalJson (period_json p) = ''{'' @ quote ''endBlockExclusive'' @ '':'' @ show_int (endBlockExclusive p)
      @ CHR '','' # quote ''startBlock'' @ '':'' @ show_int (startBlock p) @ ''}''" for p
    by (simp add: period_json_def sort_strings_def)
  then show ?thesis by (cases p; cases q) (auto simp: number_prefix quote_prefix)
qed

lemma contracts_json_inject: "canonicalJson (contracts_json p) = canonicalJson (contracts_json q) \<longleftrightarrow> p = q"
proof -
  have "canonicalJson (contracts_json p) = ''{'' @ quote ''channels'' @ '':'' @ quote (channels p) @ '','' @
      quote ''deposits'' @ '':'' @ quote (deposits p) @ '','' @ quote ''usdc'' @ '':'' @ quote (usdc_address p) @ ''}''" for p
    by (simp add: contracts_json_def sort_strings_def)
  then show ?thesis by (cases p; cases q) (auto simp: quote_prefix)
qed
lemma stripDependencyId_id [simp]: "dependencyId (stripDependencyId d) = None"
  by (simp add: stripDependencyId_def without_id_def Let_def split: option.split)

text \<open>A claim that has not been finalized: no leaf hash, no dependency ids.\<close>

definition clean :: "claim \<Rightarrow> bool" where
  "clean c \<longleftrightarrow> leafHash c = None \<and> (\<forall>d\<in>set (dependencies c). dependencyId d = None)"

lemma claim_json_dependencies [simp]: "claim_json (c\<lparr>dependencies := ds\<rparr>) = claim_json c"
  by (simp add: claim_json_def)

lemma finalizeClaim_leaf:
  assumes "leafHash c0 = None" "c = finalizeClaim H c0"
  shows "hash_text H ''claim-leaf'' (canonicalJson (claim_json (c\<lparr>leafHash := None\<rparr>))) = leaf_hash c"
proof -
  have "\<exists>leaf ds. c = leaf\<lparr>leafHash := Some (hashCanonical H ''claim-leaf'' (claim_json leaf)), dependencies := ds\<rparr>
      \<and> leafHash leaf = None"
    unfolding assms(2) finalizeClaim_def Let_def
    by (intro exI, rule conjI [OF refl]) (simp add: assms(1))
  then obtain leaf ds where leaf: "leafHash leaf = None"
    and c: "c = leaf\<lparr>leafHash := Some (hashCanonical H ''claim-leaf'' (claim_json leaf)), dependencies := ds\<rparr>"
    by blast
  have "c\<lparr>leafHash := None\<rparr> = leaf\<lparr>dependencies := ds\<rparr>"
    using leaf unfolding c by (cases leaf) simp
  moreover have "leaf_hash c = hashCanonical H ''claim-leaf'' (claim_json leaf)"
    unfolding c by (simp add: leaf_hash_def js_String_def)
  ultimately show ?thesis by (simp only: claim_json_dependencies hashCanonical_def)
qed

lemma finalizeClaim_dependency:
  assumes "clean c0" "c = finalizeClaim H c0" "d \<in> set (dependencies c)"
  shows "dependencyId d = Some (hash_text H ''dependency'' (canonicalJson (evidence_json (d\<lparr>dependencyId := None\<rparr>))))"
  using finalize_dependencies_ids [of d H "dependencies c0"] assms
  by (simp add: clean_def hashCanonical_def)

lemma attach_entry_Inr:
  assumes "attach_entry H c entry = Inr ae"
  shows "ae_entry ae = entry \<and> (\<exists>original\<in>set (dependencies c). dependencyId original = dependencyId entry
      \<and> dependencyLeaf ae = canonicalJson (evidence_json (original\<lparr>dependencyId := None\<rparr>)))
    \<and> fold_steps H (dependencyMembership ae) (dep_id entry) = merkleRoot H (map dep_id (dependencies c))"
proof -
  obtain original steps where
    o: "map_of (map_from (map (\<lambda>e. (dependencyId e, e)) (dependencies c))) (dependencyId entry) = Some original"
    and st: "merkleMembership H (map dep_id (dependencies c)) (dep_id entry) = Inr steps"
    and ae: "ae = \<lparr>ae_entry = entry, dependencyLeaf = canonicalJson (evidence_json (original\<lparr>dependencyId := None\<rparr>)),
       dependencyMembership = steps\<rparr>"
    using assms by (auto simp: attach_entry_def merkleMembership_def res_bind_Inr split: option.splits)
  have "original \<in> set (dependencies c) \<and> dependencyId original = dependencyId entry"
    using o by (auto simp: map_of_map_from dest!: map_of_SomeD)
  moreover have "fold_steps H steps (dep_id entry) = merkleRoot H (map dep_id (dependencies c))"
    using membership_root [OF st] .
  ultimately show ?thesis by (auto simp: ae)
qed

lemma attachMemberships_Inr:
  assumes "attachMemberships H pl rejected c cs = Inr ap"
  shows "ap_plan ap = pl \<and> claimLeaf ap = canonicalJson (claim_json (c\<lparr>leafHash := None\<rparr>))
    \<and> fold_steps H (claimMembership ap) (leaf_hash c) = merkleRoot H (map leaf_hash cs)
    \<and> map ae_entry (attachedEvidence ap) = selectedEvidence pl
    \<and> (\<forall>ae\<in>set (attachedEvidence ap). attach_entry H c (ae_entry ae) = Inr ae)"
proof -
  obtain m es where m: "merkleMembership H (map leaf_hash cs) (leaf_hash c) = Inr m"
    and es: "res_map (attach_entry H c) (selectedEvidence pl) = Inr es"
    and ap: "ap = \<lparr>ap_plan = pl, claimLeaf = canonicalJson (claim_json (c\<lparr>leafHash := None\<rparr>)),
          claimMembership = m, attachedEvidence = es, allRejected = rejected\<rparr>"
    using assms by (auto simp: attachMemberships_def res_bind_Inr)
  from es have "list_all2 (\<lambda>e ae. attach_entry H c e = Inr ae) (selectedEvidence pl) es"
    by (simp add: res_map_Inr_iff)
  then have "map ae_entry es = selectedEvidence pl \<and> (\<forall>ae\<in>set es. attach_entry H c (ae_entry ae) = Inr ae)"
    by (induction rule: list_all2_induct) (auto dest: attach_entry_Inr)
  with membership_root [OF m] show ?thesis by (simp add: ap)
qed

lemma finalizePlanClaim_id: "finalizePlanClaim c es ds b = Inr pl \<Longrightarrow> planClaimId pl = claimId c"
  by (auto simp: finalizePlanClaim_def Let_def res_bind_Inr)

lemma planClaim_id:
  assumes "planClaim c deps b balances allow target maximize = Inr pl"
  shows "planClaimId pl = claimId c"
proof (cases "claim_type c = ''P0_RECIPROCAL''")
  case True
  with assms show ?thesis
    by (auto simp: planClaim_def planReciprocal_def Let_def res_bind_Inr dest: finalizePlanClaim_id)
next
  case False
  with assms have "planCohort c deps b balances allow target maximize = Inr pl"
    by (auto simp: planClaim_def res_bind_Inr split: if_splits)
  then show ?thesis
    by (rule planCohort_Inr) (auto simp: planned_claim_def dest: finalizePlanClaim_id split: if_splits)
qed

lemma plan_one_Inr:
  assumes "plan_one H env b auths c = Inr ap" "env_planCheckpoint env c = Inr None"
  shows "\<exists>pl rejected. planClaimId pl = claimId c \<and> attachMemberships H pl rejected c (claims b) = Inr ap"
proof -
  obtain auth where "plan_authenticated H b c auth = Inr ap"
    using assms by (auto simp: plan_one_def readPlanCheckpoint_def res_bind_Inr)
  then obtain pl where "planClaim c (auth_resolved auth) b (auth_balances auth) False ALPHA_RETURN_BPS False = Inr pl"
    "attachMemberships H pl (plan_rejected pl @ auth_rejected auth) c (claims b) = Inr ap"
    by (auto simp: plan_authenticated_def Let_def res_bind_Inr split: sum.splits)
  with planClaim_id show ?thesis by blast
qed

text \<open>The claims of a settled bundle come from claims that had not been finalized.\<close>

definition from_clean :: "(string \<Rightarrow> string) \<Rightarrow> claim \<Rightarrow> bool" where
  "from_clean H c \<longleftrightarrow> (\<exists>c0. clean c0 \<and> c = finalizeClaim H c0)"

lemma settled_claim_from_clean: "from_clean H (settled_claim H c pl)"
  unfolding from_clean_def settled_claim_def Let_def
  by (rule exI, rule conjI [OF _ refl]) (simp add: clean_def)

lemma settled_bundle_from_clean:
  assumes "finalizeLedgerAwareBundle H env b = Inr (b', auths)"
    and "\<forall>c. env_checkpoint env c = Inr None"
    and "\<forall>c\<in>set (claims b). claim_type c \<noteq> ''P0_CLOSED_LOOP'' \<longrightarrow> clean c"
  shows "(\<forall>c\<in>set (claims b'). from_clean H c) \<and> reportRoot b' = Some (merkleRoot H (map leaf_hash (claims b')))"
proof -
  obtain cs where fold: "res_fold (ledger_step H env b) (claims b) ([], []) = Inr (cs, auths)"
    and b': "b' = finalizeBundle H (b\<lparr>claims := cs\<rparr>)"
    using assms(1) by (auto simp: finalizeLedgerAwareBundle_def res_bind_Inr)
  have "\<forall>c\<in>set (fst (cs, auths)). clean c \<or> from_clean H c"
  proof (rule res_fold_invariant [OF fold])
    fix c st st'
    assume c: "c \<in> set (claims b)" and st: "\<forall>c\<in>set (fst st). clean c \<or> from_clean H c"
      and step: "ledger_step H env b c st = Inr st'"
    show "\<forall>c\<in>set (fst st'). clean c \<or> from_clean H c"
    proof (cases "claim_type c = ''P0_CLOSED_LOOP''")
      case True
      then obtain final auth where "settle_claim H env b c = Inr (final, auth)" "fst st' = fst st @ [final]"
        using step by (cases st) (auto simp: ledger_step_def res_bind_Inr)
      moreover from this(1) obtain pl where "final = settled_claim H c pl"
        using assms(2) by (auto simp: settle_claim_def readClaimCheckpoint_def res_bind_Inr Let_def)
      ultimately show ?thesis using st settled_claim_from_clean by auto
    next
      case False
      with step assms(3) c st show ?thesis by (cases st) (auto simp: ledger_step_def)
    qed
  qed simp
  then have "\<forall>c\<in>set cs. clean c \<or> from_clean H c" by simp
  moreover have "from_clean H (finalized H c)" if "clean c \<or> from_clean H c" for c
    using that by (auto simp: finalized_def from_clean_def clean_def)
  ultimately show ?thesis
    unfolding b' finalizeBundle_seal by auto
qed

section \<open>Properties\<close>


text \<open>A saved plan is found again for the same claim under the same report root, and for no other; so is
  a settled claim for the same claim over the same period and contracts.\<close>

theorem checkpoints_roundtrip:
  "readPlanCheckpoint sha256 (Inr (Some (writePlanCheckpoint sha256 c pl b))) c' b' =
     Inr (if claimId c' = claimId c \<and> reportRoot b' = reportRoot b then Some pl else None)
   \<and> readClaimCheckpoint sha256 (Inr (Some (writeClaimCheckpoint sha256 c final b))) c' b' =
     Inr (if claimId c' = claimId c \<and> bundle_period b' = bundle_period b \<and> bundle_contracts b' = bundle_contracts b
       then Some final else None)"
proof (intro conjI)
  show "readPlanCheckpoint sha256 (Inr (Some (writePlanCheckpoint sha256 c pl b))) c' b' =
     Inr (if claimId c' = claimId c \<and> reportRoot b' = reportRoot b then Some pl else None)"
    by (auto simp: readPlanCheckpoint_def writePlanCheckpoint_def isCurrentPolicyCheckpoint_def)
  show "readClaimCheckpoint sha256 (Inr (Some (writeClaimCheckpoint sha256 c final b))) c' b' =
     Inr (if claimId c' = claimId c \<and> bundle_period b' = bundle_period b \<and> bundle_contracts b' = bundle_contracts b
       then Some final else None)"
    by (auto simp: readClaimCheckpoint_def writeClaimCheckpoint_def isCurrentPolicyCheckpoint_def
        period_json_inject contracts_json_inject)
qed

section \<open>Witness\<close>

definition ex_digest :: "string \<Rightarrow> string" where
  "ex_digest bytes = take 4 (drop 24 bytes)"

definition ex_swapped :: rpc_log where
  "ex_swapped = ex_log\<lparr>log_topics := [CHANNEL_SETTLED_TOPIC, ''0x01'', ''05'', ''0b''],
     log_data := ''0x'' @ replicate 126 (CHR ''0'') @ ''2B''\<rparr>"

definition ex_receipt :: "rpc_log \<Rightarrow> rpc_receipt" where
  "ex_receipt l = \<lparr>receipt_status = Some ''0x1'', receipt_blockNumber = ''0x2a68d95'', receipt_blockHash = Some ''0xb'',
     receipt_transactionIndex = ''0x3'', receipt_logs = [l]\<rparr>"

definition ex_plan_env :: plan_env where
  "ex_plan_env = \<lparr>env_batchSize = 100, env_batch = (\<lambda>_. Inr []),
     env_api = ex_api\<lparr>getTransactionReceipt := (\<lambda>h. Inr (Some (ex_receipt (if h = ''0x1'' then ex_log else ex_swapped))))\<rparr>,
     env_checkpoint = (\<lambda>_. Inr None), env_claimIds = None, env_planCheckpoint = (\<lambda>_. Inr None),
     env_finalizeLedger = True\<rparr>"

definition ex_recip :: "string \<Rightarrow> string \<Rightarrow> string \<Rightarrow> int \<Rightarrow> evidence" where
  "ex_recip h a b raw = of_transfer (blank\<lparr>evidenceType := RECIPROCAL_SETTLEMENT, transactionHash := Some h,
     buyer := Some a, seller := Some b, amountRaw := raw\<rparr>)"

definition ex_draft :: proof_bundle where
  "ex_draft = ex_bundle\<lparr>claims := [ex_claim\<lparr>claim_type := ''P0_RECIPROCAL'', walletA := Some ''0x0b'', walletB := Some ''0x05'',
     dependencies := [ex_recip ''0x1'' ''0x0b'' ''0x05'' 42, ex_recip ''0x2'' ''0x05'' ''0x0b'' 43]\<rparr>]\<rparr>"

definition ex_id :: "string \<Rightarrow> string" where
  "ex_id raw = ''0x'' @ [CHR 0x22] @ raw @ [CHR 0x22]"

definition ex_settled_bundle :: proof_bundle where
  "ex_settled_bundle = ex_draft\<lparr>claims := map (\<lambda>c. c\<lparr>dependencyRoot := Some ''0x'',
       claimId := Some (''0xs'' @ [CHR 0x22] @ '':[''), leafHash := Some (''0xers'' @ [CHR 0x22]),
       dependencies := [(ex_recip ''0x1'' ''0x0b'' ''0x05'' 42)\<lparr>dependencyId := Some (ex_id ''42'')\<rparr>,
         (ex_recip ''0x2'' ''0x05'' ''0x0b'' 43)\<lparr>dependencyId := Some (ex_id ''43'')\<rparr>]\<rparr>) (claims ex_draft),
     claimCounts := Some \<lparr>closedLoopCount = 0, reciprocalCount = 1, totalCount = 1\<rparr>,
     reportRoot := Some (''0xers'' @ [CHR 0x22])\<rparr>"

lemma ex_draft_settles:
  "finalizeLedgerAwareBundle ex_digest (ledger_env.truncate ex_plan_env) ex_draft = Inr (ex_settled_bundle, [])"
  by code_simp

lemma ex_settled_plans:
  "\<not> isl (planProofBundle ex_digest (ex_plan_env\<lparr>env_finalizeLedger := False\<rparr>) [] ex_settled_bundle)"
  by code_simp

end
