(* ===== verification/Approved_Proofs.thy ===== *)
theory Approved_Proofs
  imports Artifacts Plan_Stream Plan_Bundle
begin

text \<open>
  Proving an approved bundle off chain: \<open>scripts/generate-approved-development-proofs.mjs\<close>.
  The plan is either one document (\<open>buildApprovedBatchSummary\<close>) or a file that is cut into
  one shard per claim while it streams by (\<open>shardProofPlan\<close>, over the scanner of theory
  \<open>Plan_Stream\<close>); both add up the settlements of the plan and compare every claim with the
  approved bundle. A materialized witness is reused as long as its cache record describes it.
\<close>

section \<open>The approved set\<close>

definition MAX_PREDICATE_BLOCK_REFS :: nat where
  "MAX_PREDICATE_BLOCK_REFS = 65536"

definition lower_id :: "json \<Rightarrow> string res" where
  "lower_id c = res_bind (field (Some c) ''claimId'') lower_text"

definition claims_of :: "json \<Rightarrow> json list" where
  "claims_of document = elements (mem document ''claims'')"

definition validateApprovedSet :: "json \<Rightarrow> json \<Rightarrow> unit res" where
  "validateApprovedSet b pl =
     res_bind (require (mem b ''version'' = Some (JNum 1) \<and> mem b ''kind'' = Some (JStr ''antseed-wash-trading-proof-bundle'')
         \<and> is_array (mem b ''claims'')) ''invalid approved proof bundle'') (\<lambda>_.
     res_bind (require (mem pl ''version'' = Some (JNum 2) \<and> mem pl ''kind'' = Some (JStr ''antseed-wash-trading-proof-plan'')
         \<and> is_array (mem pl ''claims'')) ''invalid approved proof plan'') (\<lambda>_.
     res_bind (require (mem b ''chainId'' = Some (JNum 8453) \<and> same_value (mem pl ''chainId'') (mem b ''chainId'')
         \<and> same_value (mem pl ''reportRoot'') (mem b ''reportRoot'')) ''bundle and plan identity mismatch'') (\<lambda>_.
     res_bind (require (mem pl ''claimCount'' = Some (JNum (int (length (claims_of pl))))
         \<and> length (claims_of pl) = length (claims_of b))
       (''partial proof plan: expected '' @ show_nat (length (claims_of b)) @ '' claims, received '' @ show_nat (length (claims_of pl)))) (\<lambda>_.
     res_bind (res_map lower_id (claims_of b)) (\<lambda>as. res_bind (res_map lower_id (claims_of pl)) (\<lambda>ps.
     let approvedIds = sort_strings as; plannedIds = sort_strings ps in
     res_bind (require (distinct approvedIds \<and> distinct plannedIds) ''bundle or plan contains duplicate claim IDs'') (\<lambda>_.
     res_bind (require (approvedIds = plannedIds) ''proof plan does not contain the complete approved claim set'') (\<lambda>_.
     require (map_option stringify (mem pl ''period'') = map_option stringify (mem b ''period''))
       ''bundle and plan periods differ''))))))))"

definition validatePlanMetadata :: "json \<Rightarrow> json \<Rightarrow> unit res" where
  "validatePlanMetadata b pl =
     res_bind (require (mem pl ''version'' = Some (JNum 2) \<and> mem pl ''kind'' = Some (JStr ''antseed-wash-trading-proof-plan''))
       ''invalid approved proof plan'') (\<lambda>_.
     res_bind (require (mem b ''chainId'' = Some (JNum 8453) \<and> same_value (mem pl ''chainId'') (mem b ''chainId'')
         \<and> same_value (mem pl ''reportRoot'') (mem b ''reportRoot'')) ''bundle and plan identity mismatch'') (\<lambda>_.
     require (map_option stringify (mem pl ''period'') = map_option stringify (mem b ''period''))
       ''bundle and plan periods differ''))"

section \<open>Adding up the settlements\<close>

record accumulator =
  uniqueSettlements :: "(string \<times> int) list"
  closedLoopVolume :: int
  reciprocalVolume :: int

record batch_summary =
  as_reportRoot :: "json option"
  as_period :: "json option"
  approvedClaimCount :: nat
  approvedSellerCount :: nat
  closedLoopVolumeRaw :: int
  reciprocalVolumeRaw :: int
  uniqueSettlementVolumeRaw :: int
  uniqueSettlementCount :: nat

definition createBatchAccumulator :: accumulator where
  "createBatchAccumulator = \<lparr>uniqueSettlements = [], closedLoopVolume = 0, reciprocalVolume = 0\<rparr>"

text \<open>One entry of the selected evidence, with the volume so far and the settlements seen.\<close>

definition tally :: "string \<Rightarrow> json \<Rightarrow> int \<times> (string \<times> int) list \<Rightarrow> (int \<times> (string \<times> int) list) res" where
  "tally label evidence st = (case st of (selectedVolume, seen) \<Rightarrow>
     res_bind (field (Some evidence) ''evidenceType'') (\<lambda>ty.
     if ty \<notin> {Some (JStr ''SETTLEMENT''), Some (JStr ''RECIPROCAL_SETTLEMENT'')} then Inr st
     else
       res_bind (if js_truthy (mem evidence ''dependencyLeaf'')
           then JSON_parse (text_of (mem evidence ''dependencyLeaf'')) else Inr evidence) (\<lambda>source.
       res_bind (field (Some source) ''transactionHash'') (\<lambda>transactionHash.
       let logIndex = (if present (mem evidence ''receiptLogIndex'') then mem evidence ''receiptLogIndex'' else mem source ''logIndex'') in
       res_bind (require (js_truthy transactionHash \<and> safe_number logIndex \<and> 0 \<le> num_of logIndex)
         (label @ '': settlement identity is incomplete'')) (\<lambda>_.
       res_bind (big_int (mem source ''amountRaw'')) (\<lambda>amount.
       let identity = toLowerCase (text_of transactionHash @ '':'' @ text_of logIndex) in
       res_bind (require (map_of seen identity \<in> {None, Some amount})
         (label @ '': settlement '' @ identity @ '' has conflicting amounts'')) (\<lambda>_.
       Inr (selectedVolume + amount, AList.update identity amount seen))))))))"

definition approved_volume :: "json \<Rightarrow> int res" where
  "approved_volume approved =
     (if mem approved ''type'' = Some (JStr ''P0_RECIPROCAL'')
      then res_bind (res_bind (field (mem approved ''metrics'') ''volumeAToBRaw'') big_int) (\<lambda>x.
        res_bind (res_bind (field (mem approved ''metrics'') ''volumeBToARaw'') big_int) (\<lambda>y. Inr (x + y)))
      else res_bind (field (mem approved ''metrics'') ''qualifiedVolumeRaw'') big_int)"

definition accumulate :: "json \<Rightarrow> json \<Rightarrow> json list \<Rightarrow> accumulator \<Rightarrow> accumulator res" where
  "accumulate approved planned evidences acc =
     (let label = text_of (mem planned ''claimId'') in
      res_bind (res_fold (tally label) evidences (0, uniqueSettlements acc)) (\<lambda>(selectedVolume, seen).
      res_bind (approved_volume approved) (\<lambda>approvedVolume.
      res_bind (require (selectedVolume = approvedVolume) (label @ '': selected volume '' @ show_int selectedVolume
        @ '' differs from approved volume '' @ show_int approvedVolume)) (\<lambda>_.
      Inr (if mem approved ''type'' = Some (JStr ''P0_RECIPROCAL'')
        then acc\<lparr>uniqueSettlements := seen, reciprocalVolume := reciprocalVolume acc + selectedVolume\<rparr>
        else acc\<lparr>uniqueSettlements := seen, closedLoopVolume := closedLoopVolume acc + selectedVolume\<rparr>)))))"

text \<open>The streaming variant takes missing evidence as none; the other one throws on it.\<close>

definition accumulateClaim :: "json \<Rightarrow> json \<Rightarrow> accumulator \<Rightarrow> accumulator res" where
  "accumulateClaim approved planned acc =
     res_bind (if present (mem planned ''selectedEvidence'') then iterate (mem planned ''selectedEvidence'') else Inr []) (\<lambda>es.
     accumulate approved planned es acc)"

definition lower_subjects :: "json \<Rightarrow> string list res" where
  "lower_subjects c = res_bind (case mem c ''subjects'' of Some (JArr js) \<Rightarrow> Inr js | _ \<Rightarrow> Inl TypeError)
     (res_map (\<lambda>s. lower_text (Some s)))"

definition finishBatchAccumulator :: "json \<Rightarrow> accumulator \<Rightarrow> batch_summary res" where
  "finishBatchAccumulator b acc =
     res_bind (res_map lower_subjects (claims_of b)) (\<lambda>subs.
     Inr \<lparr>as_reportRoot = mem b ''reportRoot'', as_period = mem b ''period'',
       approvedClaimCount = length (claims_of b), approvedSellerCount = length (js_set (concat subs)),
       closedLoopVolumeRaw = closedLoopVolume acc, reciprocalVolumeRaw = reciprocalVolume acc,
       uniqueSettlementVolumeRaw = sum_list (map snd (uniqueSettlements acc)),
       uniqueSettlementCount = length (uniqueSettlements acc)\<rparr>)"

text \<open>\<open>new Map(bundle.claims.map((claim) => [claim.claimId.toLowerCase(), claim]))\<close>.\<close>

definition claims_by_id :: "json \<Rightarrow> (string \<times> json) list res" where
  "claims_by_id b = res_bind (res_map (\<lambda>c. res_bind (lower_id c) (\<lambda>i. Inr (i, c))) (claims_of b)) (\<lambda>kvs. Inr (map_from kvs))"

definition summarize_claim :: "(string \<times> json) list \<Rightarrow> json \<Rightarrow> accumulator \<Rightarrow> accumulator res" where
  "summarize_claim bundleClaims planned acc =
     res_bind (lower_id planned) (\<lambda>i. res_bind (iterate (mem planned ''selectedEvidence'')) (\<lambda>es.
     case map_of bundleClaims i of None \<Rightarrow> Inl TypeError | Some approved \<Rightarrow> accumulate approved planned es acc))"

definition buildApprovedBatchSummary :: "json \<Rightarrow> json \<Rightarrow> batch_summary res" where
  "buildApprovedBatchSummary b pl =
     res_bind (validateApprovedSet b pl) (\<lambda>_. res_bind (claims_by_id b) (\<lambda>bundleClaims.
     res_bind (res_fold (summarize_claim bundleClaims) (claims_of pl) createBatchAccumulator) (finishBatchAccumulator b)))"

section \<open>Materialization blocks\<close>

text \<open>\<open>value - 1\<close>; \<open>None\<close> is NaN.\<close>

definition minus_one :: "json option \<Rightarrow> int option" where
  "minus_one v = (case v of Some (JNum n) \<Rightarrow> Some (n - 1) | Some JNull \<Rightarrow> Some (- 1)
     | Some (JBool b) \<Rightarrow> Some (if b then 0 else - 1)
     | Some (JStr s) \<Rightarrow> (case js_BigInt s of Inr n \<Rightarrow> Some (n - 1) | Inl e \<Rightarrow> None) | _ \<Rightarrow> None)"

definition atomic_evidence :: "json \<Rightarrow> json option list" where
  "atomic_evidence evidence = (if mem evidence ''evidenceType'' = Some (JStr ''RELAY_PATH'')
     then [mem evidence ''sellerPayment'', mem evidence ''relayForward'', mem evidence ''funderReceipt'']
     else [Some evidence])"

definition block_of :: "json option \<Rightarrow> int option option" where
  "block_of v = (case Option.bind v (\<lambda>e. mem e ''blockNumber'') of
     Some (JNum n) \<Rightarrow> (if isSafeInteger n then Some (Some n) else None) | _ \<Rightarrow> None)"

definition countClaimMaterializationBlocks :: "json \<Rightarrow> int option \<Rightarrow> nat res" where
  "countClaimMaterializationBlocks c periodEndBlock =
     res_bind (if present (mem c ''selectedEvidence'') then iterate (mem c ''selectedEvidence'') else Inr []) (\<lambda>es.
     if JNull \<in> set es then Inl TypeError
     else Inr (length (js_set (periodEndBlock # List.map_filter block_of (concat (map atomic_evidence es))))))"

definition validateClaimMaterializationBlocks :: "json \<Rightarrow> int option \<Rightarrow> nat \<Rightarrow> nat res" where
  "validateClaimMaterializationBlocks c periodEndBlock maximum =
     res_bind (countClaimMaterializationBlocks c periodEndBlock) (\<lambda>n.
     res_bind (require (n \<le> maximum) (text_of (mem c ''claimId'') @ '': '' @ show_nat n
       @ '' materialization blocks exceed predicate maximum '' @ show_nat maximum)) (\<lambda>_. Inr n))"

section \<open>Sharding the plan\<close>

text \<open>An entry with its file: the name in the shard directory and the text written there.\<close>

record shard_entry =
  entry_claimId :: string
  entry_type :: "json option"
  shardName :: string
  shardText :: string

record shard_state =
  metadata :: "json option"
  entries :: "shard_entry list"
  seenIds :: "string list"
  batch :: accumulator

record sharded_plan =
  sp_entries :: "shard_entry list"
  sp_period :: "json option"
  sp_approved :: batch_summary

definition shard_metadata :: "json \<Rightarrow> string \<Rightarrow> shard_state \<Rightarrow> shard_state res" where
  "shard_metadata b body s = res_bind (JSON_parse body) (\<lambda>pl.
     res_bind (validatePlanMetadata b pl) (\<lambda>_. Inr (s\<lparr>metadata := Some pl\<rparr>)))"

definition claim_file_name :: "nat \<Rightarrow> string \<Rightarrow> string \<Rightarrow> string" where
  "claim_file_name i c ending = padStart 3 (CHR ''0'') (show_nat i) @ ''-'' @ take 16 (drop 2 c) @ ending"

definition shard_text :: "json \<Rightarrow> string \<Rightarrow> string" where
  "shard_text pl claimText =
     butlast (stringify (JObj (known_members (map (\<lambda>k. (k, mem pl k)) [''version'', ''kind'', ''chainId'', ''period'']))))
     @ CHR '','' # quote ''claims'' @ '':['' @ claimText @ '']}'' @ [CHR 0x0A]"

definition shard_claim :: "json \<Rightarrow> (string \<times> json) list \<Rightarrow> string \<Rightarrow> shard_state \<Rightarrow> shard_state res" where
  "shard_claim b approvedById claimText s =
     res_bind (JSON_parse claimText) (\<lambda>c.
     res_bind (field (Some c) ''claimId'') (\<lambda>i.
     res_bind (if present i then res_bind (lower_text i) (\<lambda>t. Inr (Some t)) else Inr None) (\<lambda>claimId.
     case Option.bind claimId (map_of approvedById) of
       None \<Rightarrow> Inl (Error (''unexpected or duplicate planned claim '' @ text_of i))
     | Some approved \<Rightarrow>
         res_bind (require (the claimId \<notin> set (seenIds s)) (''unexpected or duplicate planned claim '' @ text_of i)) (\<lambda>_.
         res_bind (accumulateClaim approved c (batch s)) (\<lambda>acc.
         res_bind (field (mem (the (metadata s)) ''period'') ''endBlockExclusive'') (\<lambda>endBlock.
         res_bind (validateClaimMaterializationBlocks c (minus_one endBlock) MAX_PREDICATE_BLOCK_REFS) (\<lambda>_.
         Inr (s\<lparr>seenIds := set_add (seenIds s) (the claimId), batch := acc,
           entries := entries s @ [\<lparr>entry_claimId = str_of i, entry_type = mem c ''type'',
             shardName = claim_file_name (length (entries s)) (str_of i) ''.plan.json'',
             shardText = shard_text (the (metadata s)) claimText\<rparr>]\<rparr>))))))))"

definition finish_shards :: "json \<Rightarrow> shard_state \<Rightarrow> sharded_plan res" where
  "finish_shards b s =
     res_bind (require (length (entries s) = length (claims_of b) \<and> length (seenIds s) = length (claims_of b))
       (''partial proof plan: expected '' @ show_nat (length (claims_of b)) @ '' claims, received '' @ show_nat (length (entries s)))) (\<lambda>_.
     res_bind (require (Option.bind (metadata s) (\<lambda>pl. mem pl ''claimCount'') = Some (JNum (int (length (entries s)))))
       ''proof plan claim count mismatch'') (\<lambda>_.
     res_bind (finishBatchAccumulator b (batch s)) (\<lambda>approved.
     Inr \<lparr>sp_entries = entries s, sp_period = Option.bind (metadata s) (\<lambda>pl. mem pl ''period''), sp_approved = approved\<rparr>)))"

definition shard_start :: shard_state where
  "shard_start = \<lparr>metadata = None, entries = [], seenIds = [], batch = createBatchAccumulator\<rparr>"

text \<open>The file arrives as \<open>chunks\<close>.\<close>

definition shardProofPlan :: "json \<Rightarrow> string list \<Rightarrow> sharded_plan res" where
  "shardProofPlan b chunks =
     res_bind (claims_by_id b) (\<lambda>approvedById.
     res_bind (read_stream (shard_metadata b) (shard_claim b approvedById) shard_start chunks) (finish_shards b))"

section \<open>The snapshot lock\<close>

record digests =
  digest_bundle :: "string option"
  digest_plan :: "string option"

text \<open>The plan is the document or, from \<open>main\<close>, the summary the shards gave.\<close>

definition validateSnapshotLock ::
  "json \<Rightarrow> string \<Rightarrow> string \<Rightarrow> json \<Rightarrow> json + batch_summary \<Rightarrow> digests \<Rightarrow> unit res" where
  "validateSnapshotLock lock bundlePath planPath b pl ds =
     res_bind (require (mem lock ''version'' = Some (JNum 1)
         \<and> mem lock ''kind'' = Some (JStr ''antseed-unified-historical-wash-snapshot-lock'')) ''invalid unified snapshot lock'') (\<lambda>_.
     res_bind (case pl of Inr summary \<Rightarrow> Inr (Some (approvedSellerCount summary))
       | Inl document \<Rightarrow>
           if is_array (mem document ''claims'')
           then res_bind (buildApprovedBatchSummary b document) (\<lambda>summary. Inr (Some (approvedSellerCount summary)))
           else Inr None) (\<lambda>sellers.
     res_bind (require (same_value (mem lock ''reportRoot'') (mem b ''reportRoot'')
         \<and> sub_mem lock ''counts'' ''approvedClaims'' = Some (JNum (int (length (claims_of b))))
         \<and> sub_mem lock ''counts'' ''approvedSellers'' = map_option (\<lambda>n. JNum (int n)) sellers)
       ''snapshot lock totals do not match bundle and plan'') (\<lambda>_.
     res_bind (require (sub_mem lock ''bundle'' ''path'' = Some (JStr bundlePath) \<and> sub_mem lock ''plan'' ''path'' = Some (JStr planPath))
       ''snapshot lock paths do not match requested inputs'') (\<lambda>_.
     res_bind (require (digest_bundle ds \<in> {None, Some []} \<or> sub_mem lock ''bundle'' ''sha256'' = map_option JStr (digest_bundle ds))
       ''snapshot bundle digest mismatch'') (\<lambda>_.
     require (digest_plan ds \<in> {None, Some []} \<or> sub_mem lock ''plan'' ''sha256'' = map_option JStr (digest_plan ds))
       ''snapshot plan digest mismatch'')))))"

section \<open>The witness cache\<close>

text \<open>
  What \<open>stat\<close> says of a file (none: \<open>ENOENT\<close>) and what is read from the cache
  record beside a witness: nothing, a text that is no JSON, a document, or another error. The
  modification time is a whole number of milliseconds.
\<close>

record file_stat =
  isFile :: bool
  stat_size :: nat
  mtimeMs :: int

datatype cache_file = NoCache | NotJson | CacheDocument json | CacheError js_error

definition js_number :: "int option \<Rightarrow> json" where
  "js_number n = (case n of None \<Rightarrow> JNull | Some k \<Rightarrow> JNum k)"

text \<open>The record, as it is read back.\<close>

definition writeWitnessCacheMetadata ::
  "string \<Rightarrow> file_stat option res \<Rightarrow> json option \<Rightarrow> string \<Rightarrow> json option \<Rightarrow> string \<Rightarrow> json res" where
  "writeWitnessCacheMetadata path stat period witnessed claimType materializer = res_bind stat (\<lambda>found.
     case found of None \<Rightarrow> Inl (Error (''ENOENT: '' @ path))
     | Some witness \<Rightarrow>
         res_bind (require (isFile witness \<and> stat_size witness \<noteq> 0) (path @ '': witness file is empty'')) (\<lambda>_.
         res_bind (field period ''startBlock'') (\<lambda>startBlock. res_bind (field period ''endBlockExclusive'') (\<lambda>endBlock.
         Inr (JObj (known_members
           [(''version'', Some (JNum 1)), (''kind'', Some (JStr ''antseed-wash-trading-witness-cache'')),
            (''chainId'', Some (JNum 8453)), (''periodStartBlock'', startBlock),
            (''periodEndBlock'', Some (js_number (minus_one endBlock))),
            (''sourceClaimId'', Some (JStr (toLowerCase witnessed))), (''claimType'', claimType),
            (''materializerSha256'', Some (JStr materializer)), (''witnessSize'', Some (JNum (int (stat_size witness)))),
            (''witnessMtimeMs'', Some (JNum (mtimeMs witness)))]))))))"

definition cache_header :: "json \<Rightarrow> bool" where
  "cache_header record_json \<longleftrightarrow> mem record_json ''version'' = Some (JNum 1)
     \<and> mem record_json ''kind'' = Some (JStr ''antseed-wash-trading-witness-cache'') \<and> mem record_json ''chainId'' = Some (JNum 8453)"

definition isCurrentWitness ::
  "file_stat option res \<Rightarrow> cache_file \<Rightarrow> json option \<Rightarrow> string \<Rightarrow> json option \<Rightarrow> string \<Rightarrow> bool res" where
  "isCurrentWitness stat cache period witnessed claimType materializer = res_bind stat (\<lambda>found.
     case found of None \<Rightarrow> Inr False
     | Some witness \<Rightarrow> (case cache of NoCache \<Rightarrow> Inr False | NotJson \<Rightarrow> Inr False | CacheError e \<Rightarrow> Inl e
       | CacheDocument record_json \<Rightarrow>
           if \<not> (isFile witness \<and> 0 < stat_size witness \<and> cache_header record_json) then Inr False
           else res_bind (field period ''startBlock'') (\<lambda>startBlock. res_bind (field period ''endBlockExclusive'') (\<lambda>endBlock.
             Inr (same_value (mem record_json ''periodStartBlock'') startBlock
               \<and> minus_one endBlock \<noteq> None \<and> mem record_json ''periodEndBlock'' = Some (js_number (minus_one endBlock))
               \<and> mem record_json ''sourceClaimId'' = Some (JStr (toLowerCase witnessed))
               \<and> same_value (mem record_json ''claimType'') claimType
               \<and> mem record_json ''materializerSha256'' = Some (JStr materializer)
               \<and> mem record_json ''witnessSize'' = Some (JNum (int (stat_size witness)))
               \<and> mem record_json ''witnessMtimeMs'' = Some (JNum (mtimeMs witness)))))))"

section \<open>The witnesses\<close>

record disk =
  disk_stat :: "string \<Rightarrow> file_stat option res"
  disk_cache :: "string \<Rightarrow> cache_file"

record witness_entry =
  we_claim :: shard_entry
  witnessPath :: string

text \<open>
  The environment: the endpoints configured, the digest of the materializer, and what the two
  programs that are run leave behind, the materializer the witness file of an entry and the
  prover the artifact of a seller.
\<close>

record proving_env =
  BASE_RPC_URLS :: "string option"
  BASE_RPC_URL :: "string option"
  materializerSha256 :: string
  run_materializer :: "witness_entry \<Rightarrow> file_stat res"
  run_prover :: "string \<Rightarrow> string \<Rightarrow> json res"
  witnessOnly :: bool
  materializeConcurrency :: int

definition white_space :: "char \<Rightarrow> bool" where
  "white_space c \<longleftrightarrow> (let n = (of_char c :: nat) in n = 32 \<or> (9 \<le> n \<and> n \<le> 13) \<or> n = 160)"

definition js_trim :: "string \<Rightarrow> string" where
  "js_trim s = rev (dropWhile white_space (rev (dropWhile white_space s)))"

fun js_split :: "char \<Rightarrow> string \<Rightarrow> string list" where
  "js_split sep [] = [[]]"
| "js_split sep (c # s) = (if c = sep then [] # js_split sep s
     else (case js_split sep s of [] \<Rightarrow> [[c]] | w # ws \<Rightarrow> (c # w) # ws))"

definition endpoints :: "proving_env \<Rightarrow> string list" where
  "endpoints env = filter (\<lambda>e. e \<noteq> []) (map js_trim (js_split (CHR '','')
     (case nullish (BASE_RPC_URLS env) (BASE_RPC_URL env) of None \<Rightarrow> [] | Some urls \<Rightarrow> urls)))"

definition witness_entries :: "shard_entry list \<Rightarrow> witness_entry list" where
  "witness_entries es = map (\<lambda>(i, e). \<lparr>we_claim = e,
     witnessPath = claim_file_name i (entry_claimId e) ''.witness.json''\<rparr>) (enumerate 0 es)"

definition current_entry :: "proving_env \<Rightarrow> json option \<Rightarrow> disk \<Rightarrow> witness_entry \<Rightarrow> bool res" where
  "current_entry env period d e = isCurrentWitness (disk_stat d (witnessPath e)) (disk_cache d (witnessPath e)) period
     (entry_claimId (we_claim e)) (entry_type (we_claim e)) (materializerSha256 env)"

definition materialize :: "proving_env \<Rightarrow> json option \<Rightarrow> witness_entry \<Rightarrow> disk \<Rightarrow> disk res" where
  "materialize env period e d =
     res_bind (run_materializer env e) (\<lambda>st.
     let d' = d\<lparr>disk_stat := (disk_stat d)(witnessPath e := Inr (Some st))\<rparr> in
     res_bind (writeWitnessCacheMetadata (witnessPath e) (disk_stat d' (witnessPath e)) period
       (entry_claimId (we_claim e)) (entry_type (we_claim e)) (materializerSha256 env)) (\<lambda>record_json.
     Inr (d'\<lparr>disk_cache := (disk_cache d')(witnessPath e := CacheDocument record_json)\<rparr>)))"

definition missing_witness :: "proving_env \<Rightarrow> json option \<Rightarrow> disk \<Rightarrow> witness_entry \<Rightarrow> witness_entry list \<Rightarrow> witness_entry list res" where
  "missing_witness env period d e missing =
     res_bind (current_entry env period d e) (\<lambda>current. Inr (if current then missing else missing @ [e]))"

definition witness_text :: "witness_entry \<Rightarrow> string" where
  "witness_text e = (if entry_type (we_claim e) = Some (JStr ''P0_RECIPROCAL'') then ''reciprocal'' else ''closed-loop'')
     @ CHR '':'' # witnessPath e"

definition check_witness :: "proving_env \<Rightarrow> json option \<Rightarrow> disk \<Rightarrow> witness_entry \<Rightarrow> string list \<Rightarrow> string list res" where
  "check_witness env period d e found =
     res_bind (current_entry env period d e) (\<lambda>current.
     res_bind (require current (entry_claimId (we_claim e) @ '': canonical witness is missing or stale after materialization'')) (\<lambda>_.
     Inr (found @ [witness_text e])))"

text \<open>\<open>mapWithConcurrency\<close> runs the missing ones; they touch different files and are taken in order.\<close>

definition ensure_witnesses ::
  "proving_env \<Rightarrow> json option \<Rightarrow> nat \<Rightarrow> witness_entry list \<Rightarrow> disk \<Rightarrow> (disk \<times> string list) res" where
  "ensure_witnesses env period approvedCount es d =
     res_bind (res_fold (missing_witness env period d) es []) (\<lambda>missing.
     res_bind (require (missing = [] \<or> endpoints env \<noteq> [])
       ''BASE_RPC_URLS or BASE_RPC_URL is required to materialize canonical witnesses'') (\<lambda>_.
     res_bind (require (missing = [] \<or> (isSafeInteger (materializeConcurrency env) \<and> 1 \<le> materializeConcurrency env))
       ''concurrency must be a positive integer'') (\<lambda>_.
     res_bind (res_fold (materialize env period) missing d) (\<lambda>d'.
     res_bind (res_fold (check_witness env period d') es []) (\<lambda>claimWitnesses.
     res_bind (require (length claimWitnesses = approvedCount) ''not every approved claim has a witness'') (\<lambda>_.
     Inr (d', claimWitnesses)))))))"

definition buildWitnessOnlySummary :: "(string \<times> json) list \<Rightarrow> nat \<Rightarrow> json list \<Rightarrow> json \<Rightarrow> json res" where
  "buildWitnessOnlySummary approved approvedCount witnesses snapshotLock =
     res_bind (require (length witnesses = approvedCount) ''not every approved claim has a witness'') (\<lambda>_.
     Inr (obj_assign (JObj [(''version'', JNum 1), (''kind'', JStr ''antseed-wash-trading-approved-development-witness-summary''),
         (''securityMode'', JStr ''development''),
         (''completeness'', JStr ''all-approved-claims-materialized-and-guest-verified-offchain''),
         (''proverNetworkSubmitted'', JBool False), (''snapshotLock'', snapshotLock)])
       (approved @ [(''witnessCount'', JNum (int (length witnesses))), (''witnesses'', JArr witnesses)])))"

section \<open>The sellers\<close>

record seller_result =
  sr_seller :: string
  sr_provenWashVolumeRaw :: int
  sr_totalSellerVolumeRaw :: int
  sr_blockReferenceCount :: "json option"

definition valid_artifact :: "string \<Rightarrow> json \<Rightarrow> bool" where
  "valid_artifact sl artifact \<longleftrightarrow> lower_text (mem artifact ''seller'') = Inr sl \<and> mem artifact ''claimCount'' = Some (JNum 1)
     \<and> mem artifact ''evidenceFormat'' = Some (JStr ''single-bundle-v1'')
     \<and> present (mem artifact ''provenWashVolumeRaw'') \<and> positive_decimal
         (if present (mem artifact ''totalSellerVolumeRaw'') then text_of (mem artifact ''totalSellerVolumeRaw'') else [])
     \<and> mem artifact ''proverNetworkSubmitted'' \<noteq> Some (JBool True)"

definition prove_one :: "proving_env \<Rightarrow> (string \<times> string) list \<Rightarrow> string \<Rightarrow> seller_result list \<Rightarrow> seller_result list res" where
  "prove_one env evidenceBySeller sl done =
     res_bind (run_prover env sl (the (map_of evidenceBySeller sl))) (\<lambda>artifact.
     res_bind (require (valid_artifact sl artifact) (sl @ '': invalid direct seller artifact'')) (\<lambda>_.
     res_bind (big_int (mem artifact ''provenWashVolumeRaw'')) (\<lambda>proven.
     res_bind (big_int (mem artifact ''totalSellerVolumeRaw'')) (\<lambda>t.
     Inr (done @ [\<lparr>sr_seller = sl, sr_provenWashVolumeRaw = proven, sr_totalSellerVolumeRaw = t,
       sr_blockReferenceCount = mem artifact ''blockReferenceCount''\<rparr>])))))"

record proving_summary =
  ps_approved :: batch_summary
  sellerProofCount :: nat
  sellerWitnessCount :: nat
  totalProvenWashVolumeRaw :: int
  totalSellerVolumeRaw :: int
  sellerResults :: "seller_result list"

definition claim_rows :: "json \<Rightarrow> (string \<times> string list) list res" where
  "claim_rows b = res_map (\<lambda>c. res_bind (field (Some c) ''claimId'') (\<lambda>i. res_bind (lower_text i) (\<lambda>_.
     res_bind (lower_subjects c) (\<lambda>_. Inr (str_of i, map (\<lambda>s. str_of (Some s)) (elements (mem c ''subjects''))))))) (claims_of b)"

definition prove_sellers :: "proving_env \<Rightarrow> batch_summary \<Rightarrow> (string \<times> string) list \<Rightarrow> proving_summary res" where
  "prove_sellers env approved evidenceBySeller =
     (let sellers = sort_strings (map fst evidenceBySeller) in
      res_bind (require (length sellers = approvedSellerCount approved) ''approved seller count mismatch'') (\<lambda>_.
      res_bind (res_fold (prove_one env evidenceBySeller) sellers []) (\<lambda>rs.
      let proven = sum_list (map sr_provenWashVolumeRaw rs) in
      res_bind (require (proven = uniqueSettlementVolumeRaw approved)
        (''direct seller total '' @ show_int proven @ '' differs from approved '' @ show_int (uniqueSettlementVolumeRaw approved))) (\<lambda>_.
      Inr \<lparr>ps_approved = approved, sellerProofCount = (if witnessOnly env then 0 else length rs),
        sellerWitnessCount = length rs, totalProvenWashVolumeRaw = proven,
        totalSellerVolumeRaw = sum_list (map sr_totalSellerVolumeRaw rs), sellerResults = rs\<rparr>))))"

text \<open>\<open>main\<close>, on the documents it reads; building the programs is left out.\<close>

definition prove_approved ::
  "proving_env \<Rightarrow> json \<Rightarrow> json \<Rightarrow> string \<Rightarrow> string \<Rightarrow> digests \<Rightarrow> string list \<Rightarrow> disk \<Rightarrow> (disk \<times> proving_summary) res" where
  "prove_approved env b lock bundlePath planPath ds chunks d =
     res_bind (claim_rows b) (\<lambda>rows.
     res_bind (sellerEvidenceByAddress rows (map (\<lambda>(i, _). (i, ())) rows)) (\<lambda>_.
     res_bind (shardProofPlan b chunks) (\<lambda>indexedPlan.
     res_bind (validateSnapshotLock lock bundlePath planPath b (Inr (sp_approved indexedPlan)) ds) (\<lambda>_.
     let es = witness_entries (sp_entries indexedPlan) in
     res_bind (ensure_witnesses env (sp_period indexedPlan) (approvedClaimCount (sp_approved indexedPlan)) es d) (\<lambda>(d', _).
     res_bind (sellerEvidenceByAddress rows (map (\<lambda>e. (entry_claimId (we_claim e), witness_text e)) es)) (\<lambda>evidenceBySeller.
     res_bind (prove_sellers env (sp_approved indexedPlan) evidenceBySeller) (\<lambda>summary.
     Inr (d', summary))))))))"

section \<open>Lemmas\<close>

text \<open>The plan as a document and what precedes the claims in its file.\<close>

definition plan_document :: "(string \<times> json) list \<Rightarrow> json list \<Rightarrow> json" where
  "plan_document meta cs = JObj (meta @ [(''claims'', JArr cs)])"

definition before_claims :: "(string \<times> json) list \<Rightarrow> string" where
  "before_claims meta = butlast (stringify (JObj meta)) @ '',''"

lemma js_join_snoc: "xs \<noteq> [] \<Longrightarrow> js_join sep (xs @ [x]) = js_join sep xs @ sep @ x"
proof (induction xs)
  case (Cons y ys)
  then show ?case by (cases ys) simp_all
qed simp

lemma write_claims_join: "write_claims xs = js_join '','' xs"
  by (induction xs rule: write_claims.induct) simp_all

lemma stringify_members_append: "stringify_members (ms @ ns) = stringify_members ms @ stringify_members ns"
  by (simp add: stringify_members_map)

lemma writePlanFile_shape:
  "writePlanFile meta cs = before_claims meta @ marker @ js_join '','' (map stringify cs) @ CHR '']'' # CHR ''}'' # [CHR 0x0A]"
  by (simp add: writePlanFile_def before_claims_def marker_def write_claims_join)

lemma plan_head_text:
  assumes "meta \<noteq> []"
  shows "before_claims meta @ marker @ '']}'' = stringify (plan_document meta [])"
proof -
  have "stringify_members meta \<noteq> []" using assms by (simp add: stringify_members_map)
  then show ?thesis
    by (simp add: before_claims_def marker_def plan_document_def stringify_members_append js_join_snoc butlast_append)
qed

lemma mem_plan_document: "k \<noteq> ''claims'' \<Longrightarrow> mem (plan_document meta cs) k = map_of meta k"
  by (simp add: plan_document_def map_add_def split: option.split)

lemma claims_of_plan_document: "''claims'' \<notin> fst ` set meta \<Longrightarrow> mem (plan_document meta cs) ''claims'' = Some (JArr cs)"
  by (auto simp: plan_document_def map_add_def split: option.split dest!: map_of_SomeD intro: rev_image_eqI)

lemma wf_members_all: "wf_members ms \<longleftrightarrow> (\<forall>m\<in>set ms. wf_json (snd m))"
  by (induction ms) auto

lemma wf_list_all: "wf_list js \<longleftrightarrow> (\<forall>j\<in>set js. wf_json j)"
  by (induction js) auto

lemma wf_plan_document:
  "wf_json (plan_document meta cs) \<longleftrightarrow> distinct (map fst meta) \<and> ''claims'' \<notin> fst ` set meta \<and> wf_members meta \<and> wf_list cs"
  by (auto simp: plan_document_def wf_members_all)

text \<open>The step of the stream on the text of a claim, and the whole loop.\<close>

definition entry_for :: "json \<Rightarrow> nat \<Rightarrow> json \<Rightarrow> shard_entry" where
  "entry_for pl n c = \<lparr>entry_claimId = str_of (mem c ''claimId''), entry_type = mem c ''type'',
     shardName = claim_file_name n (str_of (mem c ''claimId'')) ''.plan.json'', shardText = shard_text pl (stringify c)\<rparr>"

definition blocks_ok :: "json \<Rightarrow> json \<Rightarrow> bool" where
  "blocks_ok pl c \<longleftrightarrow> (\<exists>e n. field (mem pl ''period'') ''endBlockExclusive'' = Inr e
     \<and> countClaimMaterializationBlocks c (minus_one e) = Inr n \<and> n \<le> MAX_PREDICATE_BLOCK_REFS)"

lemma is_array_present: "is_array v \<Longrightarrow> present v"
  by (auto simp: is_array_def present_def split: option.splits json.splits)

lemma shard_claim_Inr:
  assumes "wf_json c" and "is_array (mem c ''selectedEvidence'')" and "metadata s = Some pl"
  shows "shard_claim b ids (stringify c) s = Inr t \<longleftrightarrow> (\<exists>i acc. lower_id c = Inr i \<and> i \<notin> set (seenIds s) \<and> blocks_ok pl c
     \<and> summarize_claim ids c (batch s) = Inr acc
     \<and> t = s\<lparr>seenIds := seenIds s @ [i], batch := acc, entries := entries s @ [entry_for pl (length (entries s)) c]\<rparr>)"
proof (cases "mem c ''claimId''")
  case None
  then show ?thesis using assms
    by (auto simp: shard_claim_def parse_stringify lower_id_def lower_text_def field_def present_def res_bind_Inr split: if_splits)
next
  case (Some i)
  then have "present (Some c)" using assms(2) by (auto simp: present_def mem_def)
  then show ?thesis using assms Some is_array_present [OF assms(2)]
    by (cases i) (auto simp: shard_claim_def parse_stringify lower_id_def lower_text_def field_def [of "Some c"] present_def
      res_bind_Inr summarize_claim_def accumulateClaim_def blocks_ok_def validateClaimMaterializationBlocks_def
      entry_for_def str_of_def split: option.splits)
qed

definition entries_for :: "json \<Rightarrow> nat \<Rightarrow> json list \<Rightarrow> shard_entry list" where
  "entries_for pl n cs = map (\<lambda>(i, c). entry_for pl i c) (enumerate n cs)"

lemma shard_claims_Inr:
  assumes "\<forall>c\<in>set cs. wf_json c \<and> is_array (mem c ''selectedEvidence'')" and "metadata s = Some pl"
  shows "res_fold (shard_claim b ids) (map stringify cs) s = Inr t \<longleftrightarrow>
     (\<exists>is acc. res_map lower_id cs = Inr is \<and> distinct is \<and> set is \<inter> set (seenIds s) = {} \<and> (\<forall>c\<in>set cs. blocks_ok pl c)
      \<and> res_fold (summarize_claim ids) cs (batch s) = Inr acc
      \<and> t = s\<lparr>seenIds := seenIds s @ is, batch := acc, entries := entries s @ entries_for pl (length (entries s)) cs\<rparr>)"
  using assms
proof (induction cs arbitrary: s)
  case Nil
  then show ?case by (auto simp: entries_for_def)
next
  case (Cons c cs)
  let ?next = "\<lambda>i acc. s\<lparr>seenIds := seenIds s @ [i], batch := acc,
     entries := entries s @ [entry_for pl (length (entries s)) c]\<rparr>"
  have IH: "res_fold (shard_claim b ids) (map stringify cs) (?next i acc) = Inr t \<longleftrightarrow>
     (\<exists>is acc'. res_map lower_id cs = Inr is \<and> distinct is \<and> set is \<inter> (set (seenIds s) \<union> {i}) = {} \<and> (\<forall>c\<in>set cs. blocks_ok pl c)
      \<and> res_fold (summarize_claim ids) cs acc = Inr acc'
      \<and> t = s\<lparr>seenIds := seenIds s @ i # is, batch := acc',
            entries := entries s @ entries_for pl (length (entries s)) (c # cs)\<rparr>)" for i acc
    using Cons.IH [of "?next i acc"] Cons.prems by (simp add: entries_for_def)
  have step: "shard_claim b ids (stringify c) s = Inr u \<longleftrightarrow> (\<exists>i acc. lower_id c = Inr i \<and> i \<notin> set (seenIds s)
      \<and> blocks_ok pl c \<and> summarize_claim ids c (batch s) = Inr acc \<and> u = ?next i acc)" for u
    by (rule shard_claim_Inr) (use Cons.prems in simp_all)
  show ?case
  proof (cases "\<exists>i acc. lower_id c = Inr i \<and> summarize_claim ids c (batch s) = Inr acc")
    case True
    then obtain i acc where i: "lower_id c = Inr i" "summarize_claim ids c (batch s) = Inr acc" by blast
    have "res_fold (shard_claim b ids) (map stringify (c # cs)) s = Inr t \<longleftrightarrow>
        i \<notin> set (seenIds s) \<and> blocks_ok pl c \<and> res_fold (shard_claim b ids) (map stringify cs) (?next i acc) = Inr t"
      unfolding list.map res_fold_Cons_Inr step using i by auto
    also note IH
    finally show ?thesis using i by (auto split: sum.splits)
  next
    case False
    then show ?thesis unfolding list.map res_fold_Cons_Inr step by (auto split: sum.splits)
  qed
qed

lemma claims_by_id_Inr:
  "claims_by_id b = Inr m \<longleftrightarrow> (\<exists>is. res_map lower_id (claims_of b) = Inr is \<and> m = map_from (zip is (claims_of b)))"
proof -
  have "res_map (\<lambda>c. res_bind (lower_id c) (\<lambda>i. Inr (i, c))) cs =
      res_bind (res_map lower_id cs) (\<lambda>is. Inr (zip is cs))" for cs
    by (induction cs) (auto simp: res_bind_def split: sum.splits)
  then show ?thesis by (auto simp: claims_by_id_def res_bind_Inr)
qed

lemma summarize_ids:
  assumes "res_fold (summarize_claim m) cs acc = Inr acc'" and "res_map lower_id cs = Inr is"
  shows "set is \<subseteq> fst ` set m"
  using assms
proof (induction cs arbitrary: acc "is")
  case (Cons c cs)
  obtain i js where i: "lower_id c = Inr i" "res_map lower_id cs = Inr js" "is = i # js"
    using Cons.prems(2) by (auto split: sum.splits)
  obtain u where u: "summarize_claim m c acc = Inr u" "res_fold (summarize_claim m) cs u = Inr acc'"
    using Cons.prems(1) by (auto split: sum.splits)
  have "i \<in> fst ` set m" using u(1) i(1)
    by (auto simp: summarize_claim_def res_bind_Inr split: option.splits dest: map_of_SomeD intro: rev_image_eqI)
  then show ?case using Cons.IH [OF u(2) i(2)] i(3) by simp
qed simp

text \<open>As many different ids as there are approved claims are all of them.\<close>

lemma same_ids:
  assumes "set ps \<subseteq> set as" and "distinct ps" and "length ps = length as"
  shows "distinct as \<and> sort_strings as = sort_strings ps"
proof -
  have "card (set as) \<le> card (set ps)" using assms card_length [of as] by (simp add: distinct_card)
  then have eq: "set ps = set as" using assms(1) card_subset_eq [of "set as" "set ps"] card_mono [OF _ assms(1)] by auto
  then have "distinct as" using assms by (metis card_distinct distinct_card)
  then show ?thesis using eq assms(2) by (metis set_eq_iff_mset_eq_distinct sort_strings_permute)
qed

text \<open>Reading a written plan in chunks is running through its claims.\<close>

definition run_claims :: "json \<Rightarrow> (string \<times> json) list \<Rightarrow> json list \<Rightarrow> sharded_plan res" where
  "run_claims b meta cs = res_bind (claims_by_id b) (\<lambda>ids.
     res_bind (validatePlanMetadata b (plan_document meta [])) (\<lambda>_.
     res_bind (res_fold (shard_claim b ids) (map stringify cs) (shard_start\<lparr>metadata := Some (plan_document meta [])\<rparr>))
       (finish_shards b)))"

lemma shard_plan_file:
  assumes "concat chunks = writePlanFile meta cs" and "meta \<noteq> []" and "wf_json (plan_document meta cs)"
    and "text_indexOf marker (before_claims meta @ marker) = Some (length (before_claims meta))"
    and "\<forall>c\<in>set cs. is_object c"
  shows "shardProofPlan b chunks = run_claims b meta cs"
proof -
  have "wf_json (plan_document meta [])" using assms(3) by (simp add: wf_plan_document)
  then have "shard_metadata b (before_claims meta @ marker @ '']}'') s =
      res_bind (validatePlanMetadata b (plan_document meta [])) (\<lambda>_. Inr (s\<lparr>metadata := Some (plan_document meta [])\<rparr>))" for s
    unfolding plan_head_text [OF assms(2)] by (simp add: shard_metadata_def parse_stringify)
  then have "read_stream (shard_metadata b) (shard_claim b ids) shard_start chunks =
      res_bind (validatePlanMetadata b (plan_document meta [])) (\<lambda>_.
      res_fold (shard_claim b ids) (map stringify cs) (shard_start\<lparr>metadata := Some (plan_document meta [])\<rparr>))" for ids
    unfolding read_stream_cut assms(1) writePlanFile_shape cut_file_claims [OF assms(4,5)]
    by (cases "validatePlanMetadata b (plan_document meta [])") simp_all
  then show ?thesis unfolding shardProofPlan_def run_claims_def
    by (cases "claims_by_id b"; cases "validatePlanMetadata b (plan_document meta [])") simp_all
qed

definition approved_bundle :: "json \<Rightarrow> bool" where
  "approved_bundle b \<longleftrightarrow> mem b ''version'' = Some (JNum 1) \<and> mem b ''kind'' = Some (JStr ''antseed-wash-trading-proof-bundle'')
     \<and> is_array (mem b ''claims'')"

lemma head_members: "k \<noteq> ''claims'' \<Longrightarrow> mem (plan_document meta []) k = mem (plan_document meta cs) k"
  by (simp add: mem_plan_document)

lemma metadata_ok:
  "validatePlanMetadata b (plan_document meta []) = validatePlanMetadata b (plan_document meta cs)"
  by (simp add: validatePlanMetadata_def mem_plan_document)

lemma approved_set_Inr:
  assumes "approved_bundle b" and "''claims'' \<notin> fst ` set meta"
  shows "validateApprovedSet b (plan_document meta cs) = Inr u \<longleftrightarrow>
     validatePlanMetadata b (plan_document meta cs) = Inr () \<and> map_of meta ''claimCount'' = Some (JNum (int (length cs)))
     \<and> length cs = length (claims_of b)
     \<and> (\<exists>as ps. res_map lower_id (claims_of b) = Inr as \<and> res_map lower_id cs = Inr ps \<and> distinct as \<and> distinct ps
        \<and> sort_strings as = sort_strings ps)"
  using assms
  by (auto simp: validateApprovedSet_def validatePlanMetadata_def res_bind_Inr approved_bundle_def claims_of_plan_document
      mem_plan_document claims_of_def elements_def is_array_def Let_def sort_strings_def)

lemma run_claims_Inr:
  assumes "approved_bundle b" and "wf_json (plan_document meta cs)"
    and "\<forall>c\<in>set cs. is_array (mem c ''selectedEvidence'')"
  shows "run_claims b meta cs = Inr r \<longleftrightarrow>
     buildApprovedBatchSummary b (plan_document meta cs) = Inr (sp_approved r)
     \<and> (\<forall>c\<in>set cs. blocks_ok (plan_document meta cs) c)
     \<and> sp_entries r = entries_for (plan_document meta []) 0 cs \<and> sp_period r = map_of meta ''period''"
proof -
  let ?head = "plan_document meta []" and ?pl = "plan_document meta cs"
  let ?start = "shard_start\<lparr>metadata := Some ?head\<rparr>"
  have wf: "\<forall>c\<in>set cs. wf_json c \<and> is_array (mem c ''selectedEvidence'')" "''claims'' \<notin> fst ` set meta"
    using assms(2,3) by (auto simp: wf_plan_document wf_list_all)
  have pl: "claims_of ?pl = cs" using claims_of_plan_document [OF wf(2)] by (simp add: claims_of_def elements_def)
  have blocks: "blocks_ok ?head c = blocks_ok ?pl c" for c by (simp add: blocks_ok_def mem_plan_document)
  have "metadata ?start = Some ?head" by simp
  note fold = shard_claims_Inr [OF wf(1) this, of b]
  have finish: "finish_shards b (?start\<lparr>seenIds := is, batch := acc, entries := entries_for ?head 0 cs\<rparr>) = Inr r \<longleftrightarrow>
      length cs = length (claims_of b) \<and> length is = length (claims_of b)
      \<and> map_of meta ''claimCount'' = Some (JNum (int (length cs)))
      \<and> finishBatchAccumulator b acc = Inr (sp_approved r)
      \<and> sp_entries r = entries_for ?head 0 cs \<and> sp_period r = map_of meta ''period''" for "is" acc
    by (cases r) (auto simp: finish_shards_def res_bind_Inr entries_for_def mem_plan_document)
  have same: "distinct as \<and> sort_strings as = sort_strings ps \<longleftrightarrow> length ps = length as"
    if "res_map lower_id (claims_of b) = Inr as" "res_map lower_id cs = Inr ps" "distinct ps"
      "res_fold (summarize_claim (map_from (zip as (claims_of b)))) cs createBatchAccumulator = Inr acc" for as ps acc
  proof -
    have "set ps \<subseteq> set as"
      using summarize_ids [OF that(4) that(2)] by (force simp: map_from_set dest: map_of_SomeD set_zip_leftD)
    then show ?thesis using same_ids [of ps as] that(3) by (metis sort_strings_facts(3))
  qed
  show ?thesis
  proof (cases "res_map lower_id (claims_of b)")
    case (Inl e)
    then show ?thesis using approved_set_Inr [OF assms(1) wf(2), of cs "()"]
      by (auto simp: run_claims_def buildApprovedBatchSummary_def res_bind_Inr claims_by_id_Inr)
  next
    case (Inr as)
    define m where "m = map_from (zip as (claims_of b))"
    have ids: "claims_by_id b = Inr m" using Inr by (simp add: claims_by_id_Inr m_def)
    have "run_claims b meta cs = Inr r \<longleftrightarrow> validatePlanMetadata b ?head = Inr ()
        \<and> (\<exists>t. res_fold (shard_claim b m) (map stringify cs) ?start = Inr t \<and> finish_shards b t = Inr r)"
      by (simp add: run_claims_def ids res_bind_Inr)
    also have "\<dots> \<longleftrightarrow> validatePlanMetadata b ?pl = Inr () \<and> (\<exists>ps acc. res_map lower_id cs = Inr ps \<and> distinct ps
        \<and> (\<forall>c\<in>set cs. blocks_ok ?pl c) \<and> res_fold (summarize_claim m) cs createBatchAccumulator = Inr acc
        \<and> finish_shards b (?start\<lparr>seenIds := ps, batch := acc, entries := entries_for ?head 0 cs\<rparr>) = Inr r)"
      unfolding metadata_ok [where cs = cs] fold by (auto simp: blocks shard_start_def)
    also have "\<dots> \<longleftrightarrow> validatePlanMetadata b ?pl = Inr () \<and> (\<exists>ps acc. res_map lower_id cs = Inr ps \<and> distinct ps
        \<and> (\<forall>c\<in>set cs. blocks_ok ?pl c) \<and> res_fold (summarize_claim m) cs createBatchAccumulator = Inr acc
        \<and> length cs = length (claims_of b) \<and> distinct as \<and> sort_strings as = sort_strings ps
        \<and> map_of meta ''claimCount'' = Some (JNum (int (length cs)))
        \<and> finishBatchAccumulator b acc = Inr (sp_approved r)
        \<and> sp_entries r = entries_for ?head 0 cs \<and> sp_period r = map_of meta ''period'')"
      unfolding finish using same [OF Inr] res_map_length [OF Inr] unfolding m_def by (metis res_map_length)
    also have "\<dots> \<longleftrightarrow> validateApprovedSet b ?pl = Inr ()
        \<and> (\<exists>acc. res_fold (summarize_claim m) cs createBatchAccumulator = Inr acc \<and> finishBatchAccumulator b acc = Inr (sp_approved r))
        \<and> (\<forall>c\<in>set cs. blocks_ok ?pl c)
        \<and> sp_entries r = entries_for ?head 0 cs \<and> sp_period r = map_of meta ''period''"
      unfolding approved_set_Inr [OF assms(1) wf(2)] using Inr by auto
    finally show ?thesis by (simp add: buildApprovedBatchSummary_def ids pl res_bind_Inr)
  qed
qed

text \<open>A shard is the document it was written from.\<close>

lemma parse_line: "wf_json j \<Longrightarrow> JSON_parse (stringify j @ [CHR 0x0A]) = Inr j"
proof -
  assume "wf_json j"
  have "ends_number [CHR 0x0A]" "skip_white [CHR 0x0A] = []" by code_simp+
  then show ?thesis
    using parse_stringify_all(1) [OF \<open>wf_json j\<close>, of "length (stringify j @ [CHR 0x0A])" "[CHR 0x0A]"]
    by (simp add: JSON_parse_def del: json_value.simps)
qed

definition shard_document :: "json \<Rightarrow> json \<Rightarrow> json" where
  "shard_document pl c = JObj (known_members (map (\<lambda>k. (k, mem pl k)) [''version'', ''kind'', ''chainId'', ''period''])
     @ [(''claims'', JArr [c])])"

lemma shard_text_line:
  assumes "mem pl ''version'' \<noteq> None"
  shows "shard_text pl (stringify c) = stringify (shard_document pl c) @ [CHR 0x0A]"
proof -
  let ?ms = "known_members (map (\<lambda>k. (k, mem pl k)) [''version'', ''kind'', ''chainId'', ''period''])"
  have "stringify_members ?ms \<noteq> []"
    using assms by (auto simp: stringify_members_map known_members_def map_filter_simps split: option.splits)
  then show ?thesis by (simp add: shard_text_def shard_document_def stringify_members_append js_join_snoc butlast_append)
qed

lemma wf_known: "\<forall>(k, v)\<in>set ms. \<forall>j. v = Some j \<longrightarrow> wf_json j \<Longrightarrow> wf_members (known_members ms)"
  by (induction ms) (auto simp: known_members_def map_filter_simps split: option.splits)

lemma wf_mem: "wf_json j \<Longrightarrow> mem j k = Some v \<Longrightarrow> wf_json v"
  by (cases j) (auto simp: mem_def wf_members_all dest: map_of_SomeD)

lemma wf_shard_document: "wf_json pl \<Longrightarrow> wf_json c \<Longrightarrow> wf_json (shard_document pl c)"
proof -
  assume wf: "wf_json pl" "wf_json c"
  let ?ms = "map (\<lambda>k. (k, mem pl k)) [''version'', ''kind'', ''chainId'', ''period'']"
  have "wf_members (known_members ?ms)" by (rule wf_known) (use wf_mem [OF wf(1)] in auto)
  moreover have "distinct (map fst (known_members ?ms))" "''claims'' \<notin> fst ` set (known_members ?ms)"
    by (simp_all add: known_members_def map_filter_simps split: option.split)
  ultimately show ?thesis using wf(2) by (simp add: shard_document_def wf_members_all)
qed

section \<open>The volumes of the summary\<close>

definition claim_volume :: "json \<Rightarrow> int" where
  "claim_volume c = (case approved_volume c of Inl e \<Rightarrow> 0 | Inr n \<Rightarrow> n)"

definition reciprocal :: "json \<Rightarrow> bool" where
  "reciprocal c \<longleftrightarrow> mem c ''type'' = Some (JStr ''P0_RECIPROCAL'')"

definition volume_if :: "bool \<Rightarrow> json \<Rightarrow> int" where
  "volume_if r c = (if reciprocal c = r then claim_volume c else 0)"

lemma accumulate_volumes:
  assumes "accumulate approved planned es acc = Inr acc'"
  shows "closedLoopVolume acc' = closedLoopVolume acc + volume_if False approved
    \<and> reciprocalVolume acc' = reciprocalVolume acc + volume_if True approved"
proof (cases "mem approved ''type'' = Some (JStr ''P0_RECIPROCAL'')")
  case True
  then show ?thesis using assms
    by (auto simp: accumulate_def Let_def res_bind_Inr volume_if_def claim_volume_def reciprocal_def)
next
  case False
  then show ?thesis using assms
    by (auto simp: accumulate_def Let_def res_bind_Inr volume_if_def claim_volume_def reciprocal_def)
qed

lemma summarize_volumes:
  assumes "res_fold (summarize_claim m) cs acc = Inr acc'" and "res_map lower_id cs = Inr is"
  shows "closedLoopVolume acc' = closedLoopVolume acc + (\<Sum>i\<leftarrow>is. volume_if False (the (map_of m i)))
    \<and> reciprocalVolume acc' = reciprocalVolume acc + (\<Sum>i\<leftarrow>is. volume_if True (the (map_of m i)))"
  using assms
proof (induction cs arbitrary: acc "is")
  case (Cons c cs)
  obtain i js where i: "lower_id c = Inr i" "res_map lower_id cs = Inr js" "is = i # js"
    using Cons.prems(2) by (auto split: sum.splits)
  obtain u where u: "summarize_claim m c acc = Inr u" "res_fold (summarize_claim m) cs u = Inr acc'"
    using Cons.prems(1) by (auto split: sum.splits)
  then obtain approved es where "map_of m i = Some approved" "accumulate approved c es acc = Inr u"
    using i(1) by (auto simp: summarize_claim_def res_bind_Inr split: option.splits)
  then show ?case using Cons.IH [OF u(2) i(2)] accumulate_volumes i(3) by fastforce
qed simp

lemma looked_up:
  assumes "distinct as" and "length as = length cs"
  shows "map (\<lambda>i. f (the (map_of (map_from (zip as cs)) i))) as = map f cs"
proof (rule nth_equalityI)
  fix k assume "k < length (map (\<lambda>i. f (the (map_of (map_from (zip as cs)) i))) as)"
  then have k: "k < length as" by simp
  have "distinct (map fst (zip as cs))" using assms by simp
  moreover have "(as ! k, cs ! k) \<in> set (zip as cs)" using k assms(2) by (force simp: set_zip)
  ultimately have "map_of (rev (zip as cs)) (as ! k) = Some (cs ! k)"
    by (metis distinct_rev map_of_is_SomeI rev_map set_rev)
  then show "map (\<lambda>i. f (the (map_of (map_from (zip as cs)) i))) as ! k = map f cs ! k"
    using k assms(2) by (simp add: map_of_map_from)
qed (use assms in simp)

lemma perm_sum: "mset xs = mset ys \<Longrightarrow> sum_list (map f xs) = sum_list (map f ys)" for f :: "'a \<Rightarrow> int"
  by (metis mset_map sum_mset_sum_list)

lemma summary_totals_aux:
  assumes "buildApprovedBatchSummary b pl = Inr s"
  shows "closedLoopVolumeRaw s = (\<Sum>c\<leftarrow>claims_of b. volume_if False c)
    \<and> reciprocalVolumeRaw s = (\<Sum>c\<leftarrow>claims_of b. volume_if True c)"
proof -
  obtain as ps where as: "res_map lower_id (claims_of b) = Inr as" and ps: "res_map lower_id (claims_of pl) = Inr ps"
    and "distinct (sort_strings as)" "sort_strings as = sort_strings ps"
    using assms by (auto simp: buildApprovedBatchSummary_def validateApprovedSet_def res_bind_Inr Let_def)
  then have perm: "mset as = mset ps" and "distinct as"
    by (metis sort_strings_facts(1), simp add: sort_strings_def)
  let ?m = "map_from (zip as (claims_of b))"
  obtain acc where fold: "res_fold (summarize_claim ?m) (claims_of pl) createBatchAccumulator = Inr acc"
    and finish: "finishBatchAccumulator b acc = Inr s"
    using assms as by (auto simp: buildApprovedBatchSummary_def res_bind_Inr claims_by_id_Inr)
  have "(\<Sum>i\<leftarrow>ps. volume_if r (the (map_of ?m i))) = (\<Sum>c\<leftarrow>claims_of b. volume_if r c)" for r
    unfolding perm_sum [OF perm, symmetric] looked_up [OF \<open>distinct as\<close> res_map_length [OF as]] ..
  then show ?thesis using summarize_volumes [OF fold ps] finish
    by (auto simp: finishBatchAccumulator_def res_bind_Inr createBatchAccumulator_def)
qed

section \<open>The witnesses are current\<close>

lemma same_value_refl: "same_value (map_option JNum n) (map_option JNum n)"
  by (cases n) (simp_all add: same_value_def)

definition scalar :: "json option \<Rightarrow> bool" where
  "scalar v \<longleftrightarrow> same_value v v"

lemma cache_current:
  assumes "writeWitnessCacheMetadata path (Inr (Some w)) period i ty materializer = Inr md"
    and "field period ''startBlock'' = Inr start" "field period ''endBlockExclusive'' = Inr e"
    and "scalar start" "scalar ty" "minus_one e \<noteq> None"
  shows "isCurrentWitness (Inr (Some w')) (CacheDocument md) period i' ty' materializer' = Inr True \<longleftrightarrow>
     isFile w' \<and> stat_size w' = stat_size w \<and> mtimeMs w' = mtimeMs w \<and> toLowerCase i' = toLowerCase i
     \<and> ty' = ty \<and> materializer' = materializer"
proof -
  have w: "isFile w" "stat_size w \<noteq> 0" and md: "md = JObj (known_members
           [(''version'', Some (JNum 1)), (''kind'', Some (JStr ''antseed-wash-trading-witness-cache'')),
            (''chainId'', Some (JNum 8453)), (''periodStartBlock'', start),
            (''periodEndBlock'', Some (js_number (minus_one e))),
            (''sourceClaimId'', Some (JStr (toLowerCase i))), (''claimType'', ty),
            (''materializerSha256'', Some (JStr materializer)), (''witnessSize'', Some (JNum (int (stat_size w)))),
            (''witnessMtimeMs'', Some (JNum (mtimeMs w)))])"
    using assms(1-3) by (auto simp: writeWitnessCacheMetadata_def res_bind_Inr)
  have m: "mem md ''periodStartBlock'' = start" "mem md ''claimType'' = ty"
    "mem md ''periodEndBlock'' = Some (js_number (minus_one e))" "mem md ''sourceClaimId'' = Some (JStr (toLowerCase i))"
    "mem md ''materializerSha256'' = Some (JStr materializer)" "mem md ''witnessSize'' = Some (JNum (int (stat_size w)))"
    "mem md ''witnessMtimeMs'' = Some (JNum (mtimeMs w))" "cache_header md"
    unfolding md cache_header_def mem_JObj by (simp_all add: map_of_known)
  have same: "same_value ty ty' \<longleftrightarrow> ty' = ty" "same_value start start"
    using assms(4,5) by (auto simp: scalar_def same_value_def)
  have blocks: "minus_one e \<noteq> None" "js_number (minus_one e) = js_number (minus_one e)" using assms(6) by simp_all
  show ?thesis using assms(2,3) w same blocks by (auto simp: isCurrentWitness_def m)
qed

lemma pad_digits: "parse_digits 0 (padStart n (CHR ''0'') (show_nat k)) = Some k"
proof -
  have "parse_digits 0 (replicate m (CHR ''0'') @ s) = parse_digits 0 s" for m s
    by (induction m) (simp_all add: char_digit_def)
  then show ?thesis by (simp add: padStart_def parse_digits_show_nat)
qed

lemma pad_no_dash: "CHR ''-'' \<notin> set (padStart n (CHR ''0'') (show_nat k))"
  by (simp add: padStart_def)

lemma dash_split: "CHR ''-'' \<notin> set x \<Longrightarrow> CHR ''-'' \<notin> set x' \<Longrightarrow> x @ CHR ''-'' # y = x' @ CHR ''-'' # y' \<longleftrightarrow> x = x' \<and> y = y'"
proof (induction x arbitrary: x')
  case Nil
  then show ?case by (cases x') auto
next
  case (Cons c x)
  then show ?case by (cases x') auto
qed

lemma claim_file_name_inject:
  assumes "claim_file_name i c ending = claim_file_name j c' ending'"
  shows "i = j"
proof -
  have split: "x @ CHR ''-'' # y = x' @ CHR ''-'' # y' \<longleftrightarrow> x = x' \<and> y = y'"
    if "CHR ''-'' \<notin> set x" "CHR ''-'' \<notin> set x'" for x y x' y'
    using that by (rule dash_split)
  have "padStart 3 (CHR ''0'') (show_nat i) = padStart 3 (CHR ''0'') (show_nat j)"
    using assms split [OF pad_no_dash pad_no_dash] by (simp add: claim_file_name_def)
  then show ?thesis using pad_digits by (metis option.inject)
qed

lemma witness_paths_distinct: "distinct (map witnessPath (witness_entries es))"
proof -
  have "inj_on (witnessPath \<circ> (\<lambda>(i, e). \<lparr>we_claim = e, witnessPath = claim_file_name i (entry_claimId e) ''.witness.json''\<rparr>))
      (set (enumerate 0 es))"
    by (auto simp: inj_on_def in_set_enumerate_eq dest: claim_file_name_inject)
  then show ?thesis by (simp add: witness_entries_def distinct_map)
qed

text \<open>Materializing the missing witnesses leaves every witness current.\<close>

definition current_after :: "proving_env \<Rightarrow> json option \<Rightarrow> bool" where
  "current_after env period \<longleftrightarrow> (\<exists>start e. field period ''startBlock'' = Inr start \<and> scalar start
     \<and> field period ''endBlockExclusive'' = Inr e \<and> minus_one e \<noteq> None)
   \<and> (\<forall>w. \<exists>st. run_materializer env w = Inr st \<and> isFile st \<and> stat_size st \<noteq> 0)"

lemma materialize_current:
  assumes "current_after env period" and "scalar (entry_type (we_claim w))"
  shows "\<exists>d'. materialize env period w d = Inr d' \<and> current_entry env period d' w = Inr True
    \<and> (\<forall>v. witnessPath v \<noteq> witnessPath w \<longrightarrow> current_entry env period d' v = current_entry env period d v)"
proof -
  obtain st where st: "run_materializer env w = Inr st" "isFile st" "stat_size st \<noteq> 0"
    using assms(1) by (auto simp: current_after_def)
  obtain start e where p: "field period ''startBlock'' = Inr start" "scalar start"
    "field period ''endBlockExclusive'' = Inr e" "minus_one e \<noteq> None" using assms(1) by (auto simp: current_after_def)
  obtain md where md: "writeWitnessCacheMetadata (witnessPath w) (Inr (Some st)) period (entry_claimId (we_claim w))
      (entry_type (we_claim w)) (materializerSha256 env) = Inr md"
    using st p by (simp add: writeWitnessCacheMetadata_def require_def)
  note exact = cache_current [OF md p(1,3,2) assms(2) p(4)]
  let ?d = "d\<lparr>disk_stat := (disk_stat d)(witnessPath w := Inr (Some st)),
    disk_cache := (disk_cache d)(witnessPath w := CacheDocument md)\<rparr>"
  have "materialize env period w d = Inr ?d" using st(1) md by (simp add: materialize_def Let_def)
  moreover have "current_entry env period ?d w = Inr True" using st(2) by (simp add: current_entry_def exact)
  ultimately show ?thesis by (auto simp: current_entry_def)
qed

lemma materialize_all:
  assumes "current_after env period" and "\<forall>w\<in>set ws. scalar (entry_type (we_claim w))" and "distinct (map witnessPath ws)"
  shows "\<exists>d'. res_fold (materialize env period) ws d = Inr d' \<and> (\<forall>w\<in>set ws. current_entry env period d' w = Inr True)
    \<and> (\<forall>v. witnessPath v \<notin> witnessPath ` set ws \<longrightarrow> current_entry env period d' v = current_entry env period d v)"
  using assms
proof (induction ws arbitrary: d)
  case (Cons w ws)
  obtain u where u: "materialize env period w d = Inr u" "current_entry env period u w = Inr True"
    "\<forall>v. witnessPath v \<noteq> witnessPath w \<longrightarrow> current_entry env period u v = current_entry env period d v"
    using materialize_current [OF Cons.prems(1), of w d] Cons.prems(2) by auto
  obtain d' where d': "res_fold (materialize env period) ws u = Inr d'" "\<forall>w\<in>set ws. current_entry env period d' w = Inr True"
    "\<forall>v. witnessPath v \<notin> witnessPath ` set ws \<longrightarrow> current_entry env period d' v = current_entry env period u v"
    using Cons.IH [OF Cons.prems(1), of u] Cons.prems(2,3) by auto
  then have "current_entry env period d' w = Inr True" using u(2) Cons.prems(3) by simp
  then show ?case using u d' by auto
qed simp

lemma missing_witnesses:
  assumes "\<forall>w\<in>set ws. current_entry env period d w = Inr (current w)"
  shows "res_fold (missing_witness env period d) ws found = Inr (found @ filter (\<lambda>w. \<not> current w) ws)"
  using assms by (induction ws arbitrary: found) (auto simp: missing_witness_def)

lemma check_witnesses:
  "\<forall>w\<in>set ws. current_entry env period d w = Inr True \<Longrightarrow>
   res_fold (check_witness env period d) ws found = Inr (found @ map witness_text ws)"
  by (induction ws arbitrary: found) (auto simp: check_witness_def require_def)

lemma checked_witnesses:
  "res_fold (check_witness env period d) ws found = Inr out \<Longrightarrow>
   (\<forall>w\<in>set ws. current_entry env period d w = Inr True) \<and> out = found @ map witness_text ws"
proof (induction ws arbitrary: found)
  case (Cons w ws)
  then obtain u where u: "check_witness env period d w found = Inr u" "res_fold (check_witness env period d) ws u = Inr out"
    by (auto split: sum.splits)
  then have "current_entry env period d w = Inr True" "u = found @ [witness_text w]"
    by (auto simp: check_witness_def res_bind_Inr)
  then show ?case using Cons.IH [OF u(2)] by simp
qed simp

lemma proved_sellers:
  "res_fold (prove_one env evidence) sellers found = Inr out \<Longrightarrow>
   map sr_seller out = map sr_seller found @ sellers
   \<and> (\<forall>r\<in>set out. r \<in> set found \<or> (\<exists>artifact. run_prover env (sr_seller r) (the (map_of evidence (sr_seller r))) = Inr artifact
      \<and> valid_artifact (sr_seller r) artifact \<and> big_int (mem artifact ''provenWashVolumeRaw'') = Inr (sr_provenWashVolumeRaw r)))"
proof (induction sellers arbitrary: found)
  case (Cons sl sellers)
  then obtain u where u: "prove_one env evidence sl found = Inr u" "res_fold (prove_one env evidence) sellers u = Inr out"
    by (auto split: sum.splits)
  then obtain artifact proven t where a: "run_prover env sl (the (map_of evidence sl)) = Inr artifact" "valid_artifact sl artifact"
    "big_int (mem artifact ''provenWashVolumeRaw'') = Inr proven"
    "u = found @ [\<lparr>sr_seller = sl, sr_provenWashVolumeRaw = proven, sr_totalSellerVolumeRaw = t,
       sr_blockReferenceCount = mem artifact ''blockReferenceCount''\<rparr>]"
    by (auto simp: prove_one_def res_bind_Inr)
  then show ?case using Cons.IH [OF u(2)] by (auto simp: a(4))
qed simp

section \<open>Properties\<close>

text \<open>C21: Cutting a written plan file into shards while it streams by, in chunks of any size,
  succeeds exactly when the whole document has an approved summary and no claim exceeds the block
  limit; it gives that summary, the period, and one shard per claim in order.\<close>

theorem shard_equals_batch_summary:
  assumes "concat chunks = writePlanFile meta cs" and "meta \<noteq> []" and "wf_json (plan_document meta cs)"
    and "text_indexOf marker (before_claims meta @ marker) = Some (length (before_claims meta))"
    and "approved_bundle b" and "\<forall>c\<in>set cs. is_array (mem c ''selectedEvidence'')"
  shows "shardProofPlan b chunks = Inr r \<longleftrightarrow>
     buildApprovedBatchSummary b (plan_document meta cs) = Inr (sp_approved r)
     \<and> (\<forall>c\<in>set cs. blocks_ok (plan_document meta cs) c)
     \<and> sp_entries r = entries_for (plan_document meta []) 0 cs \<and> sp_period r = map_of meta ''period''"
proof -
  have "is_object c" if "is_array (mem c k)" for c k using that by (cases c) (auto simp: mem_def is_array_def)
  then have "\<forall>c\<in>set cs. is_object c" using assms(6) by blast
  from shard_plan_file [OF assms(1-4) this] run_claims_Inr [OF assms(5,3,6)] show ?thesis by simp
qed

text \<open>The file of every shard is the plan with the one claim, its version, kind, chain and period.\<close>

theorem shard_files_roundtrip:
  assumes "wf_json pl" and "mem pl ''version'' \<noteq> None" and "\<forall>c\<in>set cs. wf_json c"
  shows "map (\<lambda>e. JSON_parse (shardText e)) (entries_for pl n cs) = map (\<lambda>c. Inr (shard_document pl c)) cs"
proof -
  have "JSON_parse (shard_text pl (stringify c)) = Inr (shard_document pl c)" if "c \<in> set cs" for c
    unfolding shard_text_line [OF assms(2)] using assms(1,3) that by (intro parse_line wf_shard_document) auto
  then show ?thesis by (induction cs arbitrary: n) (simp_all add: entries_for_def entry_for_def)
qed

text \<open>The volumes of an approved summary are the approved volumes of the bundle, by type of claim.\<close>

theorem summary_totals:
  assumes "buildApprovedBatchSummary b pl = Inr s"
  shows "closedLoopVolumeRaw s = (\<Sum>c\<leftarrow>claims_of b. volume_if False c)
    \<and> reciprocalVolumeRaw s = (\<Sum>c\<leftarrow>claims_of b. volume_if True c)"
  using assms by (rule summary_totals_aux)

text \<open>A cached witness is current exactly for the same file (size and modification time),
  period, claim and materializer that were recorded.\<close>

theorem witness_cache_exact:
  assumes "writeWitnessCacheMetadata path (Inr (Some w)) period i ty materializer = Inr md"
    and "field period ''startBlock'' = Inr start" "field period ''endBlockExclusive'' = Inr e"
    and "scalar start" "scalar ty" "minus_one e \<noteq> None"
  shows "isCurrentWitness (Inr (Some w')) (CacheDocument md) period i' ty' materializer' = Inr True \<longleftrightarrow>
     isFile w' \<and> stat_size w' = stat_size w \<and> mtimeMs w' = mtimeMs w \<and> toLowerCase i' = toLowerCase i
     \<and> ty' = ty \<and> materializer' = materializer"
  using assms by (rule cache_current)

text \<open>If the materializer leaves a non-empty file for every claim it is run for, the run
  ends with a current witness for every claim, whatever was cached before.\<close>

theorem witnesses_complete:
  assumes "current_after env period" and "\<forall>e\<in>set es. scalar (entry_type e)"
    and "\<forall>w\<in>set (witness_entries es). \<exists>b. current_entry env period d w = Inr b"
    and "endpoints env \<noteq> []" "1 \<le> materializeConcurrency env" "isSafeInteger (materializeConcurrency env)"
  shows "\<exists>d'. ensure_witnesses env period (length es) (witness_entries es) d = Inr (d', map witness_text (witness_entries es))
    \<and> (\<forall>w\<in>set (witness_entries es). current_entry env period d' w = Inr True)"
proof -
  let ?ws = "witness_entries es"
  obtain current where current: "\<forall>w\<in>set ?ws. current_entry env period d w = Inr (current w)"
    using assms(3) by metis
  let ?missing = "filter (\<lambda>w. \<not> current w) ?ws"
  have "\<forall>w\<in>set ?missing. scalar (entry_type (we_claim w))" using assms(2) by (auto simp: witness_entries_def in_set_enumerate_eq)
  moreover have "distinct (map witnessPath ?missing)" using witness_paths_distinct by (rule distinct_map_filter)
  ultimately obtain d' where d': "res_fold (materialize env period) ?missing d = Inr d'"
    and new: "\<forall>w\<in>set ?missing. current_entry env period d' w = Inr True"
    and kept: "\<forall>v. witnessPath v \<notin> witnessPath ` set ?missing \<longrightarrow> current_entry env period d' v = current_entry env period d v"
    using materialize_all [OF assms(1)] by blast
  have all: "\<forall>w\<in>set ?ws. current_entry env period d' w = Inr True"
  proof
    fix w assume w: "w \<in> set ?ws"
    show "current_entry env period d' w = Inr True"
    proof (cases "current w")
      case True
      have "witnessPath w \<notin> witnessPath ` set ?missing"
        using w True inj_onD [OF distinct_map [THEN iffD1, OF witness_paths_distinct, THEN conjunct2], of w _ es] by auto
      then show ?thesis using kept current w True by simp
    qed (use new w in simp)
  qed
  have "length ?ws = length es" by (simp add: witness_entries_def)
  then have "ensure_witnesses env period (length es) ?ws d = Inr (d', map witness_text ?ws)"
    using d' assms(4-6) missing_witnesses [OF current, of "[]"] check_witnesses [OF all, of "[]"]
    by (simp add: ensure_witnesses_def require_def)
  with all show ?thesis by blast
qed

text \<open>C22: A successful run proves every seller of the bundle exactly once, from witnesses that are
  all current, and the volumes of the artifacts add up to the unique settlement volume of the plan.\<close>

theorem proving_sound:
  assumes "prove_approved env b lock bundlePath planPath ds chunks d = Inr (d', s)"
  shows "\<exists>r rows. shardProofPlan b chunks = Inr r \<and> ps_approved s = sp_approved r \<and> claim_rows b = Inr rows
    \<and> (\<forall>w\<in>set (witness_entries (sp_entries r)). current_entry env (sp_period r) d' w = Inr True)
    \<and> distinct (map sr_seller (sellerResults s))
    \<and> set (map sr_seller (sellerResults s)) = (\<Union>(i, subs)\<in>set rows. toLowerCase ` set subs)
    \<and> sum_list (map sr_provenWashVolumeRaw (sellerResults s)) = uniqueSettlementVolumeRaw (sp_approved r)"
proof -
  obtain rows r d1 evidence where rows: "claim_rows b = Inr rows" and r: "shardProofPlan b chunks = Inr r"
    and w: "\<exists>ws. ensure_witnesses env (sp_period r) (approvedClaimCount (sp_approved r)) (witness_entries (sp_entries r)) d = Inr (d', ws)"
    and e: "sellerEvidenceByAddress rows (map (\<lambda>e. (entry_claimId (we_claim e), witness_text e)) (witness_entries (sp_entries r))) = Inr evidence"
    and s: "prove_sellers env (sp_approved r) evidence = Inr s"
    using assms by (auto simp: prove_approved_def res_bind_Inr Let_def split: prod.splits)
  have current: "\<forall>w\<in>set (witness_entries (sp_entries r)). current_entry env (sp_period r) d' w = Inr True"
    using w checked_witnesses by (auto simp: ensure_witnesses_def res_bind_Inr)
  obtain byClaim where "res_fold (add_claim byClaim) rows [] = Inr evidence"
    using e by (auto simp: sellerEvidenceByAddress_def res_bind_Inr)
  note found = add_claims_Inr [OF this]
  have "distinct (map fst evidence)" by (rule conjunct1 [OF found]) simp
  obtain rs where rs: "res_fold (prove_one env evidence) (sort_strings (map fst evidence)) [] = Inr rs"
    and s: "sellerResults s = rs" "ps_approved s = sp_approved r"
      "sum_list (map sr_provenWashVolumeRaw rs) = uniqueSettlementVolumeRaw (sp_approved r)"
    using s by (auto simp: prove_sellers_def res_bind_Inr Let_def)
  have sellers: "map sr_seller rs = sort_strings (map fst evidence)" using proved_sellers [OF rs] by simp
  have "distinct (sort_strings (map fst evidence))" using \<open>distinct (map fst evidence)\<close> by (simp add: sort_strings_def)
  moreover have "set (sort_strings (map fst evidence)) = (\<Union>(i, subs)\<in>set rows. toLowerCase ` set subs)"
    using found by auto
  ultimately show ?thesis using rows r current s sellers by metis
qed

section \<open>An example\<close>

definition ex_period :: json where
  "ex_period = JObj [(''startBlock'', JNum 1), (''endBlockExclusive'', JNum 9)]"

definition ex_planned :: json where
  "ex_planned = JObj [(''claimId'', JStr ''0xAB''), (''type'', JStr ''P0_CLOSED_LOOP''),
     (''selectedEvidence'', JArr [JObj [(''evidenceType'', JStr ''SETTLEMENT''), (''transactionHash'', JStr ''0x1''),
        (''logIndex'', JNum 2), (''amountRaw'', JStr ''5''), (''blockNumber'', JNum 7)]])]"

definition ex_approved :: json where
  "ex_approved = JObj [(''version'', JNum 1), (''kind'', JStr ''antseed-wash-trading-proof-bundle''),
     (''chainId'', JNum 8453), (''reportRoot'', JStr ''0xr''), (''period'', ex_period),
     (''claims'', JArr [JObj [(''claimId'', JStr ''0xab''), (''type'', JStr ''P0_CLOSED_LOOP''),
        (''metrics'', JObj [(''qualifiedVolumeRaw'', JStr ''5'')]), (''subjects'', JArr [JStr ''0xS''])]])]"

definition ex_meta :: "(string \<times> json) list" where
  "ex_meta = [(''version'', JNum 2), (''kind'', JStr ''antseed-wash-trading-proof-plan''), (''chainId'', JNum 8453),
     (''reportRoot'', JStr ''0xr''), (''period'', ex_period), (''claimCount'', JNum 1)]"

definition ex_totals :: batch_summary where
  "ex_totals = \<lparr>as_reportRoot = Some (JStr ''0xr''), as_period = Some ex_period, approvedClaimCount = 1,
     approvedSellerCount = 1, closedLoopVolumeRaw = 5, reciprocalVolumeRaw = 0, uniqueSettlementVolumeRaw = 5,
     uniqueSettlementCount = 1\<rparr>"

lemma ex_summary: "buildApprovedBatchSummary ex_approved (plan_document ex_meta [ex_planned]) = Inr ex_totals"
  by code_simp

lemma ex_blocks: "\<forall>c\<in>set [ex_planned]. blocks_ok (plan_document ex_meta [ex_planned]) c"
proof -
  have "field (mem (plan_document ex_meta [ex_planned]) ''period'') ''endBlockExclusive'' = Inr (Some (JNum 9))" by code_simp
  moreover have "countClaimMaterializationBlocks ex_planned (minus_one (Some (JNum 9))) = Inr 2" by code_simp
  ultimately show ?thesis by (auto simp: blocks_ok_def MAX_PREDICATE_BLOCK_REFS_def)
qed

lemma ex_marker: "text_indexOf marker (before_claims ex_meta @ marker) = Some (length (before_claims ex_meta))"
  by code_simp

theorem shard_equals_batch_summary_witness:
  "let t = writePlanFile ex_meta [ex_planned] in
   \<exists>r. shardProofPlan ex_approved [take 50 t, drop 50 t] = Inr r \<and> uniqueSettlementVolumeRaw (sp_approved r) = 5"
proof -
  let ?t = "writePlanFile ex_meta [ex_planned]" and ?pl = "plan_document ex_meta [ex_planned]"
  have wf: "wf_json ?pl" and b: "approved_bundle ex_approved" and nonempty: "ex_meta \<noteq> []"
    and array: "\<forall>c\<in>set [ex_planned]. is_array (mem c ''selectedEvidence'')" by code_simp+
  have "concat [take 50 ?t, drop 50 ?t] = ?t" by simp
  note shard = shard_equals_batch_summary [OF this nonempty wf ex_marker b array, of "\<lparr>sp_entries = entries_for
    (plan_document ex_meta []) 0 [ex_planned], sp_period = map_of ex_meta ''period'', sp_approved = ex_totals\<rparr>"]
  show ?thesis using shard ex_summary ex_blocks by (auto simp: Let_def ex_totals_def)
qed

theorem shard_files_roundtrip_witness:
  "JSON_parse (shardText (hd (entries_for (plan_document ex_meta []) 0 [ex_planned]))) =
     Inr (JObj [(''version'', JNum 2), (''kind'', JStr ''antseed-wash-trading-proof-plan''), (''chainId'', JNum 8453),
       (''period'', ex_period), (''claims'', JArr [ex_planned])])"
proof -
  have wf: "wf_json (plan_document ex_meta [])" "mem (plan_document ex_meta []) ''version'' \<noteq> None"
    "\<forall>c\<in>set [ex_planned]. wf_json c" by code_simp+
  have "shard_document (plan_document ex_meta []) ex_planned = JObj [(''version'', JNum 2),
       (''kind'', JStr ''antseed-wash-trading-proof-plan''), (''chainId'', JNum 8453),
       (''period'', ex_period), (''claims'', JArr [ex_planned])]" by code_simp
  then show ?thesis using shard_files_roundtrip [OF wf, of 0] by (simp add: entries_for_def)
qed

theorem summary_totals_witness:
  "\<exists>s. buildApprovedBatchSummary ex_approved (plan_document ex_meta [ex_planned]) = Inr s
     \<and> closedLoopVolumeRaw s = (\<Sum>c\<leftarrow>claims_of ex_approved. volume_if False c) \<and> closedLoopVolumeRaw s = 5"
  using summary_totals [OF ex_summary] ex_summary by (simp add: ex_totals_def)

definition ex_stat :: file_stat where
  "ex_stat = \<lparr>isFile = True, stat_size = 3, mtimeMs = 1000\<rparr>"

theorem witness_cache_exact_witness:
  "\<exists>md. writeWitnessCacheMetadata ''w'' (Inr (Some ex_stat)) (Some ex_period) ''0xAB'' None ''0xm'' = Inr md
     \<and> isCurrentWitness (Inr (Some ex_stat)) (CacheDocument md) (Some ex_period) ''0xab'' None ''0xm'' = Inr True
     \<and> isCurrentWitness (Inr (Some (ex_stat\<lparr>mtimeMs := 1001\<rparr>))) (CacheDocument md) (Some ex_period) ''0xab'' None ''0xm'' \<noteq> Inr True"
proof -
  obtain md where md: "writeWitnessCacheMetadata ''w'' (Inr (Some ex_stat)) (Some ex_period) ''0xAB'' None ''0xm'' = Inr md"
    by (simp add: writeWitnessCacheMetadata_def ex_stat_def ex_period_def field_def present_def require_def)
  have p: "field (Some ex_period) ''startBlock'' = Inr (Some (JNum 1))"
    "field (Some ex_period) ''endBlockExclusive'' = Inr (Some (JNum 9))"
    "scalar (Some (JNum 1))" "scalar None" "minus_one (Some (JNum 9)) \<noteq> None" "toLowerCase ''0xab'' = toLowerCase ''0xAB''"
    by code_simp+
  note exact = witness_cache_exact [OF md p(1-5)]
  show ?thesis using md exact [of ex_stat "''0xab''"] exact [of "ex_stat\<lparr>mtimeMs := 1001\<rparr>" "''0xab''"] p(6)
    by (auto simp: ex_stat_def)
qed

definition ex_artifact :: json where
  "ex_artifact = JObj [(''seller'', JStr ''0xS''), (''claimCount'', JNum 1), (''evidenceFormat'', JStr ''single-bundle-v1''),
     (''provenWashVolumeRaw'', JStr ''5''), (''totalSellerVolumeRaw'', JStr ''8'')]"

definition ex_proving :: proving_env where
  "ex_proving = \<lparr>BASE_RPC_URLS = Some '' a, '', BASE_RPC_URL = None, materializerSha256 = ''0xm'',
     run_materializer = (\<lambda>w. Inr ex_stat), run_prover = (\<lambda>sl w. Inr ex_artifact), witnessOnly = True,
     materializeConcurrency = 2\<rparr>"

definition ex_disk :: disk where
  "ex_disk = \<lparr>disk_stat = (\<lambda>p. Inr None), disk_cache = (\<lambda>p. NoCache)\<rparr>"

definition ex_entry :: shard_entry where
  "ex_entry = \<lparr>entry_claimId = ''0xAB'', entry_type = Some (JStr ''P0_CLOSED_LOOP''), shardName = ''000-AB.plan.json'', shardText = []\<rparr>"

theorem witnesses_complete_witness:
  "\<exists>d'. ensure_witnesses ex_proving (Some ex_period) 1 (witness_entries [ex_entry]) ex_disk
     = Inr (d', [''closed-loop:000-AB.witness.json''])"
proof -
  have start: "field (Some ex_period) ''startBlock'' = Inr (Some (JNum 1))" "scalar (Some (JNum 1))"
    "field (Some ex_period) ''endBlockExclusive'' = Inr (Some (JNum 9))" "minus_one (Some (JNum 9)) \<noteq> None" by code_simp+
  then have a: "current_after ex_proving (Some ex_period)"
    unfolding current_after_def by (intro conjI exI allI) (auto simp: ex_proving_def ex_stat_def)
  have b: "\<forall>e\<in>set [ex_entry]. scalar (entry_type e)" by (simp add: ex_entry_def scalar_def same_value_def)
  have c: "\<forall>w\<in>set (witness_entries [ex_entry]). \<exists>b. current_entry ex_proving (Some ex_period) ex_disk w = Inr b"
    by (intro ballI exI [of _ False]) (simp add: current_entry_def isCurrentWitness_def ex_disk_def)
  have e: "endpoints ex_proving \<noteq> []" "1 \<le> materializeConcurrency ex_proving"
    "isSafeInteger (materializeConcurrency ex_proving)" by code_simp+
  have "map witness_text (witness_entries [ex_entry]) = [''closed-loop:000-AB.witness.json'']" by code_simp
  then show ?thesis using witnesses_complete [OF a b c e] by auto
qed

definition ex_lock :: json where
  "ex_lock = JObj [(''version'', JNum 1), (''kind'', JStr ''antseed-unified-historical-wash-snapshot-lock''),
     (''reportRoot'', JStr ''0xr''), (''counts'', JObj [(''approvedClaims'', JNum 1), (''approvedSellers'', JNum 1)]),
     (''bundle'', JObj [(''path'', JStr ''b'')]), (''plan'', JObj [(''path'', JStr ''p'')])]"

definition ex_shards :: sharded_plan where
  "ex_shards = \<lparr>sp_entries = entries_for (plan_document ex_meta []) 0 [ex_planned], sp_period = Some ex_period, sp_approved = ex_totals\<rparr>"

lemma ex_sharded: "shardProofPlan ex_approved [writePlanFile ex_meta [ex_planned]] = Inr ex_shards"
proof -
  have wf: "wf_json (plan_document ex_meta [ex_planned])" and b: "approved_bundle ex_approved" and nonempty: "ex_meta \<noteq> []"
    and array: "\<forall>c\<in>set [ex_planned]. is_array (mem c ''selectedEvidence'')" and object: "\<forall>c\<in>set [ex_planned]. is_object c"
    and period: "map_of ex_meta ''period'' = Some ex_period" by code_simp+
  have "concat [writePlanFile ex_meta [ex_planned]] = writePlanFile ex_meta [ex_planned]" by simp
  from shard_plan_file [OF this nonempty wf ex_marker object] run_claims_Inr [OF b wf array, of ex_shards]
  show ?thesis using ex_summary ex_blocks period by (simp add: ex_shards_def)
qed

theorem proving_sound_witness:
  "\<exists>d' s. prove_approved ex_proving ex_approved ex_lock ''b'' ''p'' \<lparr>digest_bundle = None, digest_plan = None\<rparr>
       [writePlanFile ex_meta [ex_planned]] ex_disk = Inr (d', s)
     \<and> sum_list (map sr_provenWashVolumeRaw (sellerResults s)) = 5"
proof -
  let ?run = "prove_approved ex_proving ex_approved ex_lock ''b'' ''p'' \<lparr>digest_bundle = None, digest_plan = None\<rparr>
       [writePlanFile ex_meta [ex_planned]] ex_disk" and ?es = "witness_entries (sp_entries ex_shards)"
  have rows: "claim_rows ex_approved = Inr [(''0xab'', [''0xS''])]" by code_simp
  have once: "sellerEvidenceByAddress [(''0xab'', [''0xS''])] (map (\<lambda>(i, _). (i, ())) [(''0xab'', [''0xS''])]) = Inr [(''0xs'', ())]"
    by code_simp
  have lock: "validateSnapshotLock ex_lock ''b'' ''p'' ex_approved (Inr (sp_approved ex_shards))
      \<lparr>digest_bundle = None, digest_plan = None\<rparr> = Inr ()" by code_simp
  have "map_sum (\<lambda>_. ()) snd (ensure_witnesses ex_proving (sp_period ex_shards)
      (approvedClaimCount (sp_approved ex_shards)) ?es ex_disk) = Inr [''closed-loop:000-AB.witness.json'']" by code_simp
  then obtain d' ws where ensured: "ensure_witnesses ex_proving (sp_period ex_shards)
      (approvedClaimCount (sp_approved ex_shards)) ?es ex_disk = Inr (d', ws)"
    by (cases "ensure_witnesses ex_proving (sp_period ex_shards) (approvedClaimCount (sp_approved ex_shards)) ?es ex_disk") auto
  have evidence: "sellerEvidenceByAddress [(''0xab'', [''0xS''])] (map (\<lambda>e. (entry_claimId (we_claim e), witness_text e)) ?es)
      = Inr [(''0xs'', ''closed-loop:000-AB.witness.json'')]" by code_simp
  have "\<not> isl (prove_sellers ex_proving (sp_approved ex_shards) [(''0xs'', ''closed-loop:000-AB.witness.json'')])" by code_simp
  then obtain s where s: "prove_sellers ex_proving (sp_approved ex_shards) [(''0xs'', ''closed-loop:000-AB.witness.json'')] = Inr s"
    by (metis sum.collapse(2))
  have run: "?run = Inr (d', s)"
    unfolding prove_approved_def ex_sharded rows using once lock ensured evidence s by simp
  from proving_sound [OF run] have "sum_list (map sr_provenWashVolumeRaw (sellerResults s)) = uniqueSettlementVolumeRaw (sp_approved ex_shards)"
    by (auto simp: ex_sharded)
  moreover have "uniqueSettlementVolumeRaw (sp_approved ex_shards) = 5" by (simp add: ex_shards_def ex_totals_def)
  ultimately show ?thesis using run by auto
qed

text \<open>
  The limit does not see a relay path of the planner, whose transfers are in \<open>hops\<close>: such
  a claim needs three more blocks than are counted.
\<close>

definition ex_relay_claim :: json where
  "ex_relay_claim = JObj [(''claimId'', JStr ''0xAB''), (''selectedEvidence'', JArr [JObj
     [(''evidenceType'', JStr ''RELAY_PATH''), (''hops'', JArr [JObj [(''blockNumber'', JNum 4)],
        JObj [(''blockNumber'', JNum 5)], JObj [(''blockNumber'', JNum 6)]])]])]"

lemma materialization_blocks_ignore_hops: "countClaimMaterializationBlocks ex_relay_claim (Some 8) = Inr 1"
  by code_simp

end
