(* ===== verification/Return_Graph.thy ===== *)
theory Return_Graph
  imports Discovery
begin

text \<open>
  \<open>scripts/expanded-return-graph.mjs\<close>: the search for all returns seller
  \<open>\<rightarrow>\<close> ... \<open>\<rightarrow>\<close> funder of up to nine hops. The graph is loaded around
  the seller and the funder from cached traces (the parameter \<open>loadTrace\<close>); distances to the
  funder prune the search, which stops at a budget of paths and steps. An edge is the
  normalized transfer; the members the search does not read are left out.
\<close>

section \<open>The graph\<close>

record edge =
  e_from :: string
  e_to :: string
  e_tx :: string
  e_index :: int
  e_time :: int
  e_raw :: int

record return_graph =
  graph :: "(string \<times> edge list) list"
  edges :: "(string \<times> edge) list"
  loaded :: "string list"
  missing :: "string list"

definition edge_identity :: "edge \<Rightarrow> string" where
  "edge_identity t = e_tx t @ '':'' @ show_int (e_index t)"

definition opt_lower :: "string option \<Rightarrow> string res" where
  "opt_lower s = (case s of None \<Rightarrow> Inl TypeError | Some t \<Rightarrow> Inr (toLowerCase t))"

definition to_edge :: "transfer \<Rightarrow> edge res" where
  "to_edge hop = res_bind (opt_lower (from_addr hop)) (\<lambda>f. res_bind (opt_lower (to_addr hop)) (\<lambda>t.
     res_bind (opt_lower (nullish (txHash hop) (transactionHash hop))) (\<lambda>h.
     Inr \<lparr>e_from = f, e_to = t, e_tx = h, e_index = num0 (logIndex hop), e_time = num0 (timestamp hop),
       e_raw = amountRaw hop\<rparr>)))"

definition outgoing :: "return_graph \<Rightarrow> string \<Rightarrow> edge list" where
  "outgoing g address = (case map_of (graph g) address of None \<Rightarrow> [] | Some hs \<Rightarrow> hs)"

definition usable_edge :: "int \<Rightarrow> int \<Rightarrow> edge \<Rightarrow> bool" where
  "usable_edge earliest latest t \<longleftrightarrow> earliest < e_time t \<and> e_time t \<le> latest \<and> e_from t \<noteq> e_to t \<and> 0 < e_raw t"

definition add_edge :: "int \<Rightarrow> int \<Rightarrow> transfer \<Rightarrow> return_graph \<Rightarrow> return_graph res" where
  "add_edge earliest latest hop g = res_bind (to_edge hop) (\<lambda>t.
     if \<not> usable_edge earliest latest t \<or> map_of (edges g) (edge_identity t) \<noteq> None then Inr g
     else Inr (g\<lparr>edges := edges g @ [(edge_identity t, t)],
       graph := AList.update (e_from t) (outgoing g (e_from t) @ [t]) (graph g)\<rparr>))"

definition trace_missing :: "trace option \<Rightarrow> bool" where
  "trace_missing tr \<longleftrightarrow> (case tr of None \<Rightarrow> True | Some t \<Rightarrow> \<not> trace_complete t)"

definition load_address ::
  "(string \<Rightarrow> trace option res) \<Rightarrow> int \<Rightarrow> int \<Rightarrow> string \<Rightarrow> return_graph \<Rightarrow> return_graph res" where
  "load_address loadTrace earliest latest address g =
     (if address \<in> set (loaded g) then Inr g
      else res_bind (loadTrace address) (\<lambda>tr.
        res_fold (add_edge earliest latest) (case tr of None \<Rightarrow> [] | Some t \<Rightarrow> outboundUsdc t)
          (g\<lparr>loaded := loaded g @ [address],
             missing := (if trace_missing tr then set_add (missing g) address else missing g)\<rparr>)))"

definition visit_frontier ::
  "(string \<Rightarrow> trace option res) \<Rightarrow> int \<Rightarrow> int \<Rightarrow> string \<Rightarrow> string \<Rightarrow> string
    \<Rightarrow> return_graph \<times> string list \<Rightarrow> (return_graph \<times> string list) res" where
  "visit_frontier loadTrace earliest latest sl fd address st = (case st of (g, nxt) \<Rightarrow>
     if address = fd \<or> address = sl then Inr st
     else res_bind (load_address loadTrace earliest latest address g) (\<lambda>g'.
       Inr (g', foldl set_add nxt (map e_to (outgoing g' address)))))"

text \<open>The frontier is widened twice.\<close>

definition widen ::
  "(string \<Rightarrow> trace option res) \<Rightarrow> int \<Rightarrow> int \<Rightarrow> string \<Rightarrow> string
    \<Rightarrow> return_graph \<times> string list \<Rightarrow> (return_graph \<times> string list) res" where
  "widen loadTrace earliest latest sl fd st = (case st of (g, frontier) \<Rightarrow>
     res_fold (visit_frontier loadTrace earliest latest sl fd) (sort_strings frontier) (g, []))"

definition load_graph ::
  "string \<Rightarrow> string \<Rightarrow> (string \<Rightarrow> trace option res) \<Rightarrow> int \<Rightarrow> int \<Rightarrow> return_graph res" where
  "load_graph sl fd loadTrace earliest latest =
     res_bind (loadTrace fd) (\<lambda>terminal.
     res_bind (res_fold (add_edge earliest latest) (case terminal of None \<Rightarrow> [] | Some t \<Rightarrow> inboundUsdc t)
       \<lparr>graph = [], edges = [], loaded = [], missing = (if trace_missing terminal then [fd] else [])\<rparr>) (\<lambda>g0.
     res_bind (load_address loadTrace earliest latest sl g0) (\<lambda>g1.
     res_bind (res_fold (\<lambda>_. widen loadTrace earliest latest sl fd) [0 :: nat, 1] (g1, js_set (map e_to (outgoing g1 sl)))) (\<lambda>(g, _).
     Inr g))))"

section \<open>Distances to the funder\<close>

definition reverse_edges :: "edge list \<Rightarrow> (string \<times> string list) list" where
  "reverse_edges es = fold (\<lambda>t m. AList.update (e_to t)
     (set_add (case map_of m (e_to t) of None \<Rightarrow> [] | Some fs \<Rightarrow> fs) (e_from t)) m) es []"

definition previous_of :: "(string \<times> string list) list \<Rightarrow> string \<Rightarrow> string list" where
  "previous_of reverse address = (case map_of reverse address of None \<Rightarrow> [] | Some fs \<Rightarrow> fs)"

definition reach_step ::
  "nat \<Rightarrow> string \<Rightarrow> (string \<times> nat) list \<times> string list \<Rightarrow> (string \<times> nat) list \<times> string list" where
  "reach_step depth previous st = (case st of (distance, nxt) \<Rightarrow>
     if map_of distance previous \<noteq> None then st else (distance @ [(previous, depth)], nxt @ [previous]))"

definition reach_level ::
  "(string \<times> string list) list \<Rightarrow> nat \<Rightarrow> (string \<times> nat) list \<times> string list \<Rightarrow> (string \<times> nat) list \<times> string list" where
  "reach_level reverse depth st = (case st of (distance, reachable) \<Rightarrow>
     fold (reach_step depth) (concat (map (previous_of reverse) reachable)) (distance, []))"

definition distances :: "string \<Rightarrow> edge list \<Rightarrow> (string \<times> nat) list" where
  "distances fd es = fst (fold (reach_level (reverse_edges es)) [1..<10] ([(fd, 0)], [fd]))"

section \<open>The search\<close>

definition edge_order :: "edge \<Rightarrow> edge \<Rightarrow> int" where
  "edge_order left right = or_else (e_time left - e_time right) (e_index left - e_index right)"

record found_path =
  path_hops :: "edge list"
  creditRaw :: int

record walk_state =
  found :: "found_path list"
  steps :: nat
  truncated :: bool

record search =
  sg_graph :: return_graph
  sg_funder :: string
  sg_distance :: "(string \<times> nat) list"
  sg_maxPaths :: nat
  sg_maxSteps :: nat

definition out_of_budget :: "search \<Rightarrow> walk_state \<Rightarrow> bool" where
  "out_of_budget sg st \<longleftrightarrow> sg_maxPaths sg \<le> length (found st) \<or> sg_maxSteps sg \<le> steps st"

definition destinations :: "search \<Rightarrow> string \<Rightarrow> string list" where
  "destinations sg address = js_set (map e_to (outgoing (sg_graph sg) address))"

primrec canFinish :: "search \<Rightarrow> nat \<Rightarrow> string \<Rightarrow> string list \<Rightarrow> bool" where
  "canFinish sg 0 address visited = (address = sg_funder sg)"
| "canFinish sg (Suc remaining) address visited =
     (address = sg_funder sg
      \<or> map_of (sg_distance sg) address \<noteq> None
        \<and> list_ex (\<lambda>nxt. nxt \<notin> set visited \<and> canFinish sg remaining nxt (visited @ [nxt])) (destinations sg address))"

text \<open>The binary search for the first transfer after \<open>previous\<close>.\<close>

function lower_bound :: "edge \<Rightarrow> edge list \<Rightarrow> nat \<Rightarrow> nat \<Rightarrow> nat" where
  "lower_bound previous hs lower upper =
     (if lower < upper then
        (let middle = (lower + upper) div 2 in
         if 0 \<le> edge_order previous (hs ! middle) then lower_bound previous hs (middle + 1) upper
         else lower_bound previous hs lower middle)
      else lower)"
  by pat_completeness auto
termination by (relation "measure (\<lambda>(p, hs, lower, upper). upper - lower)") auto

declare lower_bound.simps [simp del]

text \<open>
  The loop over the transfers out of an address; \<open>descend\<close> is the recursive call of
  \<open>walk\<close>.
\<close>

fun walk_hops ::
  "(edge \<Rightarrow> walk_state \<Rightarrow> walk_state) \<Rightarrow> search \<Rightarrow> edge list \<Rightarrow> string list \<Rightarrow> edge list \<Rightarrow> walk_state \<Rightarrow> walk_state" where
  "walk_hops descend sg selected visited [] st = st"
| "walk_hops descend sg selected visited (hop # rest) st =
     (let st' = st\<lparr>steps := steps st + 1\<rparr> in
      if sg_maxSteps sg \<le> steps st' then st'\<lparr>truncated := True\<rparr>
      else if e_time hop - e_time (hd selected) > T_PATH_SECONDS then st'
      else if 0 \<le> edge_order (last selected) hop \<or> e_to hop \<in> set visited then walk_hops descend sg selected visited rest st'
      else if e_raw hop * 10000 < e_raw (last selected) * RHO_HOP_BPS then walk_hops descend sg selected visited rest st'
      else if \<not> canFinish sg (8 - length selected) (e_to hop) (visited @ [e_to hop])
      then walk_hops descend sg selected visited rest st'
      else (let st'' = descend hop st' in
        if out_of_budget sg st'' then st'' else walk_hops descend sg selected visited rest st''))"

text \<open>A path has at most nine hops, so ten levels of \<open>walk\<close> are never exhausted.\<close>

primrec walk :: "nat \<Rightarrow> search \<Rightarrow> string \<Rightarrow> edge list \<Rightarrow> int \<Rightarrow> string list \<Rightarrow> walk_state \<Rightarrow> walk_state" where
  "walk 0 sg address selected credit visited st = st"
| "walk (Suc level) sg address selected credit visited st =
     (if out_of_budget sg st then st\<lparr>truncated := True\<rparr>
      else if address = sg_funder sg then st\<lparr>found := found st @ [\<lparr>path_hops = selected, creditRaw = credit\<rparr>]\<rparr>
      else if 9 < length selected + (case map_of (sg_distance sg) address of None \<Rightarrow> 10 | Some n \<Rightarrow> n) then st
      else (let hs = outgoing (sg_graph sg) address in
        walk_hops (\<lambda>hop. walk level sg (e_to hop) (selected @ [hop]) (if e_raw hop < credit then e_raw hop else credit)
            (visited @ [e_to hop]))
          sg selected visited (drop (lower_bound (last selected) hs 0 (length hs)) hs) st))"

definition start_order :: "edge \<Rightarrow> edge \<Rightarrow> int" where
  "start_order left right = (if e_raw left = e_raw right then edge_order left right
     else if e_raw left > e_raw right then -1 else 1)"

fun walk_starts :: "search \<Rightarrow> string \<Rightarrow> edge list \<Rightarrow> walk_state \<Rightarrow> walk_state" where
  "walk_starts sg sl [] st = st"
| "walk_starts sg sl (hop # rest) st =
     (let st' = walk 10 sg (e_to hop) [hop] (e_raw hop) [sl, e_to hop] st in
      if out_of_budget sg st' then st'\<lparr>truncated := True\<rparr> else walk_starts sg sl rest st')"

definition sort_graph :: "return_graph \<Rightarrow> return_graph" where
  "sort_graph g = g\<lparr>graph := map (\<lambda>(address, hs). (address, js_sort edge_order hs)) (graph g)\<rparr>"

definition search_of :: "string \<Rightarrow> return_graph \<Rightarrow> nat \<Rightarrow> nat \<Rightarrow> search" where
  "search_of fd g maxPaths maxSteps = \<lparr>sg_graph = sort_graph g, sg_funder = fd,
     sg_distance = distances fd (map snd (edges g)), sg_maxPaths = maxPaths, sg_maxSteps = maxSteps\<rparr>"

definition search_paths :: "string \<Rightarrow> string \<Rightarrow> return_graph \<Rightarrow> nat \<Rightarrow> nat \<Rightarrow> walk_state" where
  "search_paths sl fd g maxPaths maxSteps =
     (let sg = search_of fd g maxPaths maxSteps in
      walk_starts sg sl (js_sort start_order (outgoing (sg_graph sg) sl)) \<lparr>found = [], steps = 0, truncated = False\<rparr>)"

record return_search =
  rs_paths :: "found_path list"
  edgeCount :: nat
  loadedTraceCount :: nat
  missingTraces :: "string list"
  rs_truncated :: bool
  rs_steps :: nat

definition discoverExpandedReturnGraph ::
  "string \<Rightarrow> string \<Rightarrow> (string \<Rightarrow> trace option res) \<Rightarrow> int \<Rightarrow> int \<Rightarrow> int \<Rightarrow> int \<Rightarrow> return_search res" where
  "discoverExpandedReturnGraph sl fd loadTrace earliest latest maxPaths maxSteps =
     res_bind (require (isSafeInteger maxPaths \<and> 0 < maxPaths \<and> isSafeInteger maxSteps \<and> 0 < maxSteps)
       ''invalid return graph limits'') (\<lambda>_.
     res_bind (load_graph sl fd loadTrace earliest latest) (\<lambda>g.
     let st = search_paths sl fd g (nat maxPaths) (nat maxSteps) in
     Inr \<lparr>rs_paths = found st, edgeCount = length (edges g), loadedTraceCount = length (loaded g),
       missingTraces = sort_strings (missing g), rs_truncated = truncated st, rs_steps = steps st\<rparr>))"

section \<open>The order of the transfers\<close>

definition edge_key :: "edge \<Rightarrow> int \<times> int" where
  "edge_key t = (e_time t, e_index t)"

lemma edge_order_key: "edge_order x y < 0 \<longleftrightarrow> edge_key x < edge_key y" "edge_order x y = 0 \<longleftrightarrow> edge_key x = edge_key y"
  by (auto simp: edge_order_def edge_key_def or_else_def)

lemma edge_order_ge: "0 \<le> edge_order x y \<longleftrightarrow> edge_key y \<le> edge_key x"
  using edge_order_key(1) [of x y] by (metis linorder_not_less)

lemma edge_order_le: "edge_order x y \<le> 0 \<longleftrightarrow> edge_key x \<le> edge_key y"
  using edge_order_key [of x y] by (metis order_le_less)

interpretation eo: js_comparator edge_order "\<lambda>_. True"
  by (rule js_comparatorI_key [of _ _ edge_key]) (simp_all add: edge_order_key)

lemma sorted_edges: "sorted_wrt (\<lambda>x y. edge_key x \<le> edge_key y) (js_sort edge_order hs)"
  using eo.sorted_js_sort [of hs] by (simp add: edge_order_le)

text \<open>The binary search finds where the later transfers start.\<close>

lemma lower_bound_between:
  assumes "sorted_wrt (\<lambda>x y. edge_key x \<le> edge_key y) hs" and "lower \<le> upper" "upper \<le> length hs"
    and "\<forall>i<lower. edge_key (hs ! i) \<le> edge_key previous" "\<forall>i<length hs. upper \<le> i \<longrightarrow> edge_key previous < edge_key (hs ! i)"
  shows "(\<forall>i<lower_bound previous hs lower upper. edge_key (hs ! i) \<le> edge_key previous)
    \<and> (\<forall>i<length hs. lower_bound previous hs lower upper \<le> i \<longrightarrow> edge_key previous < edge_key (hs ! i))
    \<and> lower_bound previous hs lower upper \<le> length hs"
  using assms
proof (induction previous hs lower upper rule: lower_bound.induct)
  case (1 previous hs lower upper)
  show ?case
  proof (cases "lower < upper")
    case False
    then have "lower_bound previous hs lower upper = lower" by (subst lower_bound.simps) simp
    moreover have "lower = upper" using False 1(4) by simp
    ultimately show ?thesis using 1 by simp
  next
    case True
    let ?m = "(lower + upper) div 2"
    have m: "lower \<le> ?m" "?m < upper" using True by auto
    have mono: "edge_key (hs ! i) \<le> edge_key (hs ! j)" if "i \<le> j" "j < length hs" for i j
      using that 1(3) by (cases "i = j") (auto simp: sorted_wrt_iff_nth_less)
    show ?thesis
    proof (cases "0 \<le> edge_order previous (hs ! ?m)")
      case le: True
      then have "edge_key (hs ! i) \<le> edge_key previous" if "i < ?m + 1" for i
        using that m mono [of i ?m] 1(5) by (force simp: edge_order_ge)
      then have "\<forall>i<?m + 1. edge_key (hs ! i) \<le> edge_key previous" by blast
      from 1(1) [OF True refl le 1(3) _ 1(5) this 1(7)] show ?thesis
        using True le m by (simp add: lower_bound.simps [of previous hs lower upper] Let_def)
    next
      case False
      then have "edge_key previous < edge_key (hs ! ?m)" by (simp add: edge_order_ge)
      then have "\<forall>i<length hs. ?m \<le> i \<longrightarrow> edge_key previous < edge_key (hs ! i)"
        using mono by (meson order_less_le_trans)
      from 1(2) [OF True refl False 1(3) _ _ 1(6) this] show ?thesis
        using True False m 1(5) by (simp add: lower_bound.simps [of previous hs lower upper] Let_def)
    qed
  qed
qed

lemma lower_bound_drop:
  assumes "sorted_wrt (\<lambda>x y. edge_key x \<le> edge_key y) hs"
  shows "drop (lower_bound previous hs 0 (length hs)) hs = filter (\<lambda>h. edge_order previous h < 0) hs"
proof -
  let ?r = "lower_bound previous hs 0 (length hs)"
  have r: "\<forall>i<?r. edge_key (hs ! i) \<le> edge_key previous" "\<forall>i<length hs. ?r \<le> i \<longrightarrow> edge_key previous < edge_key (hs ! i)"
    "?r \<le> length hs"
    using lower_bound_between [OF assms, of 0 "length hs" previous] by auto
  have "filter (\<lambda>h. edge_order previous h < 0) (take ?r hs) = []"
    using r(1,3) by (auto simp: filter_empty_conv edge_order_key in_set_conv_nth not_less)
  moreover have "filter (\<lambda>h. edge_order previous h < 0) (drop ?r hs) = drop ?r hs"
    using r(2) by (auto simp: filter_id_conv edge_order_key in_set_conv_nth)
  ultimately show ?thesis by (metis append_Nil append_take_drop_id filter_append)
qed

section \<open>The graph holds the usable transfers\<close>

definition edge_list :: "return_graph \<Rightarrow> edge list" where
  "edge_list g = map snd (edges g)"

definition graph_ok :: "return_graph \<Rightarrow> bool" where
  "graph_ok g \<longleftrightarrow> (\<forall>a. outgoing g a = filter (\<lambda>t. e_from t = a) (edge_list g))"

lemma add_edge_ok:
  assumes "add_edge earliest latest hop g = Inr g'" and "graph_ok g" and "\<forall>t\<in>set (edge_list g). usable_edge earliest latest t"
  shows "graph_ok g' \<and> (\<forall>t\<in>set (edge_list g'). usable_edge earliest latest t)"
proof -
  obtain t where "g' = g \<or> usable_edge earliest latest t \<and> g' = g\<lparr>edges := edges g @ [(edge_identity t, t)],
       graph := AList.update (e_from t) (outgoing g (e_from t) @ [t]) (graph g)\<rparr>"
    using assms(1) by (auto simp: add_edge_def res_bind_Inr split: if_splits)
  then show ?thesis using assms(2,3)
    by (auto simp: graph_ok_def outgoing_def edge_list_def update_conv')
qed

definition graph_inv :: "int \<Rightarrow> int \<Rightarrow> return_graph \<Rightarrow> bool" where
  "graph_inv earliest latest g \<longleftrightarrow> graph_ok g \<and> (\<forall>t\<in>set (edge_list g). usable_edge earliest latest t)"

lemma add_edges_inv:
  "res_fold (add_edge earliest latest) hs g = Inr g' \<Longrightarrow> graph_inv earliest latest g \<Longrightarrow> graph_inv earliest latest g'"
  by (erule res_fold_invariant) (auto simp: graph_inv_def dest: add_edge_ok)

lemma load_address_inv:
  assumes "load_address loadTrace earliest latest a g = Inr g'" and "graph_inv earliest latest g"
  shows "graph_inv earliest latest g'"
proof (cases "a \<in> set (loaded g)")
  case False
  then obtain hs h where "res_fold (add_edge earliest latest) hs h = Inr g'" "graph h = graph g" "edges h = edges g"
    using assms(1) by (force simp: load_address_def res_bind_Inr)
  moreover have "graph_inv earliest latest h"
    using assms(2) calculation(2,3) by (simp add: graph_inv_def graph_ok_def outgoing_def edge_list_def)
  ultimately show ?thesis using add_edges_inv by blast
qed (use assms in \<open>simp add: load_address_def\<close>)

lemma widen_inv:
  assumes "widen loadTrace earliest latest sl fd st = Inr st'" and "graph_inv earliest latest (fst st)"
  shows "graph_inv earliest latest (fst st')"
proof -
  have step: "graph_inv earliest latest (fst v)"
    if "visit_frontier loadTrace earliest latest sl fd a u = Inr v" "graph_inv earliest latest (fst u)" for a u v
    using that by (auto simp: visit_frontier_def res_bind_Inr split: if_splits prod.splits dest: load_address_inv)
  obtain g frontier where st: "st = (g, frontier)" by (cases st)
  then have "res_fold (visit_frontier loadTrace earliest latest sl fd) (sort_strings frontier) (g, []) = Inr st'"
    using assms(1) by (simp add: widen_def)
  from res_fold_invariant [OF this, of "\<lambda>s. graph_inv earliest latest (fst s)"] show ?thesis
    using assms(2) st step by auto
qed

lemma load_graph_inv:
  assumes "load_graph sl fd loadTrace earliest latest = Inr g"
  shows "graph_inv earliest latest g"
proof -
  obtain terminal g0 g1 frontier where g0: "res_fold (add_edge earliest latest) (case terminal of None \<Rightarrow> [] | Some t \<Rightarrow> inboundUsdc t)
       \<lparr>graph = [], edges = [], loaded = [], missing = (if trace_missing terminal then [fd] else [])\<rparr> = Inr g0"
    and g1: "load_address loadTrace earliest latest sl g0 = Inr g1"
    and g: "res_fold (\<lambda>_. widen loadTrace earliest latest sl fd) [0 :: nat, 1] (g1, js_set (map e_to (outgoing g1 sl))) = Inr (g, frontier)"
    using assms by (auto simp: load_graph_def res_bind_Inr)
  have "graph_inv earliest latest g0"
    by (rule add_edges_inv [OF g0]) (simp add: graph_inv_def graph_ok_def outgoing_def edge_list_def)
  then have "graph_inv earliest latest g1" by (rule load_address_inv [OF g1])
  with res_fold_invariant [OF g, of "\<lambda>s. graph_inv earliest latest (fst s)"] show ?thesis using widen_inv by auto
qed

section \<open>Distances\<close>

lemma previous_of_reverse: "set (previous_of (reverse_edges es) b) = {e_from t | t. t \<in> set es \<and> e_to t = b}"
proof -
  let ?add = "\<lambda>t m. AList.update (e_to t) (set_add (case map_of m (e_to t) of None \<Rightarrow> [] | Some fs \<Rightarrow> fs) (e_from t)) m"
  have "set (previous_of (fold ?add es m) b) = set (previous_of m b) \<union> {e_from t | t. t \<in> set es \<and> e_to t = b}" for m
  proof (induction es arbitrary: m)
    case (Cons t es)
    have "set (previous_of (?add t m) b) = set (previous_of m b) \<union> (if e_to t = b then {e_from t} else {})"
      by (auto simp: previous_of_def update_conv')
    then show ?case using Cons.IH [of "?add t m"] by auto
  qed simp
  from this [of "[]"] show ?thesis by (simp add: reverse_edges_def previous_of_def)
qed

lemma reach_step_pair:
  "reach_step depth x (dist, nxt) = (if map_of dist x = None then (dist @ [(x, depth)], nxt @ [x]) else (dist, nxt))"
  by (simp add: reach_step_def)

lemma reach_steps:
  "fold (reach_step depth) as (dist, nxt) = (dist', nxt') \<Longrightarrow>
   (\<forall>a. map_of dist' a = (case map_of dist a of Some d \<Rightarrow> Some d | None \<Rightarrow> if a \<in> set as then Some depth else None))
   \<and> set nxt' = set nxt \<union> {a \<in> set as. map_of dist a = None}"
proof (induction as arbitrary: dist nxt)
  case (Cons x xs)
  show ?case
  proof (cases "map_of dist x")
    case None
    then have "fold (reach_step depth) xs (dist @ [(x, depth)], nxt @ [x]) = (dist', nxt')"
      using Cons.prems by (simp add: reach_step_pair)
    note IH = Cons.IH [OF this]
    have grown: "map_of (dist @ [(x, depth)]) a = (if a = x then Some depth else map_of dist a)" for a
      using None by (simp add: map_add_def split: option.split)
    have "map_of dist' a = (case map_of dist a of Some d \<Rightarrow> Some d | None \<Rightarrow> if a \<in> set (x # xs) then Some depth else None)" for a
      using conjunct1 [OF IH] None unfolding grown by (cases "a = x") simp_all
    moreover have "set nxt' = set nxt \<union> {a \<in> set (x # xs). map_of dist a = None}"
      using conjunct2 [OF IH] None unfolding grown by auto
    ultimately show ?thesis by blast
  next
    case (Some d)
    then have "fold (reach_step depth) xs (dist, nxt) = (dist', nxt')" using Cons.prems by (simp add: reach_step_pair)
    from Cons.IH [OF this] Some show ?thesis by (auto split: option.splits)
  qed
qed (auto split: option.splits)

text \<open>After the levels up to \<open>k\<close>: the last level is the set reached, and what precedes an
  earlier level is at most one further away.\<close>

definition level_inv :: "string \<Rightarrow> edge list \<Rightarrow> nat \<Rightarrow> (string \<times> nat) list \<times> string list \<Rightarrow> bool" where
  "level_inv fd es k st \<longleftrightarrow> (case st of (dist, reachable) \<Rightarrow>
     (\<forall>a d. map_of dist a = Some d \<longrightarrow> d \<le> k) \<and> (\<forall>a. a \<in> set reachable \<longleftrightarrow> map_of dist a = Some k)
     \<and> (\<forall>a. map_of dist a = Some 0 \<longleftrightarrow> a = fd)
     \<and> (\<forall>t\<in>set es. \<forall>d. map_of dist (e_to t) = Some d \<and> d < k \<longrightarrow> (\<exists>d'\<le>d + 1. map_of dist (e_from t) = Some d')))"

lemma level_step:
  assumes "level_inv fd es k (dist, reachable)"
  shows "level_inv fd es (Suc k) (reach_level (reverse_edges es) (Suc k) (dist, reachable))"
proof -
  let ?as = "concat (map (previous_of (reverse_edges es)) reachable)"
  obtain dist' nxt' where run: "fold (reach_step (Suc k)) ?as (dist, []) = (dist', nxt')" by fastforce
  note r = conjunct1 [OF reach_steps [OF run]] conjunct2 [OF reach_steps [OF run]]
  have level: "reach_level (reverse_edges es) (Suc k) (dist, reachable) = (dist', nxt')" by (simp add: reach_level_def run)
  have as: "a \<in> set ?as \<longleftrightarrow> (\<exists>t\<in>set es. e_from t = a \<and> map_of dist (e_to t) = Some k)" for a
    using assms by (auto simp: previous_of_reverse level_inv_def)
  have small: "map_of dist a = Some d \<Longrightarrow> d \<le> k" for a d using assms by (auto simp: level_inv_def)
  have dist: "map_of dist' a = Some d \<longleftrightarrow> map_of dist a = Some d \<or> map_of dist a = None \<and> a \<in> set ?as \<and> d = Suc k" for a d
    using r(1) by (auto split: option.splits)
  have "\<exists>d'\<le>d + 1. map_of dist' (e_from t) = Some d'" if "t \<in> set es" "map_of dist' (e_to t) = Some d" "d < Suc k" for t d
  proof -
    have d: "map_of dist (e_to t) = Some d" using that(2,3) dist by auto
    show ?thesis
    proof (cases "d < k")
      case True
      then show ?thesis using assms that(1) d dist by (fastforce simp: level_inv_def)
    next
      case False
      then have "d = k" using small [OF d] by simp
      then have "e_from t \<in> set ?as" using as that(1) d by blast
      then show ?thesis using dist [of "e_from t"] small [of "e_from t"] \<open>d = k\<close>
        by (cases "map_of dist (e_from t)") (auto intro: le_SucI)
    qed
  qed
  moreover have "map_of dist' a = Some 0 \<longleftrightarrow> a = fd" for a using assms by (auto simp: dist level_inv_def)
  moreover have "a \<in> set nxt' \<longleftrightarrow> map_of dist' a = Some (Suc k)" for a
    using r(2) dist small [of a "Suc k"] by auto
  moreover have "d \<le> Suc k" if "map_of dist' a = Some d" for a d using that dist small [of a d] by auto
  ultimately show ?thesis unfolding level level_inv_def by blast
qed

lemma distances_inv: "\<exists>reachable. level_inv fd es 9 (distances fd es, reachable)"
proof -
  have levels: "level_inv fd es k (fold (reach_level (reverse_edges es)) [1..<Suc k] ([(fd, 0)], [fd]))" for k
  proof (induction k)
    case 0
    then show ?case by (auto simp: level_inv_def)
  next
    case (Suc k)
    let ?st = "fold (reach_level (reverse_edges es)) [1..<Suc k] ([(fd, 0)], [fd])"
    have "[1..<Suc (Suc k)] = [1..<Suc k] @ [Suc k]" by simp
    then have "fold (reach_level (reverse_edges es)) [1..<Suc (Suc k)] ([(fd, 0)], [fd]) = reach_level (reverse_edges es) (Suc k) ?st"
      by (simp only: fold_append fold_simps comp_apply)
    then show ?case using level_step [of fd es k "fst ?st" "snd ?st"] Suc.IH by simp
  qed
  have "[1..<10] = [1..<Suc 9]" by simp
  then have "distances fd es = fst (fold (reach_level (reverse_edges es)) [1..<Suc 9] ([(fd, 0)], [fd]))"
    by (simp only: distances_def)
  with levels [of 9] show ?thesis by (metis prod.collapse)
qed

text \<open>The distance is at most the number of hops of any path of up to nine.\<close>

fun leads :: "edge list \<Rightarrow> string \<Rightarrow> string \<Rightarrow> edge list \<Rightarrow> bool" where
  "leads es a fd [] = (a = fd)"
| "leads es a fd (h # hs) = (h \<in> set es \<and> e_from h = a \<and> leads es (e_to h) fd hs)"

lemma distance_le:
  "leads es a fd hs \<Longrightarrow> length hs \<le> 9 \<Longrightarrow> \<exists>d\<le>length hs. map_of (distances fd es) a = Some d"
proof (induction hs arbitrary: a)
  case Nil
  obtain reachable where "level_inv fd es 9 (distances fd es, reachable)" using distances_inv by blast
  then show ?case using Nil by (auto simp: level_inv_def)
next
  case (Cons h hs)
  obtain reachable where inv: "level_inv fd es 9 (distances fd es, reachable)" using distances_inv by blast
  obtain d where "d \<le> length hs" "map_of (distances fd es) (e_to h) = Some d" using Cons by auto
  moreover have "\<forall>t\<in>set es. \<forall>d. map_of (distances fd es) (e_to t) = Some d \<and> d < 9 \<longrightarrow>
      (\<exists>d'\<le>d + 1. map_of (distances fd es) (e_from t) = Some d')"
    using inv by (simp add: level_inv_def)
  moreover have "h \<in> set es" "length hs < 9" using Cons.prems by simp_all
  ultimately have "\<exists>d'\<le>d + 1. map_of (distances fd es) (e_from h) = Some d'" by (meson order_le_less_trans)
  then show ?case using \<open>d \<le> length hs\<close> Cons.prems(1) by force
qed

lemma distance_0: "map_of (distances fd es) a = Some 0 \<longleftrightarrow> a = fd"
  using distances_inv [of fd es] by (auto simp: level_inv_def)

section \<open>Return paths\<close>

definition follows :: "edge \<Rightarrow> edge \<Rightarrow> bool" where
  "follows x y \<longleftrightarrow> e_to x = e_from y \<and> edge_order x y < 0 \<and> e_raw x * RHO_HOP_BPS \<le> e_raw y * 10000"

text \<open>What the search has selected: a path of different addresses out of the seller, in time and retaining.\<close>

definition partial_path :: "edge list \<Rightarrow> string \<Rightarrow> edge list \<Rightarrow> bool" where
  "partial_path es sl p \<longleftrightarrow> p \<noteq> [] \<and> set p \<subseteq> set es \<and> e_from (hd p) = sl \<and> successively follows p
     \<and> distinct (sl # map e_to p) \<and> e_time (last p) - e_time (hd p) \<le> T_PATH_SECONDS"

definition return_path :: "edge list \<Rightarrow> string \<Rightarrow> string \<Rightarrow> edge list \<Rightarrow> bool" where
  "return_path es sl fd p \<longleftrightarrow> partial_path es sl p \<and> e_to (last p) = fd \<and> length p \<le> 9"

definition path_credit :: "edge list \<Rightarrow> int" where
  "path_credit p = Min (e_raw ` set p)"

definition good_path :: "edge list \<Rightarrow> string \<Rightarrow> string \<Rightarrow> found_path \<Rightarrow> bool" where
  "good_path es sl fd q \<longleftrightarrow> return_path es sl fd (path_hops q) \<and> creditRaw q = path_credit (path_hops q)"

definition walk_args :: "edge list \<Rightarrow> string \<Rightarrow> string \<Rightarrow> edge list \<Rightarrow> int \<Rightarrow> string list \<Rightarrow> bool" where
  "walk_args es sl address selected credit visited \<longleftrightarrow> partial_path es sl selected \<and> e_to (last selected) = address
     \<and> visited = sl # map e_to selected \<and> credit = path_credit selected \<and> length selected \<le> 9"

definition search_ok :: "edge list \<Rightarrow> search \<Rightarrow> bool" where
  "search_ok es sg \<longleftrightarrow> (\<forall>a. sorted_wrt (\<lambda>x y. edge_key x \<le> edge_key y) (outgoing (sg_graph sg) a)
       \<and> set (outgoing (sg_graph sg) a) = {t \<in> set es. e_from t = a})
     \<and> sg_distance sg = distances (sg_funder sg) es"

definition hop_ok :: "edge list \<Rightarrow> string list \<Rightarrow> edge \<Rightarrow> bool" where
  "hop_ok selected visited hop \<longleftrightarrow> e_time hop - e_time (hd selected) \<le> T_PATH_SECONDS \<and> edge_order (last selected) hop < 0
     \<and> e_to hop \<notin> set visited \<and> e_raw (last selected) * RHO_HOP_BPS \<le> e_raw hop * 10000"

lemma path_credit_snoc: "p \<noteq> [] \<Longrightarrow> path_credit (p @ [h]) = (if e_raw h < path_credit p then e_raw h else path_credit p)"
proof -
  assume "p \<noteq> []"
  then have "path_credit (p @ [h]) = min (e_raw h) (path_credit p)" by (simp add: path_credit_def)
  then show ?thesis by (simp add: min_def)
qed

lemma partial_path_snoc:
  "selected \<noteq> [] \<Longrightarrow> partial_path es sl (selected @ [hop]) \<longleftrightarrow> successively follows selected \<and> set selected \<subseteq> set es
     \<and> e_from (hd selected) = sl \<and> distinct (sl # map e_to selected) \<and> hop \<in> set es \<and> e_from hop = e_to (last selected)
     \<and> hop_ok selected (sl # map e_to selected) hop"
  by (auto simp: partial_path_def hop_ok_def follows_def successively_append_iff)

lemma walk_args_snoc:
  assumes "walk_args es sl address selected credit visited" and "hop \<in> set es" "e_from hop = address" "hop_ok selected visited hop"
    and "length selected \<le> 8"
  shows "walk_args es sl (e_to hop) (selected @ [hop]) (if e_raw hop < credit then e_raw hop else credit) (visited @ [e_to hop])"
proof -
  have selected: "partial_path es sl selected" "e_to (last selected) = address" "visited = sl # map e_to selected"
    "credit = path_credit selected" using assms(1) by (simp_all add: walk_args_def)
  then have "selected \<noteq> []" by (simp add: partial_path_def)
  then have "partial_path es sl (selected @ [hop])"
    using selected assms(2-4) unfolding partial_path_snoc [OF \<open>selected \<noteq> []\<close>] by (simp add: partial_path_def)
  then show ?thesis using selected assms(5) by (simp add: walk_args_def path_credit_snoc [OF \<open>selected \<noteq> []\<close>])
qed

section \<open>The search keeps its budget and finds return paths only\<close>

definition within :: "(found_path \<Rightarrow> bool) \<Rightarrow> search \<Rightarrow> walk_state \<Rightarrow> bool" where
  "within ok sg st \<longleftrightarrow> (\<forall>q\<in>set (found st). ok q) \<and> length (found st) \<le> sg_maxPaths sg \<and> steps st \<le> sg_maxSteps sg"

lemma walk_hops_within:
  assumes "within ok sg st" and "\<not> out_of_budget sg st"
    and "\<And>hop u. hop \<in> set hs \<Longrightarrow> hop_ok selected visited hop \<Longrightarrow> within ok sg u \<Longrightarrow> within ok sg (descend hop u)"
  shows "within ok sg (walk_hops descend sg selected visited hs st)"
  using assms
proof (induction hs arbitrary: st)
  case (Cons hop rest)
  let ?st = "st\<lparr>steps := steps st + 1\<rparr>"
  have st: "within ok sg ?st" "within ok sg (?st\<lparr>truncated := True\<rparr>)"
    using Cons.prems(1,2) by (auto simp: within_def out_of_budget_def)
  have "steps ?st < sg_maxSteps sg \<Longrightarrow> \<not> out_of_budget sg ?st" using Cons.prems(2) by (simp add: out_of_budget_def)
  note rest = Cons.IH [OF _ _ Cons.prems(3)]
  have descend: "within ok sg (descend hop ?st)" if "hop_ok selected visited hop"
    using Cons.prems(3) [of hop ?st] that st(1) by simp
  show ?case
  proof (cases "steps ?st < sg_maxSteps sg \<and> hop_ok selected visited hop \<and> canFinish sg (8 - length selected) (e_to hop) (visited @ [e_to hop])")
    case True
    then have "walk_hops descend sg selected visited (hop # rest) st = (if out_of_budget sg (descend hop ?st) then descend hop ?st
        else walk_hops descend sg selected visited rest (descend hop ?st))"
      by (auto simp: hop_ok_def Let_def)
    then show ?thesis using rest [of "descend hop ?st"] descend True by auto
  next
    case False
    then have "walk_hops descend sg selected visited (hop # rest) st \<in> {?st, ?st\<lparr>truncated := True\<rparr>, walk_hops descend sg selected visited rest ?st}
      \<and> (steps ?st < sg_maxSteps sg \<or> walk_hops descend sg selected visited (hop # rest) st = ?st\<lparr>truncated := True\<rparr>)"
      by (auto simp: hop_ok_def Let_def not_less)
    moreover have "within ok sg (walk_hops descend sg selected visited rest ?st)" if "steps ?st < sg_maxSteps sg"
      using rest [of ?st] st(1) that Cons.prems(2) by (simp add: out_of_budget_def)
    ultimately show ?thesis using st by auto
  qed
qed simp

lemma walk_within:
  assumes "search_ok es sg" and "walk_args es sl address selected credit visited" and "within (good_path es sl (sg_funder sg)) sg st"
  shows "within (good_path es sl (sg_funder sg)) sg (walk level sg address selected credit visited st)"
  using assms(2,3)
proof (induction level arbitrary: address selected credit visited st)
  case (Suc level)
  let ?hs = "outgoing (sg_graph sg) address"
  consider (budget) "out_of_budget sg st" | (found) "\<not> out_of_budget sg st" "address = sg_funder sg"
    | (far) "\<not> out_of_budget sg st" "address \<noteq> sg_funder sg" "9 < length selected + (case map_of (sg_distance sg) address of None \<Rightarrow> 10 | Some n \<Rightarrow> n)"
    | (near) "\<not> out_of_budget sg st" "address \<noteq> sg_funder sg" "\<not> 9 < length selected + (case map_of (sg_distance sg) address of None \<Rightarrow> 10 | Some n \<Rightarrow> n)"
    by blast
  then show ?case
  proof cases
    case budget
    then show ?thesis using Suc.prems(2) by (simp add: within_def)
  next
    case found
    then show ?thesis using Suc.prems by (auto simp: within_def out_of_budget_def good_path_def return_path_def walk_args_def)
  next
    case far
    then show ?thesis using Suc.prems by simp
  next
    case near
    obtain n where n: "map_of (sg_distance sg) address = Some n" "length selected + n \<le> 9"
      using near(3) by (cases "map_of (sg_distance sg) address") auto
    have "n \<noteq> 0" using n(1) near(2) assms(1) distance_0 [of "sg_funder sg" es address] by (auto simp: search_ok_def)
    then have len: "length selected \<le> 8" using n(2) by simp
    have "within (good_path es sl (sg_funder sg)) sg (walk level sg (e_to hop) (selected @ [hop])
        (if e_raw hop < credit then e_raw hop else credit) (visited @ [e_to hop]) u)"
      if "hop \<in> set (drop (lower_bound (last selected) ?hs 0 (length ?hs)) ?hs)" "hop_ok selected visited hop"
        "within (good_path es sl (sg_funder sg)) sg u" for hop u
    proof (rule Suc.IH [OF walk_args_snoc [OF Suc.prems(1) _ _ that(2) len] that(3)])
      have "hop \<in> set ?hs" using that(1) by (rule in_set_dropD)
      then show "hop \<in> set es" "e_from hop = address" using assms(1) by (auto simp: search_ok_def)
    qed
    then show ?thesis using near walk_hops_within [OF Suc.prems(2) near(1)] by (simp add: Let_def)
  qed
qed simp

section \<open>A search that is not truncated finds every return path\<close>

definition grows :: "walk_state \<Rightarrow> walk_state \<Rightarrow> bool" where
  "grows st st' \<longleftrightarrow> Sublist.prefix (found st) (found st') \<and> steps st \<le> steps st' \<and> (truncated st \<longrightarrow> truncated st')"

definition running_search :: "search \<Rightarrow> walk_state \<Rightarrow> bool" where
  "running_search sg st \<longleftrightarrow> \<not> truncated st \<and> \<not> out_of_budget sg st"

lemma grows_refl [simp]: "grows st st"
  by (simp add: grows_def)

lemma grows_trans: "grows s t \<Longrightarrow> grows t u \<Longrightarrow> grows s u"
  by (auto simp: grows_def)

lemma running_back: "running_search sg st' \<Longrightarrow> grows st st' \<Longrightarrow> running_search sg st"
  by (auto simp: running_search_def out_of_budget_def grows_def dest!: prefix_length_le)

lemma walk_hops_grows:
  assumes "\<And>hop u. grows u (descend hop u)"
  shows "grows st (walk_hops descend sg selected visited hs st)"
proof (induction hs arbitrary: st)
  case (Cons hop rest)
  let ?st = "st\<lparr>steps := steps st + 1\<rparr>"
  have st: "grows st ?st" "grows st (?st\<lparr>truncated := True\<rparr>)" by (simp_all add: grows_def)
  have "grows st (walk_hops descend sg selected visited rest ?st)" using st(1) Cons.IH by (rule grows_trans)
  moreover have "grows st (descend hop ?st)" using st(1) assms by (rule grows_trans)
  moreover have "grows st (walk_hops descend sg selected visited rest (descend hop ?st))"
    using calculation(2) Cons.IH by (rule grows_trans)
  ultimately show ?case using st by (simp add: Let_def)
qed simp

lemma walk_grows: "grows st (walk level sg address selected credit visited st)"
proof (induction level arbitrary: address selected credit visited st)
  case (Suc level)
  have "grows st (st\<lparr>truncated := True\<rparr>)" "grows st (st\<lparr>found := found st @ x\<rparr>)" for x by (simp_all add: grows_def)
  then show ?case using Suc.IH by (auto simp: Let_def intro!: walk_hops_grows)
qed simp

lemma walk_hops_reaches:
  assumes "\<And>hop u. grows u (descend hop u)" and "running_search sg (walk_hops descend sg selected visited hs st)"
    and "h \<in> set hs" "sorted_wrt (\<lambda>x y. edge_key x \<le> edge_key y) hs" "hop_ok selected visited h"
    and "canFinish sg (8 - length selected) (e_to h) (visited @ [e_to h])"
  shows "\<exists>u. running_search sg (descend h u) \<and> Sublist.prefix (found (descend h u)) (found (walk_hops descend sg selected visited hs st))"
  using assms(2-4)
proof (induction hs arbitrary: st)
  case (Cons hop rest)
  let ?st = "st\<lparr>steps := steps st + 1\<rparr>" and ?run = "walk_hops descend sg selected visited (hop # rest) st"
  have limit: "\<not> sg_maxSteps sg \<le> steps ?st"
    using Cons.prems(1) by (auto simp: running_search_def Let_def)
  have in_time: "\<not> e_time hop - e_time (hd selected) > T_PATH_SECONDS"
  proof -
    have "e_time hop \<le> e_time h" using Cons.prems(2,3) by (auto simp: edge_key_def)
    then show ?thesis using assms(5) by (simp add: hop_ok_def)
  qed
  show ?case
  proof (cases "hop_ok selected visited hop \<and> canFinish sg (8 - length selected) (e_to hop) (visited @ [e_to hop])")
    case True
    then have run: "?run = (if out_of_budget sg (descend hop ?st) then descend hop ?st
        else walk_hops descend sg selected visited rest (descend hop ?st))"
      using limit in_time by (auto simp: hop_ok_def Let_def)
    have "\<not> out_of_budget sg (descend hop ?st)" using Cons.prems(1) run by (auto simp: running_search_def)
    then have rest: "?run = walk_hops descend sg selected visited rest (descend hop ?st)" using run by simp
    have grown: "grows (descend hop ?st) ?run" unfolding rest by (rule walk_hops_grows [OF assms(1)])
    show ?thesis
    proof (cases "h = hop")
      case True
      then show ?thesis using running_back [OF Cons.prems(1) grown] grown by (auto simp: grows_def)
    next
      case False
      then show ?thesis unfolding rest using Cons.IH [of "descend hop ?st"] Cons.prems rest by simp
    qed
  next
    case False
    then have rest: "?run = walk_hops descend sg selected visited rest ?st"
      using limit in_time by (auto simp: hop_ok_def Let_def)
    have "h \<noteq> hop" using False assms(5,6) by auto
    then show ?thesis unfolding rest using Cons.IH [of ?st] Cons.prems rest by simp
  qed
qed simp

lemma can_finish:
  assumes "search_ok es sg"
  shows "leads es a (sg_funder sg) rest \<Longrightarrow> length rest \<le> remaining \<Longrightarrow> length rest \<le> 9 \<Longrightarrow> distinct (map e_to rest)
    \<Longrightarrow> e_to ` set rest \<inter> set visited = {} \<Longrightarrow> canFinish sg remaining a visited"
proof (induction rest arbitrary: a remaining visited)
  case Nil
  then show ?case by (cases remaining) auto
next
  case (Cons h rest)
  obtain m where m: "remaining = Suc m" using Cons.prems(2) by (cases remaining) auto
  obtain d where "map_of (sg_distance sg) a = Some d"
    using distance_le [OF Cons.prems(1,3)] assms by (auto simp: search_ok_def)
  moreover have "e_to h \<in> set (destinations sg a)" using Cons.prems(1) assms by (auto simp: destinations_def search_ok_def)
  moreover have "canFinish sg m (e_to h) (visited @ [e_to h])"
    using Cons.prems m by (intro Cons.IH) auto
  moreover have "e_to h \<notin> set visited" using Cons.prems(5) by auto
  ultimately show ?case by (auto simp: m list_ex_iff)
qed

lemma path_leads:
  "successively follows (x # rest) \<Longrightarrow> set rest \<subseteq> set es \<Longrightarrow> leads es (e_to x) (e_to (last (x # rest))) rest"
  by (induction rest arbitrary: x) (auto simp: follows_def)

lemma path_times: "successively follows (x # ys) \<Longrightarrow> y \<in> set ys \<Longrightarrow> e_time x \<le> e_time y"
proof (induction ys arbitrary: x)
  case (Cons z zs)
  then have "e_time x \<le> e_time z" by (auto simp: follows_def edge_order_key edge_key_def)
  then show ?case using Cons.prems Cons.IH [of z] by auto
qed simp

lemma walk_complete:
  assumes "search_ok es sg" and "return_path es sl (sg_funder sg) (selected @ rest)"
    and "walk_args es sl address selected credit visited"
    and "10 \<le> level + length selected" and "running_search sg (walk level sg address selected credit visited st)"
  shows "selected @ rest \<in> path_hops ` set (found (walk level sg address selected credit visited st))"
  using assms(2-5)
proof (induction level arbitrary: address selected credit visited st rest)
  case 0
  then show ?case by (auto simp: walk_args_def)
next
  case (Suc level)
  let ?p = "selected @ rest" and ?fd = "sg_funder sg" and ?hs = "outgoing (sg_graph sg) address"
  have path: "partial_path es sl ?p" "e_to (last ?p) = ?fd" "length ?p \<le> 9" using Suc.prems(1) by (simp_all add: return_path_def)
  have args: "selected \<noteq> []" "e_to (last selected) = address" "visited = sl # map e_to selected"
    using Suc.prems(2) by (auto simp: walk_args_def partial_path_def)
  have "\<not> out_of_budget sg st" using running_back [OF Suc.prems(4) walk_grows] by (simp add: running_search_def)
  note unfolded = walk.simps(2) [of level sg address selected credit visited st]
  show ?case
  proof (cases rest)
    case Nil
    then have "address = ?fd" using path(2) args(2) by simp
    then show ?thesis using Nil \<open>\<not> out_of_budget sg st\<close> by (simp add: image_iff)
  next
    case (Cons h rest')
    have dist: "distinct (sl # map e_to ?p)" and succ: "successively follows ?p" and es: "set ?p \<subseteq> set es"
      using path(1) by (simp_all add: partial_path_def)
    have "address \<noteq> ?fd"
    proof
      assume "address = ?fd"
      then have "e_to (last selected) = e_to (last rest)" using path(2) args(2) Cons by simp
      moreover have "last selected \<in> set selected" "last rest \<in> set rest" using args(1) Cons by simp_all
      moreover have "e_to ` set selected \<inter> e_to ` set rest = {}" using dist by simp
      ultimately show False by (metis disjoint_iff image_eqI)
    qed
    have "successively follows (last selected # rest)"
      using succ args(1) by (auto simp: successively_append_iff successively_Cons)
    note tail = path_leads [OF this, of es] path_times [OF this]
    have rest_es: "set rest \<subseteq> set es" using es by simp
    have lead: "leads es address ?fd rest" using tail(1) [OF rest_es] path(2) args(2) Cons by simp
    then obtain d where d: "map_of (sg_distance sg) address = Some d" "d \<le> length rest"
      using distance_le [OF lead] path(3) assms(1) by (auto simp: search_ok_def)
    have "successively follows (h # rest')" using succ Cons by (simp add: successively_append_iff)
    then have "e_time h \<le> e_time (last ?p)" using path_times [of h rest' "last rest'"] Cons by simp
    then have "e_time h - e_time (hd selected) \<le> T_PATH_SECONDS"
      using path(1) args(1) by (simp add: partial_path_def)
    then have snoc: "partial_path es sl (selected @ [h])"
      using path(1) Cons args(1) by (simp add: partial_path_def successively_append_iff)
    then have h: "hop_ok selected visited h" "h \<in> set es" "e_from h = address"
      using args unfolding partial_path_snoc [OF args(1)] by simp_all
    have finish: "canFinish sg (8 - length selected) (e_to h) (visited @ [e_to h])"
      using lead path(3) dist args(3) Cons by (intro can_finish [OF assms(1), of _ rest']) auto
    have sorted: "sorted_wrt (\<lambda>x y. edge_key x \<le> edge_key y) ?hs" and out: "set ?hs = {t \<in> set es. e_from t = address}"
      using assms(1) by (auto simp: search_ok_def)
    note later = lower_bound_drop [OF sorted, of "last selected"]
    have "\<not> 9 < length selected + d" using d(2) path(3) by simp
    then have run: "walk (Suc level) sg address selected credit visited st =
        walk_hops (\<lambda>hop. walk level sg (e_to hop) (selected @ [hop]) (if e_raw hop < credit then e_raw hop else credit) (visited @ [e_to hop]))
          sg selected visited (filter (\<lambda>h. edge_order (last selected) h < 0) ?hs) st"
      using \<open>\<not> out_of_budget sg st\<close> \<open>address \<noteq> ?fd\<close> d(1) by (simp add: Let_def later)
    have "h \<in> set (filter (\<lambda>h. edge_order (last selected) h < 0) ?hs)" using h out by (simp add: hop_ok_def)
    from walk_hops_reaches [OF walk_grows Suc.prems(4) [unfolded run] this sorted_wrt_filter [OF sorted] h(1) finish]
    obtain u where u: "running_search sg (walk level sg (e_to h) (selected @ [h]) (if e_raw h < credit then e_raw h else credit) (visited @ [e_to h]) u)"
      and found: "set (found (walk level sg (e_to h) (selected @ [h]) (if e_raw h < credit then e_raw h else credit) (visited @ [e_to h]) u))
        \<subseteq> set (found (walk (Suc level) sg address selected credit visited st))"
      unfolding run by (auto dest: set_mono_prefix)
    have "length selected \<le> 8" using path(3) Cons by simp
    note next_args = walk_args_snoc [OF Suc.prems(2) h(2,3,1) this]
    have "(selected @ [h]) @ rest' \<in> path_hops ` set (found (walk level sg (e_to h) (selected @ [h])
        (if e_raw h < credit then e_raw h else credit) (visited @ [e_to h]) u))"
      using Suc.prems(1,3) Cons by (intro Suc.IH [OF _ next_args _ u]) auto
    from subsetD [OF image_mono [OF found] this] show ?thesis by (simp only: Cons append_assoc append_Cons append_Nil)
  qed
qed

lemma walk_starts_grows: "grows st (walk_starts sg sl hs st)"
proof (induction hs arbitrary: st)
  case (Cons hop rest)
  let ?st = "walk 10 sg (e_to hop) [hop] (e_raw hop) [sl, e_to hop] st"
  have "grows st ?st" by (rule walk_grows)
  moreover have "grows st (?st\<lparr>truncated := True\<rparr>)" using calculation by (auto simp: grows_def)
  moreover have "grows st (walk_starts sg sl rest ?st)" using calculation(1) Cons.IH by (rule grows_trans)
  ultimately show ?case by (simp add: Let_def)
qed simp

lemma walk_starts_reaches:
  "\<not> truncated (walk_starts sg sl hs st) \<Longrightarrow> h \<in> set hs \<Longrightarrow>
   \<exists>u. running_search sg (walk 10 sg (e_to h) [h] (e_raw h) [sl, e_to h] u)
     \<and> set (found (walk 10 sg (e_to h) [h] (e_raw h) [sl, e_to h] u)) \<subseteq> set (found (walk_starts sg sl hs st))"
proof (induction hs arbitrary: st)
  case (Cons hop rest)
  let ?st = "walk 10 sg (e_to hop) [hop] (e_raw hop) [sl, e_to hop] st"
  have "\<not> out_of_budget sg ?st" using Cons.prems(1) by (auto simp: Let_def)
  then have rest: "walk_starts sg sl (hop # rest) st = walk_starts sg sl rest ?st" by (simp add: Let_def)
  have grown: "grows ?st (walk_starts sg sl rest ?st)" by (rule walk_starts_grows)
  show ?case
  proof (cases "h = hop")
    case True
    have "\<not> truncated ?st" using grown Cons.prems(1) rest by (auto simp: grows_def)
    then have "running_search sg ?st" using \<open>\<not> out_of_budget sg ?st\<close> by (simp add: running_search_def)
    then show ?thesis using True grown unfolding rest by (auto simp: grows_def dest: set_mono_prefix)
  next
    case False
    then show ?thesis unfolding rest using Cons.IH [of ?st] Cons.prems rest by simp
  qed
qed simp

lemma walk_starts_within:
  assumes "search_ok es sg" and "\<And>h. h \<in> set hs \<Longrightarrow> walk_args es sl (e_to h) [h] (e_raw h) [sl, e_to h]"
    and "within (good_path es sl (sg_funder sg)) sg st"
  shows "within (good_path es sl (sg_funder sg)) sg (walk_starts sg sl hs st)"
  using assms(2,3)
proof (induction hs arbitrary: st)
  case (Cons hop rest)
  let ?st = "walk 10 sg (e_to hop) [hop] (e_raw hop) [sl, e_to hop] st"
  have "within (good_path es sl (sg_funder sg)) sg ?st" using Cons.prems by (intro walk_within [OF assms(1)]) auto
  moreover have "within (good_path es sl (sg_funder sg)) sg (walk_starts sg sl rest ?st)"
    using Cons calculation by simp
  ultimately show ?case by (simp add: Let_def within_def)
qed simp

lemma search_of_ok:
  assumes "graph_ok g"
  shows "search_ok (edge_list g) (search_of fd g maxPaths maxSteps)"
proof -
  have "outgoing (sort_graph g) a = js_sort edge_order (outgoing g a)" for a
    by (simp add: outgoing_def sort_graph_def map_of_map_value split: option.split)
  then show ?thesis using assms by (auto simp: search_ok_def search_of_def sorted_edges graph_ok_def edge_list_def)
qed

lemma start_args:
  assumes "h \<in> set es" and "e_from h = sl" and "e_from h \<noteq> e_to h"
  shows "walk_args es sl (e_to h) [h] (e_raw h) [sl, e_to h]"
  using assms by (auto simp: walk_args_def partial_path_def path_credit_def T_PATH_SECONDS_def)

lemma search_paths_sound:
  assumes "graph_inv earliest latest g" and "0 < maxPaths" "0 < maxSteps"
  shows "within (good_path (edge_list g) sl fd) (search_of fd g maxPaths maxSteps) (search_paths sl fd g maxPaths maxSteps)"
proof -
  let ?sg = "search_of fd g maxPaths maxSteps"
  have ok: "search_ok (edge_list g) ?sg" using assms(1) by (intro search_of_ok) (simp add: graph_inv_def)
  have fd: "sg_funder ?sg = fd" by (simp add: search_of_def)
  have start: "walk_args (edge_list g) sl (e_to h) [h] (e_raw h) [sl, e_to h]"
    if "h \<in> set (js_sort start_order (outgoing (sg_graph ?sg) sl))" for h
  proof (rule start_args)
    show "h \<in> set (edge_list g)" "e_from h = sl" using that ok by (auto simp: search_ok_def)
    then show "e_from h \<noteq> e_to h" using assms(1) by (auto simp: graph_inv_def usable_edge_def)
  qed
  from walk_starts_within [OF ok start, of "js_sort start_order (outgoing (sg_graph ?sg) sl)" "\<lparr>found = [], steps = 0, truncated = False\<rparr>"]
  show ?thesis using fd by (simp add: search_paths_def Let_def within_def)
qed

lemma search_paths_complete:
  assumes "graph_inv earliest latest g" and "\<not> truncated (search_paths sl fd g maxPaths maxSteps)"
    and "return_path (edge_list g) sl fd p"
  shows "p \<in> path_hops ` set (found (search_paths sl fd g maxPaths maxSteps))"
proof -
  let ?sg = "search_of fd g maxPaths maxSteps"
  let ?hs = "js_sort start_order (outgoing (sg_graph ?sg) sl)"
  have ok: "search_ok (edge_list g) ?sg" using assms(1) by (intro search_of_ok) (simp add: graph_inv_def)
  obtain h rest where p: "p = h # rest" using assms(3) by (cases p) (auto simp: return_path_def partial_path_def)
  then have h: "h \<in> set (edge_list g)" "e_from h = sl" "e_from h \<noteq> e_to h"
    using assms(3) by (auto simp: return_path_def partial_path_def)
  then have "h \<in> set ?hs" using ok by (simp add: search_ok_def)
  then obtain u where u: "running_search ?sg (walk 10 ?sg (e_to h) [h] (e_raw h) [sl, e_to h] u)"
    and found: "set (found (walk 10 ?sg (e_to h) [h] (e_raw h) [sl, e_to h] u)) \<subseteq> set (found (search_paths sl fd g maxPaths maxSteps))"
    using assms(2) walk_starts_reaches [of ?sg sl ?hs _ h] unfolding search_paths_def Let_def by blast
  have "return_path (edge_list g) sl (sg_funder ?sg) ([h] @ rest)" using assms(3) p by (simp add: search_of_def)
  from walk_complete [OF ok this start_args [OF h] _ u] show ?thesis using found p by auto
qed

section \<open>Properties\<close>

text \<open>C23: Every path the graph search returns is a return: loaded transfers within the window from the
  seller to the funder through different addresses, at most nine, each after the previous one, passing on
  the retained share, within the time window; its credit is its smallest transfer. Neither budget is exceeded.\<close>

theorem return_graph_sound:
  assumes "discoverExpandedReturnGraph sl fd loadTrace earliest latest maxPaths maxSteps = Inr r"
  shows "\<exists>g. load_graph sl fd loadTrace earliest latest = Inr g
    \<and> (\<forall>q\<in>set (rs_paths r). good_path (edge_list g) sl fd q) \<and> (\<forall>t\<in>set (edge_list g). usable_edge earliest latest t)
    \<and> int (length (rs_paths r)) \<le> maxPaths \<and> int (rs_steps r) \<le> maxSteps"
proof -
  obtain g where limits: "0 < maxPaths" "0 < maxSteps" and g: "load_graph sl fd loadTrace earliest latest = Inr g"
    and r: "rs_paths r = found (search_paths sl fd g (nat maxPaths) (nat maxSteps))"
      "rs_steps r = steps (search_paths sl fd g (nat maxPaths) (nat maxSteps))"
    using assms by (auto simp: discoverExpandedReturnGraph_def res_bind_Inr Let_def)
  from search_paths_sound [OF load_graph_inv [OF g], of "nat maxPaths" "nat maxSteps" sl fd] load_graph_inv [OF g]
  show ?thesis using g r limits by (auto simp: within_def search_of_def graph_inv_def le_nat_iff)
qed

text \<open>C24: A search that does not report a truncation has found every return of up to nine hops there
  is in the loaded graph: the distances, the look-ahead, the binary search and the early exits lose none.\<close>

theorem return_graph_complete:
  assumes "discoverExpandedReturnGraph sl fd loadTrace earliest latest maxPaths maxSteps = Inr r"
    and "\<not> rs_truncated r" and "load_graph sl fd loadTrace earliest latest = Inr g"
  shows "path_hops ` set (rs_paths r) = {p. return_path (edge_list g) sl fd p}"
proof -
  have limits: "0 < nat maxPaths" "0 < nat maxSteps"
    and r: "rs_paths r = found (search_paths sl fd g (nat maxPaths) (nat maxSteps))"
      "rs_truncated r = truncated (search_paths sl fd g (nat maxPaths) (nat maxSteps))"
    using assms(1,3) by (auto simp: discoverExpandedReturnGraph_def res_bind_Inr Let_def)
  note inv = load_graph_inv [OF assms(3)]
  show ?thesis
    using search_paths_complete [OF inv, of sl fd "nat maxPaths" "nat maxSteps"] search_paths_sound [OF inv limits, of sl fd] assms(2)
    by (auto simp: r within_def good_path_def)
qed

section \<open>An example\<close>

definition ex_hop :: "string \<Rightarrow> string \<Rightarrow> int \<Rightarrow> int \<Rightarrow> transfer" where
  "ex_hop f t time raw = blank\<lparr>from_addr := Some f, to_addr := Some t, txHash := Some ''0x1'', logIndex := Some time,
     timestamp := Some time, amountRaw := raw\<rparr>"

definition ex_trace :: "string \<Rightarrow> trace option res" where
  "ex_trace a = Inr (if a = ''s'' then Some \<lparr>trace_complete = True, inboundUsdc = [], outboundUsdc = [ex_hop ''s'' ''r'' 1 100]\<rparr>
     else if a = ''r'' then Some \<lparr>trace_complete = True, inboundUsdc = [], outboundUsdc = [ex_hop ''r'' ''f'' 2 50, ex_hop ''r'' ''f'' 3 9]\<rparr>
     else Some \<lparr>trace_complete = True, inboundUsdc = [], outboundUsdc = []\<rparr>)"

definition ex_path :: "edge list" where
  "ex_path = [\<lparr>e_from = ''s'', e_to = ''r'', e_tx = ''0x1'', e_index = 1, e_time = 1, e_raw = 100\<rparr>,
     \<lparr>e_from = ''r'', e_to = ''f'', e_tx = ''0x1'', e_index = 2, e_time = 2, e_raw = 50\<rparr>]"

definition ex_search :: return_search where
  "ex_search = \<lparr>rs_paths = [\<lparr>path_hops = ex_path, creditRaw = 50\<rparr>], edgeCount = 3, loadedTraceCount = 2,
     missingTraces = [], rs_truncated = False, rs_steps = 2\<rparr>"

lemma ex_found: "discoverExpandedReturnGraph ''s'' ''f'' ex_trace 0 10 4 9 = Inr ex_search"
  by code_simp

theorem return_graph_sound_witness:
  "\<exists>g. load_graph ''s'' ''f'' ex_trace 0 10 = Inr g \<and> good_path (edge_list g) ''s'' ''f'' \<lparr>path_hops = ex_path, creditRaw = 50\<rparr>"
  using return_graph_sound [OF ex_found] by (auto simp: ex_search_def)

theorem return_graph_complete_witness:
  "\<exists>g. load_graph ''s'' ''f'' ex_trace 0 10 = Inr g \<and> {p. return_path (edge_list g) ''s'' ''f'' p} = {ex_path}"
proof -
  obtain g where g: "load_graph ''s'' ''f'' ex_trace 0 10 = Inr g"
    using ex_found by (auto simp: discoverExpandedReturnGraph_def res_bind_Inr)
  have "\<not> rs_truncated ex_search" by (simp add: ex_search_def)
  from return_graph_complete [OF ex_found this g] show ?thesis using g by (auto simp: ex_search_def)
qed

end
