(* ===== verification/Discovery_Bundle.thy ===== *)
theory Discovery_Bundle
  imports Discovery Plan_Bundle
begin

text \<open>
  \<open>scripts/build-discovery-proof-bundle.mjs\<close>: turning the candidates of a discovery scan into
  closed-loop claims. A candidate's buyers are funded by its funder (directly or by a protocol
  deposit), settle with the seller after their funding, and relays return to the funder; the
  settlements kept are those the funding and the returns support. The claims of the baseline
  bundle are finalized again with all settlements of their sellers and supplemental returns.
  The files of the scan are parameters. An address that is no address is \<open>None\<close>; where it
  becomes part of a text it is written null.
\<close>

section \<open>The capacity of the evidence\<close>

definition ceilDiv :: "int \<Rightarrow> int \<Rightarrow> int" where
  "ceilDiv numerator denominator = (numerator + denominator - 1) div denominator"

definition returns_raw :: "evidence list \<Rightarrow> int res" where
  "returns_raw paths = res_fold (\<lambda>p sofar. res_bind (returnPathCreditRaw p) (\<lambda>c. Inr (sofar + c))) paths 0"

record evaluation =
  ev_accepted :: bool
  selectedSettlementRaw :: int
  retainedFundingRaw :: int
  bottleneckReturnRaw :: int
  volumeDeficit :: int
  fundingDeficit :: int
  returnDeficit :: int

definition evaluateClosedLoopCandidate :: "evidence list \<Rightarrow> evidence list \<Rightarrow> evidence list \<Rightarrow> evaluation res" where
  "evaluateClosedLoopCandidate ss fundings paths =
     (let selected = sumRaw ss; retained = sumRaw fundings in
      res_bind (returns_raw paths) (\<lambda>returned.
      let volume = (if 0 < selected then 0 else 1);
          funding = (if selected * ALPHA_FUND_BPS \<le> retained * 10000 then 0
            else ceilDiv (selected * ALPHA_FUND_BPS) 10000 - retained);
          return = (if selected * ALPHA_RETURN_BPS \<le> returned * 10000 then 0
            else ceilDiv (selected * ALPHA_RETURN_BPS) 10000 - returned)
      in Inr \<lparr>ev_accepted = (volume = 0 \<and> funding = 0 \<and> return = 0), selectedSettlementRaw = selected,
           retainedFundingRaw = retained, bottleneckReturnRaw = returned,
           volumeDeficit = volume, fundingDeficit = funding, returnDeficit = return\<rparr>))"

definition supportedSettlementCapacity :: "evidence list \<Rightarrow> evidence list \<Rightarrow> int res" where
  "supportedSettlementCapacity fundings paths =
     res_bind (returns_raw paths) (\<lambda>returnRaw.
     let fundingCapacity = sumRaw fundings * 10000 div ALPHA_FUND_BPS;
         returnCapacity = returnRaw * 10000 div ALPHA_RETURN_BPS
     in Inr (if fundingCapacity < returnCapacity then fundingCapacity else returnCapacity))"

definition compareTime :: "'a transfer_scheme \<Rightarrow> 'a transfer_scheme \<Rightarrow> int" where
  "compareTime left right = or_else (num0 (timestamp left) - num0 (timestamp right))
     (localeCompare (js_String (txHash left)) (js_String (txHash right)))"

definition compareEvidenceTime :: "'a transfer_scheme \<Rightarrow> 'a transfer_scheme \<Rightarrow> int" where
  "compareEvidenceTime left right = or_else (num0 (timestamp left) - num0 (timestamp right))
     (or_else (localeCompare (js_String (transactionHash left)) (js_String (transactionHash right)))
       ((case logIndex left of None \<Rightarrow> -1 | Some n \<Rightarrow> n) - (case logIndex right of None \<Rightarrow> -1 | Some n \<Rightarrow> n)))"

definition compareAmount :: "'a transfer_scheme \<Rightarrow> 'a transfer_scheme \<Rightarrow> int" where
  "compareAmount left right = (let amountDifference = amountRaw right - amountRaw left in
     if amountDifference = 0 then compareEvidenceTime left right else if amountDifference > 0 then 1 else -1)"

fun take_fitting :: "int \<Rightarrow> evidence list \<Rightarrow> evidence list \<Rightarrow> int \<Rightarrow> evidence list" where
  "take_fitting capacityRaw [] selected sofar = selected"
| "take_fitting capacityRaw (s # rest) selected sofar =
     (if capacityRaw < sofar + amountRaw s then take_fitting capacityRaw rest selected sofar
      else take_fitting capacityRaw rest (selected @ [s]) (sofar + amountRaw s))"

definition selectLargestDeterministicSettlementSet :: "evidence list \<Rightarrow> int \<Rightarrow> evidence list" where
  "selectLargestDeterministicSettlementSet ss capacityRaw =
     (case js_sort compareEvidenceTime ss of
        [] \<Rightarrow> []
      | first # rest \<Rightarrow>
          if capacityRaw < amountRaw first then []
          else js_sort compareEvidenceTime (take_fitting capacityRaw (js_sort compareAmount rest) [first] (amountRaw first)))"

section \<open>The scan\<close>

record candidate =
  cand_seller :: "string option"
  cand_funder :: "string option"
  cand_eligible :: bool
  cand_state :: string
  cand_paths :: "relay_row list"

record seller_report =
  strongestBuyers :: "string option list"
  report_volumeRaw :: int

record settlement_row =
  row_entry :: transfer
  deltaUsdc :: int
  channelId :: json

record scan =
  protocolDeposits :: "transfer list"
  read_report :: "string option \<Rightarrow> seller_report res"
  read_trace :: "string \<Rightarrow> trace option res"
  settlementVolumes :: "settlement_row list"

record loop_case =
  case_report :: seller_report
  case_seller :: "string option"
  case_funder :: "string option"
  case_buyers :: "string list"
  fundingTimes :: "(string \<times> int) list"
  fundingDependencies :: "evidence list"
  closureDependencies :: "evidence list"
  settlementDependencies :: "evidence list"

record diagnostic =
  dg_seller :: "string option"
  dg_state :: string
  dg_reason :: "string option"
  dg_evaluation :: "evaluation option"
  dg_buyerCount :: nat
  dg_sellerVolumeRaw :: int
  dg_selectedShareBps :: int
  dg_pathCount :: nat
  dg_destinationCount :: nat

definition early_diagnostic :: "candidate \<Rightarrow> diagnostic" where
  "early_diagnostic c = \<lparr>dg_seller = cand_seller c, dg_state = cand_state c,
     dg_reason = Some (if cand_state c = ''incomplete'' then ''recipient_tracing_incomplete'' else ''no_fragmented_relay_convergence''),
     dg_evaluation = None, dg_buyerCount = 0, dg_sellerVolumeRaw = 0, dg_selectedShareBps = 0, dg_pathCount = 0,
     dg_destinationCount = 0\<rparr>"

definition funding_dependency :: "string \<Rightarrow> string option \<Rightarrow> string \<Rightarrow> transfer \<Rightarrow> evidence" where
  "funding_dependency b f kind entry = of_transfer ((locator USDC_FUNDING entry)
     \<lparr>buyer := Some b, funder := f, amountRaw := amountRaw entry, otherMembers := [(''fundingKind'', JStr kind)]\<rparr>)"

text \<open>The funding of one buyer: the dependencies so far and the buyers' earliest funding.\<close>

definition fund_buyer ::
  "scan \<Rightarrow> string option \<Rightarrow> (string option \<times> transfer list) list \<Rightarrow> string
    \<Rightarrow> evidence list \<times> (string \<times> int) list \<Rightarrow> (evidence list \<times> (string \<times> int) list) res" where
  "fund_buyer sc f depositsByBuyer b st = (case st of (deps, fundedAt) \<Rightarrow>
     res_bind (read_trace sc b) (\<lambda>tr. case tr of None \<Rightarrow> Inr st | Some tr \<Rightarrow>
       if \<not> trace_complete tr then Inr st
       else (let direct = filter (\<lambda>e. checkedAddress (from_addr e) = f \<and> checkedAddress (to_addr e) = Some b \<and> 0 < amountRaw e)
                  (inboundUsdc tr);
                dps = (case map_of depositsByBuyer (Some b) of None \<Rightarrow> [] | Some ds \<Rightarrow> ds);
                deps' = deps @ map (funding_dependency b f ''direct_usdc_transfer'') direct
                  @ map (funding_dependency b f ''protocol_deposit'') dps
            in Inr (deps', case js_sort compareTime (direct @ dps) of [] \<Rightarrow> fundedAt
                 | e # _ \<Rightarrow> AList.update b (num0 (timestamp e)) fundedAt))))"

definition build_case :: "scan \<Rightarrow> candidate \<Rightarrow> seller_report \<Rightarrow> loop_case res" where
  "build_case sc c report =
     (let s = checkedAddress (cand_seller c); f = checkedAddress (cand_funder c);
          buyers = js_set (somes (map checkedAddress (strongestBuyers report)));
          depositsByBuyer = groupBy (\<lambda>e. checkedAddress (buyer e))
            (filter (\<lambda>e. checkedAddress (funder e) = f \<and> checkedAddress (buyer e) \<in> Some ` set buyers \<and> 0 < amountRaw e)
              (protocolDeposits sc))
      in res_bind (res_fold (fund_buyer sc f depositsByBuyer) buyers ([], [])) (\<lambda>(deps, fundedAt).
         Inr \<lparr>case_report = report, case_seller = s, case_funder = f,
           case_buyers = filter (\<lambda>b. map_of fundedAt b \<noteq> None) buyers, fundingTimes = fundedAt,
           fundingDependencies = dedupeDependencies deps,
           closureDependencies = map (\<lambda>p. relayDependency p (js_String s) (js_String f)) (cand_paths c),
           settlementDependencies = []\<rparr>))"

record gathered =
  g_cases :: "(string option \<times> loop_case) list"
  g_totals :: "(string option \<times> evidence list) list"
  g_diagnostics :: "diagnostic list"

definition gather_candidate :: "scan \<Rightarrow> candidate \<Rightarrow> gathered \<Rightarrow> gathered res" where
  "gather_candidate sc c g =
     (if \<not> cand_eligible c then Inr g
      else res_bind (read_report sc (cand_seller c)) (\<lambda>report.
        if cand_state c \<noteq> ''proof_candidate'' then Inr (g\<lparr>g_diagnostics := g_diagnostics g @ [early_diagnostic c]\<rparr>)
        else res_bind (build_case sc c report) (\<lambda>cs.
          Inr (g\<lparr>g_cases := AList.update (case_seller cs) cs (g_cases g),
            g_totals := (if map_of (g_totals g) (case_seller cs) = None then g_totals g @ [(case_seller cs, [])] else g_totals g)\<rparr>))))"

section \<open>The settlements\<close>

definition settlement_dependency :: "ev_type \<Rightarrow> settlement_row \<Rightarrow> evidence" where
  "settlement_dependency ty row = of_transfer ((locator ty (row_entry row))
     \<lparr>buyer := checkedAddress (buyer (row_entry row)), seller := checkedAddress (seller (row_entry row)),
      amountRaw := deltaUsdc row, otherMembers := [(''channelId'', channelId row)]\<rparr>)"

definition settle_case :: "settlement_row \<Rightarrow> loop_case \<Rightarrow> loop_case" where
  "settle_case row cs =
     (case Option.bind (checkedAddress (buyer (row_entry row))) (map_of (fundingTimes cs)) of
        None \<Rightarrow> cs
      | Some fundingTime \<Rightarrow>
          if num0 (timestamp (row_entry row)) \<le> fundingTime then cs
          else cs\<lparr>settlementDependencies := settlementDependencies cs @ [settlement_dependency SETTLEMENT row]\<rparr>)"

definition visit_row :: "settlement_row \<Rightarrow> gathered \<Rightarrow> gathered" where
  "visit_row row g =
     (let s = checkedAddress (seller (row_entry row));
          totals = (case map_of (g_totals g) s of None \<Rightarrow> g_totals g
            | Some es \<Rightarrow> AList.update s (es @ [settlement_dependency TOTAL_SETTLEMENT row]) (g_totals g))
      in g\<lparr>g_totals := totals,
           g_cases := (case map_of (g_cases g) s of None \<Rightarrow> g_cases g
             | Some cs \<Rightarrow> AList.update s (settle_case row cs) (g_cases g))\<rparr>)"

section \<open>The claims\<close>

definition totals_of :: "gathered \<Rightarrow> string option \<Rightarrow> evidence list" where
  "totals_of g s = (case map_of (g_totals g) s of None \<Rightarrow> [] | Some es \<Rightarrow> es)"

definition retained_funding :: "evidence list \<Rightarrow> evidence list \<Rightarrow> evidence list" where
  "retained_funding fundings allSettlements = filter (\<lambda>f.
     case rev (filter (\<lambda>s. buyer s = buyer f) allSettlements) of [] \<Rightarrow> False
     | latest # _ \<Rightarrow> num0 (timestamp f) < num0 (timestamp latest)) fundings"

text \<open>The settlements and fundings of a case and what they amount to.\<close>

definition settle_on_capacity :: "loop_case \<Rightarrow> (evidence list \<times> evidence list \<times> evaluation) res" where
  "settle_on_capacity cs =
     (let allSettlements = js_sort compareEvidenceTime (settlementDependencies cs);
          allRetained = retained_funding (fundingDependencies cs) allSettlements
      in res_bind (supportedSettlementCapacity allRetained (closureDependencies cs)) (\<lambda>capacity.
         let ss = selectLargestDeterministicSettlementSet allSettlements capacity;
             retained = filter (\<lambda>f. buyer f \<in> set (map buyer ss)) allRetained
         in res_bind (evaluateClosedLoopCandidate ss retained (closureDependencies cs)) (\<lambda>e. Inr (ss, retained, e))))"

definition case_diagnostic :: "loop_case \<Rightarrow> evidence list \<Rightarrow> evaluation \<Rightarrow> diagnostic" where
  "case_diagnostic cs ss e = \<lparr>dg_seller = case_seller cs,
     dg_state = (if ev_accepted e then ''proof_candidate'' else ''predicate_rejected''), dg_reason = None,
     dg_evaluation = Some e, dg_buyerCount = length (js_set (map buyer ss)),
     dg_sellerVolumeRaw = report_volumeRaw (case_report cs),
     dg_selectedShareBps = (if report_volumeRaw (case_report cs) = 0 then 0
       else selectedSettlementRaw e * 10000 div report_volumeRaw (case_report cs)),
     dg_pathCount = length (closureDependencies cs),
     dg_destinationCount = length (js_set (map (\<lambda>p. map_of (otherMembers p) ''intermediary'') (closureDependencies cs)))\<rparr>"

definition case_claim ::
  "(string \<Rightarrow> string) \<Rightarrow> proof_bundle \<Rightarrow> gathered \<Rightarrow> loop_case \<Rightarrow> evidence list \<Rightarrow> evidence list \<Rightarrow> evaluation \<Rightarrow> claim" where
  "case_claim sha256 baseline g cs ss retained e = finalizeClaim sha256
     \<lparr>claim_type = ''P0_CLOSED_LOOP'', subjects = [js_String (case_seller cs)], walletA = None, walletB = None,
      approvedBuyers = sort_strings (js_set (map (\<lambda>s. js_String (buyer s)) ss)),
      approvedFunders = [js_String (case_funder cs)],
      claim_metrics = Some \<lparr>qualifiedVolumeRaw = Some (selectedSettlementRaw e),
        qualifiedBuyerCount = Some (int (length (js_set (map buyer ss)))), volumeAToBRaw = None, volumeBToARaw = None,
        otherMetrics = [(''sellerVolumeRaw'', JStr (show_int (report_volumeRaw (case_report cs))))]\<rparr>,
      otherClaimMembers = [(''seller'', json_opt JStr (case_seller cs)),
        (''evidenceCodes'', JArr [JStr ''fragmented_relay_convergence'']), (''period'', period_json (bundle_period baseline))],
      dependencyRoot = None, claimId = None, leafHash = None,
      dependencies = dedupeDependencies (retained @ closureDependencies cs @ ss @ totals_of g (case_seller cs))\<rparr>"

definition add_case ::
  "(string \<Rightarrow> string) \<Rightarrow> proof_bundle \<Rightarrow> gathered \<Rightarrow> loop_case \<Rightarrow> claim list \<times> diagnostic list \<Rightarrow> (claim list \<times> diagnostic list) res" where
  "add_case sha256 baseline g cs st = (case st of (newClaims, ds) \<Rightarrow>
     res_bind (settle_on_capacity cs) (\<lambda>(ss, retained, e).
     Inr (if ev_accepted e then newClaims @ [case_claim sha256 baseline g cs ss retained e] else newClaims,
          ds @ [case_diagnostic cs ss e])))"

definition claim_seller :: "claim \<Rightarrow> json option" where
  "claim_seller c = map_of (otherClaimMembers c) ''seller''"

record supplemental_path =
  sp_valid :: bool
  sp_hops :: "transfer list"

definition supplemental_for :: "supplemental_path list \<Rightarrow> claim \<Rightarrow> supplemental_path list" where
  "supplemental_for paths c = filter (\<lambda>p. sp_valid p \<and>
     (case sp_hops p of [] \<Rightarrow> None | h # hs \<Rightarrow> checkedAddress (from_addr h)) = checkedAddress (Some (hd (subjects c)))) paths"

text \<open>\<open>path.hops.at(-1).to\<close>, which throws on a path without hops.\<close>

definition supplemental_dependency :: "claim \<Rightarrow> supplemental_path \<Rightarrow> evidence res" where
  "supplemental_dependency c p = (case sp_hops p of [] \<Rightarrow> Inl TypeError
     | h # hs \<Rightarrow> Inr (returnPathDependency (sp_hops p) (js_String (checkedAddress (Some (hd (subjects c)))))
         (js_String (checkedAddress (to_addr (last (sp_hops p)))))))"

definition retain_claim ::
  "(string \<Rightarrow> string) \<Rightarrow> gathered \<Rightarrow> supplemental_path list \<Rightarrow> claim \<Rightarrow> claim res" where
  "retain_claim sha256 g paths c =
     (let supplemental = supplemental_for paths c in
      res_bind (res_map (supplemental_dependency c) supplemental) (\<lambda>returns.
      Inr (finalizeClaim sha256 (c\<lparr>claimId := None, leafHash := None, dependencyRoot := None,
        dependencies := dedupeDependencies (
          filter (\<lambda>e. evidenceType e \<noteq> TOTAL_SETTLEMENT \<and> (supplemental = [] \<or> evidenceType e \<noteq> RELAY_PATH)) (dependencies c)
          @ returns @ concat (map (\<lambda>s. totals_of g (checkedAddress (Some s))) (subjects c)))\<rparr>))))"

definition buildDiscoveryProofBundle ::
  "(string \<Rightarrow> string) \<Rightarrow> scan \<Rightarrow> proof_bundle \<Rightarrow> candidate list \<Rightarrow> supplemental_path list \<Rightarrow> (proof_bundle \<times> diagnostic list) res" where
  "buildDiscoveryProofBundle sha256 sc baseline candidates paths =
     res_bind (res_fold (gather_candidate sc) candidates
       \<lparr>g_cases = [], g_totals = map_from (map (\<lambda>s. (checkedAddress (Some s), [])) (concat (map subjects (claims baseline)))),
        g_diagnostics = []\<rparr>) (\<lambda>g0.
     let g = fold visit_row (settlementVolumes sc) g0 in
     res_bind (res_fold (\<lambda>(_, cs). add_case sha256 baseline g cs) (g_cases g) ([], g_diagnostics g)) (\<lambda>(newClaims, ds).
     let replaced = map claim_seller newClaims in
     res_bind (res_map (retain_claim sha256 g paths)
       (filter (\<lambda>c. claim_type c \<noteq> ''P0_CLOSED_LOOP'' \<or> claim_seller c \<notin> set replaced) (claims baseline))) (\<lambda>retainedClaims.
     Inr (finalizeBundle sha256 (baseline\<lparr>claims := retainedClaims @ newClaims\<rparr>), ds))))"

section \<open>Lemmas\<close>

lemma take_fitting_facts:
  assumes "\<forall>s\<in>set xs. 0 \<le> amountRaw s" and "sofar = sumRaw selected" "sofar \<le> capacity"
  shows "\<exists>more. mset (take_fitting capacity xs selected sofar) = mset selected + more \<and> more \<subseteq># mset xs
    \<and> sumRaw (take_fitting capacity xs selected sofar) \<le> capacity
    \<and> (\<forall>s\<in>#mset xs - more. capacity < sumRaw (take_fitting capacity xs selected sofar) + amountRaw s)
    \<and> sofar \<le> sumRaw (take_fitting capacity xs selected sofar)"
  using assms
proof (induction xs arbitrary: selected sofar)
  case Nil
  then show ?case by simp
next
  case (Cons x xs)
  show ?case
  proof (cases "capacity < sofar + amountRaw x")
    case True
    obtain more where more: "mset (take_fitting capacity xs selected sofar) = mset selected + more" "more \<subseteq># mset xs"
      "sumRaw (take_fitting capacity xs selected sofar) \<le> capacity"
      "\<forall>s\<in>#mset xs - more. capacity < sumRaw (take_fitting capacity xs selected sofar) + amountRaw s"
      "sofar \<le> sumRaw (take_fitting capacity xs selected sofar)"
      using Cons.IH [of sofar selected] Cons.prems by auto
    have "mset (x # xs) - more = add_mset x (mset xs - more)"
      using multiset_diff_union_assoc [OF more(2), of "{#x#}"] by simp
    then have "\<forall>s\<in>#mset (x # xs) - more. capacity < sumRaw (take_fitting capacity xs selected sofar) + amountRaw s"
      using more(4,5) True by auto
    moreover have "more \<subseteq># mset (x # xs)" using more(2) by (simp add: subset_mset.order_trans)
    ultimately show ?thesis using more True by auto
  next
    case False
    let ?t = "take_fitting capacity xs (selected @ [x]) (sofar + amountRaw x)"
    obtain more where more: "mset ?t = mset (selected @ [x]) + more" "more \<subseteq># mset xs" "sumRaw ?t \<le> capacity"
      "\<forall>s\<in>#mset xs - more. capacity < sumRaw ?t + amountRaw s" "sofar + amountRaw x \<le> sumRaw ?t"
      using Cons.IH [of "sofar + amountRaw x" "selected @ [x]"] Cons.prems False by auto
    have "mset ?t = mset selected + add_mset x more" "add_mset x more \<subseteq># mset (x # xs)"
      "mset (x # xs) - add_mset x more = mset xs - more" using more(1,2) by simp_all
    then show ?thesis using more False Cons.prems(1) by (intro exI [of _ "add_mset x more"]) auto
  qed
qed

lemma visit_rows_case:
  assumes "\<forall>(s, cs)\<in>set (g_cases g). \<forall>d\<in>set (settlementDependencies cs). P cs d"
    and "\<And>row cs. row \<in> set rows \<Longrightarrow> \<forall>d\<in>set (settlementDependencies cs). P cs d \<Longrightarrow> \<forall>d\<in>set (settlementDependencies (settle_case row cs)). P (settle_case row cs) d"
  shows "\<forall>(s, cs)\<in>set (g_cases (fold visit_row rows g)). \<forall>d\<in>set (settlementDependencies cs). P cs d"
  using assms
proof (induction rows arbitrary: g)
  case (Cons row rows)
  have "\<forall>(s, cs)\<in>set (g_cases (visit_row row g)). \<forall>d\<in>set (settlementDependencies cs). P cs d"
  proof -
    have "(s, cs) \<in> set (AList.update k v xs) \<Longrightarrow> (s, cs) \<in> set xs \<or> cs = v" for s cs k v and xs :: "(string option \<times> loop_case) list"
      by (induction xs) (auto split: if_splits)
    moreover have "\<forall>d\<in>set (settlementDependencies (settle_case row cs)). P (settle_case row cs) d"
      if "map_of (g_cases g) k = Some cs" for k cs
      using Cons.prems(1) map_of_SomeD [OF that] by (intro Cons.prems(2)) fastforce+
    ultimately show ?thesis using Cons.prems(1)
      by (fastforce simp: visit_row_def Let_def split: option.splits)
  qed
  then show ?case using Cons.IH Cons.prems(2) by simp
qed simp

text \<open>A settlement of a case comes from a row later than the first funding of its buyer.\<close>

definition after_funding :: "settlement_row list \<Rightarrow> loop_case \<Rightarrow> evidence \<Rightarrow> bool" where
  "after_funding rows cs d \<longleftrightarrow> (\<exists>row\<in>set rows. d = settlement_dependency SETTLEMENT row
     \<and> (\<exists>b fundedAt. checkedAddress (buyer (row_entry row)) = Some b \<and> map_of (fundingTimes cs) b = Some fundedAt
        \<and> fundedAt < num0 (timestamp (row_entry row))))"

lemma settle_case_after:
  assumes "row \<in> set rows" and "\<forall>d\<in>set (settlementDependencies cs). after_funding rows cs d"
  shows "\<forall>d\<in>set (settlementDependencies (settle_case row cs)). after_funding rows (settle_case row cs) d"
proof -
  have "fundingTimes (settle_case row cs) = fundingTimes cs" by (simp add: settle_case_def split: option.split)
  then have keep: "after_funding rows (settle_case row cs) d = after_funding rows cs d" for d by (simp add: after_funding_def)
  have "d \<in> set (settlementDependencies cs) \<or> after_funding rows cs d"
    if "d \<in> set (settlementDependencies (settle_case row cs))" for d
    using that assms(1) by (auto simp: settle_case_def after_funding_def not_le split: option.splits if_splits bind_splits)
  then show ?thesis using assms(2) keep by blast
qed

lemma gathered_cases:
  assumes "res_fold (gather_candidate sc) cs g = Inr g'" and "\<forall>(s, c)\<in>set (g_cases g). settlementDependencies c = []"
  shows "\<forall>(s, c)\<in>set (g_cases g'). settlementDependencies c = []"
proof (rule res_fold_invariant [OF assms(1), of "\<lambda>g. \<forall>(s, c)\<in>set (g_cases g). settlementDependencies c = []"])
  fix c and g g' :: gathered
  assume step: "gather_candidate sc c g = Inr g'" and inv: "\<forall>(s, c)\<in>set (g_cases g). settlementDependencies c = []"
  have upd: "(s, v') \<in> set (AList.update k v xs) \<Longrightarrow> (s, v') \<in> set xs \<or> v' = v" for s v' k v and xs :: "(string option \<times> loop_case) list"
    by (induction xs) (auto split: if_splits)
  have "settlementDependencies lc = []" if "build_case sc c report = Inr lc" for report lc
    using that by (auto simp: build_case_def Let_def res_bind_Inr)
  then show "\<forall>(s, c)\<in>set (g_cases g'). settlementDependencies c = []"
    using step inv by (auto simp: gather_candidate_def res_bind_Inr split: if_splits dest!: upd)
qed (use assms(2) in simp)

text \<open>The new claims and what they rest on.\<close>

definition supported_claim ::
  "(string \<Rightarrow> string) \<Rightarrow> proof_bundle \<Rightarrow> gathered \<Rightarrow> loop_case \<Rightarrow> claim \<Rightarrow> bool" where
  "supported_claim sha256 baseline g cs c \<longleftrightarrow> (\<exists>ss retained e returned. settle_on_capacity cs = Inr (ss, retained, e)
     \<and> c = case_claim sha256 baseline g cs ss retained e
     \<and> set ss \<subseteq> set (settlementDependencies cs) \<and> set retained \<subseteq> set (fundingDependencies cs)
     \<and> returns_raw (closureDependencies cs) = Inr returned
     \<and> claim_metrics c = Some \<lparr>qualifiedVolumeRaw = Some (sumRaw ss), qualifiedBuyerCount = Some (int (length (js_set (map buyer ss)))),
         volumeAToBRaw = None, volumeBToARaw = None, otherMetrics = [(''sellerVolumeRaw'', JStr (show_int (report_volumeRaw (case_report cs))))]\<rparr>
     \<and> 0 < sumRaw ss \<and> sumRaw ss * ALPHA_FUND_BPS \<le> sumRaw retained * 10000 \<and> sumRaw ss * ALPHA_RETURN_BPS \<le> returned * 10000)"

lemma ceilDiv_ge: "n \<le> ceilDiv n 10000 * 10000"
  using ceiling_div_galois [of n "ceilDiv n 10000"] by (simp add: ceilDiv_def)

lemma evaluation_accepted:
  assumes "evaluateClosedLoopCandidate ss fundings paths = Inr e" and "ev_accepted e"
  shows "\<exists>returned. returns_raw paths = Inr returned \<and> selectedSettlementRaw e = sumRaw ss \<and> 0 < sumRaw ss
    \<and> sumRaw ss * ALPHA_FUND_BPS \<le> sumRaw fundings * 10000 \<and> sumRaw ss * ALPHA_RETURN_BPS \<le> returned * 10000"
proof -
  obtain returned where r: "returns_raw paths = Inr returned" using assms(1)
    by (auto simp: evaluateClosedLoopCandidate_def Let_def res_bind_Inr)
  then have "selectedSettlementRaw e = sumRaw ss" "0 < sumRaw ss"
    "sumRaw ss * ALPHA_FUND_BPS \<le> sumRaw fundings * 10000 \<or> ceilDiv (sumRaw ss * ALPHA_FUND_BPS) 10000 = sumRaw fundings"
    "sumRaw ss * ALPHA_RETURN_BPS \<le> returned * 10000 \<or> ceilDiv (sumRaw ss * ALPHA_RETURN_BPS) 10000 = returned"
    using assms by (auto simp: evaluateClosedLoopCandidate_def Let_def split: if_splits)
  then show ?thesis using r ceilDiv_ge by metis
qed

lemma selected_subset: "set (selectLargestDeterministicSettlementSet ss capacity) \<subseteq> set ss"
proof -
  have sub: "set (take_fitting capacity xs sel sofar) \<subseteq> set sel \<union> set xs" for xs sel sofar
  proof (induction xs arbitrary: sel sofar)
    case (Cons x xs)
    then show ?case using Cons.IH [of sel sofar] Cons.IH [of "sel @ [x]" "sofar + amountRaw x"] by auto
  qed simp
  show ?thesis
  proof (cases "js_sort compareEvidenceTime ss")
    case Nil
    then show ?thesis by (simp add: selectLargestDeterministicSettlementSet_def)
  next
    case (Cons first rest)
    then have "set ss = insert first (set rest)" by (metis list.set(2) set_js_sort)
    then show ?thesis using Cons sub [of "js_sort compareAmount rest" "[first]" "amountRaw first"]
      by (simp add: selectLargestDeterministicSettlementSet_def)
  qed
qed

lemma settled_claim_supported:
  assumes "settle_on_capacity cs = Inr (ss, retained, e)" and "ev_accepted e"
  shows "supported_claim sha256 baseline g cs (case_claim sha256 baseline g cs ss retained e)"
proof -
  have ss: "set ss \<subseteq> set (settlementDependencies cs)" and retained: "set retained \<subseteq> set (fundingDependencies cs)"
    and ev: "evaluateClosedLoopCandidate ss retained (closureDependencies cs) = Inr e"
    using assms(1) selected_subset by (fastforce simp: settle_on_capacity_def Let_def res_bind_Inr retained_funding_def)+
  obtain returned where r: "returns_raw (closureDependencies cs) = Inr returned" "selectedSettlementRaw e = sumRaw ss" "0 < sumRaw ss"
    "sumRaw ss * ALPHA_FUND_BPS \<le> sumRaw retained * 10000" "sumRaw ss * ALPHA_RETURN_BPS \<le> returned * 10000"
    using evaluation_accepted [OF ev assms(2)] by blast
  have "claim_metrics (finalizeClaim sha256 c) = claim_metrics c" for c by (simp add: finalizeClaim_def Let_def)
  then show ?thesis unfolding supported_claim_def using assms(1) ss retained r
    by (intro exI [of _ ss] exI [of _ retained] exI [of _ e] exI [of _ returned]) (simp add: case_claim_def)
qed

lemma new_claims_supported:
  assumes "res_fold (\<lambda>(_, cs). add_case sha256 baseline g cs) cases st = Inr st'"
    and "\<forall>c\<in>set (fst st). \<exists>x\<in>set cases0. supported_claim sha256 baseline g (snd x) c" and "set cases \<subseteq> set cases0"
  shows "\<forall>c\<in>set (fst st'). \<exists>x\<in>set cases0. supported_claim sha256 baseline g (snd x) c"
proof (rule res_fold_invariant [OF assms(1), of "\<lambda>st. \<forall>c\<in>set (fst st). \<exists>x\<in>set cases0. supported_claim sha256 baseline g (snd x) c"])
  fix x and st st' :: "claim list \<times> diagnostic list"
  assume x: "x \<in> set cases" and inv: "\<forall>c\<in>set (fst st). \<exists>x\<in>set cases0. supported_claim sha256 baseline g (snd x) c"
    and step: "(\<lambda>(_, cs). add_case sha256 baseline g cs) x st = Inr st'"
  obtain s cs where xs: "x = (s, cs)" by (cases x)
  obtain ss retained e where settled: "settle_on_capacity cs = Inr (ss, retained, e)"
    and st': "fst st' = (if ev_accepted e then fst st @ [case_claim sha256 baseline g cs ss retained e] else fst st)"
    using step xs by (auto simp: add_case_def res_bind_Inr split: prod.splits)
  show "\<forall>c\<in>set (fst st'). \<exists>x\<in>set cases0. supported_claim sha256 baseline g (snd x) c"
  proof (cases "ev_accepted e")
    case True
    from settled_claim_supported [OF settled True] have "\<exists>x\<in>set cases0.
        supported_claim sha256 baseline g (snd x) (case_claim sha256 baseline g cs ss retained e)"
      using x xs assms(3) by (intro bexI [of _ "(s, cs)"]) auto
    then show ?thesis using inv True st' by simp
  qed (use inv st' in simp)
qed (use assms(2) in simp)

section \<open>Properties\<close>

text \<open>The supported capacity is the largest settlement volume that the funding covers by 90%
  and the returns by 30%.\<close>

theorem settlement_capacity_exact:
  assumes "supportedSettlementCapacity fundings paths = Inr capacity" and "returns_raw paths = Inr returned"
  shows "v \<le> capacity \<longleftrightarrow> v * ALPHA_FUND_BPS \<le> sumRaw fundings * 10000 \<and> v * ALPHA_RETURN_BPS \<le> returned * 10000"
proof -
  have "(0 :: int) < ALPHA_FUND_BPS" "(0 :: int) < ALPHA_RETURN_BPS" by (simp_all add: policy_constants)
  then show ?thesis using assms
    by (auto simp: supportedSettlementCapacity_def Let_def floor_div_galois split: if_splits)
      (meson floor_div_galois order_trans less_imp_le not_le)+
qed

text \<open>The settlements selected are among those given, within the capacity, and no other one
  fits any more; none is selected only if the earliest already exceeds the capacity.\<close>

theorem settlement_set_maximal:
  assumes "\<forall>s\<in>set ss. 0 \<le> amountRaw s" and selected_def: "selected = selectLargestDeterministicSettlementSet ss capacity"
  shows "mset selected \<subseteq># mset ss
    \<and> (selected \<noteq> [] \<longrightarrow> sumRaw selected \<le> capacity \<and> hd (js_sort compareEvidenceTime ss) \<in> set selected
        \<and> (\<forall>s\<in>#mset ss - mset selected. capacity < sumRaw selected + amountRaw s))
    \<and> (selected = [] \<longrightarrow> ss = [] \<or> capacity < amountRaw (hd (js_sort compareEvidenceTime ss)))"
proof (cases "js_sort compareEvidenceTime ss")
  case Nil
  then show ?thesis by (simp add: selected_def selectLargestDeterministicSettlementSet_def)
next
  case (Cons first rest)
  then have ss: "mset ss = add_mset first (mset rest)" by (metis mset.simps(2) mset_js_sort)
  show ?thesis
  proof (cases "capacity < amountRaw first")
    case True
    then show ?thesis using Cons by (simp add: selected_def selectLargestDeterministicSettlementSet_def)
  next
    case False
    let ?t = "take_fitting capacity (js_sort compareAmount rest) [first] (amountRaw first)"
    have sel: "selected = js_sort compareEvidenceTime ?t" using Cons False
      by (simp add: selected_def selectLargestDeterministicSettlementSet_def)
    have "\<forall>s\<in>set (js_sort compareAmount rest). 0 \<le> amountRaw s"
      using assms(1) ss by (metis insertCI set_js_sort set_mset_add_mset_insert set_mset_mset)
    then obtain more where more: "mset ?t = {#first#} + more" "more \<subseteq># mset rest" "sumRaw ?t \<le> capacity"
      "\<forall>s\<in>#mset rest - more. capacity < sumRaw ?t + amountRaw s"
      using take_fitting_facts [of "js_sort compareAmount rest" "amountRaw first" "[first]" capacity] False by auto
    have m: "mset selected = add_mset first more" using more(1) by (simp add: sel)
    have sum: "sumRaw selected = sumRaw ?t" by (simp add: sel)
    have "selected \<noteq> []" "first \<in> set selected" using m by (metis mset.simps(1) empty_not_add_mset, metis set_mset_mset union_single_eq_member)
    moreover have "mset selected \<subseteq># mset ss" "mset ss - mset selected = mset rest - more" using m ss more(2) by simp_all
    ultimately show ?thesis using more(3,4) Cons by (simp only: sum list.sel) simp
  qed
qed


section \<open>An example\<close>

definition ex_settled :: "int \<Rightarrow> int \<Rightarrow> evidence" where
  "ex_settled time raw = of_transfer (blank\<lparr>evidenceType := SETTLEMENT, timestamp := Some time, transactionHash := Some ''0x1'',
     logIndex := Some time, amountRaw := raw\<rparr>)"

definition ex_return :: evidence where
  "ex_return = (of_transfer (blank\<lparr>evidenceType := RELAY_PATH\<rparr>))\<lparr>hops := Some [blank\<lparr>amountRaw := 40\<rparr>, blank\<lparr>amountRaw := 30\<rparr>]\<rparr>"

theorem settlement_capacity_exact_witness:
  "supportedSettlementCapacity [ex_settled 1 99] [ex_return] = Inr 100
   \<and> 100 * ALPHA_RETURN_BPS \<le> 30 * 10000 \<and> \<not> 101 * ALPHA_RETURN_BPS \<le> 30 * 10000"
proof -
  have c: "supportedSettlementCapacity [ex_settled 1 99] [ex_return] = Inr 100" and r: "returns_raw [ex_return] = Inr 30" by code_simp+
  have f: "sumRaw [ex_settled 1 99] = 99" by code_simp
  from settlement_capacity_exact [OF c r, of 100] settlement_capacity_exact [OF c r, of 101] c f
  show ?thesis by (simp add: policy_constants)
qed

theorem settlement_set_maximal_witness:
  "selectLargestDeterministicSettlementSet [ex_settled 3 50, ex_settled 1 20, ex_settled 2 70] 95 = [ex_settled 1 20, ex_settled 2 70]
   \<and> 95 < sumRaw [ex_settled 1 20, ex_settled 2 70] + amountRaw (ex_settled 3 50)"
proof -
  let ?ss = "[ex_settled 3 50, ex_settled 1 20, ex_settled 2 70]"
  have sel: "[ex_settled 1 20, ex_settled 2 70] = selectLargestDeterministicSettlementSet ?ss 95" by code_simp
  have "\<forall>s\<in>set ?ss. 0 \<le> amountRaw s" by (simp add: ex_settled_def)
  from settlement_set_maximal [OF this sel] show ?thesis using sel by simp
qed

definition ex_seller_address :: string where "ex_seller_address = ''0x'' @ replicate 40 (CHR ''a'')"
definition ex_funder_address :: string where "ex_funder_address = ''0x'' @ replicate 40 (CHR ''f'')"
definition ex_buyer_address :: string where "ex_buyer_address = ''0x'' @ replicate 40 (CHR ''b'')"

definition ex_leg :: "int \<Rightarrow> relay_leg" where
  "ex_leg t = \<lparr>leg_tx = Some ''0x2'', leg_logIndex = Some t, leg_at = Some t, leg_raw = 30\<rparr>"

definition ex_candidate :: candidate where
  "ex_candidate = \<lparr>cand_seller = Some ex_seller_address, cand_funder = Some ex_funder_address, cand_eligible = True,
     cand_state = ''proof_candidate'', cand_paths = [\<lparr>row_relay = None, row_intermediary = None,
       row_sellerPayment = ex_leg 6, row_relayForward = ex_leg 7, row_funderReceipt = ex_leg 8\<rparr>]\<rparr>"

definition ex_scan :: scan where
  "ex_scan = \<lparr>protocolDeposits = [],
     read_report = (\<lambda>s. Inr \<lparr>strongestBuyers = [Some ex_buyer_address], report_volumeRaw = 100\<rparr>),
     read_trace = (\<lambda>b. Inr (Some \<lparr>trace_complete = True, inboundUsdc = [blank\<lparr>from_addr := Some ex_funder_address,
        to_addr := Some ex_buyer_address, txHash := Some ''0x0'', timestamp := Some 1, amountRaw := 90\<rparr>], outboundUsdc = []\<rparr>)),
     settlementVolumes = [\<lparr>row_entry = blank\<lparr>txHash := Some ''0x1'', timestamp := Some 5, buyer := Some ex_buyer_address,
        seller := Some ex_seller_address\<rparr>, deltaUsdc = 100, channelId = JNull\<rparr>]\<rparr>"

definition ex_baseline :: proof_bundle where
  "ex_baseline = \<lparr>bundle_version = 1, chainId = 8453, bundle_period = \<lparr>startBlock = 1, endBlockExclusive = 9\<rparr>,
     bundle_contracts = \<lparr>channels = ''c'', usdc_address = ''u'', deposits = ''d''\<rparr>, claims = [], claimCounts = None, reportRoot = None\<rparr>"

text \<open>The one case of the example is accepted.\<close>

definition ex_gathered :: "gathered res" where
  "ex_gathered = res_fold (gather_candidate ex_scan) [ex_candidate] \<lparr>g_cases = [], g_totals = [], g_diagnostics = []\<rparr>"

lemma ex_accepted: "map_sum (\<lambda>_. ()) (\<lambda>g. map (\<lambda>(s, cs). map_sum (\<lambda>_. ()) (\<lambda>(ss, retained, e). ev_accepted e) (settle_on_capacity cs))
    (g_cases (fold visit_row (settlementVolumes ex_scan) g))) ex_gathered = Inr [Inr True]"
  by code_simp


end
