(* ===== verification/Submission.thy ===== *)
theory Submission
  imports Artifacts
begin

text \<open>
  Submitting one paid proof: \<open>scripts/submit-frozen-seller-canary.mjs\<close>. The quote of a
  seller is checked (\<open>validateQuote\<close>, \<open>validateSources\<close>, \<open>checkBaseFee\<close>),
  repriced (\<open>repriceQuote\<close>) and submitted (\<open>submit\<close>). The file system is the
  parameter \<open>files\<close> for what is only read; the four files that guard against paying
  twice are the record \<open>seller_dir\<close>. The prover, the price reader and the account reader
  are external programs: parameters.
\<close>

section \<open>Files and sources\<close>

record files =
  readJson :: "string \<Rightarrow> json res"
  fileSha :: "string \<Rightarrow> string res"

definition members_of :: "json option \<Rightarrow> (string \<times> json) list" where
  "members_of v = (case v of Some (JObj ms) \<Rightarrow> ms | _ \<Rightarrow> [])"

definition join :: "string \<Rightarrow> string \<Rightarrow> string" where
  "join a b = a @ ''/'' @ b"

definition check_hashes :: "files \<Rightarrow> (string \<times> json) list \<Rightarrow> (string \<Rightarrow> string) \<Rightarrow> string \<Rightarrow> unit res" where
  "check_hashes w pairs locate label =
     res_fold (\<lambda>(path, expected) _. res_bind (fileSha w (locate path)) (\<lambda>h.
       require (JStr h = expected) (label @ path))) pairs ()"

definition seller_inputs :: "json \<Rightarrow> string list" where
  "seller_inputs sl = (if js_truthy (mem sl ''sellerInput'') then [str_of (mem sl ''sellerInput'')]
     else [str_of (mem sl ''evidencePath''), str_of (mem sl ''totalVolumePath'')])"

definition check_attestation :: "files \<Rightarrow> string \<Rightarrow> json \<Rightarrow> unit res" where
  "check_attestation w root manifest =
     res_bind (readJson w (str_of (mem manifest ''guestAttestation''))) (\<lambda>attestation.
     let guest = Option.bind (mem attestation ''guests'') (\<lambda>g. mem g ''seller'') in
     res_bind (require (js_truthy (mem attestation ''reproducible'')
         \<and> Option.bind guest (\<lambda>g. mem g ''programVKey'') = mem manifest ''sellerProgramVKey'') ''guest attestation mismatch'') (\<lambda>_.
     res_bind (fileSha w (str_of (mem manifest ''sellerElf''))) (\<lambda>elf.
     res_bind (require (Some (JStr elf) = Option.bind guest (\<lambda>g. mem g ''elfSha256'')) ''guest attestation mismatch'') (\<lambda>_.
     let sources = members_of (mem attestation ''verifiedGuestSourceFiles'') in
     res_bind (require (sources \<noteq> []) ''missing guest source attestation'') (\<lambda>_.
     check_hashes w sources (join root) ''guest source changed: '')))))"

definition find_seller :: "json option \<Rightarrow> json option \<Rightarrow> json option" where
  "find_seller sellers address = find (\<lambda>s. mem s ''seller'' = address) (elements sellers)"

definition find_success :: "json option \<Rightarrow> json option \<Rightarrow> json option" where
  "find_success results address =
     find (\<lambda>r. mem r ''seller'' = address \<and> js_truthy (mem r ''success'')) (elements results)"

definition check_baseline :: "files \<Rightarrow> json \<Rightarrow> json res" where
  "check_baseline w body =
     res_bind (readJson w (str_of (mem body ''baselinePath''))) (\<lambda>baseline.
     res_bind (require (js_truthy (mem baseline ''complete'')) ''baseline manifest mismatch'') (\<lambda>_.
     res_bind (fileSha w (str_of (mem body ''manifestPath''))) (\<lambda>h.
     res_bind (require (mem baseline ''manifestSha256'' = Some (JStr h)) ''baseline manifest mismatch'') (\<lambda>_.
     case find_success (mem baseline ''results'') (mem body ''seller'') of
       None \<Rightarrow> Inl (Error ''baseline artifact mismatch'')
     | Some previous \<Rightarrow>
         res_bind (fileSha w (str_of (mem previous ''artifact''))) (\<lambda>a.
         res_bind (require (mem previous ''artifactSha256'' = Some (JStr a)) ''baseline artifact mismatch'') (\<lambda>_.
         Inr previous))))))"

definition check_inputs :: "files \<Rightarrow> json \<Rightarrow> json \<Rightarrow> unit res" where
  "check_inputs w previous sl =
     res_fold (\<lambda>path _. res_bind (fileSha w path) (\<lambda>h.
       require (sub_mem previous ''inputSha256'' path = Some (JStr h)) (''input changed: '' @ path))) (seller_inputs sl) ()"

definition validateSources :: "files \<Rightarrow> string \<Rightarrow> json \<Rightarrow> (json \<times> json \<times> json) res" where
  "validateSources w root body =
     res_bind (check_hashes w (members_of (mem body ''sourceSha256'')) id ''source changed: '') (\<lambda>_.
     res_bind (readJson w (str_of (mem body ''manifestPath''))) (\<lambda>manifest.
     res_bind (validateManifest manifest) (\<lambda>_.
     res_bind (check_attestation w root manifest) (\<lambda>_.
     case find_seller (mem manifest ''sellers'') (mem body ''seller'') of
       None \<Rightarrow> Inl (Error ''seller absent from frozen manifest'')
     | Some sl \<Rightarrow>
         res_bind (check_baseline w body) (\<lambda>previous.
         res_bind (readJson w (str_of (mem previous ''artifact''))) (\<lambda>artifact.
         res_bind (validateArtifact artifact sl manifest) (\<lambda>_.
         res_bind (readJson w (str_of (mem body ''estimatePath''))) (\<lambda>estimate.
         res_bind (validateEstimate estimate artifact) (\<lambda>_.
         res_bind (check_inputs w previous sl) (\<lambda>_.
         res_bind (require (mem estimate ''proverGasUnits'' = mem body ''proverGasUnits''
             \<and> mem manifest ''sellerProgramVKey'' = mem body ''sellerProgramVKey'') ''quote estimate mismatch'') (\<lambda>_.
         Inr (manifest, sl, estimate))))))))))))"

section \<open>Quotes\<close>

definition rpc_url :: string where "rpc_url = ''https://rpc.mainnet.succinct.xyz''"

definition canaryDigest :: "(string \<Rightarrow> string) \<Rightarrow> json \<Rightarrow> string" where
  "canaryDigest sha256 body = ''0x'' @ sha256 (stringify body)"

definition quote_body_of :: "json \<Rightarrow> json" where
  "quote_body_of q = (case mem q ''body'' of Some b \<Rightarrow> b | None \<Rightarrow> JNull)"

text \<open>BigInt division truncates.\<close>

definition big_div :: "int \<Rightarrow> int \<Rightarrow> int" where
  "big_div a b = sgn a * (\<bar>a\<bar> div b)"

definition fee_ceiling :: "int \<Rightarrow> int \<Rightarrow> int" where
  "fee_ceiling fee bps = big_div (fee * (10000 + bps) + 9999) 10000"

definition buffer_ok :: "json option \<Rightarrow> bool" where
  "buffer_ok v \<longleftrightarrow> safe_number v \<and> 0 \<le> num_of v \<and> num_of v \<le> 10000"

definition check_allowance :: "json \<Rightarrow> unit res" where
  "check_allowance body =
     (if \<not> present (mem body ''maxBaseFeeWei'') then Inr ()
      else res_bind (require (buffer_ok (mem body ''baseFeeBufferBps'')) ''invalid base fee buffer'') (\<lambda>_.
        res_bind (big_int (mem body ''quotedBaseFeeWei'')) (\<lambda>fee.
        res_bind (require (mem body ''maxBaseFeeWei''
            = Some (JStr (show_int (fee_ceiling fee (num_of (mem body ''baseFeeBufferBps'')))))) ''base fee allowance mismatch'') (\<lambda>_.
        res_bind (calculateBudget [JStr (str_of (mem body ''proverGasUnits''))] (mem body ''maxPricePerPguWei'')
            (mem body ''maxBaseFeeWei'') (Some (JStr ''0''))) (\<lambda>b.
        require (mem body ''maxEstimatedCostWei'' = Some (JStr (show_int (totalAtPriceCapWei b))))
          ''fee allowance budget mismatch'')))))"

definition validateQuote ::
  "(string \<Rightarrow> string) \<Rightarrow> (string \<Rightarrow> int option) \<Rightarrow> json \<Rightarrow> json option \<Rightarrow> bool \<Rightarrow> int \<Rightarrow> unit res" where
  "validateQuote sha256 parse_date q approval resuming now =
     (let body = quote_body_of q in
      res_bind (require (mem body ''kind'' = Some (JStr ''frozen-seller-canary-approval'') \<and> mem body ''version'' = Some (JNum 1)
          \<and> mem q ''digest'' = Some (JStr (canaryDigest sha256 body)) \<and> approval = mem q ''digest'')
        ''canary digest approval mismatch'') (\<lambda>_.
      res_bind (require (resuming \<or> (case parse_date (str_of (mem body ''expiresAt'')) of None \<Rightarrow> False | Some t \<Rightarrow> now < t))
        ''canary quote expired'') (\<lambda>_.
      res_bind (require (mem body ''proofCount'' = Some (JNum 1) \<and> mem body ''aip4Compliant'' = Some (JBool False)
          \<and> mem body ''rpc'' = Some (JStr rpc_url) \<and> lower_hex_text 40 (text_of (mem body ''requester'')))
        ''invalid canary scope'') (\<lambda>_.
      check_allowance body))))"

definition nullish_mem :: "json \<Rightarrow> string \<Rightarrow> string \<Rightarrow> json option" where
  "nullish_mem j k l = (if present (mem j k) then mem j k else mem j l)"

definition checkBaseFee :: "json \<Rightarrow> json \<Rightarrow> bool \<Rightarrow> unit res" where
  "checkBaseFee body pricing resuming =
     (if resuming then Inr ()
      else res_bind (big_int (mem pricing ''baseFeeWei'')) (\<lambda>live.
        res_bind (big_int (nullish_mem body ''maxBaseFeeWei'' ''quotedBaseFeeWei'')) (\<lambda>ceiling.
        require (\<not> live > ceiling) ''base fee increased beyond approved allowance'')))"

definition day_ms :: int where "day_ms = 24 * 60 * 60 * 1000"

definition repriced_members ::
  "(int \<Rightarrow> string) \<Rightarrow> json \<Rightarrow> json option \<Rightarrow> int \<Rightarrow> int \<Rightarrow> int \<Rightarrow> int \<Rightarrow> int \<Rightarrow> (string \<times> json) list" where
  "repriced_members iso_text q fee now bps ceiling t tt =
     [(''generatedAt'', JStr (iso_text now)), (''expiresAt'', JStr (iso_text (now + day_ms))),
      (''quotedBaseFeeWei'', JStr (str_of fee)), (''estimatedCostWei'', JStr (show_int t)),
      (''baseFeeBufferBps'', JNum bps), (''maxBaseFeeWei'', JStr (show_int ceiling)),
      (''maxEstimatedCostWei'', JStr (show_int tt)), (''previousQuoteDigest'', JStr (str_of (mem q ''digest'')))]"

definition repriceQuote ::
  "(string \<Rightarrow> string) \<Rightarrow> (string \<Rightarrow> int option) \<Rightarrow> (int \<Rightarrow> string) \<Rightarrow> json \<Rightarrow> json option \<Rightarrow> int \<Rightarrow> int \<Rightarrow> json res" where
  "repriceQuote sha256 parse_date iso_text q baseFeeWei now bps =
     (let body = quote_body_of q in
      res_bind (validateQuote sha256 parse_date q (mem q ''digest'') True now) (\<lambda>_.
      res_bind (require (isSafeInteger bps \<and> 0 \<le> bps \<and> bps \<le> 10000) ''invalid base fee buffer'') (\<lambda>_.
      res_bind (calculateBudget [JStr (str_of (mem body ''proverGasUnits''))] (mem body ''maxPricePerPguWei'') baseFeeWei
        (Some (JStr ''0''))) (\<lambda>b.
      res_bind (big_int baseFeeWei) (\<lambda>fee.
      let ceiling = fee_ceiling fee bps in
      res_bind (calculateBudget [JStr (str_of (mem body ''proverGasUnits''))] (mem body ''maxPricePerPguWei'')
        (Some (JStr (show_int ceiling))) (Some (JStr ''0''))) (\<lambda>bb.
      let body' = obj_assign body (repriced_members iso_text q baseFeeWei now bps ceiling (totalAtPriceCapWei b) (totalAtPriceCapWei bb))
      in Inr (JObj [(''body'', body'), (''digest'', JStr (canaryDigest sha256 body'))])))))))"

section \<open>Submitting\<close>

record seller_dir =
  dir_request :: bool
  dir_started :: bool
  dir_lock :: bool

text \<open>What the surroundings of a call give: prices, the key, the account, and the prover's run.\<close>

record submit_env =
  se_files :: files
  se_root :: string
  se_now :: int
  se_pricing :: "json res"
  se_key :: bool
  se_account :: "json res"
  se_prove :: "seller_dir \<Rightarrow> seller_dir \<times> json res"

definition result_fields :: "string list" where
  "result_fields = [''seller'', ''sellerProgramVKey'', ''publicValues'', ''evidenceDigest'', ''provenWashVolumeRaw'',
     ''totalSellerVolumeRaw'', ''proverGasUnits'']"

definition check_production :: "json \<Rightarrow> json \<Rightarrow> unit res" where
  "check_production artifact estimate =
     res_bind (res_fold (\<lambda>f _. require (mem artifact f = mem estimate f) (''production artifact changed '' @ f)) result_fields ()) (\<lambda>_.
     require (mem artifact ''securityMode'' = Some (JStr ''production'') \<and> js_truthy (mem artifact ''proved'')
       \<and> js_truthy (mem artifact ''verified'') \<and> js_truthy (mem artifact ''proverNetworkSubmitted'')
       \<and> hex_text 64 (text_of (mem artifact ''requestId'')) \<and> byte_text (text_of (mem artifact ''proofBytes'')))
       ''invalid production artifact'')"

definition check_account :: "submit_env \<Rightarrow> json \<Rightarrow> unit res" where
  "check_account env body =
     res_bind (se_account env) (\<lambda>account.
     res_bind (require (mem account ''networkMode'' = Some (JStr ''Mainnet'')
         \<and> mem body ''requester'' = Some (JStr (toLowerCase (str_of (mem account ''requester'')))))
       ''unlocked requester does not match the approved funded account'') (\<lambda>_.
     res_bind (big_int (mem account ''balanceWei'')) (\<lambda>balance.
     res_bind (big_int (nullish_mem body ''maxEstimatedCostWei'' ''estimatedCostWei'')) (\<lambda>need.
     require (\<not> balance < need) ''insufficient available PROVE for the seller estimate including its approved fee allowance''))))"

definition submit_checks ::
  "(string \<Rightarrow> string) \<Rightarrow> (string \<Rightarrow> int option) \<Rightarrow> submit_env \<Rightarrow> json \<Rightarrow> json option \<Rightarrow> bool \<Rightarrow> json res" where
  "submit_checks sha256 parse_date env q approval resuming =
     res_bind (validateQuote sha256 parse_date q approval resuming (se_now env)) (\<lambda>_.
     res_bind (validateSources (se_files env) (se_root env) (quote_body_of q)) (\<lambda>(manifest, sl, estimate).
     res_bind (se_pricing env) (\<lambda>pricing.
     res_bind (checkBaseFee (quote_body_of q) pricing resuming) (\<lambda>_. Inr estimate))))"

definition submit_result :: "submit_env \<Rightarrow> json \<Rightarrow> json \<Rightarrow> json \<Rightarrow> json res" where
  "submit_result env body artifact estimate =
     res_bind (check_production artifact estimate) (\<lambda>_.
     let artifactPath = join (str_of (mem body ''output'')) ''seller.json'' in
     res_bind (fileSha (se_files env) artifactPath) (\<lambda>h.
     Inr (JObj [(''complete'', JBool True), (''requestId'', JStr (str_of (mem artifact ''requestId''))),
       (''artifact'', JStr artifactPath), (''artifactSha256'', JStr h), (''productionProofVerified'', JBool True),
       (''aip4Compliant'', JBool False), (''submittedOnChain'', JBool False)])))"

text \<open>The part between taking the lock and releasing it.\<close>

definition locked_part :: "submit_env \<Rightarrow> json \<Rightarrow> json \<Rightarrow> bool \<Rightarrow> seller_dir \<Rightarrow> json res \<times> seller_dir" where
  "locked_part env body estimate resuming dir =
     (if dir_started dir \<and> \<not> resuming
      then (Inl (Error ''prior launch has no saved request ID; reconcile the requester history before retrying to avoid duplicate spending''), dir)
      else (let dir1 = (if resuming then dir else dir\<lparr>dir_started := True\<rparr>) in
        case se_prove env dir1 of (dir2, Inl e) \<Rightarrow> (Inl e, dir2)
        | (dir2, Inr artifact) \<Rightarrow> (submit_result env body artifact estimate, dir2)))"

definition submit ::
  "(string \<Rightarrow> string) \<Rightarrow> (string \<Rightarrow> int option) \<Rightarrow> submit_env \<Rightarrow> json \<Rightarrow> json option \<Rightarrow> bool \<Rightarrow> seller_dir
    \<Rightarrow> json option res \<times> seller_dir" where
  "submit sha256 parse_date env q approval preflightOnly dir =
     (let body = quote_body_of q; resuming = dir_request dir in
      case submit_checks sha256 parse_date env q approval resuming of
        Inl e \<Rightarrow> (Inl e, dir)
      | Inr estimate \<Rightarrow>
          if preflightOnly then (Inr None, dir)
          else if \<not> se_key env
          then (Inl (Error ''unlock the funded requester locally through NETWORK_PRIVATE_KEY''), dir)
          else (case (if resuming then Inr () else check_account env body) of
              Inl e \<Rightarrow> (Inl e, dir)
            | Inr _ \<Rightarrow>
                if dir_lock dir then (Inl (Error ''EEXIST: file already exists''), dir)
                else (case locked_part env body estimate resuming (dir\<lparr>dir_lock := True\<rparr>) of
                  (r, dir') \<Rightarrow> (res_bind r (\<lambda>v. Inr (Some v)), dir'\<lparr>dir_lock := False\<rparr>))))"

section \<open>Concurrent and crashing submissions\<close>

text \<open>
  Any number of processes run \<open>submit\<close> on one directory. A process reads whether there is a
  request checkpoint, takes the lock (an exclusive create), marks the launch (an exclusive
  create, unless it resumes), starts the prover, which may save the request checkpoint, and
  releases the lock; it may crash anywhere, which leaves the files as they are (the prover goes
  on and may still save its request), and an operator may remove the lock. \<open>ls_paid\<close>
  counts the provers started without a saved request: each of these requests, and pays for, a proof.
\<close>

datatype phase = Idle | Checked bool | Locked bool | Launching bool | Running bool

record launch_state =
  ls_dir :: seller_dir
  ls_phase :: "nat \<Rightarrow> phase"
  ls_paid :: nat

inductive launch_step :: "launch_state \<Rightarrow> launch_state \<Rightarrow> bool" where
  check: "ls_phase s p = Idle \<Longrightarrow>
     launch_step s (s\<lparr>ls_phase := (ls_phase s)(p := Checked (dir_request (ls_dir s)))\<rparr>)"
| lock: "ls_phase s p = Checked r \<Longrightarrow> \<not> dir_lock (ls_dir s) \<Longrightarrow>
     launch_step s (s\<lparr>ls_dir := (ls_dir s)\<lparr>dir_lock := True\<rparr>, ls_phase := (ls_phase s)(p := Locked r)\<rparr>)"
| locked_out: "ls_phase s p = Checked r \<Longrightarrow> dir_lock (ls_dir s) \<Longrightarrow>
     launch_step s (s\<lparr>ls_phase := (ls_phase s)(p := Idle)\<rparr>)"
| refuse: "ls_phase s p = Locked False \<Longrightarrow> dir_started (ls_dir s) \<Longrightarrow>
     launch_step s (s\<lparr>ls_dir := (ls_dir s)\<lparr>dir_lock := False\<rparr>, ls_phase := (ls_phase s)(p := Idle)\<rparr>)"
| mark: "ls_phase s p = Locked False \<Longrightarrow> \<not> dir_started (ls_dir s) \<Longrightarrow>
     launch_step s (s\<lparr>ls_dir := (ls_dir s)\<lparr>dir_started := True\<rparr>, ls_phase := (ls_phase s)(p := Launching False)\<rparr>)"
| resume: "ls_phase s p = Locked True \<Longrightarrow>
     launch_step s (s\<lparr>ls_phase := (ls_phase s)(p := Launching True)\<rparr>)"
| launch: "ls_phase s p = Launching r \<Longrightarrow>
     launch_step s (s\<lparr>ls_phase := (ls_phase s)(p := Running r), ls_paid := (if r then ls_paid s else Suc (ls_paid s))\<rparr>)"
| save: "0 < ls_paid s \<Longrightarrow>
     launch_step s (s\<lparr>ls_dir := (ls_dir s)\<lparr>dir_request := True\<rparr>\<rparr>)"
| finish: "ls_phase s p = Running r \<Longrightarrow>
     launch_step s (s\<lparr>ls_dir := (ls_dir s)\<lparr>dir_lock := False\<rparr>, ls_phase := (ls_phase s)(p := Idle)\<rparr>)"
| crash: "launch_step s (s\<lparr>ls_phase := (ls_phase s)(p := Idle)\<rparr>)"
| unlock: "launch_step s (s\<lparr>ls_dir := (ls_dir s)\<lparr>dir_lock := False\<rparr>\<rparr>)"

definition launch_start :: launch_state where
  "launch_start = \<lparr>ls_dir = \<lparr>dir_request = False, dir_started = False, dir_lock = False\<rparr>, ls_phase = (\<lambda>_. Idle), ls_paid = 0\<rparr>"

inductive_cases launch_stepE: "launch_step s t"

section \<open>At most one paid launch\<close>

definition resumes :: "phase \<Rightarrow> bool" where
  "resumes ph \<longleftrightarrow> ph \<in> {Checked True, Locked True, Launching True, Running True}"

definition launch_inv :: "launch_state \<Rightarrow> bool" where
  "launch_inv s \<longleftrightarrow>
     (0 < ls_paid s \<longrightarrow> dir_started (ls_dir s) \<and> (\<forall>p. ls_phase s p \<noteq> Launching False))
   \<and> ls_paid s \<le> 1
   \<and> (\<forall>p. ls_phase s p = Launching False \<longrightarrow> dir_started (ls_dir s))
   \<and> (\<forall>p q. ls_phase s p = Launching False \<longrightarrow> ls_phase s q = Launching False \<longrightarrow> p = q)
   \<and> (dir_request (ls_dir s) \<longrightarrow> 0 < ls_paid s)
   \<and> (\<forall>p. resumes (ls_phase s p) \<longrightarrow> dir_request (ls_dir s))"

lemma launch_inv_start: "launch_inv launch_start"
  by (simp add: launch_inv_def launch_start_def resumes_def)

lemma launch_inv_step: "launch_step s t \<Longrightarrow> launch_inv s \<Longrightarrow> launch_inv t"
  by (induction rule: launch_step.induct) (fastforce simp: launch_inv_def resumes_def split: if_splits)+

lemma launch_inv_reachable: "launch_step\<^sup>*\<^sup>* launch_start s \<Longrightarrow> launch_inv s"
  by (induction rule: rtranclp_induct) (auto intro: launch_inv_start launch_inv_step)

section \<open>The handler takes the steps\<close>

abbreviation prover_writes_request :: "submit_env \<Rightarrow> bool" where
  "prover_writes_request env \<equiv> \<forall>d. fst (se_prove env d) = d \<or> fst (se_prove env d) = d\<lparr>dir_request := True\<rparr>"

abbreviation runs_to :: "launch_state \<Rightarrow> seller_dir \<Rightarrow> bool" where
  "runs_to s d \<equiv> (\<exists>n. launch_step\<^sup>*\<^sup>* s (s\<lparr>ls_dir := d, ls_paid := n\<rparr>))"

lemma start_and_lock:
  assumes "ls_phase s p = Idle" and "\<not> dir_lock (ls_dir s)"
  shows "launch_step\<^sup>*\<^sup>* s (s\<lparr>ls_dir := (ls_dir s)\<lparr>dir_lock := True\<rparr>,
     ls_phase := (ls_phase s)(p := Locked (dir_request (ls_dir s)))\<rparr>)"
proof -
  let ?t = "s\<lparr>ls_phase := (ls_phase s)(p := Checked (dir_request (ls_dir s)))\<rparr>"
  have "launch_step s ?t" by (rule launch_step.check[OF assms(1)])
  moreover have "launch_step ?t (?t\<lparr>ls_dir := (ls_dir ?t)\<lparr>dir_lock := True\<rparr>,
     ls_phase := (ls_phase ?t)(p := Locked (dir_request (ls_dir s)))\<rparr>)"
    by (rule launch_step.lock) (simp_all add: assms(2))
  ultimately show ?thesis by (auto intro: converse_rtranclp_into_rtranclp)
qed

lemma running_ends:
  assumes "ls_phase s p = Running r" and "d = ls_dir s \<or> 0 < ls_paid s \<and> d = (ls_dir s)\<lparr>dir_request := True\<rparr>"
  shows "launch_step\<^sup>*\<^sup>* s (s\<lparr>ls_dir := d\<lparr>dir_lock := False\<rparr>, ls_phase := (ls_phase s)(p := Idle)\<rparr>)"
proof -
  have "launch_step\<^sup>*\<^sup>* s (s\<lparr>ls_dir := d\<rparr>)"
    using assms(2) launch_step.save[of s] by auto
  moreover have "launch_step (s\<lparr>ls_dir := d\<rparr>) (s\<lparr>ls_dir := d\<lparr>dir_lock := False\<rparr>, ls_phase := (ls_phase s)(p := Idle)\<rparr>)"
    using launch_step.finish[of "s\<lparr>ls_dir := d\<rparr>" p r] assms(1) by simp
  ultimately show ?thesis by simp
qed

lemma dir_before_paid: "s\<lparr>ls_paid := n, ls_dir := d\<rparr> = s\<lparr>ls_dir := d, ls_paid := n\<rparr>"
  by simp

lemma launch_run:
  assumes idle: "ls_phase s p = Idle" and free: "\<not> dir_lock (ls_dir s)"
    and prover: "prover_writes_request env"
    and run: "locked_part env body estimate (dir_request (ls_dir s)) ((ls_dir s)\<lparr>dir_lock := True\<rparr>) = (r, d)"
  shows "runs_to s (d\<lparr>dir_lock := False\<rparr>)"
proof -
  let ?d = "(ls_dir s)\<lparr>dir_lock := True\<rparr>"
  let ?l = "s\<lparr>ls_dir := ?d, ls_phase := (ls_phase s)(p := Locked (dir_request (ls_dir s)))\<rparr>"
  have locked: "launch_step\<^sup>*\<^sup>* s ?l" by (rule start_and_lock[OF idle free])
  have idle_again: "(ls_phase s)(p := Idle) = ls_phase s" using idle by auto
  have unlocked: "(ls_dir s)\<lparr>dir_lock := False\<rparr> = ls_dir s" using free by (cases "ls_dir s") simp
  show ?thesis
  proof (cases "dir_request (ls_dir s)")
    case True
    let ?n = "s\<lparr>ls_dir := ?d, ls_phase := (ls_phase s)(p := Running True)\<rparr>"
    have "launch_step ?l (s\<lparr>ls_dir := ?d, ls_phase := (ls_phase s)(p := Launching True)\<rparr>)"
      using launch_step.resume[of ?l p] True by simp
    moreover have "launch_step (s\<lparr>ls_dir := ?d, ls_phase := (ls_phase s)(p := Launching True)\<rparr>) ?n"
      using launch_step.launch[of "s\<lparr>ls_dir := ?d, ls_phase := (ls_phase s)(p := Launching True)\<rparr>" p True] by simp
    ultimately have "launch_step\<^sup>*\<^sup>* s ?n" using locked by (meson rtranclp.rtrancl_into_rtrancl)
    moreover have "d = ?d" using run True prover[rule_format, of ?d]
      by (cases "ls_dir s") (auto simp: locked_part_def split: prod.splits sum.splits)
    then have "launch_step\<^sup>*\<^sup>* ?n (s\<lparr>ls_dir := d\<lparr>dir_lock := False\<rparr>\<rparr>)"
      using running_ends[of ?n p True d] idle_again by simp
    ultimately show ?thesis by (intro exI[of _ "ls_paid s"]) simp
  next
    case False
    show ?thesis
    proof (cases "dir_started (ls_dir s)")
      case True
      then have "d = ?d" using run False by (simp add: locked_part_def)
      then show ?thesis using unlocked by (intro exI[of _ "ls_paid s"]) simp
    next
      case started: False
      let ?m = "s\<lparr>ls_dir := ?d\<lparr>dir_started := True\<rparr>, ls_phase := (ls_phase s)(p := Launching False)\<rparr>"
      let ?n = "s\<lparr>ls_dir := ?d\<lparr>dir_started := True\<rparr>, ls_phase := (ls_phase s)(p := Running False), ls_paid := Suc (ls_paid s)\<rparr>"
      have "launch_step ?l ?m" using launch_step.mark[of ?l p] False started by simp
      moreover have "launch_step ?m ?n" using launch_step.launch[of ?m p False] by simp
      ultimately have "launch_step\<^sup>*\<^sup>* s ?n" using locked by (meson rtranclp.rtrancl_into_rtrancl)
      moreover have "d = ls_dir ?n \<or> d = (ls_dir ?n)\<lparr>dir_request := True\<rparr>"
        using run False started prover[rule_format, of "?d\<lparr>dir_started := True\<rparr>"]
        by (auto simp: locked_part_def split: prod.splits sum.splits)
      then have "launch_step\<^sup>*\<^sup>* ?n (s\<lparr>ls_paid := Suc (ls_paid s), ls_dir := d\<lparr>dir_lock := False\<rparr>\<rparr>)"
        using running_ends[of ?n p False d] idle_again by simp
      ultimately show ?thesis
        unfolding dir_before_paid by (intro exI[of _ "Suc (ls_paid s)"]) (rule rtranclp_trans)
    qed
  qed
qed

text \<open>C17: \<open>submit\<close> refines the launch steps: what a call does to the directory, whatever
  its outcome, a process does by steps, as long as the prover does nothing to the directory but
  save its request.\<close>

theorem submit_refines_steps:
  assumes "ls_phase s p = Idle"
    and "\<forall>d. fst (se_prove env d) = d \<or> fst (se_prove env d) = d\<lparr>dir_request := True\<rparr>"
    and "submit sha256 parse_date env q approval preflightOnly (ls_dir s) = (r, d)"
  shows "\<exists>n. launch_step\<^sup>*\<^sup>* s (s\<lparr>ls_dir := d, ls_paid := n\<rparr>)"
proof -
  have stay: "runs_to s (ls_dir s)" by (intro exI[of _ "ls_paid s"]) simp
  show ?thesis
    using assms(3) stay launch_run[OF assms(1) _ assms(2)]
    by (auto simp: submit_def Let_def split: sum.splits if_splits prod.splits)
qed

definition ex_addr :: string where "ex_addr = ''0x'' @ replicate 40 (CHR ''1'')"

definition ex_artifact :: json where
  "ex_artifact = JObj [(''version'', JNum 3), (''kind'', JStr ''antseed-wash-trading-seller-proof''),
     (''proofArchitecture'', JStr ''direct-seller-v1''), (''securityMode'', JStr ''development''),
     (''alphaReturnBps'', JNum 3000), (''seller'', JStr ex_addr), (''periodStartBlock'', JNum 1),
     (''periodEndBlock'', JNum 2), (''sellerProgramVKey'', JStr ''v''), (''provenWashVolumeRaw'', JStr ''1''),
     (''totalSellerVolumeRaw'', JStr ''2''), (''evidenceDigest'', JStr ''g''), (''proved'', JBool True),
     (''verified'', JBool True), (''proverNetworkSubmitted'', JBool False), (''proofBytes'', JStr ''0x00''),
     (''publicValues'', JStr ''0x00''), (''blockAuthenticationChunks'', JArr [JNull]),
     (''blockAuthenticationChunkCount'', JNum 1)]"

definition ex_estimate :: json where
  "ex_estimate = obj_assign ex_artifact [(''proved'', JBool False), (''proofBytes'', JStr ''0x''),
     (''proverGasUnits'', JStr ''5'')]"

definition ex_produced :: json where
  "ex_produced = obj_assign ex_estimate [(''securityMode'', JStr ''production''), (''proved'', JBool True),
     (''proverNetworkSubmitted'', JBool True), (''requestId'', JStr (''0x'' @ replicate 64 (CHR ''a''))),
     (''proofBytes'', JStr ''0x00'')]"

definition ex_manifest :: json where
  "ex_manifest = JObj [(''alphaReturnBps'', JNum 3000), (''securityMode'', JStr ''development''),
     (''productionReady'', JBool False), (''periodStartBlock'', JNum 1), (''periodEndBlock'', JNum 2),
     (''sellerProgramVKey'', JStr ''v''), (''guestAttestation'', JStr ''a''), (''sellerElf'', JStr ''x''),
     (''sellers'', JArr [JObj [(''seller'', JStr ex_addr), (''sellerInput'', JStr ''i''),
        (''provenWashVolumeRaw'', JStr ''1''), (''totalSellerVolumeRaw'', JStr ''2''), (''evidenceDigest'', JStr ''g'')]])]"

definition ex_attestation :: json where
  "ex_attestation = JObj [(''reproducible'', JBool True),
     (''guests'', JObj [(''seller'', JObj [(''programVKey'', JStr ''v''), (''elfSha256'', JStr ''h'')])]),
     (''verifiedGuestSourceFiles'', JObj [(''s'', JStr ''h'')])]"

definition ex_baseline :: json where
  "ex_baseline = JObj [(''complete'', JBool True), (''manifestSha256'', JStr ''h''),
     (''results'', JArr [JObj [(''seller'', JStr ex_addr), (''success'', JBool True), (''artifact'', JStr ''r''),
        (''artifactSha256'', JStr ''h''), (''inputSha256'', JObj [(''i'', JStr ''h'')])]])]"

definition ex_files :: files where
  "ex_files = \<lparr>readJson = (\<lambda>path. if path = ''m'' then Inr ex_manifest else if path = ''a'' then Inr ex_attestation
       else if path = ''b'' then Inr ex_baseline else if path = ''r'' then Inr ex_artifact
       else if path = ''e'' then Inr ex_estimate else Inl (Error ''ENOENT'')),
     fileSha = (\<lambda>_. Inr ''h'')\<rparr>"

definition ex_body :: json where
  "ex_body = JObj [(''kind'', JStr ''frozen-seller-canary-approval''), (''version'', JNum 1),
     (''expiresAt'', JStr ''tomorrow''), (''proofCount'', JNum 1), (''aip4Compliant'', JBool False), (''rpc'', JStr rpc_url),
     (''requester'', JStr ex_addr), (''seller'', JStr ex_addr), (''sourceSha256'', JObj [(''m'', JStr ''h'')]),
     (''manifestPath'', JStr ''m''), (''baselinePath'', JStr ''b''), (''estimatePath'', JStr ''e''),
     (''proverGasUnits'', JStr ''5''), (''sellerProgramVKey'', JStr ''v''), (''maxPricePerPguWei'', JStr ''1''),
     (''quotedBaseFeeWei'', JStr ''1''), (''estimatedCostWei'', JStr ''6''), (''output'', JStr ''o'')]"

definition ex_quote :: json where
  "ex_quote = JObj [(''body'', ex_body), (''digest'', JStr ''0xd'')]"

definition ex_env :: submit_env where
  "ex_env = \<lparr>se_files = ex_files, se_root = ''/'', se_now = 0, se_pricing = Inr (JObj [(''baseFeeWei'', JStr ''1'')]), se_key = True,
     se_account = Inr (JObj [(''networkMode'', JStr ''Mainnet''), (''requester'', JStr ex_addr), (''balanceWei'', JStr ''6'')]),
     se_prove = (\<lambda>d. (d\<lparr>dir_request := True\<rparr>, Inr ex_produced))\<rparr>"

lemma ex_sources: "validateSources ex_files ''/'' ex_body = Inr (ex_manifest, hd (elements (mem ex_manifest ''sellers'')), ex_estimate)"
  by code_simp

lemma ex_submit_checks: "submit_checks (\<lambda>_. ''d'') (\<lambda>_. Some 1) ex_env ex_quote (Some (JStr ''0xd'')) False = Inr ex_estimate"
proof -
  have "validateQuote (\<lambda>_. ''d'') (\<lambda>_. Some 1) ex_quote (Some (JStr ''0xd'')) False 0 = Inr ()" by code_simp
  moreover have "checkBaseFee ex_body (JObj [(''baseFeeWei'', JStr ''1'')]) False = Inr ()" by code_simp
  moreover have "quote_body_of ex_quote = ex_body" by code_simp
  ultimately show ?thesis using ex_sources by (simp add: submit_checks_def ex_env_def)
qed

lemma ex_account: "check_account ex_env ex_body = Inr ()"
  by code_simp

definition ex_outcome :: json where
  "ex_outcome = JObj [(''complete'', JBool True), (''requestId'', JStr (''0x'' @ replicate 64 (CHR ''a''))),
     (''artifact'', JStr ''o/seller.json''), (''artifactSha256'', JStr ''h''), (''productionProofVerified'', JBool True),
     (''aip4Compliant'', JBool False), (''submittedOnChain'', JBool False)]"

lemma ex_result: "submit_result ex_env ex_body ex_produced ex_estimate = Inr ex_outcome"
  by code_simp

lemma ex_submit_returns:
  "submit (\<lambda>_. ''d'') (\<lambda>_. Some 1) ex_env ex_quote (Some (JStr ''0xd'')) False
     \<lparr>dir_request = False, dir_started = False, dir_lock = False\<rparr>
     = (Inr (Some ex_outcome), \<lparr>dir_request = True, dir_started = True, dir_lock = False\<rparr>)"
proof -
  have "quote_body_of ex_quote = ex_body" by code_simp
  moreover have "se_key ex_env" by code_simp
  moreover have "se_prove ex_env d = (d\<lparr>dir_request := True\<rparr>, Inr ex_produced)" for d by (simp add: ex_env_def)
  ultimately show ?thesis by (simp add: submit_def Let_def ex_submit_checks ex_account ex_result locked_part_def res_bind_def)
qed

theorem submit_refines_steps_witness:
  "\<exists>n. launch_step\<^sup>*\<^sup>* launch_start (launch_start\<lparr>ls_dir := \<lparr>dir_request = True, dir_started = True, dir_lock = False\<rparr>, ls_paid := n\<rparr>)"
proof (rule submit_refines_steps)
  show "ls_phase launch_start 0 = Idle" by (simp add: launch_start_def)
  show "\<forall>d. fst (se_prove ex_env d) = d \<or> fst (se_prove ex_env d) = d\<lparr>dir_request := True\<rparr>" by (simp add: ex_env_def)
  show "submit (\<lambda>_. ''d'') (\<lambda>_. Some 1) ex_env ex_quote (Some (JStr ''0xd'')) False (ls_dir launch_start)
    = (fst (submit (\<lambda>_. ''d'') (\<lambda>_. Some 1) ex_env ex_quote (Some (JStr ''0xd'')) False (ls_dir launch_start)),
       \<lparr>dir_request = True, dir_started = True, dir_lock = False\<rparr>)"
    using ex_submit_returns by (auto simp: launch_start_def)
qed

section \<open>Repricing\<close>

lemma fee_ceiling_least:
  assumes "0 \<le> fee" and "0 \<le> bps"
  shows "fee_ceiling fee bps \<le> c \<longleftrightarrow> fee * (10000 + bps) \<le> c * 10000"
proof -
  have "0 \<le> fee * (10000 + bps)" using assms by simp
  then have "fee_ceiling fee bps = (fee * (10000 + bps) + 9999) div 10000"
    by (simp add: fee_ceiling_def big_div_def)
  then show ?thesis by linarith
qed

lemma parse_digits_all: "all_digits s \<Longrightarrow> \<exists>n. parse_digits acc s = Some n"
  by (induction s arbitrary: acc) (auto simp: all_digits_def)

lemma no_digit [simp]: "char_digit (CHR ''x'') = None" "char_digit (CHR ''-'') = None"
  by code_simp+

lemma js_BigInt_digits:
  assumes "all_digits s"
  shows "js_BigInt s = Inr (digits_value s)"
proof -
  have "CHR ''x'' \<notin> set (take 2 s)" and "CHR ''-'' \<notin> set (take 1 s)"
    using assms by (auto simp: all_digits_def dest!: in_set_takeD bspec)
  then have "take 2 s \<noteq> ''0x''" and "take 1 s \<noteq> ''-''" by auto
  then show ?thesis using parse_digits_all[OF assms, of 0]
    by (auto simp: js_BigInt_def digits_value_def parse_nat_def)
qed

lemma digit_zero: "js_BigInt ''0'' = Inr (digits_value ''0'')"
  by code_simp

lemma nonnegative_big_int: "nonnegative v = Inr n \<Longrightarrow> big_int v = Inr n \<and> 0 \<le> n \<and> v = Some (JStr (str_of v))"
  by (auto simp: nonnegative_def positive_decimal_def str_of_def big_int_def js_BigInt_digits digit_zero
      split: if_splits option.splits json.splits)

lemma js_BigInt_show: "0 \<le> n \<Longrightarrow> js_BigInt (show_int n) = Inr n"
  using js_BigInt_digits[of "show_nat (nat n)"] by (auto simp: show_int_nat all_digits_def dest: show_nat_digits)

lemma fee_ceiling_nonneg: "0 \<le> fee \<Longrightarrow> 0 \<le> bps \<Longrightarrow> 0 \<le> fee_ceiling fee bps"
  using fee_ceiling_least[of fee bps "-1"] by (smt (verit) mult_nonneg_nonneg)

lemma mem_object: "mem j k = Some v \<Longrightarrow> \<exists>ms. j = JObj ms"
  by (cases j) (auto simp: mem_def)

lemma validateQuote_Inr:
  "validateQuote sha256 parse_date q approval resuming now = Inr () \<longleftrightarrow>
     mem (quote_body_of q) ''kind'' = Some (JStr ''frozen-seller-canary-approval'')
   \<and> mem (quote_body_of q) ''version'' = Some (JNum 1)
   \<and> mem q ''digest'' = Some (JStr (canaryDigest sha256 (quote_body_of q))) \<and> approval = mem q ''digest''
   \<and> (resuming \<or> (\<exists>t. parse_date (str_of (mem (quote_body_of q) ''expiresAt'')) = Some t \<and> now < t))
   \<and> mem (quote_body_of q) ''proofCount'' = Some (JNum 1) \<and> mem (quote_body_of q) ''aip4Compliant'' = Some (JBool False)
   \<and> mem (quote_body_of q) ''rpc'' = Some (JStr rpc_url) \<and> lower_hex_text 40 (text_of (mem (quote_body_of q) ''requester''))
   \<and> check_allowance (quote_body_of q) = Inr ()"
  by (auto simp: validateQuote_def Let_def res_bind_Inr split: option.splits)

lemma repriceQuote_Inr:
  assumes "repriceQuote sha256 parse_date iso_text q fee now bps = Inr q'"
  obtains ms f and b bb :: budget where "quote_body_of q = JObj ms"
    and "validateQuote sha256 parse_date q (mem q ''digest'') True now = Inr ()"
    and "0 \<le> bps" and "bps \<le> 10000" and "isSafeInteger bps" and "fee = Some (JStr (str_of fee))"
    and "big_int fee = Inr f" and "0 \<le> f"
    and "calculateBudget [JStr (str_of (map_of ms ''proverGasUnits''))] (map_of ms ''maxPricePerPguWei'')
       (Some (JStr (show_int (fee_ceiling f bps)))) (Some (JStr ''0'')) = Inr bb"
    and "quote_body_of q' = obj_assign (JObj ms) (repriced_members iso_text q fee now bps (fee_ceiling f bps)
       (totalAtPriceCapWei b) (totalAtPriceCapWei bb))"
    and "mem q' ''digest'' = Some (JStr (canaryDigest sha256 (quote_body_of q')))"
proof -
  obtain f and b bb :: budget where v: "validateQuote sha256 parse_date q (mem q ''digest'') True now = Inr ()"
    and bps: "isSafeInteger bps" "0 \<le> bps" "bps \<le> 10000"
    and b: "calculateBudget [JStr (str_of (mem (quote_body_of q) ''proverGasUnits''))] (mem (quote_body_of q) ''maxPricePerPguWei'')
       fee (Some (JStr ''0'')) = Inr b"
    and f: "big_int fee = Inr f"
    and bb: "calculateBudget [JStr (str_of (mem (quote_body_of q) ''proverGasUnits''))] (mem (quote_body_of q) ''maxPricePerPguWei'')
       (Some (JStr (show_int (fee_ceiling f bps)))) (Some (JStr ''0'')) = Inr bb"
    and q': "q' = (let body' = obj_assign (quote_body_of q) (repriced_members iso_text q fee now bps (fee_ceiling f bps)
       (totalAtPriceCapWei b) (totalAtPriceCapWei bb)) in JObj [(''body'', body'), (''digest'', JStr (canaryDigest sha256 body'))])"
    using assms by (auto simp: repriceQuote_def Let_def res_bind_Inr)
  obtain n where n: "nonnegative fee = Inr n"
    using b unfolding calculateBudget_def res_bind_Inr by blast
  obtain ms where ms: "quote_body_of q = JObj ms"
    using v mem_object by (metis validateQuote_Inr)
  have "quote_body_of q' = obj_assign (quote_body_of q) (repriced_members iso_text q fee now bps (fee_ceiling f bps)
       (totalAtPriceCapWei b) (totalAtPriceCapWei bb))" and "mem q' ''digest'' = Some (JStr (canaryDigest sha256 (quote_body_of q')))"
    by (simp_all add: q' Let_def quote_body_of_def mem_def[of "JObj _"])
  then show ?thesis
    using that[OF ms v bps(2,3,1), of f bb b] nonnegative_big_int[OF n] f bb by (simp add: ms mem_def)
qed

lemma repriced_valid:
  assumes reprice: "repriceQuote sha256 parse_date iso_text q fee now bps = Inr q'"
    and date: "parse_date (iso_text (now + day_ms)) = Some (now + day_ms)" and soon: "later < now + day_ms"
  shows "validateQuote sha256 parse_date q' (mem q' ''digest'') False later = Inr ()
    \<and> (\<exists>f. big_int fee = Inr f \<and> (\<forall>pricing live. big_int (mem pricing ''baseFeeWei'') = Inr live \<longrightarrow>
         (checkBaseFee (quote_body_of q') pricing False = Inr () \<longleftrightarrow> (live - 1) * 10000 < f * (10000 + bps))))"
proof -
  obtain ms f and b bb :: budget where ms: "quote_body_of q = JObj ms"
    and v: "validateQuote sha256 parse_date q (mem q ''digest'') True now = Inr ()"
    and bps: "0 \<le> bps" "bps \<le> 10000" "isSafeInteger bps" and fee: "fee = Some (JStr (str_of fee))"
    and f: "big_int fee = Inr f" "0 \<le> f"
    and bb: "calculateBudget [JStr (str_of (map_of ms ''proverGasUnits''))] (map_of ms ''maxPricePerPguWei'')
       (Some (JStr (show_int (fee_ceiling f bps)))) (Some (JStr ''0'')) = Inr bb"
    and body: "quote_body_of q' = obj_assign (JObj ms) (repriced_members iso_text q fee now bps (fee_ceiling f bps)
       (totalAtPriceCapWei b) (totalAtPriceCapWei bb))"
    and digest: "mem q' ''digest'' = Some (JStr (canaryDigest sha256 (quote_body_of q')))"
    by (rule repriceQuote_Inr[OF reprice])
  note get = body mem_assigned repriced_members_def
  have fee_text: "big_int (Some (JStr (str_of fee))) = Inr f" using f(1) unfolding fee[symmetric] .
  have allowance: "check_allowance (quote_body_of q') = Inr ()"
    by (simp add: check_allowance_def get present_def res_bind_Inr buffer_ok_def safe_number_def num_of_def bps fee_text bb)
  have valid: "validateQuote sha256 parse_date q' (mem q' ''digest'') False later = Inr ()"
    using v date soon allowance digest unfolding validateQuote_Inr ms by (simp add: get mem_def[of "JObj ms"] str_of_def)
  have ceiling: "big_int (nullish_mem (quote_body_of q') ''maxBaseFeeWei'' ''quotedBaseFeeWei'') = Inr (fee_ceiling f bps)"
    using f(2) bps by (simp add: nullish_mem_def get present_def big_int_def js_BigInt_show fee_ceiling_nonneg)
  have "live \<le> fee_ceiling f bps \<longleftrightarrow> (live - 1) * 10000 < f * (10000 + bps)" for live
    using fee_ceiling_least[OF f(2) bps(1), of "live - 1"] by linarith
  then have "checkBaseFee (quote_body_of q') pricing False = Inr () \<longleftrightarrow> (live - 1) * 10000 < f * (10000 + bps)"
    if "big_int (mem pricing ''baseFeeWei'') = Inr live" for pricing live
    using that ceiling by (simp add: checkBaseFee_def not_less)
  then show ?thesis using valid f(1) by blast
qed

text \<open>A repriced quote is valid under its own digest for a day, and the launch check then lets
  exactly those live base fees pass that lie within the buffer, rounded up to a wei, above the fee
  the quote was repriced with.\<close>

theorem repriced_quote_valid:
  assumes reprice: "repriceQuote sha256 parse_date iso_text q fee now bps = Inr q'"
    and date: "parse_date (iso_text (now + day_ms)) = Some (now + day_ms)" and soon: "later < now + day_ms"
  shows "validateQuote sha256 parse_date q' (mem q' ''digest'') False later = Inr ()
    \<and> (\<exists>f. big_int fee = Inr f \<and> (\<forall>pricing live. big_int (mem pricing ''baseFeeWei'') = Inr live \<longrightarrow>
         (checkBaseFee (quote_body_of q') pricing False = Inr () \<longleftrightarrow> (live - 1) * 10000 < f * (10000 + bps))))"
  using assms by (rule repriced_valid)

lemma ex_reprice: "repriceQuote (\<lambda>_. ''d'') (\<lambda>_. Some day_ms) (\<lambda>_. ''t'') ex_quote (Some (JStr ''7'')) 0 500
    = Inr (projr (repriceQuote (\<lambda>_. ''d'') (\<lambda>_. Some day_ms) (\<lambda>_. ''t'') ex_quote (Some (JStr ''7'')) 0 500))"
proof -
  have "\<not> isl (repriceQuote (\<lambda>_. ''d'') (\<lambda>_. Some day_ms) (\<lambda>_. ''t'') ex_quote (Some (JStr ''7'')) 0 500)"
    by code_simp
  then show ?thesis by (simp add: sum.collapse(2))
qed

theorem repriced_quote_valid_witness:
  "\<exists>q'. validateQuote (\<lambda>_. ''d'') (\<lambda>_. Some day_ms) q' (mem q' ''digest'') False 0 = Inr ()
     \<and> checkBaseFee (quote_body_of q') (JObj [(''baseFeeWei'', JStr ''8'')]) False = Inr ()
     \<and> checkBaseFee (quote_body_of q') (JObj [(''baseFeeWei'', JStr ''9'')]) False \<noteq> Inr ()"
proof -
  let ?q = "projr (repriceQuote (\<lambda>_. ''d'') (\<lambda>_. Some day_ms) (\<lambda>_. ''t'') ex_quote (Some (JStr ''7'')) 0 500)"
  have fee: "big_int (Some (JStr ''7'')) = Inr 7"
    and live: "big_int (mem (JObj [(''baseFeeWei'', JStr ''8'')]) ''baseFeeWei'') = Inr 8"
      "big_int (mem (JObj [(''baseFeeWei'', JStr ''9'')]) ''baseFeeWei'') = Inr 9"
    by code_simp+
  have valid: "validateQuote (\<lambda>_. ''d'') (\<lambda>_. Some day_ms) ?q (mem ?q ''digest'') False 0 = Inr ()
      \<and> (\<exists>f. big_int (Some (JStr ''7'')) = Inr f \<and> (\<forall>pricing live. big_int (mem pricing ''baseFeeWei'') = Inr live \<longrightarrow>
         (checkBaseFee (quote_body_of ?q) pricing False = Inr () \<longleftrightarrow> (live - 1) * 10000 < f * (10000 + 500))))"
    by (rule repriced_quote_valid[OF ex_reprice]) (simp_all add: day_ms_def)
  then show ?thesis using fee live by (intro exI[of _ ?q]) auto
qed

text \<open>C16: Whatever processes submit, crash, retry or resume on one directory, at most one proof is
  paid for; a saved request and a resuming process both mean that it has been, and before the prover
  starts the launch is marked.\<close>

theorem at_most_one_paid_launch:
  assumes "launch_step\<^sup>*\<^sup>* launch_start s"
  shows "ls_paid s \<le> 1 \<and> (dir_request (ls_dir s) \<longrightarrow> ls_paid s = 1)
    \<and> (\<forall>p. resumes (ls_phase s p) \<longrightarrow> ls_paid s = 1) \<and> (ls_paid s = 1 \<longrightarrow> dir_started (ls_dir s))"
  using launch_inv_reachable[OF assms] by (fastforce simp: launch_inv_def)

lemma ex_launch: "launch_step\<^sup>*\<^sup>* launch_start (launch_start\<lparr>ls_dir := \<lparr>dir_request = False, dir_started = True, dir_lock = True\<rparr>,
    ls_phase := (\<lambda>_. Idle)(0 := Running False), ls_paid := 1\<rparr>)"
proof -
  let ?l = "launch_start\<lparr>ls_dir := \<lparr>dir_request = False, dir_started = False, dir_lock = True\<rparr>,
      ls_phase := (\<lambda>_. Idle)(0 := Locked False)\<rparr>"
  let ?m = "launch_start\<lparr>ls_dir := \<lparr>dir_request = False, dir_started = True, dir_lock = True\<rparr>,
      ls_phase := (\<lambda>_. Idle)(0 := Launching False)\<rparr>"
  have "launch_step\<^sup>*\<^sup>* launch_start ?l"
    using start_and_lock[of launch_start 0] by (simp add: launch_start_def)
  moreover have "launch_step ?l ?m"
    using launch_step.mark[of ?l 0] by (simp add: launch_start_def)
  moreover have "launch_step ?m (launch_start\<lparr>ls_dir := \<lparr>dir_request = False, dir_started = True, dir_lock = True\<rparr>,
    ls_phase := (\<lambda>_. Idle)(0 := Running False), ls_paid := 1\<rparr>)"
    using launch_step.launch[of ?m 0 False] by (simp add: launch_start_def)
  ultimately show ?thesis by simp
qed

theorem at_most_one_paid_launch_witness:
  "\<exists>s. launch_step\<^sup>*\<^sup>* launch_start s \<and> ls_paid s = 1 \<and> dir_started (ls_dir s)"
proof -
  let ?s = "launch_start\<lparr>ls_dir := \<lparr>dir_request = False, dir_started = True, dir_lock = True\<rparr>,
    ls_phase := (\<lambda>_. Idle)(0 := Running False), ls_paid := 1\<rparr>"
  have "ls_paid ?s = 1" by simp
  then have "dir_started (ls_dir ?s)"
    using at_most_one_paid_launch[OF ex_launch] by blast
  then show ?thesis using ex_launch by (intro exI[of _ ?s]) simp
qed

text \<open>C18: A submission that returns a result has checked everything first: the quote and its sources
  were valid, the live base fee was allowed unless a request was resumed, and the proof is a verified
  production proof of the network with the estimate's seller, volumes, evidence and gas.\<close>

theorem submit_result_sound:
  assumes "submit sha256 parse_date env q approval False dir = (Inr (Some result), dir')"
  shows "\<exists>manifest sl estimate artifact.
     validateQuote sha256 parse_date q approval (dir_request dir) (se_now env) = Inr ()
   \<and> validateSources (se_files env) (se_root env) (quote_body_of q) = Inr (manifest, sl, estimate)
   \<and> (dir_request dir \<or> (\<exists>pricing. se_pricing env = Inr pricing \<and> checkBaseFee (quote_body_of q) pricing False = Inr ()))
   \<and> (dir_request dir \<or> \<not> dir_started dir) \<and> \<not> dir_lock dir \<and> \<not> dir_lock dir'
   \<and> (\<exists>d e. se_prove env d = (e, Inr artifact)) \<and> (\<forall>f\<in>set result_fields. mem artifact f = mem estimate f)
   \<and> mem artifact ''securityMode'' = Some (JStr ''production'') \<and> js_truthy (mem artifact ''verified'')
   \<and> mem result ''requestId'' = Some (JStr (str_of (mem artifact ''requestId'')))"
proof -
  let ?resuming = "dir_request dir" and ?body = "quote_body_of q"
  have run: "\<exists>estimate. submit_checks sha256 parse_date env q approval ?resuming = Inr estimate \<and> \<not> dir_lock dir
     \<and> (\<exists>d. locked_part env ?body estimate ?resuming (dir\<lparr>dir_lock := True\<rparr>) = (Inr result, d) \<and> dir' = d\<lparr>dir_lock := False\<rparr>)"
    using assms by (auto simp: submit_def Let_def res_bind_Inr split: sum.splits if_splits prod.splits)
  then obtain estimate d where checks: "submit_checks sha256 parse_date env q approval ?resuming = Inr estimate"
    and unlocked: "\<not> dir_lock dir" "dir' = d\<lparr>dir_lock := False\<rparr>"
    and part: "locked_part env ?body estimate ?resuming (dir\<lparr>dir_lock := True\<rparr>) = (Inr result, d)"
    by blast
  obtain artifact where launch: "?resuming \<or> \<not> dir_started dir"
    and artifact: "submit_result env ?body artifact estimate = Inr result"
    and proved: "\<exists>d e. se_prove env d = (e, Inr artifact)"
    using part by (auto simp: locked_part_def Let_def split: if_splits sum.splits prod.splits)
  obtain manifest sl pricing where quote_ok: "validateQuote sha256 parse_date q approval ?resuming (se_now env) = Inr ()"
    and sources: "validateSources (se_files env) (se_root env) ?body = Inr (manifest, sl, estimate)"
    and fee: "se_pricing env = Inr pricing" "checkBaseFee ?body pricing ?resuming = Inr ()"
    using checks by (auto simp: submit_checks_def res_bind_Inr)
  have checked: "check_production artifact estimate = Inr ()"
    and id: "mem result ''requestId'' = Some (JStr (str_of (mem artifact ''requestId'')))"
    using artifact by (auto simp: submit_result_def Let_def res_bind_Inr mem_def[of "JObj _"])
  have fields: "\<forall>f\<in>set result_fields. mem artifact f = mem estimate f"
    and security: "mem artifact ''securityMode'' = Some (JStr ''production'')" "js_truthy (mem artifact ''verified'')"
    using checked by (simp_all add: check_production_def res_bind_Inr require_fold_Inr)
  have "?resuming \<or> (\<exists>pricing. se_pricing env = Inr pricing \<and> checkBaseFee ?body pricing False = Inr ())"
    using fee by (cases ?resuming) auto
  moreover have "\<not> dir_lock dir'" using unlocked(2) by simp
  ultimately show ?thesis
    using quote_ok sources launch unlocked(1) proved fields security id by blast
qed

theorem submit_result_sound_witness:
  "\<exists>manifest sl estimate. validateSources ex_files (se_root ex_env) ex_body = Inr (manifest, sl, estimate)"
proof -
  have "quote_body_of ex_quote = ex_body" by code_simp
  moreover have "se_files ex_env = ex_files" by (simp add: ex_env_def)
  ultimately show ?thesis using submit_result_sound[OF ex_submit_returns] by metis
qed

end
