(* ===== verification/Batch.thy ===== *)
theory Batch
  imports Submission
begin

text \<open>
  Submitting the paid proofs of many sellers one after the other:
  \<open>scripts/submit-frozen-seller-batch.mjs\<close>. The batch quote, its entries and the
  checkpoint \<open>summary.json\<close> are \<open>json\<close> documents; \<open>runQueue\<close> threads the checkpoint
  through the loop and returns, with its result, every state that \<open>persist\<close> wrote. What a
  run changes outside is a state \<open>'w\<close>.
\<close>

section \<open>The approved batch\<close>

definition validateBatch :: "(string \<Rightarrow> string) \<Rightarrow> json \<Rightarrow> json option \<Rightarrow> unit res" where
  "validateBatch sha256 q approval =
     (let body = quote_body_of q; entries = elements (mem body ''entries'') in
      res_bind (require (mem body ''version'' = Some (JNum 1) \<and> mem body ''kind'' = Some (JStr ''frozen-seller-batch-approval'')
          \<and> mem q ''digest'' = Some (JStr (canaryDigest sha256 body)) \<and> approval = mem q ''digest'')
        ''batch digest approval mismatch'') (\<lambda>_.
      res_bind (require (is_array (mem body ''entries'') \<and> entries \<noteq> []
          \<and> mem body ''proofCount'' = Some (JNum (int (length entries)))
          \<and> distinct (map (\<lambda>e. mem e ''seller'') entries)
          \<and> mem body ''aip4Compliant'' = Some (JBool False) \<and> mem body ''concurrency'' = Some (JNum 1))
        ''invalid batch scope'') (\<lambda>_.
      require (lower_hex_text 40 (text_of (mem body ''requester''))) ''invalid requester'')))"

section \<open>The queue\<close>

definition obj_delete :: "json \<Rightarrow> string \<Rightarrow> json" where
  "obj_delete j k = (case j of JObj ms \<Rightarrow> JObj (filter (\<lambda>(l, v). l \<noteq> k) ms) | _ \<Rightarrow> j)"

definition results_of :: "json \<Rightarrow> json list" where
  "results_of st = elements (mem st ''results'')"

definition seller_of :: "json \<Rightarrow> json option" where
  "seller_of j = mem j ''seller''"

definition completed_result :: "json \<Rightarrow> json \<Rightarrow> json option" where
  "completed_result st entry =
     find (\<lambda>r. seller_of r = seller_of entry \<and> js_truthy (mem r ''complete'')) (results_of st)"

text \<open>The result under its seller and label: \<open>{ seller, label, ...result }\<close>.\<close>

definition labelled :: "json \<Rightarrow> json \<Rightarrow> json" where
  "labelled entry result = obj_assign (JObj (concat (map (\<lambda>k. case mem entry k of None \<Rightarrow> [] | Some v \<Rightarrow> [(k, v)])
     [''seller'', ''label'']))) (members_of (Some result))"

definition store_result :: "json \<Rightarrow> json \<Rightarrow> json \<Rightarrow> json" where
  "store_result entry result st =
     obj_assign st [(''results'', JArr (filter (\<lambda>r. seller_of r \<noteq> seller_of entry) (results_of st) @ [labelled entry result]))]"

text \<open>\<open>/insufficient available PROVE|prover-network balance is zero/i.test(message)\<close>.\<close>

definition contains_text :: "string \<Rightarrow> string \<Rightarrow> bool" where
  "contains_text needle s \<longleftrightarrow> list_ex (\<lambda>i. take (length needle) (drop i s) = needle) [0..<Suc (length s)]"

definition insufficient_funds :: "string \<Rightarrow> bool" where
  "insufficient_funds message \<longleftrightarrow> contains_text ''insufficient available prove'' (toLowerCase message)
     \<or> contains_text ''prover-network balance is zero'' (toLowerCase message)"

definition pause_queue :: "string \<Rightarrow> json \<Rightarrow> json" where
  "pause_queue message st = obj_assign st
     [(''status'', JStr (if insufficient_funds message then ''paused-insufficient-funds'' else ''needs-attention'')),
      (''error'', JStr message)]"

definition finish_queue :: "string \<Rightarrow> json \<Rightarrow> json" where
  "finish_queue finishedAt st = obj_assign st [(''complete'', JBool True), (''status'', JStr ''complete''),
     (''currentSeller'', JNull), (''finishedAt'', JStr finishedAt)]"

definition start_queue :: "json \<Rightarrow> json" where
  "start_queue st = obj_delete (obj_assign st [(''complete'', JBool False), (''status'', JStr ''running'')]) ''error''"

definition current_seller :: "json \<Rightarrow> json \<Rightarrow> json" where
  "current_seller entry st = (case seller_of entry of None \<Rightarrow> obj_delete st ''currentSeller''
     | Some v \<Rightarrow> obj_assign st [(''currentSeller'', v)])"

definition verified_result :: "json \<Rightarrow> bool" where
  "verified_result r \<longleftrightarrow> js_truthy (mem r ''complete'') \<and> js_truthy (mem r ''productionProofVerified'')"

fun queue_loop :: "('w \<Rightarrow> json \<Rightarrow> json res \<times> 'w) \<Rightarrow> ('w \<Rightarrow> json \<Rightarrow> unit res) \<Rightarrow> string \<Rightarrow> json list \<Rightarrow> 'w \<Rightarrow> json
    \<Rightarrow> json list \<Rightarrow> json res \<times> 'w \<times> json list" where
  "queue_loop run verifyCompleted finishedAt [] w st persisted =
     (let st' = finish_queue finishedAt st in (Inr st', w, persisted @ [st']))"
| "queue_loop run verifyCompleted finishedAt (entry # entries) w st persisted =
     (case completed_result st entry of
        Some r \<Rightarrow> (case verifyCompleted w r of
            Inl e \<Rightarrow> (Inl e, w, persisted)
          | Inr _ \<Rightarrow> queue_loop run verifyCompleted finishedAt entries w st persisted)
      | None \<Rightarrow>
          let st1 = current_seller entry st in
          case run w entry of (r, w') \<Rightarrow>
            (case res_bind r (\<lambda>result. if verified_result result then Inr result
                 else Inl (Error ''seller proof did not verify'')) of
               Inl e \<Rightarrow> let st2 = pause_queue (error_message e) st1 in (Inr st2, w', persisted @ [st1, st2])
             | Inr result \<Rightarrow> let st2 = store_result entry result st1 in
                 queue_loop run verifyCompleted finishedAt entries w' st2 (persisted @ [st1, st2])))"

definition runQueue :: "('w \<Rightarrow> json \<Rightarrow> json res \<times> 'w) \<Rightarrow> ('w \<Rightarrow> json \<Rightarrow> unit res) \<Rightarrow> string \<Rightarrow> json list \<Rightarrow> 'w \<Rightarrow> json
    \<Rightarrow> json res \<times> 'w \<times> json list" where
  "runQueue run verifyCompleted finishedAt entries w st =
     (let st' = start_queue st in queue_loop run verifyCompleted finishedAt entries w st' [st'])"

section \<open>Checkpoints\<close>

text \<open>The checkpoint that \<open>execute\<close> accepts for a batch.\<close>

definition checkpoint_ok :: "json \<Rightarrow> json list \<Rightarrow> json \<Rightarrow> bool" where
  "checkpoint_ok digest entries st \<longleftrightarrow>
     mem st ''kind'' = Some (JStr ''frozen-seller-batch-progress'') \<and> mem st ''batchDigest'' = Some digest
   \<and> is_array (mem st ''results'') \<and> distinct (map seller_of (results_of st))
   \<and> (\<forall>r\<in>set (results_of st). list_ex (\<lambda>e. seller_of e = seller_of r) entries)"

named_theorems state_simps

lemma mem_obj_delete [state_simps]: "mem (obj_delete j k) l = (if l = k then None else mem j l)"
proof (cases j)
  case (JObj ms)
  have "map_of (filter (\<lambda>(l, v). l \<noteq> k) ms) l = (if l = k then None else map_of ms l)"
    by (induction ms) auto
  then show ?thesis using JObj by (simp add: mem_def obj_delete_def)
qed (simp_all add: mem_def obj_delete_def)

lemmas [state_simps] = mem_assigned start_queue_def pause_queue_def finish_queue_def store_result_def results_of_def

lemma mem_current_seller [state_simps]:
  "k \<noteq> ''currentSeller'' \<Longrightarrow> mem (current_seller entry st) k = mem st k"
  by (auto simp: current_seller_def state_simps split: option.split)

lemma results_kept [simp]:
  "results_of (start_queue st) = results_of st" "results_of (pause_queue m st) = results_of st"
  "results_of (finish_queue t st) = results_of st" "results_of (current_seller e st) = results_of st"
  by (simp_all add: state_simps)

lemma results_stored [simp]:
  "results_of (store_result entry result st)
     = filter (\<lambda>r. seller_of r \<noteq> seller_of entry) (results_of st) @ [labelled entry result]"
  by (simp add: state_simps elements_def)

lemma checkpoint_kept [simp]:
  "checkpoint_ok d es (start_queue st) = checkpoint_ok d es st" "checkpoint_ok d es (pause_queue m st) = checkpoint_ok d es st"
  "checkpoint_ok d es (finish_queue t st) = checkpoint_ok d es st" "checkpoint_ok d es (current_seller e st) = checkpoint_ok d es st"
  by (simp_all add: checkpoint_ok_def state_simps)

lemma result_text [state_simps]:
  "mem (pause_queue m st) ''complete'' = mem st ''complete''" "mem (pause_queue m st) ''error'' = Some (JStr m)"
  "mem (finish_queue t st) ''complete'' = Some (JBool True)" "mem (start_queue st) ''complete'' = Some (JBool False)"
  "mem (store_result e r st) ''complete'' = mem st ''complete''"
  by (simp_all add: state_simps)

text \<open>What a run gives: an object that does not name a seller.\<close>

definition plain_result :: "json \<Rightarrow> bool" where
  "plain_result r \<longleftrightarrow> (\<exists>ms. r = JObj ms \<and> distinct (map fst ms) \<and> ''seller'' \<notin> fst ` set ms)"

lemma mem_labelled:
  assumes "plain_result r" and "k \<noteq> ''label''"
  shows "mem (labelled entry r) k = (if k = ''seller'' then seller_of entry else mem r k)"
proof -
  obtain ms where r: "r = JObj ms" "distinct (map fst ms)" "''seller'' \<notin> fst ` set ms"
    using assms(1) by (auto simp: plain_result_def)
  have "map_of (rev ms) = map_of ms"
    using r(2) by (subst map_of_inject_set) (simp_all add: rev_map [symmetric])
  moreover have "map_of ms ''seller'' = None" using r(3) by (simp add: map_of_eq_None_iff)
  ultimately show ?thesis
    using assms(2) r(1) by (simp add: labelled_def mem_assigned members_of_def seller_of_def split: option.split)
qed

lemma seller_of_labelled [simp]: "plain_result r \<Longrightarrow> seller_of (labelled entry r) = seller_of entry"
  by (simp add: seller_of_def mem_labelled)

lemma checkpoint_stored:
  assumes "checkpoint_ok d es st" and "entry \<in> set es" and "plain_result result"
  shows "checkpoint_ok d es (store_result entry result st)"
  unfolding checkpoint_ok_def results_stored
  using assms by (auto simp: checkpoint_ok_def state_simps is_array_def list_ex_iff distinct_map_filter)

lemma completed_iff:
  "completed_result st e = None \<longleftrightarrow> \<not> (\<exists>r\<in>set (results_of st). seller_of r = seller_of e \<and> js_truthy (mem r ''complete''))"
  by (auto simp: completed_result_def find_None_iff)

lemma completed_kept [simp]:
  "completed_result (start_queue st) = completed_result st" "completed_result (pause_queue m st) = completed_result st"
  "completed_result (finish_queue t st) = completed_result st" "completed_result (current_seller e st) = completed_result st"
  by (simp_all add: completed_result_def fun_eq_iff)

lemma completed_stored:
  assumes "plain_result r" and "verified_result r"
  shows "completed_result (store_result e r st) e' = None \<longleftrightarrow> seller_of e' \<noteq> seller_of e \<and> completed_result st e' = None"
  using assms by (auto simp: completed_iff mem_labelled verified_result_def)

section \<open>The specification of the queue\<close>

text \<open>What a queue has to do: run the entries that are not completed, in order, until one fails.\<close>

definition checked_run :: "json res \<Rightarrow> json res" where
  "checked_run r = res_bind r (\<lambda>result. if verified_result result then Inr result else Inl (Error ''seller proof did not verify''))"

fun run_pending :: "('w \<Rightarrow> json \<Rightarrow> json res \<times> 'w) \<Rightarrow> json list \<Rightarrow> 'w \<Rightarrow> js_error option \<times> 'w" where
  "run_pending run [] w = (None, w)"
| "run_pending run (e # es) w = (case run w e of (r, w') \<Rightarrow>
     (case checked_run r of Inl err \<Rightarrow> (Some err, w') | Inr _ \<Rightarrow> run_pending run es w'))"

locale resumable_queue =
  fixes run :: "'w \<Rightarrow> json \<Rightarrow> json res \<times> 'w"
  assumes run_plain: "run w e = (Inr r, w') \<Longrightarrow> plain_result r"
begin

lemma loop_invariant:
  assumes "queue_loop run verifyCompleted fin entries w st log = (res, w', log')"
    and "set entries \<subseteq> set es" and "checkpoint_ok d es st" and "set kept \<subseteq> set (results_of st)"
    and "\<forall>r\<in>set kept. js_truthy (mem r ''complete'')"
    and "\<forall>s\<in>set log. checkpoint_ok d es s \<and> set kept \<subseteq> set (results_of s)"
  shows "\<forall>s\<in>set log'. checkpoint_ok d es s \<and> set kept \<subseteq> set (results_of s)"
  using assms
proof (induction entries arbitrary: w st log)
  case Nil
  then have "log' = log @ [finish_queue fin st]" by (simp add: Let_def)
  then show ?case using Nil.prems(3,4,6) by simp
next
  case (Cons e entries)
  show ?case
  proof (cases "completed_result st e")
    case None
    have keep: "set kept \<subseteq> set (results_of (store_result e r (current_seller e st)))" for r
      using None Cons.prems(4,5) by (auto simp: completed_iff)
    have store: "checkpoint_ok d es (store_result e r (current_seller e st))" if "plain_result r" for r
      using Cons.prems(2,3) that by (simp add: checkpoint_stored)
    obtain r w1 where run: "run w e = (r, w1)" by force
    show ?thesis
    proof (cases "checked_run r")
      case (Inl err)
      then have "log' = log @ [current_seller e st, pause_queue (error_message err) (current_seller e st)]"
        using Cons.prems(1) None run by (simp add: checked_run_def Let_def)
      then show ?thesis using Cons.prems(3,4,6) by simp
    next
      case (Inr result)
      then have "r = Inr result" by (auto simp: checked_run_def res_bind_Inr split: if_splits)
      then show ?thesis
        using Cons.prems None run Inr keep[of result] store[of result] run_plain[of w e result w1]
        by (intro Cons.IH[of w1 "store_result e result (current_seller e st)" "log @ [current_seller e st, store_result e result (current_seller e st)]"])
          (auto simp: checked_run_def Let_def)
    qed
  next
    case (Some r)
    show ?thesis
    proof (cases "verifyCompleted w r")
      case (Inl err)
      then show ?thesis using Cons.prems(1,6) Some by simp
    next
      case (Inr u)
      then have "queue_loop run verifyCompleted fin entries w st log = (res, w', log')"
        using Cons.prems(1) Some by simp
      from Cons.IH[OF this _ Cons.prems(3-6)] show ?thesis using Cons.prems(2) by simp
    qed
  qed
qed

lemma loop_outcome:
  assumes "queue_loop run verifyCompleted fin entries w st log = (Inr st', w', log')"
    and "distinct (map seller_of entries)" and "mem st ''complete'' = Some (JBool False)" and "log \<noteq> []" and "last log = st"
  shows "\<exists>failure. run_pending run (filter (\<lambda>e. completed_result st e = None) entries) w = (failure, w') \<and> last log' = st'
     \<and> (case failure of None \<Rightarrow> mem st' ''complete'' = Some (JBool True)
            \<and> (\<forall>e. e \<in> set entries \<or> completed_result st e \<noteq> None \<longrightarrow> completed_result st' e \<noteq> None)
          | Some err \<Rightarrow> mem st' ''complete'' = Some (JBool False) \<and> mem st' ''error'' = Some (JStr (error_message err)))"
  using assms
proof (induction entries arbitrary: w st log)
  case Nil
  then show ?case by (auto simp: Let_def result_text)
next
  case (Cons e entries)
  show ?case
  proof (cases "completed_result st e")
    case None
    obtain r w1 where run: "run w e = (r, w1)" by force
    show ?thesis
    proof (cases "checked_run r")
      case (Inl err)
      then show ?thesis using Cons.prems None run
        by (auto simp: checked_run_def Let_def result_text mem_current_seller)
    next
      case (Inr result)
      let ?st = "store_result e result (current_seller e st)"
      have r: "r = Inr result" "verified_result result"
        using Inr by (auto simp: checked_run_def res_bind_Inr split: if_splits)
      have plain: "plain_result result" using run_plain run r(1) by blast
      have others: "completed_result ?st e' = None \<longleftrightarrow> seller_of e' \<noteq> seller_of e \<and> completed_result st e' = None" for e'
        using completed_stored[OF plain r(2), of e "current_seller e st" e'] by simp
      have fresh: "seller_of x \<noteq> seller_of e" if "x \<in> set entries" for x
        using Cons.prems(2) that by (metis distinct.simps(2) image_eqI list.simps(9) set_map)
      have pending: "filter (\<lambda>e. completed_result ?st e = None) entries = filter (\<lambda>e. completed_result st e = None) entries"
        using fresh by (intro filter_cong) (simp_all add: others)
      have "queue_loop run verifyCompleted fin entries w1 ?st (log @ [current_seller e st, ?st]) = (Inr st', w', log')"
        using Cons.prems(1) None run Inr by (simp add: checked_run_def Let_def)
      from Cons.IH[OF this] obtain failure where failure: "run_pending run (filter (\<lambda>e. completed_result st e = None) entries) w1 = (failure, w')"
          "last log' = st'" "case failure of None \<Rightarrow> mem st' ''complete'' = Some (JBool True)
            \<and> (\<forall>e. e \<in> set entries \<or> completed_result ?st e \<noteq> None \<longrightarrow> completed_result st' e \<noteq> None)
          | Some err \<Rightarrow> mem st' ''complete'' = Some (JBool False) \<and> mem st' ''error'' = Some (JStr (error_message err))"
        using Cons.prems(2,3) by (auto simp: pending result_text mem_current_seller)
      have "run_pending run (filter (\<lambda>e. completed_result st e = None) (e # entries)) w = (failure, w')"
        using failure(1) None run Inr by simp
      then show ?thesis
        using failure(2,3) by (intro exI[of _ failure]) (auto simp: others split: option.splits)
    qed
  next
    case (Some r)
    obtain u where "verifyCompleted w r = Inr u"
      using Cons.prems(1) Some by (cases "verifyCompleted w r") simp_all
    then have "queue_loop run verifyCompleted fin entries w st log = (Inr st', w', log')"
      using Cons.prems(1) Some by simp
    from Cons.IH[OF this _ Cons.prems(3-5)] obtain failure where failure:
        "run_pending run (filter (\<lambda>e. completed_result st e = None) entries) w = (failure, w')" "last log' = st'"
        "case failure of None \<Rightarrow> mem st' ''complete'' = Some (JBool True)
            \<and> (\<forall>e. e \<in> set entries \<or> completed_result st e \<noteq> None \<longrightarrow> completed_result st' e \<noteq> None)
          | Some err \<Rightarrow> mem st' ''complete'' = Some (JBool False) \<and> mem st' ''error'' = Some (JStr (error_message err))"
      using Cons.prems(2) by auto
    then show ?thesis
      using Some by (intro exI[of _ failure]) (auto split: option.splits)
  qed
qed

end

section \<open>Submitting the entries\<close>

text \<open>
  The run of \<open>execute\<close>: \<open>submit\<close> on the entry's quote. The directories of the sellers
  are a map from the quote's output directory, and so are the surroundings of the calls.
\<close>

definition submit_run ::
  "(string \<Rightarrow> string) \<Rightarrow> (string \<Rightarrow> int option) \<Rightarrow> (string \<Rightarrow> json res) \<Rightarrow> (string \<Rightarrow> submit_env)
    \<Rightarrow> (string \<Rightarrow> seller_dir) \<Rightarrow> json \<Rightarrow> json res \<times> (string \<Rightarrow> seller_dir)" where
  "submit_run sha256 parse_date readQuote env dirs entry =
     (case readQuote (str_of (mem entry ''quotePath'')) of
        Inl e \<Rightarrow> (Inl e, dirs)
      | Inr q \<Rightarrow>
          let out = str_of (mem (quote_body_of q) ''output'') in
          case submit sha256 parse_date (env out) q (mem entry ''quoteDigest'') False (dirs out) of
            (r, d) \<Rightarrow> (res_bind r (\<lambda>v. case v of None \<Rightarrow> Inl TypeError | Some result \<Rightarrow> Inr result), dirs(out := d)))"

lemma submit_result_plain: "submit_result env body artifact estimate = Inr r \<Longrightarrow> plain_result r"
  by (auto simp: submit_result_def Let_def res_bind_Inr plain_result_def)

lemma submit_returns_plain:
  "submit sha256 parse_date env q approval preflight dir = (Inr (Some r), dir') \<Longrightarrow> plain_result r"
  by (auto simp: submit_def locked_part_def Let_def res_bind_Inr intro: submit_result_plain
      split: sum.splits if_splits prod.splits)

interpretation canary_queue: resumable_queue "submit_run sha256 parse_date readQuote env"
  for sha256 parse_date readQuote env
proof unfold_locales
  fix w e r w'
  assume "submit_run sha256 parse_date readQuote env w e = (Inr r, w')"
  then show "plain_result r"
    by (auto simp: submit_run_def Let_def res_bind_Inr intro: submit_returns_plain
        split: sum.splits prod.splits option.splits)
qed

text \<open>C19: The queue refines its specification: when \<open>runQueue\<close> returns, it has run, in order,
  exactly the entries without a completed result, up to the first whose submission fails or is not
  verified; its last persisted state is the returned one, which is complete, with a completed
  result for every entry, if none failed, and holds the error otherwise.\<close>

theorem queue_outcome:
  assumes "runQueue (submit_run sha256 parse_date readQuote env) verifyCompleted finishedAt entries dirs st = (Inr st', dirs', persisted)"
    and "distinct (map seller_of entries)"
  shows "\<exists>failure. run_pending (submit_run sha256 parse_date readQuote env)
         (filter (\<lambda>e. completed_result st e = None) entries) dirs = (failure, dirs') \<and> last persisted = st'
     \<and> (case failure of None \<Rightarrow> mem st' ''complete'' = Some (JBool True)
            \<and> (\<forall>e\<in>set entries. completed_result st' e \<noteq> None)
          | Some err \<Rightarrow> mem st' ''complete'' = Some (JBool False) \<and> mem st' ''error'' = Some (JStr (error_message err)))"
  using canary_queue.loop_outcome[of sha256 parse_date readQuote env verifyCompleted finishedAt entries dirs
      "start_queue st" "[start_queue st]" st' dirs' persisted] assms
  by (auto simp: runQueue_def Let_def result_text split: option.splits)

text \<open>Every state that the queue persists, however far it got, is a checkpoint that
  \<open>execute\<close> accepts when it is run again, and holds all results completed before: no paid proof
  is forgotten.\<close>

theorem queue_checkpoints_resume:
  assumes "runQueue (submit_run sha256 parse_date readQuote env) verifyCompleted finishedAt entries dirs st = (r, dirs', persisted)"
    and "checkpoint_ok digest entries st"
  shows "\<forall>s\<in>set persisted. checkpoint_ok digest entries s
    \<and> (\<forall>x\<in>set (results_of st). js_truthy (mem x ''complete'') \<longrightarrow> x \<in> set (results_of s))"
proof -
  let ?done = "filter (\<lambda>x. js_truthy (mem x ''complete'')) (results_of st)"
  have run: "queue_loop (submit_run sha256 parse_date readQuote env) verifyCompleted finishedAt entries dirs (start_queue st)
      [start_queue st] = (r, dirs', persisted)"
    using assms(1) by (simp add: runQueue_def Let_def)
  have "\<forall>s\<in>set persisted. checkpoint_ok digest entries s \<and> set ?done \<subseteq> set (results_of s)"
    by (rule canary_queue.loop_invariant[OF run, of entries]) (use assms(2) in simp_all)
  then show ?thesis by auto
qed

section \<open>A queue of one seller\<close>

definition ex_entry :: json where
  "ex_entry = JObj [(''seller'', JStr ex_addr), (''label'', JStr ''Seller''), (''quotePath'', JStr ''p''),
     (''quoteDigest'', JStr ''0xd'')]"

definition ex_checkpoint :: json where
  "ex_checkpoint = JObj [(''kind'', JStr ''frozen-seller-batch-progress''), (''batchDigest'', JStr ''0xb''),
     (''complete'', JBool False), (''results'', JArr [])]"

abbreviation ex_dirs :: "string \<Rightarrow> seller_dir" where
  "ex_dirs \<equiv> (\<lambda>_. \<lparr>dir_request = False, dir_started = False, dir_lock = False\<rparr>)"

abbreviation ex_run :: "(string \<Rightarrow> seller_dir) \<Rightarrow> json \<Rightarrow> json res \<times> (string \<Rightarrow> seller_dir)" where
  "ex_run \<equiv> submit_run (\<lambda>_. ''d'') (\<lambda>_. Some 1) (\<lambda>_. Inr ex_quote) (\<lambda>_. ex_env)"

lemma ex_run: "ex_run ex_dirs ex_entry = (Inr ex_outcome, ex_dirs(''o'' := \<lparr>dir_request = True, dir_started = True, dir_lock = False\<rparr>))"
proof -
  have "str_of (mem (quote_body_of ex_quote) ''output'') = ''o''" "mem ex_entry ''quoteDigest'' = Some (JStr ''0xd'')"
    by code_simp+
  then show ?thesis by (simp add: submit_run_def ex_submit_returns)
qed

lemma ex_queue: "\<exists>st' persisted. runQueue ex_run (\<lambda>_ _. Inr ()) ''t'' [ex_entry] ex_dirs ex_checkpoint
    = (Inr st', ex_dirs(''o'' := \<lparr>dir_request = True, dir_started = True, dir_lock = False\<rparr>), persisted) \<and> start_queue ex_checkpoint \<in> set persisted"
proof -
  have "completed_result (start_queue ex_checkpoint) ex_entry = None" and "verified_result ex_outcome" by code_simp+
  then show ?thesis by (simp add: runQueue_def Let_def ex_run)
qed

theorem queue_outcome_witness:
  "\<exists>st'. mem st' ''complete'' = Some (JBool True) \<and> completed_result st' ex_entry \<noteq> None"
proof -
  obtain st' persisted where run: "runQueue ex_run (\<lambda>_ _. Inr ()) ''t'' [ex_entry] ex_dirs ex_checkpoint
    = (Inr st', ex_dirs(''o'' := \<lparr>dir_request = True, dir_started = True, dir_lock = False\<rparr>), persisted)"
    using ex_queue by blast
  have "filter (\<lambda>e. completed_result ex_checkpoint e = None) [ex_entry] = [ex_entry]" and "verified_result ex_outcome"
    by code_simp+
  then show ?thesis
    using queue_outcome[OF run] by (auto simp: ex_run checked_run_def)
qed

theorem queue_checkpoints_resume_witness:
  "\<exists>s. s \<noteq> ex_checkpoint \<and> checkpoint_ok (JStr ''0xb'') [ex_entry] s"
proof -
  obtain st' persisted where run: "runQueue ex_run (\<lambda>_ _. Inr ()) ''t'' [ex_entry] ex_dirs ex_checkpoint
    = (Inr st', ex_dirs(''o'' := \<lparr>dir_request = True, dir_started = True, dir_lock = False\<rparr>), persisted)"
    and start: "start_queue ex_checkpoint \<in> set persisted"
    using ex_queue by blast
  have "checkpoint_ok (JStr ''0xb'') [ex_entry] ex_checkpoint" by code_simp
  from queue_checkpoints_resume[OF run this] start have "checkpoint_ok (JStr ''0xb'') [ex_entry] (start_queue ex_checkpoint)" by blast
  moreover have "start_queue ex_checkpoint \<noteq> ex_checkpoint" by code_simp
  ultimately show ?thesis by blast
qed

end
