(* ===== verification/Batch_Run.thy ===== *)
theory Batch_Run
  imports Batch
begin

text \<open>
  Preparing, refreshing and executing approved quotes: \<open>prepare\<close> of
  \<open>scripts/submit-frozen-seller-canary.mjs\<close> and \<open>prepare\<close>,
  \<open>refreshBatch\<close> and \<open>execute\<close> of \<open>scripts/submit-frozen-seller-batch.mjs\<close>.
  The files that are read, the prices, the clock and the resolution of paths are parameters; what
  is written is returned as a list of paths and documents, in order. Messages are left out, and
  so are the directories that are created.
\<close>

section \<open>The surroundings\<close>

record batch_env =
  be_files :: files
  be_root :: string
  be_exists :: "string \<Rightarrow> bool"
  be_resolve :: "string \<Rightarrow> string"
  be_dirname :: "string \<Rightarrow> string"
  be_pricing :: "json option \<Rightarrow> json res"
  be_now :: int
  be_iso :: "int \<Rightarrow> string"
  be_date :: "string \<Rightarrow> int option"
  be_sha256 :: "string \<Rightarrow> string"

type_synonym writes = "(string \<times> json) list"

abbreviation readDoc :: "batch_env \<Rightarrow> string \<Rightarrow> json res" where
  "readDoc env \<equiv> readJson (be_files env)"

abbreviation shaOf :: "batch_env \<Rightarrow> string \<Rightarrow> string res" where
  "shaOf env \<equiv> fileSha (be_files env)"

definition sealed_quote :: "batch_env \<Rightarrow> json \<Rightarrow> json" where
  "sealed_quote env body = JObj [(''body'', body), (''digest'', JStr (canaryDigest (be_sha256 env) body))]"

definition check_sha :: "batch_env \<Rightarrow> string \<Rightarrow> json option \<Rightarrow> string \<Rightarrow> unit res" where
  "check_sha env path expected message =
     res_bind (shaOf env path) (\<lambda>h. require (expected = Some (JStr h)) message)"

text \<open>\<open>BigInt(first.proverGasUnits)\<close> in a comparator, which is only called for two elements or more.\<close>

definition pgu :: "json \<Rightarrow> int" where
  "pgu r = (case big_int (mem r ''proverGasUnits'') of Inl e \<Rightarrow> 0 | Inr n \<Rightarrow> n)"

definition comparePgu :: "json \<Rightarrow> json \<Rightarrow> int" where
  "comparePgu first second = (if pgu first < pgu second then -1 else 1)"

definition all_pgu :: "json list \<Rightarrow> unit res" where
  "all_pgu rs = (if length rs < 2 then Inr ()
     else res_fold (\<lambda>r _. res_bind (big_int (mem r ''proverGasUnits'')) (\<lambda>_. Inr ())) rs ())"

section \<open>Preparing one quote\<close>

definition chosen_canary :: "json list \<Rightarrow> string option \<Rightarrow> json res" where
  "chosen_canary candidates selectedSeller =
     (case candidates of [] \<Rightarrow> Inl (Error ''no measured canary available'')
      | first # _ \<Rightarrow> (case selectedSeller of None \<Rightarrow> Inr first
          | Some s \<Rightarrow> (case find (\<lambda>c. mem c ''seller'' = Some (JStr (toLowerCase s))) candidates of
              None \<Rightarrow> Inl (Error ''selected seller has no successful PGU estimate'')
            | Some c \<Rightarrow> Inr c)))"

definition source_hashes :: "batch_env \<Rightarrow> string list \<Rightarrow> (string \<times> json) list res" where
  "source_hashes env paths =
     res_bind (res_map (\<lambda>p. res_bind (shaOf env p) (\<lambda>h. Inr (p, JStr h))) paths) (\<lambda>kvs. Inr (map_from kvs))"

definition canary_body ::
  "batch_env \<Rightarrow> string \<Rightarrow> string \<Rightarrow> string \<Rightarrow> string \<Rightarrow> json \<Rightarrow> json \<Rightarrow> json \<Rightarrow> budget \<Rightarrow> (string \<times> json) list \<Rightarrow> json" where
  "canary_body env manifestPath baselinePath output requester manifest canary pricing budget sources =
     (let prover = str_of (mem manifest ''prover'') in
      JObj (known_members
        [(''version'', Some (JNum 1)), (''kind'', Some (JStr ''frozen-seller-canary-approval'')), (''proofCount'', Some (JNum 1)),
         (''aip4Compliant'', Some (JBool False)),
         (''policyWarning'', Some (JStr ''Current 30% predicate; cumulative funding completeness and other documented AIP-4 differences remain unresolved.'')),
         (''generatedAt'', Some (JStr (be_iso env (be_now env)))), (''expiresAt'', Some (JStr (be_iso env (be_now env + day_ms)))),
         (''rpc'', Some (JStr rpc_url)), (''requester'', Some (JStr (toLowerCase requester))), (''seller'', mem canary ''seller''),
         (''label'', mem canary ''label''), (''sellerProgramVKey'', mem manifest ''sellerProgramVKey''),
         (''proverGasUnits'', mem canary ''proverGasUnits''), (''maxPricePerPguWei'', mem pricing ''maxPricePerPguWei''),
         (''quotedBaseFeeWei'', mem pricing ''baseFeeWei''), (''estimatedCostWei'', Some (JStr (show_int (totalAtPriceCapWei budget)))),
         (''feeCaveat'', Some (JStr ''PGU and unit-price limits are enforced. Base fee is checked before launch, but the SDK fetches it again when requesting; this is not a guaranteed total-fee cap.'')),
         (''proofTimeoutSeconds'', Some (JNum 14400)), (''auctionTimeoutSeconds'', Some (JNum 120)),
         (''manifestPath'', Some (JStr (be_resolve env manifestPath))), (''baselinePath'', Some (JStr (be_resolve env baselinePath))),
         (''estimatePath'', mem canary ''artifact''), (''prover'', mem manifest ''prover''),
         (''priceReader'', Some (JStr (join (be_dirname env prover) ''wash-trading-network-price''))),
         (''balanceReader'', Some (JStr (join (be_dirname env prover) ''wash-trading-network-preflight''))),
         (''output'', Some (JStr output)), (''sourceSha256'', Some (JObj sources))]))"

definition prepare_canary ::
  "batch_env \<Rightarrow> string \<Rightarrow> string \<Rightarrow> string \<Rightarrow> string \<Rightarrow> string \<Rightarrow> string option \<Rightarrow> (json \<times> writes) res" where
  "prepare_canary env manifestPath baselinePath estimateDirectory outputPath requester selectedSeller =
     res_bind (require (hex_text 40 requester) ''usage: prepare manifest.json replay-summary.json estimate-directory output-directory requester-address [seller-address]'') (\<lambda>_.
     res_bind (readDoc env manifestPath) (\<lambda>manifest.
     res_bind (readDoc env (join estimateDirectory ''summary.json'')) (\<lambda>estimates.
     res_bind (require (mem estimates ''kind'' = Some (JStr ''seller-proving-execution-preflight'')) ''estimate provenance mismatch'') (\<lambda>_.
     res_bind (check_sha env manifestPath (sub_mem estimates ''provenance'' ''manifestSha256'') ''estimate provenance mismatch'') (\<lambda>_.
     res_bind (check_sha env baselinePath (sub_mem estimates ''provenance'' ''baselineSha256'') ''estimate provenance mismatch'') (\<lambda>_.
     let succeeded = filter (\<lambda>r. js_truthy (mem r ''success'')) (elements (mem estimates ''results'')) in
     res_bind (all_pgu succeeded) (\<lambda>_.
     res_bind (chosen_canary (js_sort comparePgu succeeded) selectedSeller) (\<lambda>canary.
     res_bind (check_sha env (str_of (mem canary ''artifact'')) (mem canary ''artifactSha256'') ''estimate artifact changed'') (\<lambda>_.
     let prover = str_of (mem manifest ''prover'');
         priceReader = join (be_dirname env prover) ''wash-trading-network-price'';
         balanceReader = join (be_dirname env prover) ''wash-trading-network-preflight'';
         output = be_resolve env outputPath in
     res_bind (be_pricing env (Some (JStr priceReader))) (\<lambda>pricing.
     res_bind (calculateBudget [JStr (str_of (mem canary ''proverGasUnits''))] (mem pricing ''maxPricePerPguWei'')
       (mem pricing ''baseFeeWei'') (Some (JStr ''0''))) (\<lambda>budget.
     res_bind (source_hashes env ([be_resolve env manifestPath, be_resolve env baselinePath, str_of (mem canary ''artifact''), prover,
       priceReader, balanceReader, str_of (mem manifest ''sellerElf''), str_of (mem manifest ''guestAttestation'')]
       @ map fst (members_of (mem canary ''inputSha256'')))) (\<lambda>sources.
     let body = canary_body env manifestPath baselinePath output requester manifest canary pricing budget sources in
     res_bind (validateSources (be_files env) (be_root env) body) (\<lambda>_.
     let quotePath = join output ''canary-quote.json'' in
     res_bind (require (\<not> be_exists env quotePath) ''EEXIST: file already exists'') (\<lambda>_.
     Inr (sealed_quote env body, [(quotePath, sealed_quote env body)])))))))))))))))"

section \<open>Preparing a batch\<close>

text \<open>The existing canary's seller goes first, the others by their gas.\<close>

definition compareFirst :: "json option \<Rightarrow> json \<Rightarrow> json \<Rightarrow> int" where
  "compareFirst existing first second =
     (if seller_of first = existing then -1 else if seller_of second = existing then 1 else comparePgu first second)"

definition complete_estimates :: "json \<Rightarrow> json \<Rightarrow> bool" where
  "complete_estimates estimates manifest \<longleftrightarrow>
     (let n = length (elements (mem manifest ''sellers'')); rs = elements (mem estimates ''results'') in
      js_truthy (mem estimates ''complete'') \<and> mem estimates ''kind'' = Some (JStr ''seller-proving-execution-preflight'')
      \<and> mem estimates ''expectedSellerCount'' = Some (JNum (int n)) \<and> length rs = n
      \<and> (\<forall>r\<in>set rs. js_truthy (mem r ''success'')) \<and> length (js_set (map seller_of rs)) = n)"

record batch_totals =
  bt_entries :: "json list"
  bt_cost :: int
  bt_pgu :: int
  bt_writes :: writes

definition seller_quote ::
  "batch_env \<Rightarrow> string \<Rightarrow> string \<Rightarrow> string \<Rightarrow> string \<Rightarrow> string \<Rightarrow> string \<Rightarrow> (json \<times> writes) res" where
  "seller_quote env manifestPath baselinePath estimateDirectory sellerOutput requester sl =
     (let quotePath = join sellerOutput ''canary-quote.json'' in
      if be_exists env quotePath then res_bind (readDoc env quotePath) (\<lambda>q. Inr (q, []))
      else prepare_canary env manifestPath baselinePath estimateDirectory sellerOutput requester (Some sl))"

definition same_scope :: "batch_env \<Rightarrow> string \<Rightarrow> string \<Rightarrow> string \<Rightarrow> string \<Rightarrow> json \<Rightarrow> json \<Rightarrow> json \<Rightarrow> bool" where
  "same_scope env manifestPath baselinePath sellerOutput requester manifest result body \<longleftrightarrow>
     mem body ''seller'' = seller_of result \<and> mem body ''requester'' = Some (JStr (toLowerCase requester))
   \<and> mem body ''proverGasUnits'' = mem result ''proverGasUnits'' \<and> mem body ''sellerProgramVKey'' = mem manifest ''sellerProgramVKey''
   \<and> mem body ''manifestPath'' = Some (JStr (be_resolve env manifestPath))
   \<and> mem body ''baselinePath'' = Some (JStr (be_resolve env baselinePath)) \<and> mem body ''output'' = Some (JStr sellerOutput)"

definition prepare_entry ::
  "batch_env \<Rightarrow> string \<Rightarrow> string \<Rightarrow> string \<Rightarrow> string \<Rightarrow> string \<Rightarrow> string \<Rightarrow> json \<Rightarrow> json option \<Rightarrow> json \<Rightarrow> batch_totals \<Rightarrow> batch_totals res" where
  "prepare_entry env manifestPath baselinePath estimateDirectory output requester existingDirectory manifest existing result t =
     res_bind (require (find_seller (mem manifest ''sellers'') (seller_of result) \<noteq> None) ''estimate contains an unexpected seller'') (\<lambda>_.
     let sellerOutput = (if seller_of result = existing then be_resolve env existingDirectory
         else join (join output ''sellers'') (str_of (seller_of result))) in
     res_bind (seller_quote env manifestPath baselinePath estimateDirectory sellerOutput requester (str_of (seller_of result))) (\<lambda>(q, ws).
     let body = quote_body_of q; resuming = be_exists env (join sellerOutput ''seller.request.json'') in
     res_bind (validateQuote (be_sha256 env) (be_date env) q (mem q ''digest'') resuming (be_now env)) (\<lambda>_.
     res_bind (require (same_scope env manifestPath baselinePath sellerOutput requester manifest result body)
       ''existing seller quote has different scope'') (\<lambda>_.
     res_bind (validateSources (be_files env) (be_root env) body) (\<lambda>_.
     res_bind (big_int (mem body ''estimatedCostWei'')) (\<lambda>cost.
     res_bind (big_int (mem result ''proverGasUnits'')) (\<lambda>gas.
     Inr \<lparr>bt_entries = bt_entries t @ [JObj (known_members
          [(''seller'', seller_of result), (''label'', mem result ''label''), (''quotePath'', Some (JStr (join sellerOutput ''canary-quote.json''))),
           (''quoteDigest'', mem q ''digest''), (''proverGasUnits'', mem result ''proverGasUnits''),
           (''estimatedCostWei'', mem body ''estimatedCostWei'')])],
        bt_cost = bt_cost t + cost, bt_pgu = bt_pgu t + gas, bt_writes = bt_writes t @ ws\<rparr>)))))))"

definition batch_body ::
  "batch_env \<Rightarrow> string \<Rightarrow> string \<Rightarrow> string \<Rightarrow> string \<Rightarrow> string \<Rightarrow> json \<Rightarrow> string \<Rightarrow> string \<Rightarrow> string \<Rightarrow> batch_totals \<Rightarrow> json" where
  "batch_body env manifestPath baselinePath estimateDirectory output requester manifest manifestSha baselineSha estimateSha t =
     JObj (known_members
       [(''version'', Some (JNum 1)), (''kind'', Some (JStr ''frozen-seller-batch-approval'')),
        (''generatedAt'', Some (JStr (be_iso env (be_now env)))), (''proofCount'', Some (JNum (int (length (bt_entries t))))),
        (''concurrency'', Some (JNum 1)), (''aip4Compliant'', Some (JBool False)), (''requester'', Some (JStr (toLowerCase requester))),
        (''sellerProgramVKey'', mem manifest ''sellerProgramVKey''), (''totalProverGasUnits'', Some (JStr (show_int (bt_pgu t)))),
        (''estimatedTotalCostWei'', Some (JStr (show_int (bt_cost t)))),
        (''feeCaveat'', Some (JStr ''Sum of snapshot estimates for all sellers, not a guaranteed total-fee cap. Each request enforces its measured PGU and price cap; the SDK refreshes the base fee.'')),
        (''fundingPolicy'', Some (JStr ''Start affordable requests sequentially; pause before the next unaffordable request. Top up the same network requester and rerun to resume.'')),
        (''policyWarning'', Some (JStr ''Current 30% predicate; documented AIP-4 completeness and attribution differences remain unresolved.'')),
        (''manifestPath'', Some (JStr (be_resolve env manifestPath))), (''manifestSha256'', Some (JStr manifestSha)),
        (''baselinePath'', Some (JStr (be_resolve env baselinePath))), (''baselineSha256'', Some (JStr baselineSha)),
        (''estimateSummaryPath'', Some (JStr (join (be_resolve env estimateDirectory) ''summary.json''))),
        (''estimateSummarySha256'', Some (JStr estimateSha)), (''output'', Some (JStr output)), (''entries'', Some (JArr (bt_entries t)))])"

definition prepare_batch ::
  "batch_env \<Rightarrow> string \<Rightarrow> string \<Rightarrow> string \<Rightarrow> string \<Rightarrow> string \<Rightarrow> string \<Rightarrow> (json \<times> writes) res" where
  "prepare_batch env manifestPath baselinePath estimateDirectory outputPath requester existingDirectory =
     res_bind (require (hex_text 40 requester) ''usage: prepare manifest.json replay-summary.json estimate-directory output-directory requester existing-canary-directory'') (\<lambda>_.
     res_bind (readDoc env manifestPath) (\<lambda>manifest.
     res_bind (validateManifest manifest) (\<lambda>_.
     res_bind (readDoc env (join estimateDirectory ''summary.json'')) (\<lambda>estimates.
     let unmatched = ''all sellers need completed, matching PGU estimates before batch approval'' in
     res_bind (require (complete_estimates estimates manifest) unmatched) (\<lambda>_.
     res_bind (check_sha env manifestPath (sub_mem estimates ''provenance'' ''manifestSha256'') unmatched) (\<lambda>_.
     res_bind (check_sha env baselinePath (sub_mem estimates ''provenance'' ''baselineSha256'') unmatched) (\<lambda>_.
     let output = be_resolve env outputPath; quotePath = join output ''batch-quote.json''; rs = elements (mem estimates ''results'') in
     res_bind (require (\<not> be_exists env quotePath) ''batch quote already exists; use preflight/run to resume, not prepare'') (\<lambda>_.
     res_bind (readDoc env (join (be_resolve env existingDirectory) ''canary-quote.json'')) (\<lambda>existing.
     res_bind (all_pgu rs) (\<lambda>_.
     let existingSeller = mem (quote_body_of existing) ''seller'' in
     res_bind (res_fold (prepare_entry env manifestPath baselinePath estimateDirectory output requester existingDirectory manifest existingSeller)
       (js_sort (compareFirst existingSeller) rs) \<lparr>bt_entries = [], bt_cost = 0, bt_pgu = 0, bt_writes = []\<rparr>) (\<lambda>t.
     res_bind (shaOf env manifestPath) (\<lambda>ms. res_bind (shaOf env baselinePath) (\<lambda>bs.
     res_bind (shaOf env (join estimateDirectory ''summary.json'')) (\<lambda>es.
     let q = sealed_quote env (batch_body env manifestPath baselinePath estimateDirectory output requester manifest ms bs es t) in
     Inr (q, bt_writes t @ [(quotePath, q)])))))))))))))))"

section \<open>Refreshing a batch\<close>

record refresh_item =
  ri_entry :: json
  ri_quote :: json
  ri_changed :: bool

type_synonym price_cache = "(json option \<times> json) list"

text \<open>Prices are read once per reader.\<close>

definition cached_price :: "batch_env \<Rightarrow> json option \<Rightarrow> price_cache \<Rightarrow> (json \<times> price_cache) res" where
  "cached_price env reader prices =
     (case map_of prices reader of Some p \<Rightarrow> Inr (p, prices)
      | None \<Rightarrow> res_bind (be_pricing env reader) (\<lambda>p. Inr (p, prices @ [(reader, p)])))"

definition refresh_entry ::
  "batch_env \<Rightarrow> json option \<Rightarrow> json \<Rightarrow> refresh_item list \<times> price_cache \<Rightarrow> (refresh_item list \<times> price_cache) res" where
  "refresh_entry env requester entry st = (case st of (items, prices) \<Rightarrow>
     res_bind (readDoc env (str_of (mem entry ''quotePath''))) (\<lambda>q.
     res_bind (validateQuote (be_sha256 env) (be_date env) q (mem entry ''quoteDigest'') True (be_now env)) (\<lambda>_.
     let body = quote_body_of q; directory = str_of (mem body ''output'');
         resuming = be_exists env (join directory ''seller.request.json'') in
     res_bind (require (mem body ''seller'' = seller_of entry \<and> mem body ''requester'' = requester) ''seller scope mismatch during refresh'') (\<lambda>_.
     res_bind (require (\<not> be_exists env (join directory ''execution.lock''))
       (''seller execution is locked: '' @ text_of (seller_of entry))) (\<lambda>_.
     res_bind (require (resuming \<or> \<not> be_exists env (join directory ''submission-started.json''))
       (''ambiguous prior submission for '' @ text_of (seller_of entry) @ ''; reconcile network history before refreshing'')) (\<lambda>_.
     res_bind (validateSources (be_files env) (be_root env) body) (\<lambda>_.
     if resuming then Inr (items @ [\<lparr>ri_entry = entry, ri_quote = q, ri_changed = False\<rparr>], prices)
     else res_bind (cached_price env (mem body ''priceReader'') prices) (\<lambda>(p, prices').
       res_bind (repriceQuote (be_sha256 env) (be_date env) (be_iso env) q (mem p ''baseFeeWei'') (be_now env) 500) (\<lambda>q'.
       Inr (items @ [\<lparr>ri_entry = entry, ri_quote = q', ri_changed = True\<rparr>], prices'))))))))))"

definition history_directory :: "batch_env \<Rightarrow> string \<Rightarrow> string" where
  "history_directory env output = join (join output ''quote-history'')
     (map (\<lambda>c. if c \<in> {CHR '':'', CHR ''.''} then CHR ''-'' else c) (be_iso env (be_now env)))"

definition item_path :: "string \<Rightarrow> refresh_item \<Rightarrow> string" where
  "item_path history item = (if ri_changed item then join history (text_of (seller_of (ri_entry item)) @ ''.json'')
     else str_of (mem (ri_entry item) ''quotePath''))"

definition refreshed_entry :: "string \<Rightarrow> refresh_item \<Rightarrow> json" where
  "refreshed_entry history item = (let body = quote_body_of (ri_quote item) in
     obj_assign (ri_entry item) (known_members
       [(''quotePath'', Some (JStr (item_path history item))), (''quoteDigest'', mem (ri_quote item) ''digest''),
        (''estimatedCostWei'', mem body ''estimatedCostWei''),
        (''maxEstimatedCostWei'', nullish_mem body ''maxEstimatedCostWei'' ''estimatedCostWei'')]))"

record refresh_report =
  rr_previousDigest :: "json option"
  rr_digest :: "json option"
  rr_refreshedSellers :: nat
  rr_preservedPaidRequests :: nat
  rr_cost :: int
  rr_allowance :: int
  rr_quote :: json
  rr_state :: "json option"
  rr_writes :: writes

definition refreshed_body :: "batch_env \<Rightarrow> json \<Rightarrow> json list \<Rightarrow> int \<Rightarrow> int \<Rightarrow> json" where
  "refreshed_body env q es cost allowance = obj_assign (quote_body_of q)
     [(''generatedAt'', JStr (be_iso env (be_now env))), (''previousBatchDigest'', JStr (str_of (mem q ''digest''))), (''entries'', JArr es),
      (''newRequestBaseFeeBufferBps'', JNum 500), (''estimatedTotalCostWei'', JStr (show_int cost)),
      (''estimatedTotalCostWithFeeAllowanceWei'', JStr (show_int allowance))]"

definition refreshed_state :: "json option \<Rightarrow> json \<Rightarrow> json" where
  "refreshed_state digest state = obj_delete (obj_assign state (known_members [(''batchDigest'', digest),
     (''status'', Some (JStr (if js_truthy (mem state ''complete'') then ''complete'' else ''awaiting-approval'')))])) ''error''"

text \<open>A file is only created (\<open>wx\<close>) where none is.\<close>

definition create_new :: "batch_env \<Rightarrow> writes \<Rightarrow> unit res" where
  "create_new env ws = require (\<forall>(p, _)\<in>set ws. \<not> be_exists env p) ''EEXIST: file already exists''"

definition live_state :: "json option \<Rightarrow> json option" where
  "live_state state = (case state of Some st \<Rightarrow> if js_truthy (Some st) then Some st else None | None \<Rightarrow> None)"

definition kept_files :: "string \<Rightarrow> json \<Rightarrow> json option \<Rightarrow> refresh_item list \<Rightarrow> writes" where
  "kept_files history q live items = (join history ''previous-batch-quote.json'', q)
     # (case live of None \<Rightarrow> [] | Some st \<Rightarrow> [(join history ''previous-summary.json'', st)])
     @ map (\<lambda>i. (item_path history i, ri_quote i)) (filter ri_changed items)"

definition finish_refresh :: "batch_env \<Rightarrow> string \<Rightarrow> json \<Rightarrow> json option \<Rightarrow> refresh_item list \<Rightarrow> refresh_report res" where
  "finish_refresh env quotePath q live items =
     (let output = str_of (mem (quote_body_of q) ''output''); statePath = join output ''summary.json'';
         history = history_directory env output; kept = kept_files history q live items;
         es = map (refreshed_entry history) items in
     res_bind (create_new env kept) (\<lambda>_.
     res_bind (sum_member ''estimatedCostWei'' es) (\<lambda>cost.
     res_bind (sum_member ''maxEstimatedCostWei'' es) (\<lambda>allowance.
     let refreshed = sealed_quote env (refreshed_body env q es cost allowance);
         updated = map_option (refreshed_state (mem refreshed ''digest'')) live in
     Inr \<lparr>rr_previousDigest = mem q ''digest'', rr_digest = mem refreshed ''digest'',
       rr_refreshedSellers = length (filter ri_changed items),
       rr_preservedPaidRequests = length (filter (\<lambda>i. \<not> ri_changed i) items), rr_cost = cost, rr_allowance = allowance,
       rr_quote = refreshed, rr_state = updated,
       rr_writes = kept @ [(quotePath, refreshed)] @ (case updated of None \<Rightarrow> [] | Some st \<Rightarrow> [(statePath, st)])\<rparr>))))"

text \<open>\<open>reread\<close> is the batch quote as it is read again under the lock.\<close>

definition read_state :: "batch_env \<Rightarrow> string \<Rightarrow> json option res" where
  "read_state env statePath =
     (if be_exists env statePath then res_bind (readDoc env statePath) (\<lambda>st. Inr (Some st)) else Inr None)"

definition refreshBatch :: "batch_env \<Rightarrow> string \<Rightarrow> json \<Rightarrow> refresh_report res" where
  "refreshBatch env quotePath reread =
     res_bind (readDoc env quotePath) (\<lambda>q.
     res_bind (validateBatch (be_sha256 env) q (mem q ''digest'')) (\<lambda>_.
     let output = str_of (mem (quote_body_of q) ''output'') in
     res_bind (require (\<not> be_exists env (join output ''batch.lock'')) ''EEXIST: file already exists'') (\<lambda>_.
     res_bind (require (mem reread ''digest'' = mem q ''digest'') ''batch changed before refresh lock'') (\<lambda>_.
     res_bind (read_state env (join output ''summary.json'')) (\<lambda>state.
     res_bind (require (case live_state state of None \<Rightarrow> True
         | Some st \<Rightarrow> mem st ''kind'' = Some (JStr ''frozen-seller-batch-progress'') \<and> mem st ''batchDigest'' = mem q ''digest'')
       ''batch checkpoint mismatch before refresh'') (\<lambda>_.
     res_bind (res_fold (refresh_entry env (mem (quote_body_of q) ''requester'')) (elements (mem (quote_body_of q) ''entries'')) ([], [])) (\<lambda>(items, _).
     finish_refresh env quotePath q (live_state state) items)))))))"

section \<open>Executing a batch\<close>

definition batch_sources :: "json \<Rightarrow> (json option \<times> json option) list" where
  "batch_sources body = map (\<lambda>k. (mem body (k @ ''Path''), mem body (k @ ''Sha256''))) [''manifest'', ''baseline'', ''estimateSummary'']"

definition check_entry :: "batch_env \<Rightarrow> json option \<Rightarrow> bool \<Rightarrow> json \<Rightarrow> price_cache \<Rightarrow> price_cache res" where
  "check_entry env requester preflightOnly entry prices =
     res_bind (readDoc env (str_of (mem entry ''quotePath''))) (\<lambda>q.
     let body = quote_body_of q in
     res_bind (validateQuote (be_sha256 env) (be_date env) q (mem entry ''quoteDigest'') True (be_now env)) (\<lambda>_.
     res_bind (require (mem body ''seller'' = seller_of entry \<and> mem body ''requester'' = requester) ''seller quote scope differs from batch'') (\<lambda>_.
     res_bind (validateSources (be_files env) (be_root env) body) (\<lambda>_.
     if \<not> preflightOnly then Inr prices
     else (let resuming = be_exists env (join (str_of (mem body ''output'')) ''seller.request.json'') in
       res_bind (validateQuote (be_sha256 env) (be_date env) q (mem entry ''quoteDigest'') resuming (be_now env)) (\<lambda>_.
       if resuming then Inr prices
       else res_bind (cached_price env (mem body ''priceReader'') prices) (\<lambda>(p, prices').
         res_bind (checkBaseFee body p False) (\<lambda>_. Inr prices'))))))))"

definition execute_checks :: "batch_env \<Rightarrow> json \<Rightarrow> json option \<Rightarrow> bool \<Rightarrow> unit res" where
  "execute_checks env q approval preflightOnly =
     (let body = quote_body_of q in
      res_bind (validateBatch (be_sha256 env) q approval) (\<lambda>_.
      res_bind (res_fold (\<lambda>(p, h) _. check_sha env (str_of p) h (''batch source changed: '' @ str_of p)) (batch_sources body) ()) (\<lambda>_.
      res_bind (res_fold (check_entry env (mem body ''requester'') preflightOnly) (elements (mem body ''entries'')) []) (\<lambda>_. Inr ()))))"

definition fresh_state :: "batch_env \<Rightarrow> json \<Rightarrow> json" where
  "fresh_state env q = JObj (known_members
     [(''version'', Some (JNum 1)), (''kind'', Some (JStr ''frozen-seller-batch-progress'')), (''batchDigest'', mem q ''digest''),
      (''expectedSellerCount'', mem (quote_body_of q) ''proofCount''), (''startedAt'', Some (JStr (be_iso env (be_now env)))),
      (''aip4Compliant'', Some (JBool False)), (''submittedOnChain'', Some (JBool False)), (''complete'', Some (JBool False)),
      (''results'', Some (JArr []))])"

definition verify_completed :: "batch_env \<Rightarrow> 'w \<Rightarrow> json \<Rightarrow> unit res" where
  "verify_completed env w completed =
     (let changed = ''completed artifact changed: '' @ text_of (seller_of completed) in
      res_bind (require (js_truthy (mem completed ''productionProofVerified'')) changed) (\<lambda>_.
      check_sha env (str_of (mem completed ''artifact'')) (mem completed ''artifactSha256'') changed))"

text \<open>The run of the queue is a parameter: \<open>submit\<close> on the entry's quote, as in theory \<open>Batch\<close>.\<close>

definition execute ::
  "batch_env \<Rightarrow> ('w \<Rightarrow> json \<Rightarrow> json res \<times> 'w) \<Rightarrow> string \<Rightarrow> json option \<Rightarrow> bool \<Rightarrow> bool \<Rightarrow> json \<Rightarrow> 'w
    \<Rightarrow> json option res \<times> 'w \<times> json list" where
  "execute env run quotePath approval preflightOnly key reread w =
     (case res_bind (readDoc env quotePath) (\<lambda>q. res_bind (execute_checks env q approval preflightOnly) (\<lambda>_. Inr q)) of
        Inl e \<Rightarrow> (Inl e, w, [])
      | Inr q \<Rightarrow>
          let output = str_of (mem (quote_body_of q) ''output''); es = elements (mem (quote_body_of q) ''entries'');
              statePath = join output ''summary.json'' in
          if preflightOnly then (Inr None, w, [])
          else (case res_bind (require key ''unlock the requester locally through NETWORK_PRIVATE_KEY'') (\<lambda>_.
              res_bind (require (\<not> be_exists env (join output ''batch.lock'')) ''EEXIST: file already exists'') (\<lambda>_.
              res_bind (require (mem reread ''digest'' = mem q ''digest'') ''batch approval changed before execution lock'') (\<lambda>_.
              res_bind (if be_exists env statePath then readDoc env statePath else Inr (fresh_state env q)) (\<lambda>st.
              res_bind (require (checkpoint_ok (JStr (str_of (mem q ''digest''))) es st) ''batch checkpoint mismatch'') (\<lambda>_. Inr st))))) of
              Inl e \<Rightarrow> (Inl e, w, [])
            | Inr st \<Rightarrow> (case runQueue run (verify_completed env) (be_iso env (be_now env)) es w st of
                (r, w', persisted) \<Rightarrow> (res_bind r (\<lambda>st'. Inr (Some st')), w', persisted))))"

section \<open>A refreshed batch\<close>

lemma sealed_quote_simps [simp]:
  "quote_body_of (sealed_quote env body) = body"
  "mem (sealed_quote env body) ''digest'' = Some (JStr (canaryDigest (be_sha256 env) body))"
  by (simp_all add: sealed_quote_def quote_body_of_def mem_def)

text \<open>What a refresh makes of one entry: its own quote, kept if it is paid for and repriced otherwise.\<close>

definition refreshed_from :: "batch_env \<Rightarrow> json option \<Rightarrow> json \<Rightarrow> refresh_item \<Rightarrow> bool" where
  "refreshed_from env requester entry item \<longleftrightarrow> ri_entry item = entry \<and>
     (\<exists>q fee. readDoc env (str_of (mem entry ''quotePath'')) = Inr q
       \<and> validateQuote (be_sha256 env) (be_date env) q (mem entry ''quoteDigest'') True (be_now env) = Inr ()
       \<and> mem (quote_body_of q) ''seller'' = seller_of entry \<and> mem (quote_body_of q) ''requester'' = requester
       \<and> (if ri_changed item
          then \<not> be_exists env (join (str_of (mem (quote_body_of q) ''output'')) ''seller.request.json'')
            \<and> repriceQuote (be_sha256 env) (be_date env) (be_iso env) q fee (be_now env) 500 = Inr (ri_quote item)
          else be_exists env (join (str_of (mem (quote_body_of q) ''output'')) ''seller.request.json'') \<and> ri_quote item = q))"

lemma refresh_entry_Inr:
  assumes "refresh_entry env requester entry (items, prices) = Inr (items', prices')"
  shows "\<exists>i. items' = items @ [i] \<and> refreshed_from env requester entry i"
  using assms by (auto simp: refresh_entry_def refreshed_from_def Let_def res_bind_Inr split: if_splits)

lemma refresh_entries:
  "res_fold (refresh_entry env requester) es (items, prices) = Inr (items', prices')
    \<Longrightarrow> \<exists>is. items' = items @ is \<and> list_all2 (refreshed_from env requester) es is"
proof (induction es arbitrary: items prices)
  case Nil
  then show ?case by simp
next
  case (Cons e es)
  then obtain items1 prices1 where first: "refresh_entry env requester e (items, prices) = Inr (items1, prices1)"
    and rest: "res_fold (refresh_entry env requester) es (items1, prices1) = Inr (items', prices')"
    unfolding res_fold_Cons_Inr by force
  obtain i where "items1 = items @ [i]" "refreshed_from env requester e i"
    using refresh_entry_Inr[OF first] by blast
  moreover obtain rest_items where "items' = items1 @ rest_items" "list_all2 (refreshed_from env requester) es rest_items"
    using Cons.IH[OF rest] by blast
  ultimately show ?case by (intro exI[of _ "i # rest_items"]) simp
qed

lemma repriced_scope:
  assumes "repriceQuote sha256 parse_date iso_text q fee now bps = Inr q'"
  shows "mem (quote_body_of q') ''seller'' = mem (quote_body_of q) ''seller''"
    and "mem (quote_body_of q') ''requester'' = mem (quote_body_of q) ''requester''"
    and "mem q' ''digest'' = Some (JStr (canaryDigest sha256 (quote_body_of q')))"
proof -
  obtain ms kvs where "quote_body_of q = JObj ms" "quote_body_of q' = obj_assign (JObj ms) kvs"
    "map_of (rev kvs) ''seller'' = None" "map_of (rev kvs) ''requester'' = None"
    by (rule repriceQuote_Inr[OF assms]) (auto simp: repriced_members_def)
  then show "mem (quote_body_of q') ''seller'' = mem (quote_body_of q) ''seller''"
    and "mem (quote_body_of q') ''requester'' = mem (quote_body_of q) ''requester''"
    by (simp_all add: mem_assigned)
  show "mem q' ''digest'' = Some (JStr (canaryDigest sha256 (quote_body_of q')))"
    by (rule repriceQuote_Inr[OF assms])
qed

lemma known_absent: "k \<notin> fst ` set ms \<Longrightarrow> map_of (rev (known_members ms)) k = None"
  by (force simp: map_of_eq_None_iff known_members_def map_filter_def)

lemma seller_of_refreshed [simp]: "seller_of (refreshed_entry history item) = seller_of (ri_entry item)"
  unfolding refreshed_entry_def Let_def seller_of_def mem_assigned by (subst known_absent) simp_all

lemma refreshed_entry_quote:
  assumes "mem (ri_quote item) ''digest'' = Some d"
  shows "mem (refreshed_entry history item) ''quoteDigest'' = Some d"
    and "mem (refreshed_entry history item) ''quotePath'' = Some (JStr (item_path history item))"
  using assms by (auto simp: refreshed_entry_def mem_assigned known_members_def Let_def split: option.split)

text \<open>Whether an entry of a batch can be executed: its quote is the approved one and in scope.\<close>

definition entry_executable :: "batch_env \<Rightarrow> json option \<Rightarrow> json \<Rightarrow> json \<Rightarrow> bool" where
  "entry_executable env requester entry q \<longleftrightarrow>
     validateQuote (be_sha256 env) (be_date env) q (mem entry ''quoteDigest'') True (be_now env) = Inr ()
   \<and> mem (quote_body_of q) ''seller'' = seller_of entry \<and> mem (quote_body_of q) ''requester'' = requester"

lemma validateQuote_digest: "validateQuote sha256 parse_date q a r now = Inr () \<Longrightarrow> a = mem q ''digest''
    \<and> mem q ''digest'' = Some (JStr (canaryDigest sha256 (quote_body_of q)))"
  by (simp add: validateQuote_Inr)

lemma validateQuote_resuming: "validateQuote sha256 parse_date q a False now = Inr () \<Longrightarrow> validateQuote sha256 parse_date q a True later = Inr ()"
  by (simp add: validateQuote_Inr)

lemma refreshed_executable:
  assumes "refreshed_from env requester entry item"
    and date: "be_date env (be_iso env (be_now env + day_ms)) = Some (be_now env + day_ms)"
  shows "entry_executable env requester (refreshed_entry history item) (ri_quote item)"
    and "ri_changed item \<Longrightarrow> later < be_now env + day_ms \<Longrightarrow> validateQuote (be_sha256 env) (be_date env) (ri_quote item)
       (mem (refreshed_entry history item) ''quoteDigest'') False later = Inr ()"
proof -
  obtain q fee where item: "ri_entry item = entry"
    and q: "validateQuote (be_sha256 env) (be_date env) q (mem entry ''quoteDigest'') True (be_now env) = Inr ()"
    and scope: "mem (quote_body_of q) ''seller'' = seller_of entry" "mem (quote_body_of q) ''requester'' = requester"
    and made: "if ri_changed item then repriceQuote (be_sha256 env) (be_date env) (be_iso env) q fee (be_now env) 500 = Inr (ri_quote item)
       else ri_quote item = q"
    using assms(1) by (auto simp: refreshed_from_def split: if_splits)
  have later: "validateQuote (be_sha256 env) (be_date env) (ri_quote item) (mem (refreshed_entry history item) ''quoteDigest'') False later = Inr ()"
    if "ri_changed item" "later < be_now env + day_ms" for later
  proof -
    have "repriceQuote (be_sha256 env) (be_date env) (be_iso env) q fee (be_now env) 500 = Inr (ri_quote item)"
      using made that(1) by simp
    from repriced_valid[OF this date that(2)] repriced_scope(3)[OF this] show ?thesis
      by (simp add: refreshed_entry_quote)
  qed
  then show "ri_changed item \<Longrightarrow> later < be_now env + day_ms \<Longrightarrow> validateQuote (be_sha256 env) (be_date env) (ri_quote item)
       (mem (refreshed_entry history item) ''quoteDigest'') False later = Inr ()" .
  have now: "be_now env < be_now env + day_ms" by (simp add: day_ms_def)
  show "entry_executable env requester (refreshed_entry history item) (ri_quote item)"
  proof (cases "ri_changed item")
    case True
    then have made': "repriceQuote (be_sha256 env) (be_date env) (be_iso env) q fee (be_now env) 500 = Inr (ri_quote item)"
      using made by simp
    show ?thesis
      using later[OF True now, THEN validateQuote_resuming] repriced_scope(1,2)[OF made'] scope item
      by (simp add: entry_executable_def)
  next
    case False
    then show ?thesis using made q scope item validateQuote_digest[OF q]
      by (simp add: entry_executable_def refreshed_entry_quote)
  qed
qed

lemma refreshed_body_mem [simp]:
  "k \<in> {''version'', ''kind'', ''proofCount'', ''aip4Compliant'', ''concurrency'', ''requester'', ''output''}
    \<Longrightarrow> mem (refreshed_body env q es cost allowance) k = mem (quote_body_of q) k"
  "mem (refreshed_body env q es cost allowance) ''entries'' = Some (JArr es)"
  by (auto simp: refreshed_body_def mem_assigned)

lemma refreshed_batch_valid:
  assumes "validateBatch sha256 q a = Inr ()" and "be_sha256 env = sha256"
    and "map seller_of es = map seller_of (elements (mem (quote_body_of q) ''entries''))"
  shows "validateBatch sha256 (sealed_quote env (refreshed_body env q es cost allowance))
    (mem (sealed_quote env (refreshed_body env q es cost allowance)) ''digest'') = Inr ()"
proof -
  have "length es = length (elements (mem (quote_body_of q) ''entries''))" using assms(3) by (rule map_eq_imp_length_eq)
  moreover have "map (\<lambda>e. mem e ''seller'') es = map (\<lambda>e. mem e ''seller'') (elements (mem (quote_body_of q) ''entries''))"
    using assms(3) by (simp add: seller_of_def [abs_def])
  ultimately show ?thesis
    using assms(1,2) by (auto simp: validateBatch_def Let_def res_bind_Inr elements_def is_array_def)
qed

lemma refreshed_checkpoint:
  assumes "checkpoint_ok d es st" and "digest = Some d'" and "map seller_of es' = map seller_of es"
  shows "checkpoint_ok d' es' (refreshed_state digest st)"
proof -
  have "list_ex (\<lambda>e. seller_of e = s) xs \<longleftrightarrow> s \<in> set (map seller_of xs)" for s xs
    by (auto simp: list_ex_iff)
  then show ?thesis
    using assms by (simp add: checkpoint_ok_def refreshed_state_def state_simps known_members_def flip: set_map)
qed

lemma refreshBatch_Inr:
  assumes "refreshBatch env path reread = Inr rep"
  obtains q items state where "readDoc env path = Inr q"
    and "validateBatch (be_sha256 env) q (mem q ''digest'') = Inr ()"
    and "read_state env (join (str_of (mem (quote_body_of q) ''output'')) ''summary.json'') = Inr state"
    and "list_all2 (refreshed_from env (mem (quote_body_of q) ''requester'')) (elements (mem (quote_body_of q) ''entries'')) items"
    and "finish_refresh env path q (live_state state) items = Inr rep"
proof -
  obtain q state items prices where "readDoc env path = Inr q" "validateBatch (be_sha256 env) q (mem q ''digest'') = Inr ()"
    "read_state env (join (str_of (mem (quote_body_of q) ''output'')) ''summary.json'') = Inr state"
    "finish_refresh env path q (live_state state) items = Inr rep"
    and items: "res_fold (refresh_entry env (mem (quote_body_of q) ''requester'')) (elements (mem (quote_body_of q) ''entries'')) ([], []) = Inr (items, prices)"
    using assms unfolding refreshBatch_def res_bind_Inr Let_def by (auto split: prod.splits)
  then show ?thesis using that refresh_entries[OF items] by auto
qed

lemma read_state_live: "read_state env path = Inr state \<Longrightarrow> live_state state = Some st \<Longrightarrow> readDoc env path = Inr st"
  by (auto simp: read_state_def live_state_def res_bind_Inr split: if_splits option.splits)

abbreviation batch_entries :: "json \<Rightarrow> json list" where
  "batch_entries q \<equiv> elements (mem (quote_body_of q) ''entries'')"

lemma finish_refresh_Inr:
  assumes "finish_refresh env path q live items = Inr rep"
  shows "\<exists>history cost allowance. rr_quote rep = sealed_quote env (refreshed_body env q (map (refreshed_entry history) items) cost allowance)
    \<and> rr_digest rep = mem (rr_quote rep) ''digest'' \<and> rr_state rep = map_option (refreshed_state (rr_digest rep)) live
    \<and> batch_entries (rr_quote rep) = map (refreshed_entry history) items
    \<and> (\<forall>i\<in>set items. ri_changed i \<longrightarrow> (item_path history i, ri_quote i) \<in> set (rr_writes rep))"
proof -
  let ?history = "history_directory env (str_of (mem (quote_body_of q) ''output''))"
  have kept: "(item_path history i, ri_quote i) \<in> set (kept_files history q live items)" if "i \<in> set items" "ri_changed i" for history i
    using that by (auto simp: kept_files_def)
  obtain rest cost allowance where "rr_quote rep = sealed_quote env (refreshed_body env q (map (refreshed_entry ?history) items) cost allowance)"
    and "rr_digest rep = mem (rr_quote rep) ''digest''" and "rr_state rep = map_option (refreshed_state (rr_digest rep)) live"
    and "rr_writes rep = kept_files ?history q live items @ rest"
    using assms unfolding finish_refresh_def Let_def res_bind_Inr by fastforce
  then show ?thesis
    using kept by (intro exI[of _ ?history] exI[of _ cost] exI[of _ allowance]) (auto simp: elements_def)
qed

lemma refreshed_sellers:
  "list_all2 (refreshed_from env requester) es items \<Longrightarrow> map seller_of (map (refreshed_entry history) items) = map seller_of es"
  by (induction rule: list_all2_induct) (simp_all add: refreshed_from_def)

text \<open>An entry of a refreshed batch is ready: its quote can be executed, and it is one already on disk whose seller has
  requested a proof, or one that the refresh writes, which is then approved for a day.\<close>

definition entry_ready :: "batch_env \<Rightarrow> json option \<Rightarrow> (string \<times> json) list \<Rightarrow> json \<Rightarrow> json \<Rightarrow> bool" where
  "entry_ready env requester writes e q \<longleftrightarrow> entry_executable env requester e q
     \<and> (readDoc env (str_of (mem e ''quotePath'')) = Inr q \<and> be_exists env (join (str_of (mem (quote_body_of q) ''output'')) ''seller.request.json'')
       \<or> (str_of (mem e ''quotePath''), q) \<in> set writes
         \<and> (\<forall>later<be_now env + day_ms. validateQuote (be_sha256 env) (be_date env) q (mem e ''quoteDigest'') False later = Inr ()))"

lemma refreshed_entry_ready:
  assumes e: "refreshed_from env requester e i"
    and day: "be_date env (be_iso env (be_now env + day_ms)) = Some (be_now env + day_ms)"
    and written: "ri_changed i \<longrightarrow> (item_path history i, ri_quote i) \<in> set writes"
  shows "entry_ready env requester writes (refreshed_entry history i) (ri_quote i)"
proof -
  note ok = refreshed_executable(1)[OF e day, of history]
  have "validateQuote (be_sha256 env) (be_date env) (ri_quote i) (mem (refreshed_entry history i) ''quoteDigest'') True (be_now env) = Inr ()"
    using ok unfolding entry_executable_def by blast
  then obtain d where "mem (ri_quote i) ''digest'' = Some d" using validateQuote_digest by blast
  then have at: "str_of (mem (refreshed_entry history i) ''quotePath'') = item_path history i"
    using refreshed_entry_quote(2) by (auto simp: str_of_def)
  show ?thesis
  proof (cases "ri_changed i")
    case True
    then show ?thesis
      using ok written refreshed_executable(2)[OF e day True] at unfolding entry_ready_def by auto
  next
    case False
    then have "item_path history i = str_of (mem e ''quotePath'')" and "readDoc env (str_of (mem e ''quotePath'')) = Inr (ri_quote i)"
      and "be_exists env (join (str_of (mem (quote_body_of (ri_quote i)) ''output'')) ''seller.request.json'')"
      using e by (auto simp: refreshed_from_def item_path_def)
    then show ?thesis using ok at unfolding entry_ready_def by auto
  qed
qed



section \<open>Executing a batch\<close>

text \<open>C27: Whatever becomes of a run, the states it persists are checkpoints that the next run of the
  same batch accepts, and a run that persists any has been approved under the batch's digest.\<close>

theorem execute_resumable:
  assumes "execute env (submit_run sha256 parse_date readQuote senv) path approval preflightOnly key reread dirs = (r, dirs', persisted)"
    and "persisted \<noteq> []"
  shows "\<exists>q d. readDoc env path = Inr q \<and> mem q ''digest'' = Some (JStr d) \<and> approval = Some (JStr d)
    \<and> validateBatch (be_sha256 env) q approval = Inr () \<and> (\<forall>s\<in>set persisted. checkpoint_ok (JStr d) (batch_entries q) s)"
proof -
  let ?run = "submit_run sha256 parse_date readQuote senv"
  obtain q where q: "readDoc env path = Inr q" and checks: "execute_checks env q approval preflightOnly = Inr ()"
    using assms by (auto simp: execute_def res_bind_def split: sum.splits)
  have valid: "validateBatch (be_sha256 env) q approval = Inr ()"
    using checks by (auto simp: execute_checks_def Let_def res_bind_Inr)
  then obtain d where d: "mem q ''digest'' = Some (JStr d)" "approval = Some (JStr d)"
    by (auto simp: validateBatch_def Let_def res_bind_Inr)
  have "\<exists>st. checkpoint_ok (JStr d) (batch_entries q) st
     \<and> (\<exists>r'. runQueue ?run (verify_completed env) (be_iso env (be_now env)) (batch_entries q) dirs st = (r', dirs', persisted))"
    using assms q checks d by (auto simp: execute_def Let_def res_bind_Inr str_of_def split: sum.splits if_splits prod.splits)
  then obtain st r' where st: "checkpoint_ok (JStr d) (batch_entries q) st"
    and run: "queue_loop ?run (verify_completed env) (be_iso env (be_now env)) (batch_entries q) dirs (start_queue st) [start_queue st] = (r', dirs', persisted)"
    by (auto simp: runQueue_def Let_def)
  have "\<forall>s\<in>set persisted. checkpoint_ok (JStr d) (batch_entries q) s \<and> set [] \<subseteq> set (results_of s)"
    by (rule canary_queue.loop_invariant[OF run, of "batch_entries q"]) (use st in simp_all)
  then show ?thesis using q d valid by auto
qed

section \<open>A batch of one seller\<close>

definition ex_batch_body :: json where
  "ex_batch_body = JObj [(''version'', JNum 1), (''kind'', JStr ''frozen-seller-batch-approval''), (''proofCount'', JNum 1),
     (''concurrency'', JNum 1), (''aip4Compliant'', JBool False), (''requester'', JStr ex_addr), (''output'', JStr ''b''),
     (''manifestPath'', JStr ''m''), (''manifestSha256'', JStr ''h''), (''baselinePath'', JStr ''b''), (''baselineSha256'', JStr ''h''),
     (''estimateSummaryPath'', JStr ''e''), (''estimateSummarySha256'', JStr ''h''), (''entries'', JArr [ex_entry])]"

definition ex_batch :: json where
  "ex_batch = JObj [(''body'', ex_batch_body), (''digest'', JStr ''0xd'')]"

definition ex_batch_env :: batch_env where
  "ex_batch_env = \<lparr>be_files = \<lparr>readJson = (\<lambda>path. if path = ''q'' then Inr ex_batch else if path = ''p'' then Inr ex_quote else readJson ex_files path),
       fileSha = fileSha ex_files\<rparr>,
     be_root = ''/'', be_exists = (\<lambda>_. False), be_resolve = id, be_dirname = id,
     be_pricing = (\<lambda>_. Inr (JObj [(''baseFeeWei'', JStr ''7'')])), be_now = 0, be_iso = (\<lambda>_. ''t''), be_date = (\<lambda>_. Some day_ms),
     be_sha256 = (\<lambda>_. ''d'')\<rparr>"

lemma ex_refresh: "\<not> isl (refreshBatch ex_batch_env ''q'' ex_batch)"
  by code_simp

lemma ex_execute_checks: "execute_checks ex_batch_env ex_batch (Some (JStr ''0xd'')) False = Inr ()"
  by code_simp


theorem execute_resumable_witness:
  "\<exists>persisted. persisted \<noteq> [] \<and> list_all (checkpoint_ok (JStr ''0xd'') [ex_entry]) persisted"
proof -
  let ?st = "fresh_state ex_batch_env ex_batch"
  have read: "readDoc ex_batch_env ''q'' = Inr ex_batch" and unlocked: "\<And>p. \<not> be_exists ex_batch_env p"
    by (simp_all add: ex_batch_env_def)
  have d: "mem ex_batch ''digest'' = Some (JStr ''0xd'')" and es: "batch_entries ex_batch = [ex_entry]"
    and st: "checkpoint_ok (JStr ''0xd'') [ex_entry] ?st" by code_simp+
  obtain r dirs' persisted where run: "runQueue ex_run (verify_completed ex_batch_env) (be_iso ex_batch_env (be_now ex_batch_env))
      [ex_entry] ex_dirs ?st = (r, dirs', persisted)" by (metis prod_cases3)
  then have "persisted \<noteq> []"
    by (auto simp: runQueue_def Let_def split: option.splits prod.splits sum.splits)
  moreover have "execute ex_batch_env ex_run ''q'' (Some (JStr ''0xd'')) False True ex_batch ex_dirs
      = (res_bind r (\<lambda>st'. Inr (Some st')), dirs', persisted)"
    using run st by (simp add: execute_def read ex_execute_checks unlocked d es Let_def str_of_def require_def res_bind_def)
  ultimately show ?thesis
    using execute_resumable[of ex_batch_env _ _ _ _ "''q''" "Some (JStr ''0xd'')"] read d es by (fastforce simp: list_all_iff)
qed


end
