(* ===== verification/Historical_Bundle.thy ===== *)
theory Historical_Bundle
  imports Discovery_Bundle
begin

text \<open>
  \<open>scripts/build-unified-historical-bundle.mjs\<close>: the proof bundle of a completed scan. For each
  enforceable seller of the coverage a closed-loop case is made of the funding of its buyers and of
  its returns, for each enforceable pair a reciprocal case; the settlements of the scan are visited
  once; then the returns of each closed loop are selected, searching the cached traces where the
  known ones do not cover the required return, and the cases become finalized claims. The files of
  the scan are parameters; a missing optional one is \<open>None\<close>. An address that is no address is
  \<open>None\<close>. The members of the bundle that are only copied from the scan are left out.
\<close>

section \<open>The scan and its coverage\<close>

record historical_scan =
  manifest_status :: string
  scan_status :: string
  request_seller :: bool
  coverage_complete :: bool
  coverage_incomplete :: nat
  coverage_evaluated :: "string list"
  expectedSellers :: "int option"
  coverage_scanId :: string
  scan_id :: string
  totalProofs :: int
  productionCases :: nat
  period_start :: "int option"
  period_end :: "int option"
  time_from :: "int option"
  time_to :: "int option"

definition check_scan :: "historical_scan \<Rightarrow> unit res" where
  "check_scan sc =
     res_bind (require (manifest_status sc = ''complete'' \<and> scan_status sc = ''complete'') ''unified proof bundle requires one completed scan'') (\<lambda>_.
     res_bind (require (\<not> request_seller sc) ''unified proof bundle rejects seller-targeted scans'') (\<lambda>_.
     res_bind (require (coverage_complete sc \<and> coverage_incomplete sc = 0) ''seller discovery coverage is incomplete'') (\<lambda>_.
     res_bind (require (Some (int (length (coverage_evaluated sc))) = expectedSellers sc
         \<and> Some (int (length (js_set (coverage_evaluated sc)))) = expectedSellers sc)
       (''seller coverage '' @ show_nat (length (coverage_evaluated sc)) @ '' does not match scan seller count ''
         @ (case expectedSellers sc of None \<Rightarrow> ''undefined'' | Some n \<Rightarrow> show_int n))) (\<lambda>_.
     res_bind (require (coverage_scanId sc = scan_id sc \<and> totalProofs sc = int (productionCases sc))
       ''coverage does not match the completed scan'') (\<lambda>_.
     res_bind (require (safe (period_start sc) \<and> safe (period_end sc) \<and> num0 (period_start sc) < num0 (period_end sc))
       ''completed scan has an invalid proof period'') (\<lambda>_.
     require (safe (time_from sc) \<and> safe (time_to sc) \<and> num0 (time_from sc) < num0 (time_to sc))
       ''completed scan has an invalid timestamp period''))))))"

definition scan_period :: "historical_scan \<Rightarrow> period" where
  "scan_period sc = \<lparr>startBlock = num0 (period_start sc), endBlockExclusive = num0 (period_end sc)\<rparr>"

record approved_seller =
  as_seller :: "string option"
  as_enforceable :: bool
  as_fundingType :: string
  as_funder :: "string option"
  as_buyerCount :: int
  as_volumeRaw :: int
  as_totalVolumeRaw :: int

record historical_report =
  hr_cohorts :: "(string option \<times> string option list) list"
  hr_strongest :: "string option list"
  hr_codes :: "json list"

text \<open>A relay path of the discovery: who it is from and for, and its legs, without log indices.\<close>

record discovered_path =
  dp_seller :: "string option"
  dp_funder :: "string option"
  dp_row :: relay_row

record historical_files =
  hf_report :: "string option \<Rightarrow> historical_report res"
  hf_paths :: "string option \<Rightarrow> discovered_path list res"
  hf_trace :: "string option \<Rightarrow> trace res"
  hf_optional_trace :: "string \<Rightarrow> trace option res"
  hf_nativeFunding :: "transfer list"
  hf_deposits :: "transfer list"
  hf_settlements :: "settlement_row list"

section \<open>Returns\<close>

definition without_index :: "relay_leg \<Rightarrow> relay_leg" where
  "without_index leg = leg\<lparr>leg_logIndex := None\<rparr>"

definition relayDependencies :: "discovered_path list \<Rightarrow> string option \<Rightarrow> string option \<Rightarrow> evidence list" where
  "relayDependencies paths s f = map (\<lambda>p. relayDependency ((dp_row p)
       \<lparr>row_sellerPayment := without_index (row_sellerPayment (dp_row p)),
        row_relayForward := without_index (row_relayForward (dp_row p)),
        row_funderReceipt := without_index (row_funderReceipt (dp_row p))\<rparr>) (js_String s) (js_String f))
     (filter (\<lambda>p. checkedAddress (dp_seller p) = s \<and> checkedAddress (dp_funder p) = f) paths)"

definition cached_hop :: "nat \<Rightarrow> nat \<times> transfer \<Rightarrow> transfer" where
  "cached_hop n ih = (case ih of (index, hop) \<Rightarrow> (locator (hop_type n index) hop)
     \<lparr>from_addr := checkedAddress (from_addr hop), to_addr := checkedAddress (to_addr hop), amountRaw := amountRaw hop\<rparr>)"

definition cachedRelayDependency :: "evidence \<Rightarrow> evidence" where
  "cachedRelayDependency path = (let hs = (case hops path of None \<Rightarrow> [] | Some hs \<Rightarrow> hs) in
     (of_transfer (blank\<lparr>evidenceType := RELAY_PATH, seller := seller path, funder := funder path,
        otherMembers := otherMembers path\<rparr>))
     \<lparr>hops := Some (map (cached_hop (length hs)) (enumerate 0 hs))\<rparr>)"

definition directReturnDependencies :: "trace \<Rightarrow> string option \<Rightarrow> string option \<Rightarrow> evidence list" where
  "directReturnDependencies tr s f = map (\<lambda>e. of_transfer ((locator DIRECT_SELLER_FUNDER e)
       \<lparr>from_addr := s, to_addr := f, funder := f, amountRaw := amountRaw e\<rparr>))
     (filter (\<lambda>e. checkedAddress (from_addr e) = s \<and> checkedAddress (to_addr e) = f \<and> 0 < amountRaw e) (outboundUsdc tr))"

definition closureStartTimestamp :: "evidence \<Rightarrow> int" where
  "closureStartTimestamp d = (if evidenceType d = RELAY_PATH
     then (case sellerPayment d of None \<Rightarrow> 0 | Some p \<Rightarrow> num0 (timestamp p)) else num0 (timestamp d))"

section \<open>Closed-loop cases\<close>

record historical_case =
  hc_approved :: approved_seller
  hc_codes :: "json list"
  hc_seller :: "string option"
  hc_funder :: "string option"
  hc_buyers :: "string option list"
  hc_fundingTimes :: "(string option \<times> int) list"
  hc_funding :: "evidence list"
  hc_closure :: "evidence list"
  hc_outbound :: "transfer list"
  hc_settlements :: "evidence list"
  hc_volume :: int

type_synonym funded = "evidence list \<times> (string option \<times> int) list"

definition native_dependency :: "string option \<Rightarrow> string option \<Rightarrow> transfer \<Rightarrow> evidence" where
  "native_dependency b f entry = of_transfer ((locator NATIVE_FUNDING entry)
     \<lparr>buyer := b, funder := f, amountWei := amountWei entry\<rparr>)"

definition fund_native :: "string option \<Rightarrow> (string option \<times> transfer) list \<Rightarrow> string option \<Rightarrow> funded \<Rightarrow> funded" where
  "fund_native f byBuyer b st = (case st of (deps, fundedAt) \<Rightarrow>
     (case map_of byBuyer b of None \<Rightarrow> st
      | Some funding \<Rightarrow> if checkedAddress (from_addr funding) \<noteq> f then st
          else (deps @ [native_dependency b f funding], AList.update b (num0 (timestamp funding)) fundedAt)))"

definition usdc_dependency :: "string option \<Rightarrow> string option \<Rightarrow> string \<Rightarrow> transfer \<Rightarrow> evidence" where
  "usdc_dependency b f kind entry = of_transfer ((locator USDC_FUNDING entry)
     \<lparr>buyer := b, funder := f, amountRaw := amountRaw entry, otherMembers := [(''fundingKind'', JStr kind)]\<rparr>)"

definition fund_usdc ::
  "historical_files \<Rightarrow> string option \<Rightarrow> string option \<Rightarrow> (string option \<times> transfer list) list \<Rightarrow> string option \<Rightarrow> funded \<Rightarrow> funded res" where
  "fund_usdc files s f depositsByBuyer b st = (case st of (deps, fundedAt) \<Rightarrow>
     res_bind (hf_trace files b) (\<lambda>tr.
     res_bind (require (trace_complete tr) (js_String s @ '': incomplete trace for '' @ js_String b)) (\<lambda>_.
     let direct = filter (\<lambda>e. checkedAddress (from_addr e) = f \<and> checkedAddress (to_addr e) = b \<and> 1000000 \<le> amountRaw e) (inboundUsdc tr);
         dps = (case map_of depositsByBuyer b of None \<Rightarrow> [] | Some ds \<Rightarrow> ds)
     in Inr (deps @ map (usdc_dependency b f ''direct_usdc_transfer'') direct @ map (usdc_dependency b f ''protocol_deposit'') dps,
          case js_sort compareTime (direct @ dps) of [] \<Rightarrow> fundedAt
          | e # _ \<Rightarrow> AList.update b (num0 (timestamp e)) fundedAt))))"

definition fund_case ::
  "historical_files \<Rightarrow> approved_seller \<Rightarrow> historical_report \<Rightarrow> (string option list \<times> funded) res" where
  "fund_case files approved report =
     (let s = checkedAddress (as_seller approved); f = checkedAddress (as_funder approved) in
      if as_fundingType approved = ''first_native_funder'' then
        (case find (\<lambda>(cf, _). checkedAddress cf = f) (hr_cohorts report) of
           None \<Rightarrow> Inl (Error (js_String s @ '': selected native cohort is missing''))
         | Some (_, bs) \<Rightarrow> let buyers = js_set (map checkedAddress bs);
               byBuyer = map_from (map (\<lambda>e. (checkedAddress (buyer e), e)) (hf_nativeFunding files))
             in Inr (buyers, fold (fund_native f byBuyer) buyers ([], [])))
      else if as_fundingType approved = ''primary_usdc_funder'' then
        (let buyers = js_set (map checkedAddress (hr_strongest report));
             depositsByBuyer = groupBy (\<lambda>e. checkedAddress (buyer e))
               (filter (\<lambda>e. checkedAddress (funder e) = f \<and> 1000000 \<le> amountRaw e) (hf_deposits files))
         in res_bind (res_fold (fund_usdc files s f depositsByBuyer) buyers ([], [])) (\<lambda>st. Inr (buyers, st)))
      else Inl (Error (js_String s @ '': unsupported selected funding type '' @ as_fundingType approved)))"

definition historical_loop_case :: "historical_files \<Rightarrow> approved_seller \<Rightarrow> historical_case res" where
  "historical_loop_case files approved =
     (let s = checkedAddress (as_seller approved); f = checkedAddress (as_funder approved) in
      res_bind (hf_report files s) (\<lambda>report.
      res_bind (hf_paths files s) (\<lambda>paths.
      res_bind (hf_trace files s) (\<lambda>sellerTrace.
      res_bind (fund_case files approved report) (\<lambda>(buyers, deps, fundedAt).
      let funded = filter (\<lambda>b. map_of fundedAt b \<noteq> None) buyers in
      res_bind (require (int (length funded) = as_buyerCount approved) (js_String s @ '': expected '' @ show_int (as_buyerCount approved)
        @ '' funded buyers, found '' @ show_nat (length funded))) (\<lambda>_.
      Inr \<lparr>hc_approved = approved, hc_codes = hr_codes report, hc_seller = s, hc_funder = f, hc_buyers = funded, hc_fundingTimes = fundedAt,
        hc_funding = dedupeDependencies deps,
        hc_closure = (if s = f then [] else dedupeDependencies (directReturnDependencies sellerTrace s f @ relayDependencies paths s f)),
        hc_outbound = outboundUsdc sellerTrace, hc_settlements = [], hc_volume = 0\<rparr>))))))"

definition closed_cases :: "historical_files \<Rightarrow> approved_seller list \<Rightarrow> (string option \<times> historical_case) list res" where
  "closed_cases files approved =
     res_fold (\<lambda>a cs. res_bind (historical_loop_case files a) (\<lambda>h. Inr (AList.update (hc_seller h) h cs))) (filter as_enforceable approved) []"

section \<open>Reciprocal cases\<close>

record historical_pair =
  hp_walletA :: "string option"
  hp_walletB :: "string option"
  hp_enforceable :: bool
  hp_volumeAToB :: int
  hp_volumeBToA :: int
  hp_settlements :: json

definition samePair :: "historical_pair \<Rightarrow> historical_pair \<Rightarrow> bool" where
  "samePair left right \<longleftrightarrow>
     (let ls = [checkedAddress (hp_walletA left), checkedAddress (hp_walletB left)];
          rs = [checkedAddress (hp_walletA right), checkedAddress (hp_walletB right)]
      in length (js_set ls) = 2 \<and> (\<forall>wallet\<in>set ls. wallet \<in> set rs))"

record reciprocal_case =
  rc_pair :: historical_pair
  rc_walletA :: "string option"
  rc_walletB :: "string option"
  rc_settlements :: "evidence list"
  rc_volumeAToB :: int
  rc_volumeBToA :: int

definition reciprocal_cases :: "historical_pair list \<Rightarrow> historical_pair list \<Rightarrow> reciprocal_case list" where
  "reciprocal_cases pairs approved = map (\<lambda>p. \<lparr>rc_pair = p, rc_walletA = checkedAddress (hp_walletA p),
       rc_walletB = checkedAddress (hp_walletB p), rc_settlements = [], rc_volumeAToB = 0, rc_volumeBToA = 0\<rparr>)
     (filter (\<lambda>p. list_ex (\<lambda>a. samePair p a \<and> hp_enforceable a) approved) pairs)"

definition direction :: "string option \<Rightarrow> string option \<Rightarrow> string" where
  "direction a b = js_String a @ '':'' @ js_String b"

text \<open>\<open>reciprocalByDirection\<close> gives the index of the case.\<close>

definition by_direction :: "reciprocal_case list \<Rightarrow> (string \<times> nat) list" where
  "by_direction rs = map_from (concat (map (\<lambda>(i, r). [(direction (rc_walletA r) (rc_walletB r), i), (direction (rc_walletB r) (rc_walletA r), i)])
     (enumerate 0 rs)))"

section \<open>The settlements\<close>

record historical_state =
  hs_closed :: "(string option \<times> historical_case) list"
  hs_reciprocal :: "reciprocal_case list"

definition settle_closed :: "settlement_row \<Rightarrow> historical_case \<Rightarrow> historical_case" where
  "settle_closed row h =
     (let b = checkedAddress (buyer (row_entry row)) in
      if b \<notin> set (hc_buyers h) then h
      else h\<lparr>hc_settlements := hc_settlements h @ [settlement_dependency SETTLEMENT row],
        hc_volume := (if (case map_of (hc_fundingTimes h) b of None \<Rightarrow> False | Some t \<Rightarrow> t < num0 (timestamp (row_entry row)))
          then hc_volume h + deltaUsdc row else hc_volume h)\<rparr>)"

definition settle_reciprocal :: "settlement_row \<Rightarrow> reciprocal_case \<Rightarrow> reciprocal_case" where
  "settle_reciprocal row r =
     (let r' = r\<lparr>rc_settlements := rc_settlements r @ [settlement_dependency RECIPROCAL_SETTLEMENT row]\<rparr> in
      if checkedAddress (buyer (row_entry row)) = rc_walletA r then r'\<lparr>rc_volumeAToB := rc_volumeAToB r + deltaUsdc row\<rparr>
      else r'\<lparr>rc_volumeBToA := rc_volumeBToA r + deltaUsdc row\<rparr>)"

definition in_time :: "historical_scan \<Rightarrow> settlement_row \<Rightarrow> bool" where
  "in_time sc row \<longleftrightarrow> (let t = timestamp (row_entry row) in safe t \<and> num0 (time_from sc) \<le> num0 t \<and> num0 t < num0 (time_to sc))"

definition visit_settlement :: "historical_scan \<Rightarrow> (string \<times> nat) list \<Rightarrow> settlement_row \<Rightarrow> historical_state \<Rightarrow> historical_state" where
  "visit_settlement sc directions row st =
     (if \<not> in_time sc row then st
      else (let b = checkedAddress (buyer (row_entry row)); s = checkedAddress (seller (row_entry row)) in
        \<lparr>hs_closed = (case map_of (hs_closed st) s of None \<Rightarrow> hs_closed st
            | Some h \<Rightarrow> AList.update s (settle_closed row h) (hs_closed st)),
         hs_reciprocal = (case map_of directions (direction b s) of None \<Rightarrow> hs_reciprocal st
            | Some i \<Rightarrow> (hs_reciprocal st)[i := settle_reciprocal row (hs_reciprocal st ! i)])\<rparr>))"

section \<open>The claims\<close>

definition earliest_settlement :: "historical_case \<Rightarrow> evidence option" where
  "earliest_settlement h =
     (case js_sort compareTime (filter (\<lambda>e. case map_of (hc_fundingTimes h) (buyer e) of None \<Rightarrow> False
          | Some t \<Rightarrow> t < num0 (timestamp e)) (hc_settlements h)) of
        [] \<Rightarrow> None | e # _ \<Rightarrow> Some e)"

text \<open>The search of the cached traces, for what the known returns leave open.\<close>

definition extend_returns :: "historical_files \<Rightarrow> historical_case \<Rightarrow> int \<Rightarrow> int \<Rightarrow> return_selection \<Rightarrow> return_selection res" where
  "extend_returns files h required earliest selection =
     res_bind (hf_optional_trace files (js_String (hc_funder h))) (\<lambda>funderTrace.
     case funderTrace of
       None \<Rightarrow> Inr selection
     | Some tr \<Rightarrow>
         if \<not> trace_complete tr then Inr selection
         else res_bind (discoverCachedRelayReturns (js_String (hc_seller h)) (js_String (hc_funder h)) (hc_outbound h) (inboundUsdc tr)
             (hf_optional_trace files) earliest (Some (required - returnedRaw selection))
             (512 - int (length (selectedReturns selection))) (usedKeys selection)) (\<lambda>discovered.
           Inr (selectReturnEvidence (selectedReturns selection @ map cachedRelayDependency (selectedReturns discovered))
             (Some required) (Some earliest) MAX_RETURN_PATHS [])))"

definition case_returns :: "historical_files \<Rightarrow> historical_case \<Rightarrow> evidence list res" where
  "case_returns files h =
     (if hc_seller h = hc_funder h \<and> hc_closure h = [] then Inr []
      else (case earliest_settlement h of None \<Rightarrow> Inl TypeError
        | Some e \<Rightarrow>
            let earliest = num0 (timestamp e); volume = as_volumeRaw (hc_approved h);
                initial = filter (\<lambda>p. earliest < closureStartTimestamp p) (hc_closure h) in
            if hc_seller h = hc_funder h then Inr initial
            else res_bind (requiredReturnRaw volume ALPHA_RETURN_BPS) (\<lambda>required.
              let first = selectReturnEvidence initial (Some required) (Some earliest) MAX_RETURN_PATHS [] in
              res_bind (if complete first then Inr first else extend_returns files h required earliest first) (\<lambda>selection.
              res_bind (require (complete selection) (js_String (hc_seller h) @ '': return credit '' @ show_int (returnedRaw selection)
                @ '' below required '' @ show_int required @ '' for '' @ show_int volume @ '' settled volume'')) (\<lambda>_.
              Inr (selectedReturns selection))))))"

text \<open>\<open>finalizeClaim\<close> of this script, which takes the dependencies as they are.\<close>

definition finalizeHistoricalClaim :: "(string \<Rightarrow> string) \<Rightarrow> claim \<Rightarrow> claim" where
  "finalizeHistoricalClaim sha256 c =
     (let ds = js_sort (\<lambda>l r. localeCompare (dep_id l) (dep_id r)) (map (identify_dependency sha256) (dependencies c));
          claimBody = c\<lparr>dependencyRoot := Some (merkleRoot sha256 (map dep_id ds)), dependencies := []\<rparr>;
          leaf = claimBody\<lparr>claimId := Some (hashCanonical sha256 ''claim-id'' (claim_json claimBody))\<rparr>
      in leaf\<lparr>leafHash := Some (hashCanonical sha256 ''claim-leaf'' (claim_json leaf)), dependencies := ds\<rparr>)"

definition closed_claim :: "historical_scan \<Rightarrow> historical_case \<Rightarrow> evidence list \<Rightarrow> claim" where
  "closed_claim sc h returns =
     \<lparr>claim_type = ''P0_CLOSED_LOOP'', subjects = [js_String (hc_seller h)], walletA = None, walletB = None,
      approvedBuyers = sort_strings (map js_String (hc_buyers h)), approvedFunders = [js_String (hc_funder h)],
      claim_metrics = Some \<lparr>qualifiedVolumeRaw = Some (as_volumeRaw (hc_approved h)),
        qualifiedBuyerCount = Some (int (length (hc_buyers h))), volumeAToBRaw = None, volumeBToARaw = None,
        otherMetrics = [(''sellerVolumeRaw'', JStr (show_int (as_totalVolumeRaw (hc_approved h))))]\<rparr>,
      otherClaimMembers = [(''seller'', json_opt JStr (hc_seller h)), (''evidenceCodes'', JArr (hc_codes h)),
        (''period'', period_json (scan_period sc))],
      dependencyRoot = None, claimId = None, leafHash = None,
      dependencies = dedupeDependencies (hc_funding h @ returns @ hc_settlements h)\<rparr>"

definition closed_loop_claim ::
  "(string \<Rightarrow> string) \<Rightarrow> historical_scan \<Rightarrow> historical_files \<Rightarrow> historical_case \<Rightarrow> claim res" where
  "closed_loop_claim sha256 sc files h =
     res_bind (require (hc_volume h = as_volumeRaw (hc_approved h)) (js_String (hc_seller h) @ '': selected volume ''
       @ show_int (hc_volume h) @ '' != approved '' @ show_int (as_volumeRaw (hc_approved h)))) (\<lambda>_.
     res_bind (case_returns files h) (\<lambda>returns. Inr (finalizeHistoricalClaim sha256 (closed_claim sc h returns))))"

definition maxRaw :: "int \<Rightarrow> int \<Rightarrow> int" where
  "maxRaw left right = (if left > right then left else right)"

definition internal_deposit :: "transfer \<Rightarrow> evidence" where
  "internal_deposit d = usdc_dependency (checkedAddress (buyer d)) (checkedAddress (funder d)) ''protocol_deposit'' d"

text \<open>A reciprocal claim has no \<open>approvedBuyers\<close> and \<open>approvedFunders\<close>: here they are empty.\<close>

definition reciprocal_body :: "historical_scan \<Rightarrow> historical_files \<Rightarrow> reciprocal_case \<Rightarrow> claim" where
  "reciprocal_body sc files r =
     (let wallets = js_set [rc_walletA r, rc_walletB r];
          ab = hp_volumeAToB (rc_pair r); ba = hp_volumeBToA (rc_pair r) in
      \<lparr>claim_type = ''P0_RECIPROCAL'', subjects = sort_strings (map js_String wallets), walletA = rc_walletA r, walletB = rc_walletB r,
       approvedBuyers = [], approvedFunders = [],
       claim_metrics = Some \<lparr>qualifiedVolumeRaw = None, qualifiedBuyerCount = None, volumeAToBRaw = Some ab, volumeBToARaw = Some ba,
         otherMetrics = [(''settlementCount'', hp_settlements (rc_pair r)), (''reciprocityNumeratorRaw'', JStr (show_int (minRaw ab ba))),
           (''reciprocityDenominatorRaw'', JStr (show_int (maxRaw ab ba)))]\<rparr>,
       otherClaimMembers = [(''period'', period_json (scan_period sc))], dependencyRoot = None, claimId = None, leafHash = None,
       dependencies = dedupeDependencies (rc_settlements r @ map internal_deposit
         (filter (\<lambda>d. checkedAddress (buyer d) \<in> set wallets \<and> checkedAddress (funder d) \<in> set wallets) (hf_deposits files)))\<rparr>)"

definition reciprocal_claim ::
  "(string \<Rightarrow> string) \<Rightarrow> historical_scan \<Rightarrow> historical_files \<Rightarrow> reciprocal_case \<Rightarrow> claim res" where
  "reciprocal_claim sha256 sc files r =
     res_bind (require (rc_volumeAToB r = hp_volumeAToB (rc_pair r) \<and> rc_volumeBToA r = hp_volumeBToA (rc_pair r))
       (js_String (rc_walletA r) @ ''/'' @ js_String (rc_walletB r) @ '': reciprocal volumes do not match approved analysis'')) (\<lambda>_.
     Inr (finalizeHistoricalClaim sha256 (reciprocal_body sc files r)))"

section \<open>The bundle\<close>

definition historical_contracts :: contracts where
  "historical_contracts = \<lparr>channels = ''0xba66d3b4fbcf472f6f11d6f9f96aace96516f09d'',
     usdc_address = ''0x833589fcd6edb6e08f4c7c32d4f71b54bda02913'', deposits = ''0x0f7a3a8f4da01637d1202bb5443fcf7f88f99fd2''\<rparr>"

definition historical_bundle :: "(string \<Rightarrow> string) \<Rightarrow> historical_scan \<Rightarrow> claim list \<Rightarrow> proof_bundle" where
  "historical_bundle sha256 sc unsorted =
     (let cs = js_sort compareClaim unsorted in
      \<lparr>bundle_version = 1, chainId = 8453, bundle_period = scan_period sc, bundle_contracts = historical_contracts, claims = cs,
       claimCounts = Some \<lparr>closedLoopCount = length (filter (\<lambda>c. claim_type c = ''P0_CLOSED_LOOP'') cs),
         reciprocalCount = length (filter (\<lambda>c. claim_type c = ''P0_RECIPROCAL'') cs), totalCount = length cs\<rparr>,
       reportRoot = Some (merkleRoot sha256 (map leaf_hash cs))\<rparr>)"

definition visited_cases ::
  "historical_scan \<Rightarrow> historical_files \<Rightarrow> approved_seller list \<Rightarrow> historical_pair list \<Rightarrow> historical_pair list \<Rightarrow> historical_state res" where
  "visited_cases sc files approved pairs approvedPairs =
     res_bind (closed_cases files approved) (\<lambda>closed.
     let rs = reciprocal_cases pairs approvedPairs in
     Inr (fold (visit_settlement sc (by_direction rs)) (hf_settlements files) \<lparr>hs_closed = closed, hs_reciprocal = rs\<rparr>))"

definition buildUnifiedHistoricalBundle ::
  "(string \<Rightarrow> string) \<Rightarrow> historical_scan \<Rightarrow> historical_files \<Rightarrow> approved_seller list \<Rightarrow> historical_pair list \<Rightarrow> historical_pair list
    \<Rightarrow> proof_bundle res" where
  "buildUnifiedHistoricalBundle sha256 sc files approved pairs approvedPairs =
     res_bind (check_scan sc) (\<lambda>_.
     res_bind (visited_cases sc files approved pairs approvedPairs) (\<lambda>st.
     res_bind (res_map (\<lambda>(_, h). closed_loop_claim sha256 sc files h) (hs_closed st)) (\<lambda>closed.
     res_bind (res_map (reciprocal_claim sha256 sc files) (hs_reciprocal st)) (\<lambda>reciprocal.
     let b = historical_bundle sha256 sc (closed @ reciprocal) in
     res_bind (require (int (length (claims b)) = totalProofs sc) (''bundle count '' @ show_nat (length (claims b))
       @ '' != approved '' @ show_int (totalProofs sc))) (\<lambda>_. Inr b)))))"

section \<open>Lemmas\<close>

lemma update_absent: "k \<notin> fst ` set al \<Longrightarrow> AList.update k v al = al @ [(k, v)]"
  by (induction al) auto

lemma map_from_distinct: "distinct (map fst kvs) \<Longrightarrow> map_from kvs = kvs"
proof -
  have "distinct (map fst (m @ kvs)) \<Longrightarrow> fold (\<lambda>(k, v). AList.update k v) kvs m = m @ kvs" for m
    by (induction kvs arbitrary: m) (auto simp: update_absent)
  from this [of "[]"] show "distinct (map fst kvs) \<Longrightarrow> map_from kvs = kvs" by (simp add: map_from_def)
qed

lemma dedupe_values:
  "distinct (map canonical_text (map snd (map_from (map (\<lambda>e. (canonical_text e, e)) ds))))"
proof -
  let ?m = "map_from (map (\<lambda>e. (canonical_text e, e)) ds)"
  have "canonical_text (snd p) = fst p" if "p \<in> set ?m" for p
    using that map_from_set [of "fst p" "snd p" "map (\<lambda>e. (canonical_text e, e)) ds"] by (auto dest!: map_of_SomeD)
  then have "map canonical_text (map snd ?m) = map fst ?m" by (simp add: comp_def)
  then show ?thesis by (simp only: distinct_map_from)
qed

lemma dedupe_idem: "dedupeDependencies (dedupeDependencies ds) = dedupeDependencies ds"
proof -
  let ?cmp = "\<lambda>l r. localeCompare (canonical_text l) (canonical_text r)"
  have "mset (map canonical_text (dedupeDependencies ds)) = mset (map canonical_text (map snd (map_from (map (\<lambda>e. (canonical_text e, e)) ds))))"
    by (simp only: dedupeDependencies_def mset_map mset_js_sort)
  then have "distinct (map canonical_text (dedupeDependencies ds))"
    using dedupe_values mset_eq_imp_distinct_iff by blast
  then have "map_from (map (\<lambda>e. (canonical_text e, e)) (dedupeDependencies ds)) = map (\<lambda>e. (canonical_text e, e)) (dedupeDependencies ds)"
    by (intro map_from_distinct) (simp add: comp_def)
  then have "dedupeDependencies (dedupeDependencies ds) = js_sort ?cmp (dedupeDependencies ds)"
    unfolding dedupeDependencies_def [of "dedupeDependencies ds"] by (simp add: comp_def)
  also have "\<dots> = dedupeDependencies ds"
    unfolding dedupeDependencies_def by (rule dp.js_sort_idem) simp
  finally show ?thesis .
qed

lemma historical_claim_finalized:
  "dependencies c = dedupeDependencies ds \<Longrightarrow> finalizeHistoricalClaim sha256 c = finalizeClaim sha256 c"
  by (simp only: finalizeHistoricalClaim_def finalizeClaim_def finalize_dependencies_def dedupe_idem Let_def)

lemma update_entry: "(s, v') \<in> set (AList.update k v xs) \<Longrightarrow> (s, v') \<in> set xs \<or> s = k \<and> v' = v"
  by (induction xs) (auto split: if_splits)

text \<open>A settlement of a closed case counts when it is later than the funding of its buyer.\<close>

definition counts :: "historical_case \<Rightarrow> evidence \<Rightarrow> bool" where
  "counts h e \<longleftrightarrow> (case map_of (hc_fundingTimes h) (buyer e) of None \<Rightarrow> False | Some t \<Rightarrow> t < num0 (timestamp e))"

definition closed_inv :: "approved_seller list \<Rightarrow> historical_case \<Rightarrow> bool" where
  "closed_inv approved h \<longleftrightarrow> hc_approved h \<in> set approved \<and> as_enforceable (hc_approved h)
     \<and> hc_volume h = sumRaw (filter (counts h) (hc_settlements h))
     \<and> (\<forall>e\<in>set (hc_settlements h). seller e = hc_seller h \<and> buyer e \<in> set (hc_buyers h))"

definition reciprocal_inv :: "reciprocal_case \<Rightarrow> bool" where
  "reciprocal_inv r \<longleftrightarrow> rc_volumeAToB r = sumRaw (filter (\<lambda>e. buyer e = rc_walletA r) (rc_settlements r))
     \<and> rc_volumeBToA r = sumRaw (filter (\<lambda>e. buyer e \<noteq> rc_walletA r) (rc_settlements r))"

lemma settlement_dependency_simps [simp]:
  "buyer (settlement_dependency ty row) = checkedAddress (buyer (row_entry row))"
  "seller (settlement_dependency ty row) = checkedAddress (seller (row_entry row))"
  "amountRaw (settlement_dependency ty row) = deltaUsdc row"
  "timestamp (settlement_dependency ty row) = numericOrNull (timestamp (row_entry row))"
  by (simp_all add: settlement_dependency_def locator_def)

lemma safe_numericOrNull: "safe n \<Longrightarrow> numericOrNull n = n"
  by (auto simp: safe_def numericOrNull_def split: option.splits)

lemma settle_closed_inv:
  assumes "closed_inv approved h" and "safe (timestamp (row_entry row))" and "checkedAddress (seller (row_entry row)) = hc_seller h"
  shows "closed_inv approved (settle_closed row h)"
proof -
  have same: "counts (settle_closed row h) = counts h"
    by (rule ext) (simp add: counts_def settle_closed_def Let_def)
  show ?thesis
    using assms by (auto simp: closed_inv_def same) (auto simp: settle_closed_def Let_def counts_def safe_numericOrNull split: option.splits)
qed

lemma settle_reciprocal_inv: "reciprocal_inv r \<Longrightarrow> reciprocal_inv (settle_reciprocal row r)"
  by (auto simp: reciprocal_inv_def settle_reciprocal_def Let_def)

definition state_inv :: "approved_seller list \<Rightarrow> historical_state \<Rightarrow> bool" where
  "state_inv approved st \<longleftrightarrow> (\<forall>(s, h)\<in>set (hs_closed st). hc_seller h = s \<and> closed_inv approved h) \<and> list_all reciprocal_inv (hs_reciprocal st)"

lemma visit_settlement_inv:
  assumes "state_inv approved st"
  shows "state_inv approved (visit_settlement sc directions row st)"
proof (cases "in_time sc row")
  case True
  then have time: "safe (timestamp (row_entry row))" by (simp add: in_time_def Let_def)
  have closed: "hc_seller h' = k \<and> closed_inv approved h'"
    if "(k, h') \<in> set (AList.update s (settle_closed row h) (hs_closed st))" "map_of (hs_closed st) s = Some h"
      "s = checkedAddress (seller (row_entry row))" for k h' s h
  proof -
    have h: "hc_seller h = s" "closed_inv approved h"
      using map_of_SomeD [OF that(2)] assms by (auto simp: state_inv_def)
    then have "closed_inv approved (settle_closed row h)" "hc_seller (settle_closed row h) = s"
      using settle_closed_inv [OF h(2) time] that(3) by (simp_all add: settle_closed_def Let_def)
    then show ?thesis using update_entry [OF that(1)] assms by (auto simp: state_inv_def)
  qed
  have reciprocal: "list_all reciprocal_inv ((hs_reciprocal st)[i := settle_reciprocal row (hs_reciprocal st ! i)])" for i
    using assms settle_reciprocal_inv
    by (cases "i < length (hs_reciprocal st)") (auto simp: state_inv_def list_all_iff list_update_beyond dest!: set_update_subset_insert [THEN subsetD])
  show ?thesis
    using assms True closed reciprocal by (auto simp: visit_settlement_def Let_def state_inv_def split: option.splits)
next
  case False
  then show ?thesis using assms by (simp add: visit_settlement_def)
qed

lemma closed_cases_inv:
  assumes "closed_cases files approved = Inr cs"
  shows "\<forall>(s, h)\<in>set cs. hc_seller h = s \<and> closed_inv approved h"
proof -
  have new: "closed_inv approved h" if "historical_loop_case files a = Inr h" "a \<in> set approved" "as_enforceable a" for a h
    using that by (auto simp: historical_loop_case_def Let_def res_bind_Inr closed_inv_def split: prod.splits)
  show ?thesis
    by (rule res_fold_invariant [OF assms [unfolded closed_cases_def]])
      (auto simp: res_bind_Inr new dest!: update_entry)
qed

lemma visited_inv:
  assumes "visited_cases sc files approved pairs approvedPairs = Inr st"
  shows "state_inv approved st"
proof -
  obtain cs where cs: "closed_cases files approved = Inr cs"
    and st: "st = fold (visit_settlement sc (by_direction (reciprocal_cases pairs approvedPairs))) (hf_settlements files)
      \<lparr>hs_closed = cs, hs_reciprocal = reciprocal_cases pairs approvedPairs\<rparr>"
    using assms by (auto simp: visited_cases_def res_bind_Inr Let_def)
  have "state_inv approved \<lparr>hs_closed = cs, hs_reciprocal = reciprocal_cases pairs approvedPairs\<rparr>"
    using closed_cases_inv [OF cs] by (auto simp: state_inv_def reciprocal_cases_def list_all_iff reciprocal_inv_def)
  then show ?thesis unfolding st
    by (rule fold_invariant [where Q = "\<lambda>_. True", rotated]) (simp_all add: visit_settlement_inv)
qed

lemma complete_selection:
  assumes "selection = selectReturnEvidence cands (Some required) t maxPaths []" and "complete selection"
  shows "(\<forall>p\<in>set (selectedReturns selection). p \<in> set cands \<and> validReturnEvidence p t)
    \<and> distinct (concat (map path_keys (selectedReturns selection)))
    \<and> required \<le> sum_list (map pathCredit (selectedReturns selection))"
proof -
  obtain st where selection: "selection = \<lparr>selectedReturns = selectedPaths st, returnedRaw = returnedSum st, requiredRaw = required,
      complete = (returnedSum st \<ge> required), usedKeys = usedSet st\<rparr>"
    and inv: "select_inv maxPaths t [] st" and subset: "set (selectedPaths st) \<subseteq> {c \<in> set cands. validReturnEvidence c t}"
    using selectReturnEvidence_state [where cands = cands and req = "Some required" and t = t and maxPaths = maxPaths and reserved = "[]"]
    unfolding assms(1) by simp
  have ledger: "ledger path_keys pathCredit (\<lambda>ev. validReturnEvidence ev t) [] (selectedPaths st) (returnedSum st) (usedSet st)"
    using inv by (simp add: select_inv_def)
  have "returnedSum st = sum_list (map pathCredit (selectedPaths st))" using ledger by (simp add: ledger_def)
  then show ?thesis
    using assms(2) subset ret.ledger_keys_distinct [OF ledger] by (auto simp: selection)
qed

text \<open>A closed loop is covered by its settlements, and by its returns where seller and funder differ.\<close>

definition covered_case :: "approved_seller list \<Rightarrow> historical_case \<Rightarrow> evidence list \<Rightarrow> bool" where
  "covered_case approved h returns \<longleftrightarrow> (let volume = as_volumeRaw (hc_approved h) in
     hc_approved h \<in> set approved \<and> as_enforceable (hc_approved h)
   \<and> (\<forall>e\<in>set (hc_settlements h). seller e = hc_seller h \<and> buyer e \<in> set (hc_buyers h))
   \<and> volume = sumRaw (filter (counts h) (hc_settlements h))
   \<and> (hc_seller h \<noteq> hc_funder h \<longrightarrow> (\<exists>e. earliest_settlement h = Some e
        \<and> (\<forall>p\<in>set returns. validReturnEvidence p (Some (num0 (timestamp e))))
        \<and> distinct (concat (map path_keys returns))
        \<and> volume * ALPHA_RETURN_BPS \<le> sum_list (map pathCredit returns) * BASIS_POINTS)))"

lemma extended_selection:
  assumes "extend_returns files h required earliest first = Inr selection"
    and "first = selectReturnEvidence cands (Some required) (Some earliest) MAX_RETURN_PATHS []"
  shows "\<exists>cands. selection = selectReturnEvidence cands (Some required) (Some earliest) MAX_RETURN_PATHS []"
  using assms(1) by (auto simp: extend_returns_def res_bind_Inr assms(2) split: option.splits if_splits)

lemma case_returns_cover:
  assumes "case_returns files h = Inr returns" and "hc_seller h \<noteq> hc_funder h"
  shows "\<exists>e. earliest_settlement h = Some e \<and> (\<forall>p\<in>set returns. validReturnEvidence p (Some (num0 (timestamp e))))
    \<and> distinct (concat (map path_keys returns))
    \<and> as_volumeRaw (hc_approved h) * ALPHA_RETURN_BPS \<le> sum_list (map pathCredit returns) * BASIS_POINTS"
proof -
  obtain e where e: "earliest_settlement h = Some e"
    using assms by (auto simp: case_returns_def split: option.splits)
  let ?t = "num0 (timestamp e)"
  let ?cands = "filter (\<lambda>p. ?t < closureStartTimestamp p) (hc_closure h)"
  obtain required selection where required: "requiredReturnRaw (as_volumeRaw (hc_approved h)) ALPHA_RETURN_BPS = Inr required"
    and step: "(let first = selectReturnEvidence ?cands (Some required) (Some ?t) MAX_RETURN_PATHS [] in
      if complete first then Inr first else extend_returns files h required ?t first) = Inr selection"
    and full: "complete selection" "returns = selectedReturns selection"
    using assms e by (auto simp: case_returns_def Let_def res_bind_Inr)
  have made: "\<exists>cands. selection = selectReturnEvidence cands (Some required) (Some ?t) MAX_RETURN_PATHS []"
    using step extended_selection [OF _ refl] by (auto simp: Let_def split: if_splits)
  obtain cands where "selection = selectReturnEvidence cands (Some required) (Some ?t) MAX_RETURN_PATHS []" using made by blast
  from complete_selection [OF this full(1)] show ?thesis
    using e full(2) requiredReturnRaw_galois [OF required] by auto
qed

section \<open>Searching the cached traces\<close>

lemma select_all_disjoint:
  assumes valid: "\<forall>c\<in>set cs. validReturnEvidence c t" and disjoint: "sorted_wrt (\<lambda>p q. set (path_keys p) \<inter> set (path_keys q) = {}) cs"
    and room: "int (length cs) \<le> maxPaths" and enough: "required \<le> sum_list (map pathCredit cs)"
  shows "complete (selectReturnEvidence cs (Some required) t maxPaths [])"
proof (rule ccontr)
  assume incomplete: "\<not> ?thesis"
  let ?cs = "js_sort compareReturnEvidence cs"
  let ?st = "select_loop maxPaths required ?cs \<lparr>selectedPaths = [], returnedSum = 0, usedSet = js_set []\<rparr>"
  have all: "filter (\<lambda>c. validReturnEvidence c t) cs = cs" using valid by (simp add: filter_id_conv)
  obtain selection: "selectReturnEvidence cs (Some required) t maxPaths [] = \<lparr>selectedReturns = selectedPaths ?st,
      returnedRaw = returnedSum ?st, requiredRaw = required, complete = (returnedSum ?st \<ge> required), usedKeys = usedSet ?st\<rparr>"
    and inv: "select_inv maxPaths t [] ?st" and subset: "set (selectedPaths ?st) \<subseteq> set cs"
    using selectReturnEvidence_state [where cands = cs and req = "Some required" and t = t and maxPaths = maxPaths and reserved = "[]"]
    unfolding all by auto
  have ledger: "ledger path_keys pathCredit (\<lambda>ev. validReturnEvidence ev t) [] (selectedPaths ?st) (returnedSum ?st) (usedSet ?st)"
    using inv by (simp add: select_inv_def)
  have distinct_cs: "distinct cs" by (rule ret.disjoint_distinct [OF disjoint valid])
  have less: "returnedSum ?st < required" using incomplete selection by simp
  have "set cs \<subseteq> set (selectedPaths ?st)"
  proof (cases "int (length (selectedPaths ?st)) < maxPaths")
    case True
    show ?thesis
    proof
      fix c assume c: "c \<in> set cs"
      then have keys: "path_keys c \<noteq> []" using valid ret.keys_nonempty by blast
      have "set (path_keys c) \<inter> set (usedSet ?st) \<noteq> {}"
        by (rule select_loop_maximal [OF less True _ keys]) (simp add: c)
      then obtain p where p: "p \<in> set (selectedPaths ?st)" "set (path_keys c) \<inter> set (path_keys p) \<noteq> {}"
        using ledger by (auto simp: ledger_def)
      have "c = p"
      proof (rule ccontr)
        assume "c \<noteq> p"
        moreover obtain i where "i < length cs" "cs ! i = c" using c by (auto simp: in_set_conv_nth)
        moreover obtain j where "j < length cs" "cs ! j = p" using p(1) subset by (auto simp: in_set_conv_nth dest!: subsetD)
        ultimately show False
          using sorted_wrt_nth_less [OF disjoint, of i j] sorted_wrt_nth_less [OF disjoint, of j i] p(2)
          by (cases i j rule: linorder_cases) auto
      qed
      then show "c \<in> set (selectedPaths ?st)" using p(1) by simp
    qed
  next
    case False
    have "card (set cs) \<le> card (set (selectedPaths ?st))"
      using False room distinct_card [OF distinct_cs] distinct_card [OF ret.ledger_distinct [OF ledger]] by simp
    then show ?thesis using card_seteq [OF _ subset] by simp
  qed
  then have "set (selectedPaths ?st) = set cs" using subset by blast
  then have "mset (selectedPaths ?st) = mset cs"
    using set_eq_iff_mset_eq_distinct ret.ledger_distinct [OF ledger] distinct_cs by blast
  then have "sum_list (map pathCredit (selectedPaths ?st)) = sum_list (map pathCredit cs)"
    by (metis mset_map sum_mset_sum_list)
  then show False using ledger less enough by (simp add: ledger_def)
qed

text \<open>A hop that becomes a dependency as it is: two different addresses, safe positions.\<close>

definition clean_hop :: "transfer \<Rightarrow> bool" where
  "clean_hop hp \<longleftrightarrow> checkedAddress (from_addr hp) = from_addr hp \<and> checkedAddress (to_addr hp) = to_addr hp
     \<and> normalizeAddress (from_addr hp) \<noteq> normalizeAddress (to_addr hp) \<and> dependencyId hp = None
     \<and> numericOrNull (timestamp hp) = timestamp hp \<and> numericOrNull (logIndex hp) = logIndex hp"

lemma cached_hop_fields:
  assumes "clean_hop hp"
  shows "from_addr (cached_hop n (i, hp)) = from_addr hp" "to_addr (cached_hop n (i, hp)) = to_addr hp"
    "timestamp (cached_hop n (i, hp)) = timestamp hp" "amountRaw (cached_hop n (i, hp)) = amountRaw hp"
    "blockNumber (cached_hop n (i, hp)) = numericOrNull (blockNumber hp)"
    "transferKey (of_transfer (cached_hop n (i, hp))) = transferKey (of_transfer hp)"
  using assms by (simp_all add: clean_hop_def cached_hop_def locator_def blank_def transferKey_def nullish_def split: option.splits)

lemma successively_map_same:
  assumes "length xs = length ys" and "\<And>i. Suc i < length xs \<Longrightarrow> P (xs ! i) (xs ! Suc i) = P (ys ! i) (ys ! Suc i)"
  shows "successively P xs = successively P ys"
  using assms by (simp add: successively_conv_nth)

lemma cached_dependency:
  assumes path: "relay_path s f e p" and clean: "\<And>hs hp. hops p = Some hs \<Longrightarrow> hp \<in> set hs \<Longrightarrow> clean_hop hp"
    and once: "distinct (path_keys p)"
  shows "validReturnEvidence (cachedRelayDependency p) (Some e)" and "path_keys (cachedRelayDependency p) = path_keys p"
    and "pathCredit (cachedRelayDependency p) = pathCredit p"
proof -
  obtain hs where hs: "hops p = Some hs" "atomicReturnEvidence p = map of_transfer hs" "return_hops s f e hs"
    and none: "\<forall>h\<in>set hs. blockNumber h = None" "\<forall>h\<in>set hs. timestamp h \<noteq> None" "\<forall>h\<in>set hs. from_addr h \<noteq> None \<and> to_addr h \<noteq> None"
    by (rule relay_path_hops [OF path])
  let ?hs = "map (cached_hop (length hs)) (enumerate 0 hs)"
  have nth: "?hs ! i = cached_hop (length hs) (i, hs ! i)" if "i < length hs" for i
    using that by (simp add: nth_enumerate_eq)
  have fields: "from_addr (?hs ! i) = from_addr (hs ! i) \<and> to_addr (?hs ! i) = to_addr (hs ! i) \<and> timestamp (?hs ! i) = timestamp (hs ! i)
      \<and> amountRaw (?hs ! i) = amountRaw (hs ! i) \<and> blockNumber (?hs ! i) = None
      \<and> transferKey (of_transfer (?hs ! i)) = transferKey (of_transfer (hs ! i))" if "i < length hs" for i
    using that none(1) clean [OF hs(1)] unfolding nth [OF that] by (simp add: cached_hop_fields numericOrNull_def)
  have len: "length ?hs = length hs" by simp
  have atoms: "atomicReturnEvidence (cachedRelayDependency p) = map of_transfer ?hs"
    by (simp add: atomicReturnEvidence_def cachedRelayDependency_def hs(1) Let_def of_transfer_def transfer.defs blank_def)
  show keys: "path_keys (cachedRelayDependency p) = path_keys p"
    unfolding path_keys_def atoms hs(2) by (rule nth_equalityI) (use fields in \<open>simp_all add: nth_enumerate_eq\<close>)
  have "map amountRaw (map of_transfer ?hs) = map amountRaw (map of_transfer hs)"
    by (rule nth_equalityI) (use fields in \<open>simp_all add: nth_enumerate_eq\<close>)
  then show "pathCredit (cachedRelayDependency p) = pathCredit p"
    unfolding pathCredit_def returnPathCreditRaw_def atoms hs(2) by simp
  have nonempty: "hs \<noteq> []" using hs(3) by (auto simp: return_hops_def)
  then have "?hs \<noteq> []" using len by (metis length_0_conv)
  note ends = hd_conv_nth [OF this] last_conv_nth [OF this, unfolded len] hd_conv_nth [OF nonempty] last_conv_nth [OF nonempty]
  have "successively hop_step ?hs = successively hop_step hs"
    by (rule successively_map_same) (use fields Suc_lessD in \<open>simp_all add: hop_step_def\<close>)
  moreover have "(\<forall>h\<in>set ?hs. 0 < amountRaw h) = (\<forall>h\<in>set hs. 0 < amountRaw h)"
    using fields by (simp add: all_set_conv_all_nth)
  ultimately have "return_hops s f e ?hs"
    using hs(3) nonempty fields [of 0] fields [of "length hs - 1"] unfolding return_hops_def len ends by simp
  then have relay: "relay_path s f e (cachedRelayDependency p)"
    using fields none by (simp add: relay_path_def cachedRelayDependency_def hs(1) Let_def all_set_conv_all_nth of_transfer_def transfer.defs blank_def)
  have "\<forall>h\<in>set (atomicReturnEvidence (cachedRelayDependency p)). \<not> self_hop h"
    unfolding atoms using fields clean [OF hs(1)] by (simp add: all_set_conv_all_nth self_hop_def clean_hop_def)
  then show "validReturnEvidence (cachedRelayDependency p) (Some e)"
    using relay_path_valid_iff [OF relay] once keys by simp
qed

lemma extended_complete:
  assumes trace: "hf_optional_trace files (js_String (hc_funder h)) = Inr (Some tr)" "trace_complete tr"
    and first: "first = selectReturnEvidence cands (Some required) (Some earliest) MAX_RETURN_PATHS []"
    and search: "discoverCachedRelayReturns (js_String (hc_seller h)) (js_String (hc_funder h)) (hc_outbound h) (inboundUsdc tr)
       (hf_optional_trace files) earliest (Some (required - returnedRaw first)) (512 - int (length (selectedReturns first)))
       (usedKeys first) = Inr d" and full: "complete d"
    and hashed: "\<forall>t\<in>set (hc_outbound h) \<union> set (inboundUsdc tr). hashed t"
       "\<And>a tr. hf_optional_trace files a = Inr (Some tr) \<Longrightarrow> \<forall>t\<in>set (outboundUsdc tr). hashed t"
    and clean: "\<And>p hs hp. p \<in> set (selectedReturns d) \<Longrightarrow> hops p = Some hs \<Longrightarrow> hp \<in> set hs \<Longrightarrow> clean_hop hp"
       "\<And>p. p \<in> set (selectedReturns d) \<Longrightarrow> distinct (path_keys p)"
  shows "\<exists>selection. extend_returns files h required earliest first = Inr selection \<and> complete selection"
proof -
  let ?s = "toLowerCase (js_String (hc_seller h))" and ?f = "toLowerCase (js_String (hc_funder h))"
  obtain st where selection: "first = \<lparr>selectedReturns = selectedPaths st, returnedRaw = returnedSum st, requiredRaw = required,
      complete = (returnedSum st \<ge> required), usedKeys = usedSet st\<rparr>" and inv: "select_inv MAX_RETURN_PATHS (Some earliest) [] st"
    using selectReturnEvidence_state [where cands = cands and req = "Some required" and t = "Some earliest" and maxPaths = MAX_RETURN_PATHS and reserved = "[]"]
    unfolding first by simp
  have ledger1: "ledger path_keys pathCredit (\<lambda>ev. validReturnEvidence ev (Some earliest)) [] (selectedReturns first) (returnedRaw first) (usedKeys first)"
    and room1: "int (length (selectedReturns first)) \<le> 512"
    using inv by (simp_all add: select_inv_def selection MAX_RETURN_PATHS_def)
  have ledger2: "ledger path_keys pathCredit (relay_path ?s ?f earliest) (usedKeys first) (selectedReturns d) (returnedRaw d) (usedKeys d)"
    and raw: "required - returnedRaw first \<le> returnedRaw d"
    and room2: "int (length (selectedReturns d)) \<le> max 0 (512 - int (length (selectedReturns first)))"
    using discovery_ledger [OF search hashed] full by simp_all
  have cached: "validReturnEvidence (cachedRelayDependency p) (Some earliest) \<and> path_keys (cachedRelayDependency p) = path_keys p
      \<and> pathCredit (cachedRelayDependency p) = pathCredit p" if "p \<in> set (selectedReturns d)" for p
    using cached_dependency [of ?s ?f earliest p] clean that ledger2 unfolding ledger_def by blast
  let ?cs = "selectedReturns first @ map cachedRelayDependency (selectedReturns d)"
  have "sorted_wrt (\<lambda>p q. set (path_keys p) \<inter> set (path_keys q) = {}) (map cachedRelayDependency (selectedReturns d))"
    unfolding sorted_wrt_map
    by (rule sorted_wrt_mono_rel [where P = "\<lambda>p q. set (path_keys p) \<inter> set (path_keys q) = {}"]) (use ledger2 cached in \<open>auto simp: ledger_def\<close>)
  moreover have apart: "set (path_keys p) \<inter> set (path_keys q) = {}" if "p \<in> set (selectedReturns first)" "q \<in> set (selectedReturns d)" for p q
  proof -
    have "set (path_keys p) \<subseteq> set (usedKeys first)" using ledger1 that(1) by (auto simp: ledger_def)
    moreover have "set (path_keys q) \<inter> set (usedKeys first) = {}" using ledger2 that(2) unfolding ledger_def by blast
    ultimately show ?thesis by blast
  qed
  moreover have "sorted_wrt (\<lambda>p q. set (path_keys p) \<inter> set (path_keys q) = {}) (selectedReturns first)"
    using ledger1 by (simp add: ledger_def)
  ultimately have disjoint: "sorted_wrt (\<lambda>p q. set (path_keys p) \<inter> set (path_keys q) = {}) ?cs"
    by (simp add: sorted_wrt_append cached)
  have "map pathCredit (map cachedRelayDependency (selectedReturns d)) = map pathCredit (selectedReturns d)"
    using cached by simp
  moreover have "returnedRaw first = sum_list (map pathCredit (selectedReturns first))" "returnedRaw d = sum_list (map pathCredit (selectedReturns d))"
    using ledger1 ledger2 by (simp_all add: ledger_def)
  ultimately have "required \<le> sum_list (map pathCredit ?cs)"
    using raw by (simp only: map_append sum_list_append)
  moreover have "int (length ?cs) \<le> MAX_RETURN_PATHS" using room1 room2 by (simp add: MAX_RETURN_PATHS_def)
  moreover have "\<forall>c\<in>set ?cs. validReturnEvidence c (Some earliest)" using ledger1 cached by (auto simp: ledger_def)
  ultimately have "complete (selectReturnEvidence ?cs (Some required) (Some earliest) MAX_RETURN_PATHS [])"
    using select_all_disjoint [OF _ disjoint] by blast
  then show ?thesis using trace search by (simp add: extend_returns_def res_bind_def)
qed

section \<open>Properties\<close>


text \<open>When the known returns of a seller do not suffice, the search of the cached traces and the
  second selection compose: if the search finds what is missing, over hops with distinct valid
  addresses and safe positions, then the selection over the returns kept and those found is
  complete, so the claim is not refused.\<close>

theorem cached_search_suffices:
  assumes "hf_optional_trace files (js_String (hc_funder h)) = Inr (Some tr)" "trace_complete tr"
    and "first = selectReturnEvidence cands (Some required) (Some earliest) MAX_RETURN_PATHS []"
    and "discoverCachedRelayReturns (js_String (hc_seller h)) (js_String (hc_funder h)) (hc_outbound h) (inboundUsdc tr)
       (hf_optional_trace files) earliest (Some (required - returnedRaw first)) (512 - int (length (selectedReturns first)))
       (usedKeys first) = Inr d" and "complete d"
    and "\<forall>t\<in>set (hc_outbound h) \<union> set (inboundUsdc tr). hashed t"
    and "\<And>a tr. hf_optional_trace files a = Inr (Some tr) \<Longrightarrow> \<forall>t\<in>set (outboundUsdc tr). hashed t"
    and "\<And>p hs hp. p \<in> set (selectedReturns d) \<Longrightarrow> hops p = Some hs \<Longrightarrow> hp \<in> set hs \<Longrightarrow> clean_hop hp"
    and "\<And>p. p \<in> set (selectedReturns d) \<Longrightarrow> distinct (path_keys p)"
  shows "\<exists>selection. extend_returns files h required earliest first = Inr selection \<and> complete selection"
  by (rule extended_complete [OF assms])

section \<open>Examples\<close>

definition ex_relay_address :: string where "ex_relay_address = ''0x'' @ replicate 40 (CHR ''c'')"

definition ex_paid :: "string \<Rightarrow> string \<Rightarrow> string \<Rightarrow> int \<Rightarrow> int \<Rightarrow> transfer" where
  "ex_paid tx a b time raw = blank\<lparr>txHash := Some tx, from_addr := Some a, to_addr := Some b, timestamp := Some time,
     logIndex := Some time, amountRaw := raw\<rparr>"

definition ex_approved :: approved_seller where
  "ex_approved = \<lparr>as_seller = Some ex_seller_address, as_enforceable = True, as_fundingType = ''first_native_funder'',
     as_funder = Some ex_funder_address, as_buyerCount = 1, as_volumeRaw = 100, as_totalVolumeRaw = 100\<rparr>"

text \<open>A relay's only two transfers: 20 from the seller to the relay, and on to the funder.\<close>

definition ex_in :: transfer where "ex_in = ex_paid ''0x21'' ex_seller_address ex_relay_address 6 20"
definition ex_out :: transfer where "ex_out = ex_paid ''0x22'' ex_relay_address ex_funder_address 7 20"

text \<open>A direct return of 30 as well, if \<open>direct\<close>; else the discovery knows the path over the relay.\<close>

definition ex_historical_files :: "bool \<Rightarrow> historical_files" where
  "ex_historical_files direct = \<lparr>hf_report = (\<lambda>_. Inr \<lparr>hr_cohorts = [(Some ex_funder_address, [Some ex_buyer_address])], hr_strongest = [], hr_codes = []\<rparr>),
     hf_paths = (\<lambda>_. Inr (if direct then [] else [\<lparr>dp_seller = Some ex_seller_address, dp_funder = Some ex_funder_address,
        dp_row = \<lparr>row_relay = Some ex_relay_address, row_intermediary = Some ex_funder_address,
          row_sellerPayment = \<lparr>leg_tx = Some ''0x21'', leg_logIndex = Some 6, leg_at = Some 6, leg_raw = 20\<rparr>,
          row_relayForward = \<lparr>leg_tx = Some ''0x22'', leg_logIndex = Some 7, leg_at = Some 7, leg_raw = 20\<rparr>,
          row_funderReceipt = \<lparr>leg_tx = None, leg_logIndex = None, leg_at = None, leg_raw = 0\<rparr>\<rparr>\<rparr>])),
     hf_trace = (\<lambda>_. Inr \<lparr>trace_complete = True, inboundUsdc = [],
        outboundUsdc = (if direct then [ex_paid ''0x23'' ex_seller_address ex_funder_address 8 30] else [ex_in])\<rparr>),
     hf_optional_trace = (\<lambda>_. Inr (Some \<lparr>trace_complete = True, inboundUsdc = [ex_out], outboundUsdc = [ex_out]\<rparr>)),
     hf_nativeFunding = [blank\<lparr>txHash := Some ''0x0'', timestamp := Some 1, buyer := Some ex_buyer_address, from_addr := Some ex_funder_address, amountWei := 1\<rparr>],
     hf_deposits = [],
     hf_settlements = [\<lparr>row_entry = blank\<lparr>txHash := Some ''0x1'', timestamp := Some 5, buyer := Some ex_buyer_address,
        seller := Some ex_seller_address\<rparr>, deltaUsdc = 100, channelId = JNull\<rparr>]\<rparr>"

definition ex_historical_scan :: historical_scan where
  "ex_historical_scan = \<lparr>manifest_status = ''complete'', scan_status = ''complete'', request_seller = False, coverage_complete = True,
     coverage_incomplete = 0, coverage_evaluated = [''s''], expectedSellers = Some 1, coverage_scanId = ''i'', scan_id = ''i'',
     totalProofs = 1, productionCases = 1, period_start = Some 1, period_end = Some 9, time_from = Some 0, time_to = Some 10\<rparr>"

definition ex_visited :: "bool \<Rightarrow> historical_state res" where
  "ex_visited direct = visited_cases ex_historical_scan (ex_historical_files direct) [ex_approved] [] []"

definition ex_returns :: "bool \<Rightarrow> (unit + (int \<times> evidence list res) list)" where
  "ex_returns direct = map_sum (\<lambda>_. ()) (\<lambda>st. map (\<lambda>(s, h). (hc_volume h, case_returns (ex_historical_files direct) h)) (hs_closed st)) (ex_visited direct)"

text \<open>The legs of a known path have lost their log indices, so that the search takes the same two
  transfers for another path: a required return of 30 is reached by counting one of 20 twice.\<close>

theorem relayed_transfer_counted_twice:
  "map_sum (\<lambda>_. ()) (map (\<lambda>(volume, r). (volume, map_sum (\<lambda>_. ()) (map (\<lambda>p. (pathCredit p, map transactionHash (atomicReturnEvidence p)))) r)))
     (ex_returns False) = Inr [(100, Inr [(20, [Some ''0x21'', Some ''0x22'']), (20, [Some ''0x21'', Some ''0x22''])])]"
  by code_simp

lemma ex_direct_returns: "map_sum (\<lambda>_. ()) (map (\<lambda>(volume, r). (volume, isl r))) (ex_returns True) = Inr [(100, False)]"
  by code_simp


definition ex_open_case :: historical_case where
  "ex_open_case = \<lparr>hc_approved = ex_approved, hc_codes = [], hc_seller = Some ex_seller_address, hc_funder = Some ex_funder_address,
     hc_buyers = [], hc_fundingTimes = [], hc_funding = [], hc_closure = [], hc_outbound = [ex_in], hc_settlements = [], hc_volume = 0\<rparr>"

definition ex_search :: "return_selection res" where
  "ex_search = discoverCachedRelayReturns ex_seller_address ex_funder_address [ex_in] [ex_out]
     (hf_optional_trace (ex_historical_files True)) 5 (Some 15) 512 []"

lemma ex_search_paths: "map_sum (\<lambda>_. ()) (\<lambda>d. (complete d, map (\<lambda>p. (map_option (list_all clean_hop) (hops p), distinct (path_keys p))) (selectedReturns d))) ex_search
    = Inr (True, [(Some True, True)])"
  by code_simp

theorem cached_search_suffices_witness:
  "\<exists>selection. extend_returns (ex_historical_files True) ex_open_case 15 5 (selectReturnEvidence [] (Some 15) (Some 5) MAX_RETURN_PATHS []) = Inr selection
     \<and> complete selection"
proof -
  let ?first = "selectReturnEvidence [] (Some 15) (Some 5) MAX_RETURN_PATHS []"
  have first: "returnedRaw ?first = 0" "selectedReturns ?first = []" "usedKeys ?first = []"
    by (simp_all add: selectReturnEvidence_def Let_def js_set_def)
  have files: "hf_optional_trace (ex_historical_files True) a = Inr (Some \<lparr>trace_complete = True, inboundUsdc = [ex_out], outboundUsdc = [ex_out]\<rparr>)" for a
    by (simp add: ex_historical_files_def)
  have ends: "js_String (hc_seller ex_open_case) = ex_seller_address" "js_String (hc_funder ex_open_case) = ex_funder_address"
    "hc_outbound ex_open_case = [ex_in]" by (simp_all add: ex_open_case_def js_String_def)
  have "\<not> isl ex_search" using arg_cong [OF ex_search_paths, of isl] by (simp only: isl_map_sum sum.disc not_False_eq_True)
  then obtain d where d: "ex_search = Inr d" by (metis sum.collapse(2))
  note paths = ex_search_paths [unfolded d map_sum.simps sum.inject prod.inject]
  show ?thesis
  proof (rule cached_search_suffices [where d = d, OF files _ refl])
    show "discoverCachedRelayReturns (js_String (hc_seller ex_open_case)) (js_String (hc_funder ex_open_case)) (hc_outbound ex_open_case)
      (inboundUsdc \<lparr>trace_complete = True, inboundUsdc = [ex_out], outboundUsdc = [ex_out]\<rparr>) (hf_optional_trace (ex_historical_files True)) 5
      (Some (15 - returnedRaw ?first)) (512 - int (length (selectedReturns ?first))) (usedKeys ?first) = Inr d"
      using d by (simp add: ex_search_def first ends)
    show "complete d" using paths by simp
    show "\<forall>t\<in>set (hc_outbound ex_open_case) \<union> set (inboundUsdc \<lparr>trace_complete = True, inboundUsdc = [ex_out], outboundUsdc = [ex_out]\<rparr>). hashed t"
      by (simp add: ends hashed_def ex_in_def ex_out_def ex_paid_def)
    show "\<forall>t\<in>set (outboundUsdc tr). hashed t" if "hf_optional_trace (ex_historical_files True) a = Inr (Some tr)" for a tr
      using that by (auto simp: files hashed_def ex_out_def ex_paid_def)
    show "clean_hop hp" if "p \<in> set (selectedReturns d)" "hops p = Some hs" "hp \<in> set hs" for p hs hp
      using paths that by (auto simp: list_all_iff)
    show "distinct (path_keys p)" if "p \<in> set (selectedReturns d)" for p
      using paths that by auto
  qed simp_all
qed

end
