(* ===== verification/Published_Proofs.thy ===== *)
theory Published_Proofs
  imports Artifacts Calldata Json_Parse
begin

text \<open>
  \<open>scripts/published-seller-proofs.mjs\<close>: checking a published package of seller proofs against
  its manifest (\<open>unpackArtifact\<close>, \<open>validateArtifact\<close>, \<open>loadPackage\<close>), preparing the
  calls that submit it (\<open>prepare\<close>) and checking the deployment it is for (\<open>checkDeployment\<close>).
  The package's files, SHA-256, gunzip and the \<open>cast\<close> tool are parameters; a text has one byte
  per character. \<open>prepare\<close> returns the files it writes, in order.
\<close>

section \<open>One artifact\<close>

definition published_sha256 :: "(string \<Rightarrow> string) \<Rightarrow> string \<Rightarrow> string" where
  "published_sha256 sha256 bytes = ''0x'' @ sha256 bytes"

record unpacked =
  up_bytes :: string
  up_artifact :: json

definition unpackArtifact :: "(string \<Rightarrow> string) \<Rightarrow> (string \<Rightarrow> string res) \<Rightarrow> string \<Rightarrow> json \<Rightarrow> unpacked res" where
  "unpackArtifact sha256 gunzip compressed entry =
     res_bind (require (Some (JStr (published_sha256 sha256 compressed)) = mem entry ''gzipSha256'') ''compressed artifact checksum mismatch'') (\<lambda>_.
     res_bind (gunzip compressed) (\<lambda>bytes.
     res_bind (require (Some (JNum (int (length bytes))) = mem entry ''uncompressedBytes''
         \<and> Some (JStr (published_sha256 sha256 bytes)) = mem entry ''sha256'') ''original artifact checksum mismatch'') (\<lambda>_.
     res_bind (JSON_parse bytes) (\<lambda>artifact. Inr \<lparr>up_bytes = bytes, up_artifact = artifact\<rparr>))))"

text \<open>The 12 words of the journal.\<close>

definition journal_text :: "json \<Rightarrow> nat \<Rightarrow> string" where
  "journal_text artifact index = take 64 (drop (64 * index) (drop 2 (str_of (mem artifact ''publicValues''))))"

definition journal_word :: "json \<Rightarrow> nat \<Rightarrow> int res" where
  "journal_word artifact index = js_BigInt (''0x'' @ journal_text artifact index)"

text \<open>\<open>value.length\<close>, where it is a number.\<close>

definition js_length :: "json option \<Rightarrow> int res" where
  "js_length v = (case v of Some (JArr js) \<Rightarrow> Inr (int (length js)) | Some (JStr s) \<Rightarrow> Inr (int (length s))
     | Some (JObj ms) \<Rightarrow> (case map_of ms ''length'' of Some (JNum n) \<Rightarrow> Inr n | _ \<Rightarrow> Inl TypeError) | _ \<Rightarrow> Inl TypeError)"

text \<open>A method of arrays (\<open>entries\<close>, \<open>map\<close>, \<open>join\<close>), which other values do not have.\<close>

definition array_of :: "json option \<Rightarrow> json list res" where
  "array_of v = (case v of Some (JArr js) \<Rightarrow> Inr js | _ \<Rightarrow> Inl TypeError)"

definition production_artifact :: "json \<Rightarrow> bool" where
  "production_artifact artifact \<longleftrightarrow>
     mem artifact ''version'' = Some (JNum 3) \<and> mem artifact ''kind'' = Some (JStr ''antseed-wash-trading-seller-proof'')
   \<and> mem artifact ''proofArchitecture'' = Some (JStr ''direct-seller-v1'') \<and> mem artifact ''securityMode'' = Some (JStr ''production'')
   \<and> js_truthy (mem artifact ''proved'') \<and> js_truthy (mem artifact ''verified'')"

definition packaged_artifact :: "json \<Rightarrow> json \<Rightarrow> json \<Rightarrow> string \<Rightarrow> bool" where
  "packaged_artifact artifact entry configuration sl \<longleftrightarrow> Some (JStr sl) = mem entry ''seller''
   \<and> same_value (mem artifact ''sellerProgramVKey'') (mem configuration ''sellerProgramVKey'')
   \<and> hex_text 768 (text_of (mem artifact ''publicValues'')) \<and> byte_text (text_of (mem artifact ''proofBytes''))"

text \<open>The integers that have to be in the journal, as they are read, and the comparison with one.\<close>

definition journal_integers :: "json \<Rightarrow> json \<Rightarrow> json \<Rightarrow> (nat \<times> int res) list" where
  "journal_integers artifact entry configuration =
     [(0, Inr 1), (1, Inr 8453), (2, big_int (mem configuration ''periodStartBlock'')), (3, big_int (mem configuration ''periodEndBlock'')),
      (4, big_int (mem entry ''seller'')), (5, big_int (mem entry ''provenWashVolumeRaw'')), (6, big_int (mem entry ''totalSellerVolumeRaw'')),
      (5, big_int (mem artifact ''provenWashVolumeRaw'')), (6, big_int (mem artifact ''totalSellerVolumeRaw''))]"

definition reference_integers :: "json \<Rightarrow> json \<Rightarrow> (nat \<times> int res) list" where
  "reference_integers artifact entry =
     [(8, big_int (mem entry ''blockReferenceCount'')), (8, big_int (mem artifact ''blockReferenceCount'')),
      (9, big_int (mem artifact ''blockAuthenticationChunkSize'')), (10, big_int (mem entry ''blockAuthenticationChunkCount'')),
      (10, js_length (mem artifact ''blockAuthenticationChunks''))]"

abbreviation journal_mismatch :: string where
  "journal_mismatch \<equiv> ''proof journal or verifier does not match the package manifest''"

definition check_integers :: "json \<Rightarrow> (nat \<times> int res) list \<Rightarrow> unit res" where
  "check_integers artifact pairs =
     res_fold (\<lambda>(index, expected) _. res_bind (journal_word artifact index) (\<lambda>n. res_bind expected (\<lambda>m.
       require (n = m) journal_mismatch))) pairs ()"

definition check_journal :: "json \<Rightarrow> json \<Rightarrow> json \<Rightarrow> unit res" where
  "check_journal artifact entry configuration =
     res_bind (check_integers artifact (journal_integers artifact entry configuration)) (\<lambda>_.
     res_bind (require (Some (JStr (''0x'' @ journal_text artifact 7)) = mem artifact ''evidenceDigest'') journal_mismatch) (\<lambda>_.
     res_bind (check_integers artifact (reference_integers artifact entry)) (\<lambda>_.
     res_bind (require (Some (JStr (''0x'' @ journal_text artifact 11)) = mem artifact ''blockAuthenticationRoot'') journal_mismatch) (\<lambda>_.
     case (mem artifact ''proofBytes'', mem configuration ''verifierHash'') of
       (Some (JStr b), Some (JStr h)) \<Rightarrow> require (toLowerCase (take 10 b) = take 10 h) journal_mismatch
     | _ \<Rightarrow> Inl TypeError))))"

definition count_references :: "nat \<times> json \<Rightarrow> int \<Rightarrow> int res" where
  "count_references ic references = (case ic of (index, chunk) \<Rightarrow>
     res_bind (require (mem chunk ''index'' = Some (JNum (int index))) ''chunk order mismatch'') (\<lambda>_.
     res_bind (js_length (mem chunk ''references'')) (\<lambda>n. Inr (references + n))))"

definition validatePublishedArtifact :: "json \<Rightarrow> json \<Rightarrow> json \<Rightarrow> unit res" where
  "validatePublishedArtifact artifact entry configuration =
     res_bind (require (production_artifact artifact) ''invalid production artifact'') (\<lambda>_.
     res_bind (lower_text (mem artifact ''seller'')) (\<lambda>sl.
     res_bind (require (packaged_artifact artifact entry configuration sl) ''invalid production artifact'') (\<lambda>_.
     res_bind (check_journal artifact entry configuration) (\<lambda>_.
     res_bind (array_of (mem artifact ''blockAuthenticationChunks'')) (\<lambda>chunks.
     res_bind (res_fold count_references (enumerate 0 chunks) 0) (\<lambda>references.
     require (mem entry ''blockReferenceCount'' = Some (JNum references)) ''reference count mismatch''))))))"

section \<open>The package\<close>

record package_files =
  pf_manifest :: "json res"
  pf_manifest_bytes :: string
  pf_artifact :: "string \<Rightarrow> string res"

record published =
  pb_entry :: json
  pb_bytes :: string
  pb_artifact :: json

record loading =
  ld_artifacts :: "published list"
  ld_sellers :: "json option list"
  ld_volume :: int
  ld_total :: int

definition load_entry ::
  "(string \<Rightarrow> string) \<Rightarrow> (string \<Rightarrow> string res) \<Rightarrow> package_files \<Rightarrow> json \<Rightarrow> json \<Rightarrow> loading \<Rightarrow> loading res" where
  "load_entry sha256 gunzip files configuration entry ld =
     res_bind (require (lower_hex_text 40 (text_of (mem entry ''seller''))
         \<and> mem entry ''file'' = Some (JStr (''artifacts/'' @ text_of (mem entry ''seller'') @ ''.json.gz''))
         \<and> mem entry ''seller'' \<notin> set (ld_sellers ld)) ''invalid or duplicate artifact path/seller'') (\<lambda>_.
     res_bind (pf_artifact files (str_of (mem entry ''file''))) (\<lambda>compressed.
     res_bind (unpackArtifact sha256 gunzip compressed entry) (\<lambda>u.
     res_bind (validatePublishedArtifact (up_artifact u) entry configuration) (\<lambda>_.
     res_bind (big_int (mem entry ''provenWashVolumeRaw'')) (\<lambda>volume.
     res_bind (big_int (mem entry ''totalSellerVolumeRaw'')) (\<lambda>total'.
     Inr \<lparr>ld_artifacts = ld_artifacts ld @ [\<lparr>pb_entry = entry, pb_bytes = up_bytes u, pb_artifact = up_artifact u\<rparr>],
       ld_sellers = ld_sellers ld @ [mem entry ''seller''], ld_volume = ld_volume ld + volume, ld_total = ld_total ld + total'\<rparr>))))))"

definition member_document :: "json \<Rightarrow> string \<Rightarrow> json" where
  "member_document j k = (case mem j k of None \<Rightarrow> JNull | Some v \<Rightarrow> v)"

definition loadPackage ::
  "(string \<Rightarrow> string) \<Rightarrow> (string \<Rightarrow> string res) \<Rightarrow> package_files \<Rightarrow> (json \<times> published list) res" where
  "loadPackage sha256 gunzip files =
     res_bind (pf_manifest files) (\<lambda>manifest.
     res_bind (require (mem manifest ''version'' = Some (JNum 1) \<and> mem manifest ''kind'' = Some (JStr ''antseed-published-seller-proofs'')
         \<and> mem manifest ''chainId'' = Some (JNum 8453)) ''invalid package manifest'') (\<lambda>_.
     res_bind (js_length (mem manifest ''artifacts'')) (\<lambda>n.
     res_bind (require (mem manifest ''proofCount'' = Some (JNum n)) ''invalid package manifest'') (\<lambda>_.
     res_bind (iterate (mem manifest ''artifacts'')) (\<lambda>entries.
     res_bind (res_fold (load_entry sha256 gunzip files (member_document manifest ''configuration'')) entries
       \<lparr>ld_artifacts = [], ld_sellers = [], ld_volume = 0, ld_total = 0\<rparr>) (\<lambda>ld.
     res_bind (big_int (mem manifest ''totalProvenWashVolumeRaw'')) (\<lambda>volume.
     res_bind (big_int (mem manifest ''totalSellerVolumeRaw'')) (\<lambda>total'.
     res_bind (require (ld_volume ld = volume \<and> ld_total ld = total') ''package totals mismatch'') (\<lambda>_.
     Inr (manifest, ld_artifacts ld))))))))))"

section \<open>Preparing the calls\<close>

type_synonym cast_tool = "string list \<Rightarrow> string res"

definition reference_text :: "json \<Rightarrow> string res" where
  "reference_text r =
     res_bind (field (Some r) ''number'') (\<lambda>n. res_bind (field (Some r) ''blockHash'') (\<lambda>h.
     Inr (''('' @ text_of n @ '','' @ text_of h @ '')'')))"

text \<open>\<open>join\<close> writes nothing for \<open>null\<close>.\<close>

definition joined_text :: "json \<Rightarrow> string" where
  "joined_text j = (if j = JNull then [] else js_text j)"

definition encodeChunk :: "cast_tool \<Rightarrow> string \<Rightarrow> json \<Rightarrow> string res" where
  "encodeChunk tool proofId chunk =
     res_bind (array_of (mem chunk ''references'')) (\<lambda>rs.
     res_bind (res_map reference_text rs) (\<lambda>texts.
     res_bind (array_of (mem chunk ''proof'')) (\<lambda>hashes.
     tool [''calldata'', ''authenticateBlockReferences(bytes32,uint32,(uint64,bytes32)[],bytes32[])'', proofId,
       text_of (mem chunk ''index''), ''['' @ js_join '','' texts @ '']'',
       ''['' @ js_join '','' (map joined_text hashes) @ '']''])))"

definition line :: "string \<Rightarrow> string" where
  "line s = s @ [CHR 0x0A]"

text \<open>\<open>JSON.stringify(value, null, 2)\<close>, at an indentation.\<close>

definition next_line :: "nat \<Rightarrow> string" where
  "next_line n = CHR 0x0A # replicate n (CHR '' '')"

fun pretty :: "nat \<Rightarrow> json \<Rightarrow> string"
  and pretty_list :: "nat \<Rightarrow> json list \<Rightarrow> string list"
  and pretty_members :: "nat \<Rightarrow> (string \<times> json) list \<Rightarrow> string list" where
  "pretty n (JArr js) = (if js = [] then ''[]''
     else ''['' @ js_join '','' (pretty_list (n + 2) js) @ next_line n @ '']'')"
| "pretty n (JObj ms) = (if ms = [] then ''{}''
     else ''{'' @ js_join '','' (pretty_members (n + 2) ms) @ next_line n @ ''}'')"
| "pretty n j = stringify j"
| "pretty_list n [] = []"
| "pretty_list n (j # js) = (next_line n @ pretty n j) # pretty_list n js"
| "pretty_members n [] = []"
| "pretty_members n ((k, v) # ms) = (next_line n @ quote k @ '': '' @ pretty n v) # pretty_members n ms"

definition chunk_name :: "json \<Rightarrow> string" where
  "chunk_name chunk = ''/chunks/'' @ padStart 5 (CHR ''0'') (text_of (mem chunk ''index'')) @ ''.hex''"

definition prepare_chunk :: "cast_tool \<Rightarrow> string \<Rightarrow> string \<Rightarrow> json \<Rightarrow> (string \<times> string) res" where
  "prepare_chunk tool directory proofId chunk =
     res_bind (encodeChunk tool proofId chunk) (\<lambda>cd. Inr (directory @ chunk_name chunk, line cd))"

definition prepare_published :: "cast_tool \<Rightarrow> string \<Rightarrow> published \<Rightarrow> (string \<times> string) list \<times> nat \<Rightarrow> ((string \<times> string) list \<times> nat) res" where
  "prepare_published tool output p st = (case st of (files, calls) \<Rightarrow>
     let directory = output @ ''/'' @ text_of (mem (pb_entry p) ''seller''); proofId = text_of (mem (pb_entry p) ''proofId'');
         chunks = elements (mem (pb_artifact p) ''blockAuthenticationChunks'') in
     res_bind (tool [''keccak'', str_of (mem (pb_artifact p) ''publicValues'')]) (\<lambda>k.
     res_bind (require (Some (JStr (toLowerCase k)) = mem (pb_entry p) ''proofId'') ''proof ID mismatch'') (\<lambda>_.
     res_bind (encodeStageSellerProof (Some (str_of (mem (pb_artifact p) ''publicValues''))) (Some (str_of (mem (pb_artifact p) ''proofBytes'')))) (\<lambda>stage.
     res_bind (res_map (prepare_chunk tool directory proofId) chunks) (\<lambda>chunkFiles.
     res_bind (tool [''calldata'', ''finalizeSellerProof(bytes32)'', proofId]) (\<lambda>finalize.
     Inr (files @ [(directory @ ''/artifact.json'', pb_bytes p), (directory @ ''/proof-id.txt'', line proofId),
         (directory @ ''/stage.hex'', line stage)] @ chunkFiles @ [(directory @ ''/finalize.hex'', line finalize)],
       calls + 2 + length chunks)))))))"

definition prepare_package ::
  "(string \<Rightarrow> string) \<Rightarrow> (string \<Rightarrow> string res) \<Rightarrow> cast_tool \<Rightarrow> package_files \<Rightarrow> string \<Rightarrow> ((string \<times> string) list \<times> nat) res" where
  "prepare_package sha256 gunzip tool files output =
     res_bind (loadPackage sha256 gunzip files) (\<lambda>(manifest, artifacts).
     res_bind (res_fold (prepare_published tool output) artifacts ([], 0)) (\<lambda>(written, calls).
     Inr (written @ [(output @ ''/prepared.json'', line (pretty 0 (JObj (known_members
       [(''proofCount'', Some (JNum (int (length artifacts)))), (''directCalls'', Some (JNum (int calls))),
        (''configuration'', mem manifest ''configuration''),
        (''packageManifestSha256'', Some (JStr (published_sha256 sha256 (pf_manifest_bytes files))))]))))], calls)))"

section \<open>The deployment\<close>

definition settings :: "(string \<times> string) list" where
  "settings = [(''verifier'', ''address''), (''verifierHash'', ''bytes32''), (''blockhashStore'', ''address''),
     (''sellerProgramVKey'', ''bytes32''), (''periodStartBlock'', ''uint64''), (''periodEndBlock'', ''uint64'')]"

definition zero_address :: "string \<Rightarrow> bool" where
  "zero_address a \<longleftrightarrow> hex_text 40 a \<and> (\<forall>c\<in>set (drop 2 a). c = CHR ''0'')"

text \<open>The tool refuses an address that is not a text.\<close>

definition check_code :: "cast_tool \<Rightarrow> json option \<times> json option \<Rightarrow> unit res" where
  "check_code query ae = (case ae of
     (Some (JStr address), expectedHash) \<Rightarrow>
       (let mismatch = ''runtime bytecode mismatch at '' @ address @ ''; stop for deployment/build review'' in
       res_bind (query [''code'', address]) (\<lambda>code.
       res_bind (require (code \<noteq> ''0x'') mismatch) (\<lambda>_.
       res_bind (query [''keccak'', code]) (\<lambda>h. require (Some (JStr (toLowerCase h)) = expectedHash) mismatch))))
   | _ \<Rightarrow> Inl TypeError)"

definition js_space :: "char \<Rightarrow> bool" where
  "js_space c \<longleftrightarrow> (of_char c :: nat) \<in> {9..13} \<union> {32, 160}"

definition check_setting :: "cast_tool \<Rightarrow> json \<Rightarrow> string \<Rightarrow> string \<times> string \<Rightarrow> unit res" where
  "check_setting query configuration registry ft = (case ft of (fieldName, type) \<Rightarrow>
     res_bind (query [''call'', registry, fieldName @ ''()('' @ type @ '')'']) (\<lambda>answer.
     require (toLowerCase (takeWhile (\<lambda>c. \<not> js_space c) answer) = toLowerCase (text_of (mem configuration fieldName)))
       (''deployed '' @ fieldName @ '' mismatch'')))"

definition checkDeployment :: "cast_tool \<Rightarrow> json \<Rightarrow> string \<Rightarrow> unit res" where
  "checkDeployment query manifest registry =
     (let configuration = member_document manifest ''configuration'' in
      res_bind (require (hex_text 40 registry \<and> \<not> zero_address registry) ''provide the real deployed registry address'') (\<lambda>_.
      res_bind (query [''chain-id'']) (\<lambda>chain.
      res_bind (require (chain = ''8453'') ''RPC must be Base chain ID 8453'') (\<lambda>_.
      res_bind (res_fold (\<lambda>ae _. check_code query ae) [(Some (JStr registry), mem manifest ''registryRuntimeCodeHash''),
          (mem configuration ''verifier'', mem manifest ''verifierRuntimeCodeHash''),
          (mem configuration ''blockhashStore'', mem manifest ''blockhashStoreRuntimeCodeHash'')] ()) (\<lambda>_.
      res_fold (\<lambda>ft _. check_setting query configuration registry ft) settings ())))))"


section \<open>A loaded package\<close>

lemma unpackArtifact_Inr:
  "unpackArtifact sha256 gunzip compressed entry = Inr u \<Longrightarrow>
     gunzip compressed = Inr (up_bytes u) \<and> JSON_parse (up_bytes u) = Inr (up_artifact u)
   \<and> mem entry ''gzipSha256'' = Some (JStr (published_sha256 sha256 compressed))
   \<and> mem entry ''sha256'' = Some (JStr (published_sha256 sha256 (up_bytes u)))"
  by (auto simp: unpackArtifact_def res_bind_Inr)

lemma check_integers_Inr:
  "check_integers artifact pairs = Inr w \<Longrightarrow> (i, r) \<in> set pairs \<Longrightarrow> \<exists>n. journal_word artifact i = Inr n \<and> r = Inr n"
  unfolding check_integers_def
  by (induction pairs) (auto simp: res_bind_Inr res_fold_Cons_Inr simp del: res_fold.simps(2))

text \<open>What the manifest says of a proof is in the journal of its public values.\<close>

definition journal_states :: "json \<Rightarrow> json \<Rightarrow> json \<Rightarrow> bool" where
  "journal_states artifact entry configuration \<longleftrightarrow>
     (\<forall>(i, r)\<in>set (journal_integers artifact entry configuration @ reference_integers artifact entry).
        \<exists>n. journal_word artifact i = Inr n \<and> r = Inr n)
   \<and> mem artifact ''evidenceDigest'' = Some (JStr (''0x'' @ journal_text artifact 7))
   \<and> mem artifact ''blockAuthenticationRoot'' = Some (JStr (''0x'' @ journal_text artifact 11))"

lemma check_journal_Inr: "check_journal artifact entry configuration = Inr w \<Longrightarrow> journal_states artifact entry configuration"
  unfolding check_journal_def journal_states_def res_bind_Inr set_append
  by (auto dest!: check_integers_Inr)

lemma count_references_Inr:
  "count_references (i, chunk) k = Inr k' \<longleftrightarrow> mem chunk ''index'' = Some (JNum (int i))
     \<and> (\<exists>n. js_length (mem chunk ''references'') = Inr n \<and> k' = k + n)"
  by (auto simp: count_references_def res_bind_Inr)

lemma count_references_index:
  "res_fold count_references (enumerate n chunks) k = Inr r \<Longrightarrow> i < length chunks \<Longrightarrow>
   mem (chunks ! i) ''index'' = Some (JNum (int (n + i)))"
proof (induction chunks arbitrary: n k i)
  case (Cons c cs)
  obtain k' where "res_fold count_references (enumerate (Suc n) cs) k' = Inr r"
    and "mem c ''index'' = Some (JNum (int n))"
    using Cons.prems(1) by (auto simp: count_references_Inr split: sum.splits)
  then show ?case using Cons.IH [of "Suc n" k' "i - 1"] Cons.prems(2) by (cases i) auto
qed simp

definition numbered_chunks :: "json list \<Rightarrow> bool" where
  "numbered_chunks chunks \<longleftrightarrow> (\<forall>i<length chunks. mem (chunks ! i) ''index'' = Some (JNum (int i)))"

lemma validatePublishedArtifact_Inr:
  assumes "validatePublishedArtifact artifact entry configuration = Inr w"
  shows "production_artifact artifact" and "journal_states artifact entry configuration"
    and "\<exists>sl. mem entry ''seller'' = Some (JStr sl)"
    and "numbered_chunks (elements (mem artifact ''blockAuthenticationChunks''))"
proof -
  from assms obtain sl chunks n u where "production_artifact artifact" "packaged_artifact artifact entry configuration sl"
    and "check_journal artifact entry configuration = Inr u"
    and chunks: "array_of (mem artifact ''blockAuthenticationChunks'') = Inr chunks"
    and counted: "res_fold count_references (enumerate 0 chunks) 0 = Inr n"
    unfolding validatePublishedArtifact_def res_bind_Inr require_Inr by blast
  then show "production_artifact artifact" and "journal_states artifact entry configuration" by (simp_all add: check_journal_Inr)
  show "\<exists>sl. mem entry ''seller'' = Some (JStr sl)"
    using \<open>packaged_artifact artifact entry configuration sl\<close> unfolding packaged_artifact_def by metis
  have "elements (mem artifact ''blockAuthenticationChunks'') = chunks"
    using chunks by (auto simp: array_of_def elements_def split: option.splits json.splits)
  then show "numbered_chunks (elements (mem artifact ''blockAuthenticationChunks''))"
    unfolding numbered_chunks_def using count_references_index [OF counted] by simp
qed

text \<open>An artifact that has passed every check against its entry.\<close>

definition checked_artifact :: "(string \<Rightarrow> string) \<Rightarrow> (string \<Rightarrow> string res) \<Rightarrow> package_files \<Rightarrow> json \<Rightarrow> published \<Rightarrow> bool" where
  "checked_artifact sha256 gunzip files configuration p \<longleftrightarrow>
     (\<exists>seller compressed.
        mem (pb_entry p) ''seller'' = Some (JStr seller) \<and> lower_hex_text 40 seller
      \<and> pf_artifact files (''artifacts/'' @ seller @ ''.json.gz'') = Inr compressed \<and> gunzip compressed = Inr (pb_bytes p)
      \<and> mem (pb_entry p) ''gzipSha256'' = Some (JStr (published_sha256 sha256 compressed))
      \<and> mem (pb_entry p) ''sha256'' = Some (JStr (published_sha256 sha256 (pb_bytes p)))
      \<and> JSON_parse (pb_bytes p) = Inr (pb_artifact p))
   \<and> production_artifact (pb_artifact p) \<and> journal_states (pb_artifact p) (pb_entry p) configuration
   \<and> numbered_chunks (elements (mem (pb_artifact p) ''blockAuthenticationChunks''))"

lemma load_entry_Inr:
  assumes "load_entry sha256 gunzip files configuration entry ld = Inr ld'"
  shows "\<exists>p v t. pb_entry p = entry \<and> checked_artifact sha256 gunzip files configuration p
     \<and> mem entry ''seller'' \<notin> set (ld_sellers ld)
     \<and> big_int (mem entry ''provenWashVolumeRaw'') = Inr v \<and> big_int (mem entry ''totalSellerVolumeRaw'') = Inr t
     \<and> ld' = \<lparr>ld_artifacts = ld_artifacts ld @ [p], ld_sellers = ld_sellers ld @ [mem entry ''seller''],
         ld_volume = ld_volume ld + v, ld_total = ld_total ld + t\<rparr>"
proof -
  from assms obtain compressed u v t w
    where entry: "lower_hex_text 40 (text_of (mem entry ''seller''))"
        "mem entry ''file'' = Some (JStr (''artifacts/'' @ text_of (mem entry ''seller'') @ ''.json.gz''))"
        "mem entry ''seller'' \<notin> set (ld_sellers ld)"
      and compressed: "pf_artifact files (str_of (mem entry ''file'')) = Inr compressed"
      and u: "unpackArtifact sha256 gunzip compressed entry = Inr u"
      and valid: "validatePublishedArtifact (up_artifact u) entry configuration = Inr w"
      and v: "big_int (mem entry ''provenWashVolumeRaw'') = Inr v" and t: "big_int (mem entry ''totalSellerVolumeRaw'') = Inr t"
      and ld': "Inr \<lparr>ld_artifacts = ld_artifacts ld @ [\<lparr>pb_entry = entry, pb_bytes = up_bytes u, pb_artifact = up_artifact u\<rparr>],
         ld_sellers = ld_sellers ld @ [mem entry ''seller''], ld_volume = ld_volume ld + v, ld_total = ld_total ld + t\<rparr> = Inr ld'"
    unfolding load_entry_def res_bind_Inr require_Inr by blast
  note facts = validatePublishedArtifact_Inr [OF valid]
  obtain sl where sl: "mem entry ''seller'' = Some (JStr sl)" using facts(3) by blast
  then have "checked_artifact sha256 gunzip files configuration \<lparr>pb_entry = entry, pb_bytes = up_bytes u, pb_artifact = up_artifact u\<rparr>"
    using entry(1,2) compressed unpackArtifact_Inr [OF u] facts by (simp add: checked_artifact_def text_of_def str_of_def)
  then show ?thesis using entry(3) v t ld'
    by (intro exI [of _ "\<lparr>pb_entry = entry, pb_bytes = up_bytes u, pb_artifact = up_artifact u\<rparr>"] exI [of _ v] exI [of _ t]) auto
qed

definition seller_texts :: "published list \<Rightarrow> string list" where
  "seller_texts ps = map (\<lambda>p. str_of (mem (pb_entry p) ''seller'')) ps"

definition word_values :: "nat \<Rightarrow> published list \<Rightarrow> int list" where
  "word_values i ps = map (\<lambda>p. projr (journal_word (pb_artifact p) i)) ps"

definition load_invariant ::
  "(string \<Rightarrow> string) \<Rightarrow> (string \<Rightarrow> string res) \<Rightarrow> package_files \<Rightarrow> json \<Rightarrow> loading \<Rightarrow> bool" where
  "load_invariant sha256 gunzip files configuration ld \<longleftrightarrow>
     (\<forall>p\<in>set (ld_artifacts ld). checked_artifact sha256 gunzip files configuration p)
   \<and> ld_sellers ld = map (\<lambda>p. mem (pb_entry p) ''seller'') (ld_artifacts ld) \<and> distinct (seller_texts (ld_artifacts ld))
   \<and> ld_volume ld = sum_list (word_values 5 (ld_artifacts ld)) \<and> ld_total ld = sum_list (word_values 6 (ld_artifacts ld))"

lemma journal_volume:
  assumes "journal_states artifact entry configuration"
  shows "journal_word artifact 4 = big_int (mem entry ''seller'')"
    and "journal_word artifact 5 = big_int (mem entry ''provenWashVolumeRaw'')"
    and "journal_word artifact 6 = big_int (mem entry ''totalSellerVolumeRaw'')"
  using assms unfolding journal_states_def journal_integers_def by auto

lemma load_entry_invariant:
  assumes "load_invariant sha256 gunzip files configuration ld" and "load_entry sha256 gunzip files configuration entry ld = Inr ld'"
  shows "load_invariant sha256 gunzip files configuration ld' \<and> map pb_entry (ld_artifacts ld') = map pb_entry (ld_artifacts ld) @ [entry]"
proof -
  obtain p v t where p: "pb_entry p = entry" "checked_artifact sha256 gunzip files configuration p"
      and new: "mem entry ''seller'' \<notin> set (ld_sellers ld)"
      and vt: "big_int (mem entry ''provenWashVolumeRaw'') = Inr v" "big_int (mem entry ''totalSellerVolumeRaw'') = Inr t"
      and ld': "ld' = \<lparr>ld_artifacts = ld_artifacts ld @ [p], ld_sellers = ld_sellers ld @ [mem entry ''seller''],
         ld_volume = ld_volume ld + v, ld_total = ld_total ld + t\<rparr>"
    using load_entry_Inr [OF assms(2)] by blast
  have "journal_states (pb_artifact p) entry configuration" using p by (simp add: checked_artifact_def)
  from journal_volume [OF this] vt have words: "journal_word (pb_artifact p) 5 = Inr v" "journal_word (pb_artifact p) 6 = Inr t" by simp_all
  have texts: "mem (pb_entry q) ''seller'' = Some (JStr (str_of (mem (pb_entry q) ''seller'')))"
    if "q \<in> set (ld_artifacts ld) \<or> q = p" for q
  proof -
    have "checked_artifact sha256 gunzip files configuration q"
      using that p(2) assms(1) by (auto simp: load_invariant_def)
    then show ?thesis by (auto simp: checked_artifact_def str_of_def)
  qed
  have "str_of (mem entry ''seller'') \<notin> set (seller_texts (ld_artifacts ld))"
  proof
    assume "str_of (mem entry ''seller'') \<in> set (seller_texts (ld_artifacts ld))"
    then obtain q where q: "q \<in> set (ld_artifacts ld)" "str_of (mem entry ''seller'') = str_of (mem (pb_entry q) ''seller'')"
      by (auto simp: seller_texts_def)
    then have "mem entry ''seller'' = mem (pb_entry q) ''seller''" using texts [of q] texts [of p] p(1) by simp
    then show False using new q(1) assms(1) by (auto simp: load_invariant_def)
  qed
  then show ?thesis using assms(1) p words
    by (auto simp: load_invariant_def ld' seller_texts_def word_values_def)
qed

lemma load_entries:
  assumes "res_fold (load_entry sha256 gunzip files configuration) entries ld = Inr ld'"
    and "load_invariant sha256 gunzip files configuration ld"
  shows "load_invariant sha256 gunzip files configuration ld' \<and> map pb_entry (ld_artifacts ld') = map pb_entry (ld_artifacts ld) @ entries"
  using assms
proof (induction entries arbitrary: ld)
  case (Cons e es)
  obtain mid where mid: "load_entry sha256 gunzip files configuration e ld = Inr mid"
    and rest: "res_fold (load_entry sha256 gunzip files configuration) es mid = Inr ld'"
    using Cons.prems(1) by (auto split: sum.splits)
  note step = load_entry_invariant [OF Cons.prems(2) mid]
  show ?case using Cons.IH [OF rest] step by simp
qed simp

lemma loadPackage_Inr:
  assumes "loadPackage sha256 gunzip files = Inr (manifest, artifacts)"
  shows "pf_manifest files = Inr manifest
     \<and> iterate (mem manifest ''artifacts'') = Inr (map pb_entry artifacts)
     \<and> js_length (mem manifest ''artifacts'') = Inr (projr (js_length (mem manifest ''artifacts'')))
     \<and> mem manifest ''proofCount'' = Some (JNum (projr (js_length (mem manifest ''artifacts''))))
     \<and> load_invariant sha256 gunzip files (member_document manifest ''configuration'')
         \<lparr>ld_artifacts = artifacts, ld_sellers = map (\<lambda>p. mem (pb_entry p) ''seller'') artifacts,
           ld_volume = sum_list (word_values 5 artifacts), ld_total = sum_list (word_values 6 artifacts)\<rparr>
     \<and> big_int (mem manifest ''totalProvenWashVolumeRaw'') = Inr (sum_list (word_values 5 artifacts))
     \<and> big_int (mem manifest ''totalSellerVolumeRaw'') = Inr (sum_list (word_values 6 artifacts))"
proof -
  let ?start = "\<lparr>ld_artifacts = [], ld_sellers = [], ld_volume = 0, ld_total = 0\<rparr>"
  from assms obtain n entries ld v t where m: "pf_manifest files = Inr manifest"
      and n: "js_length (mem manifest ''artifacts'') = Inr n" "mem manifest ''proofCount'' = Some (JNum n)"
      and entries: "iterate (mem manifest ''artifacts'') = Inr entries"
      and ld: "res_fold (load_entry sha256 gunzip files (member_document manifest ''configuration'')) entries ?start = Inr ld"
      and totals: "big_int (mem manifest ''totalProvenWashVolumeRaw'') = Inr v" "big_int (mem manifest ''totalSellerVolumeRaw'') = Inr t"
        "ld_volume ld = v" "ld_total ld = t"
      and artifacts: "ld_artifacts ld = artifacts"
    unfolding loadPackage_def res_bind_Inr require_Inr by fastforce
  have "load_invariant sha256 gunzip files (member_document manifest ''configuration'') ?start"
    by (simp add: load_invariant_def seller_texts_def word_values_def)
  from load_entries [OF ld this] have inv: "load_invariant sha256 gunzip files (member_document manifest ''configuration'') ld"
    and all: "map pb_entry artifacts = entries" by (simp_all add: artifacts)
  show ?thesis using m n entries inv totals
    unfolding all [symmetric] by (simp add: load_invariant_def artifacts)
qed

lemma iterated_length: "iterate v = Inr js \<Longrightarrow> js_length v = Inr n \<Longrightarrow> n = int (length js)"
  by (auto simp: iterate_def js_length_def split: option.splits json.splits)

text \<open>C29: A published package that loads is what its manifest says. There is one artifact for each entry, as
  many as the manifest counts and for distinct sellers; the file an entry names has the entry's two
  SHA-256 sums, and the artifact parsed from it is a verified production proof whose journal has the entry's seller,
  volumes and block references, the artifact's evidence digest and authentication root, and the configured period. The manifest's
  totals are the sums of the volumes in the journals, so no volume is claimed that no proof states.\<close>

theorem loaded_package_sound:
  assumes "loadPackage sha256 gunzip files = Inr (manifest, artifacts)"
  shows "iterate (mem manifest ''artifacts'') = Inr (map pb_entry artifacts)
     \<and> mem manifest ''proofCount'' = Some (JNum (int (length artifacts))) \<and> distinct (seller_texts artifacts)
     \<and> (\<forall>p\<in>set artifacts. checked_artifact sha256 gunzip files (member_document manifest ''configuration'') p
          \<and> js_BigInt (str_of (mem (pb_entry p) ''seller'')) = journal_word (pb_artifact p) 4)
     \<and> big_int (mem manifest ''totalProvenWashVolumeRaw'') = Inr (sum_list (word_values 5 artifacts))
     \<and> big_int (mem manifest ''totalSellerVolumeRaw'') = Inr (sum_list (word_values 6 artifacts))"
proof -
  note facts = loadPackage_Inr [OF assms]
  have "mem manifest ''proofCount'' = Some (JNum (int (length artifacts)))"
    using facts iterated_length [of "mem manifest ''artifacts''" "map pb_entry artifacts"] by (metis length_map)
  moreover have "js_BigInt (str_of (mem (pb_entry p) ''seller'')) = journal_word (pb_artifact p) 4"
    if ok: "checked_artifact sha256 gunzip files (member_document manifest ''configuration'') p" for p
  proof -
    have "journal_word (pb_artifact p) 4 = big_int (mem (pb_entry p) ''seller'')"
      using ok journal_volume(1) unfolding checked_artifact_def by blast
    moreover obtain sl where "mem (pb_entry p) ''seller'' = Some (JStr sl)" using ok unfolding checked_artifact_def by blast
    ultimately show ?thesis by (simp add: big_int_def str_of_def)
  qed
  ultimately show ?thesis using facts by (simp add: load_invariant_def)
qed


section \<open>The prepared files\<close>

definition published_chunks :: "published \<Rightarrow> json list" where
  "published_chunks p = elements (mem (pb_artifact p) ''blockAuthenticationChunks'')"

definition published_directory :: "string \<Rightarrow> published \<Rightarrow> string" where
  "published_directory output p = output @ ''/'' @ text_of (mem (pb_entry p) ''seller'')"

definition published_names :: "string \<Rightarrow> published \<Rightarrow> string list" where
  "published_names output p = map ((@) (published_directory output p))
     ([''/artifact.json'', ''/proof-id.txt'', ''/stage.hex''] @ map chunk_name (published_chunks p) @ [''/finalize.hex''])"

definition staged :: "string \<Rightarrow> (string \<times> string) list \<Rightarrow> published \<Rightarrow> bool" where
  "staged output files p \<longleftrightarrow> (\<exists>cd.
     encodeStageSellerProof (Some (str_of (mem (pb_artifact p) ''publicValues''))) (Some (str_of (mem (pb_artifact p) ''proofBytes''))) = Inr cd
   \<and> (published_directory output p @ ''/stage.hex'', line cd) \<in> set files)"

lemma prepare_chunk_names:
  assumes "res_map (prepare_chunk tool directory proofId) chunks = Inr files"
  shows "map fst files = map (\<lambda>c. directory @ chunk_name c) chunks"
proof (rule nth_equalityI)
  show "length (map fst files) = length (map (\<lambda>c. directory @ chunk_name c) chunks)" using res_map_length [OF assms] by simp
  fix i assume "i < length (map fst files)"
  then have "i < length chunks" "i < length files" using res_map_length [OF assms] by simp_all
  then show "map fst files ! i = map (\<lambda>c. directory @ chunk_name c) chunks ! i"
    using res_map_nth [OF assms, of i] by (auto simp: prepare_chunk_def res_bind_Inr dest: arg_cong [of _ _ fst] sym)
qed

lemma prepare_published_Inr:
  assumes "prepare_published tool output p (files, calls) = Inr st"
  shows "\<exists>new. st = (files @ new, calls + 2 + length (published_chunks p)) \<and> map fst new = published_names output p
     \<and> staged output new p"
proof -
  let ?directory = "published_directory output p" and ?id = "text_of (mem (pb_entry p) ''proofId'')"
  from assms obtain cd chunkFiles finalize
    where stage: "encodeStageSellerProof (Some (str_of (mem (pb_artifact p) ''publicValues'')))
          (Some (str_of (mem (pb_artifact p) ''proofBytes''))) = Inr cd"
      and chunks: "res_map (prepare_chunk tool ?directory ?id) (published_chunks p) = Inr chunkFiles"
      and st: "st = (files @ [(?directory @ ''/artifact.json'', pb_bytes p), (?directory @ ''/proof-id.txt'', line ?id),
         (?directory @ ''/stage.hex'', line cd)] @ chunkFiles @ [(?directory @ ''/finalize.hex'', line finalize)],
       calls + 2 + length (published_chunks p))"
    unfolding prepare_published_def published_directory_def [symmetric] published_chunks_def [symmetric] Let_def prod.case
      res_bind_Inr require_Inr by blast
  show ?thesis unfolding st staged_def
    by (intro exI conjI) (use stage prepare_chunk_names [OF chunks] in \<open>auto simp: published_names_def\<close>)
qed

lemma prepare_all:
  assumes "res_fold (prepare_published tool output) ps (files, calls) = Inr st"
  shows "\<exists>new. st = (files @ new, calls + (\<Sum>p\<leftarrow>ps. 2 + length (published_chunks p)))
     \<and> map fst new = concat (map (published_names output) ps) \<and> (\<forall>p\<in>set ps. staged output new p)"
  using assms
proof (induction ps arbitrary: files calls)
  case (Cons p ps)
  obtain mid where mid: "prepare_published tool output p (files, calls) = Inr mid"
    and rest: "res_fold (prepare_published tool output) ps mid = Inr st"
    using Cons.prems by (auto split: sum.splits)
  obtain new where new: "mid = (files @ new, calls + 2 + length (published_chunks p))" "map fst new = published_names output p"
      "staged output new p"
    using prepare_published_Inr [OF mid] by blast
  obtain later where "st = ((files @ new) @ later, calls + 2 + length (published_chunks p) + (\<Sum>p\<leftarrow>ps. 2 + length (published_chunks p)))"
      "map fst later = concat (map (published_names output) ps)" "\<forall>p\<in>set ps. staged output later p"
    using Cons.IH [OF rest [unfolded new(1)]] by blast
  then show ?case using new by (intro exI [of _ "new @ later"]) (auto simp: staged_def)
qed auto

subsection \<open>No name is written twice\<close>

lemma chunk_name_inject:
  assumes "mem c ''index'' = Some (JNum (int i))" and "mem d ''index'' = Some (JNum (int j))" and "chunk_name c = chunk_name d"
  shows "i = j"
proof -
  have "padStart 5 (CHR ''0'') (show_nat i) = padStart 5 (CHR ''0'') (show_nat j)"
    using assms by (simp add: chunk_name_def text_of_def show_int_def)
  then have "parse_digits 0 (show_nat i) = parse_digits 0 (show_nat j)"
    by (metis padStart_def parse_digits_zeros)
  then show ?thesis by (simp add: parse_digits_show_nat)
qed

lemma distinct_chunk_names:
  assumes "numbered_chunks chunks"
  shows "distinct (map chunk_name chunks)"
  unfolding distinct_conv_nth length_map
proof (intro allI impI)
  fix i j assume ij: "i < length chunks" "j < length chunks" "i \<noteq> j"
  then have "mem (chunks ! i) ''index'' = Some (JNum (int i))" "mem (chunks ! j) ''index'' = Some (JNum (int j))"
    using assms by (simp_all add: numbered_chunks_def)
  then show "map chunk_name chunks ! i \<noteq> map chunk_name chunks ! j" using chunk_name_inject ij by auto
qed

lemma checked_names:
  assumes "checked_artifact sha256 gunzip files configuration p"
  shows "distinct (published_names output p)"
    and "n \<in> set (published_names output p) \<Longrightarrow> take 42 (drop (length output + 1) n) = str_of (mem (pb_entry p) ''seller'')"
    and "output @ ''/prepared.json'' \<notin> set (published_names output p)"
proof -
  obtain seller where seller: "mem (pb_entry p) ''seller'' = Some (JStr seller)" and hex: "lower_hex_text 40 seller"
    and numbered: "numbered_chunks (published_chunks p)"
    using assms by (auto simp: checked_artifact_def published_chunks_def)
  have len: "length seller = 42" and head: "\<exists>rest. seller = CHR ''0'' # rest"
    using hex by (cases seller; auto simp: lower_hex_text_def hex_text_def)+
  have prefix: "\<exists>rest. n = output @ ''/'' @ seller @ rest" if "n \<in> set (published_names output p)" for n
    using that by (auto simp: published_names_def published_directory_def seller text_of_def)
  show "take 42 (drop (length output + 1) n) = str_of (mem (pb_entry p) ''seller'')" if "n \<in> set (published_names output p)"
    using prefix [OF that] len by (auto simp: seller str_of_def)
  show "output @ ''/prepared.json'' \<notin> set (published_names output p)" using prefix head by fastforce
  have "''/artifact.json'' \<noteq> chunk_name c \<and> ''/proof-id.txt'' \<noteq> chunk_name c \<and> ''/stage.hex'' \<noteq> chunk_name c
      \<and> ''/finalize.hex'' \<noteq> chunk_name c" for c
    by (simp add: chunk_name_def)
  then have "distinct ([''/artifact.json'', ''/proof-id.txt'', ''/stage.hex''] @ map chunk_name (published_chunks p) @ [''/finalize.hex''])"
    using distinct_chunk_names [OF numbered] by (auto simp: image_iff)
  then show "distinct (published_names output p)" unfolding published_names_def
    by (subst distinct_map) (simp add: inj_on_def)
qed

lemma distinct_prepared:
  assumes "\<forall>p\<in>set ps. checked_artifact sha256 gunzip files configuration p" and "distinct (seller_texts ps)"
  shows "distinct (concat (map (published_names output) ps))"
  using assms
proof (induction ps)
  case (Cons p ps)
  have "n \<notin> set (published_names output q)" if "n \<in> set (published_names output p)" "q \<in> set ps" for n q
  proof
    assume "n \<in> set (published_names output q)"
    then have "str_of (mem (pb_entry p) ''seller'') = str_of (mem (pb_entry q) ''seller'')"
      using checked_names(2) [of sha256 gunzip files configuration p n "output", OF _ that(1)]
        checked_names(2) [of sha256 gunzip files configuration q n "output"] Cons.prems(1) that(2) by auto
    then show False using Cons.prems(2) that(2) by (auto simp: seller_texts_def)
  qed
  then show ?case using Cons checked_names(1) [of sha256 gunzip files configuration p "output"] by (auto simp: seller_texts_def)
qed simp

lemma prepare_package_Inr:
  assumes "prepare_package sha256 gunzip tool files output = Inr (written, calls)"
  shows "\<exists>manifest artifacts new summary. loadPackage sha256 gunzip files = Inr (manifest, artifacts)
     \<and> written = new @ [(output @ ''/prepared.json'', summary)] \<and> map fst new = concat (map (published_names output) artifacts)
     \<and> calls = (\<Sum>p\<leftarrow>artifacts. 2 + length (published_chunks p)) \<and> (\<forall>p\<in>set artifacts. staged output new p)"
proof -
  from assms obtain manifest artifacts new k summary where load: "loadPackage sha256 gunzip files = Inr (manifest, artifacts)"
    and all: "res_fold (prepare_published tool output) artifacts ([], 0) = Inr (new, k)"
    and w: "written = new @ [(output @ ''/prepared.json'', summary)]" "calls = k"
    unfolding prepare_package_def res_bind_Inr by (fastforce simp: res_bind_Inr split: prod.splits)
  then show ?thesis using prepare_all [OF all] by auto
qed

text \<open>C30: Preparing a package writes no file twice, counts one call to stage, one to finalize and one for each chunk of
  block references of every seller, and writes for every artifact of the package a \<open>stage.hex\<close> whose line is the
  calldata from which the ABI decoder reads back the artifact's public values and proof.\<close>

theorem prepared_stage_decodes:
  assumes "prepare_package sha256 gunzip tool files output = Inr (written, calls)"
    and "loadPackage sha256 gunzip files = Inr (manifest, artifacts)"
    and "\<forall>p\<in>set artifacts. length (str_of (mem (pb_artifact p) ''publicValues'')) + length (str_of (mem (pb_artifact p) ''proofBytes'')) + 1024 < 16 ^ 64"
  shows "distinct (map fst written) \<and> calls = (\<Sum>p\<leftarrow>artifacts. 2 + length (published_chunks p))
     \<and> (\<forall>p\<in>set artifacts. \<exists>cd. (published_directory output p @ ''/stage.hex'', line cd) \<in> set written
          \<and> abi_decode cd = Some (drop 2 (toLowerCase (str_of (mem (pb_artifact p) ''publicValues''))),
              drop 2 (toLowerCase (str_of (mem (pb_artifact p) ''proofBytes'')))))"
proof -
  obtain new summary where w: "written = new @ [(output @ ''/prepared.json'', summary)]"
      "map fst new = concat (map (published_names output) artifacts)" "calls = (\<Sum>p\<leftarrow>artifacts. 2 + length (published_chunks p))"
      and staged: "\<forall>p\<in>set artifacts. staged output new p"
    using prepare_package_Inr [OF assms(1)] assms(2) by auto
  have ok: "\<forall>p\<in>set artifacts. checked_artifact sha256 gunzip files (member_document manifest ''configuration'') p"
    and sellers: "distinct (seller_texts artifacts)"
    using loadPackage_Inr [OF assms(2)] by (simp_all add: load_invariant_def)
  have "output @ ''/prepared.json'' \<notin> set (map fst new)" using ok checked_names(3) unfolding w(2) by fastforce
  then have "distinct (map fst written)" using distinct_prepared [OF ok sellers, of "output"] w by simp
  moreover have "\<exists>cd. (published_directory output p @ ''/stage.hex'', line cd) \<in> set written
          \<and> abi_decode cd = Some (drop 2 (toLowerCase (str_of (mem (pb_artifact p) ''publicValues''))),
              drop 2 (toLowerCase (str_of (mem (pb_artifact p) ''proofBytes''))))" if p: "p \<in> set artifacts" for p
  proof -
    obtain cd where cd: "encodeStageSellerProof (Some (str_of (mem (pb_artifact p) ''publicValues'')))
          (Some (str_of (mem (pb_artifact p) ''proofBytes''))) = Inr cd" "(published_directory output p @ ''/stage.hex'', line cd) \<in> set new"
      using staged p by (auto simp: staged_def)
    show ?thesis using calldata_decoded [OF cd(1)] assms(3) p cd(2) by (auto simp: w(1) text_or_empty_def)
  qed
  ultimately show ?thesis using w(3) by blast
qed


section \<open>A package of one proof\<close>

definition ex_zeros :: "string \<Rightarrow> string" where
  "ex_zeros s = padStart 64 (CHR ''0'') s"

definition ex_seller :: string where
  "ex_seller = ''0x'' @ replicate 40 (CHR ''a'')"

definition ex_words :: "string list" where
  "ex_words = [ex_zeros ''1'', ex_zeros ''2105'', ex_zeros ''1'', ex_zeros ''9'', ex_zeros (replicate 40 (CHR ''a'')),
     ex_zeros ''5'', ex_zeros ''8'', replicate 64 (CHR ''b''), ex_zeros ''1'', ex_zeros ''4'', ex_zeros ''1'', replicate 64 (CHR ''c'')]"

definition ex_public :: string where
  "ex_public = ''0x'' @ concat ex_words"

definition ex_package_artifact :: json where
  "ex_package_artifact = JObj [(''version'', JNum 3), (''kind'', JStr ''antseed-wash-trading-seller-proof''),
     (''proofArchitecture'', JStr ''direct-seller-v1''), (''securityMode'', JStr ''production''), (''proved'', JBool True),
     (''verified'', JBool True), (''seller'', JStr ex_seller), (''sellerProgramVKey'', JStr ''0xkey''),
     (''publicValues'', JStr ex_public), (''proofBytes'', JStr ''0x1122334455''), (''provenWashVolumeRaw'', JStr ''5''),
     (''totalSellerVolumeRaw'', JStr ''8''), (''evidenceDigest'', JStr (''0x'' @ replicate 64 (CHR ''b''))),
     (''blockReferenceCount'', JNum 1), (''blockAuthenticationChunkSize'', JNum 4),
     (''blockAuthenticationRoot'', JStr (''0x'' @ replicate 64 (CHR ''c''))),
     (''blockAuthenticationChunks'', JArr [JObj [(''index'', JNum 0),
        (''references'', JArr [JObj [(''number'', JNum 5), (''blockHash'', JStr ''0xh'')]]), (''proof'', JArr [])]])]"

text \<open>A hash and an archive format to instantiate the parameters with.\<close>

definition ex_sha :: "string \<Rightarrow> string" where
  "ex_sha s = ex_zeros (show_nat (length s))"

definition ex_gunzip :: "string \<Rightarrow> string res" where
  "ex_gunzip s = Inr (drop 2 s)"

definition ex_tool :: cast_tool where
  "ex_tool args = Inr (if hd args = ''keccak'' then ''0xABC'' else ''0x1234'')"

definition ex_bytes :: string where
  "ex_bytes = stringify ex_package_artifact"

definition ex_compressed :: string where
  "ex_compressed = ''gz'' @ ex_bytes"

definition ex_entry_members :: "(string \<times> json) list" where
  "ex_entry_members = [(''seller'', JStr ex_seller), (''file'', JStr (''artifacts/'' @ ex_seller @ ''.json.gz'')), (''proofId'', JStr ''0xabc''),
     (''provenWashVolumeRaw'', JStr ''5''), (''totalSellerVolumeRaw'', JStr ''8''), (''blockReferenceCount'', JNum 1),
     (''blockAuthenticationChunkCount'', JNum 1)]"

definition ex_package_entry :: json where
  "ex_package_entry = JObj (ex_entry_members @ [(''gzipSha256'', JStr (published_sha256 ex_sha ex_compressed)),
     (''sha256'', JStr (published_sha256 ex_sha ex_bytes)), (''uncompressedBytes'', JNum (int (length ex_bytes)))])"

definition ex_package_configuration :: json where
  "ex_package_configuration = JObj [(''sellerProgramVKey'', JStr ''0xkey''), (''periodStartBlock'', JNum 1), (''periodEndBlock'', JNum 9),
     (''verifierHash'', JStr ''0x112233445566'')]"

definition ex_package_manifest :: json where
  "ex_package_manifest = JObj [(''version'', JNum 1), (''kind'', JStr ''antseed-published-seller-proofs''), (''chainId'', JNum 8453),
     (''proofCount'', JNum 1), (''configuration'', ex_package_configuration), (''totalProvenWashVolumeRaw'', JStr ''5''),
     (''totalSellerVolumeRaw'', JStr ''8''), (''artifacts'', JArr [ex_package_entry])]"

definition ex_package :: package_files where
  "ex_package = \<lparr>pf_manifest = Inr ex_package_manifest, pf_manifest_bytes = [], pf_artifact = (\<lambda>p. Inr ex_compressed)\<rparr>"

definition ex_published :: published where
  "ex_published = \<lparr>pb_entry = ex_package_entry, pb_bytes = ex_bytes, pb_artifact = ex_package_artifact\<rparr>"

lemma ex_entry_mem:
  "mem ex_package_entry ''seller'' = Some (JStr ex_seller)"
  "mem ex_package_entry ''file'' = Some (JStr (''artifacts/'' @ ex_seller @ ''.json.gz''))"
  "mem ex_package_entry ''proofId'' = Some (JStr ''0xabc'')"
  "mem ex_package_entry ''provenWashVolumeRaw'' = Some (JStr ''5'')" "mem ex_package_entry ''totalSellerVolumeRaw'' = Some (JStr ''8'')"
  "mem ex_package_entry ''blockReferenceCount'' = Some (JNum 1)" "mem ex_package_entry ''blockAuthenticationChunkCount'' = Some (JNum 1)"
  by (simp_all add: ex_package_entry_def ex_entry_members_def)

lemma ex_artifact_mem:
  "mem ex_package_artifact ''publicValues'' = Some (JStr ex_public)" "mem ex_package_artifact ''proofBytes'' = Some (JStr ''0x1122334455'')"
  "mem ex_package_artifact ''provenWashVolumeRaw'' = Some (JStr ''5'')" "mem ex_package_artifact ''totalSellerVolumeRaw'' = Some (JStr ''8'')"
  "mem ex_package_artifact ''evidenceDigest'' = Some (JStr (''0x'' @ replicate 64 (CHR ''b'')))"
  "mem ex_package_artifact ''blockAuthenticationRoot'' = Some (JStr (''0x'' @ replicate 64 (CHR ''c'')))"
  "mem ex_package_artifact ''blockReferenceCount'' = Some (JNum 1)" "mem ex_package_artifact ''blockAuthenticationChunkSize'' = Some (JNum 4)"
  "mem ex_package_artifact ''seller'' = Some (JStr ex_seller)" "mem ex_package_artifact ''sellerProgramVKey'' = Some (JStr ''0xkey'')"
  "mem ex_package_artifact ''blockAuthenticationChunks'' = Some (JArr [JObj [(''index'', JNum 0),
      (''references'', JArr [JObj [(''number'', JNum 5), (''blockHash'', JStr ''0xh'')]]), (''proof'', JArr [])]])"
  by (simp_all add: ex_package_artifact_def)

lemma ex_configuration_mem:
  "mem ex_package_configuration ''sellerProgramVKey'' = Some (JStr ''0xkey'')" "mem ex_package_configuration ''periodStartBlock'' = Some (JNum 1)"
  "mem ex_package_configuration ''periodEndBlock'' = Some (JNum 9)" "mem ex_package_configuration ''verifierHash'' = Some (JStr ''0x112233445566'')"
  by (simp_all add: ex_package_configuration_def)

lemma take_word: "\<forall>w\<in>set ws. length w = n \<Longrightarrow> i < length ws \<Longrightarrow> take n (drop (n * i) (concat ws)) = ws ! i"
proof (induction ws arbitrary: i)
  case (Cons w ws)
  then show ?case by (cases i) auto
qed simp

lemma ex_words_length: "\<forall>w\<in>set ex_words. length w = 64" "length ex_words = 12"
  by (simp_all add: ex_words_def ex_zeros_def)

lemma ex_public_text: "hex_text 768 ex_public" "length ex_public = 770"
proof -
  have "length (concat ex_words) = 768" by (simp add: ex_words_def ex_zeros_def)
  moreover have "\<forall>w\<in>set ex_words. all_hex w" by code_simp
  then have "all_hex (concat ex_words)" by (auto simp: all_hex_def)
  ultimately show "hex_text 768 ex_public" "length ex_public = 770" by (simp_all add: ex_public_def hex_text_def)
qed

lemma ex_journal_text: "i < 12 \<Longrightarrow> journal_text ex_package_artifact i = ex_words ! i"
  using take_word [OF ex_words_length(1), of i] ex_words_length(2)
  by (simp add: journal_text_def ex_artifact_mem str_of_def ex_public_def)

lemma ex_journal_word:
  "journal_word ex_package_artifact 0 = Inr 1" "journal_word ex_package_artifact 1 = Inr 8453" "journal_word ex_package_artifact 2 = Inr 1"
  "journal_word ex_package_artifact 3 = Inr 9" "journal_word ex_package_artifact 4 = js_BigInt ex_seller"
  "journal_word ex_package_artifact 5 = Inr 5" "journal_word ex_package_artifact 6 = Inr 8" "journal_word ex_package_artifact 8 = Inr 1"
  "journal_word ex_package_artifact 9 = Inr 4" "journal_word ex_package_artifact 10 = Inr 1"
proof -
  have words: "js_BigInt (''0x'' @ ex_words ! 0) = Inr 1" "js_BigInt (''0x'' @ ex_words ! 1) = Inr 8453" "js_BigInt (''0x'' @ ex_words ! 2) = Inr 1"
    "js_BigInt (''0x'' @ ex_words ! 3) = Inr 9" "js_BigInt (''0x'' @ ex_words ! 4) = js_BigInt ex_seller"
    "js_BigInt (''0x'' @ ex_words ! 5) = Inr 5" "js_BigInt (''0x'' @ ex_words ! 6) = Inr 8" "js_BigInt (''0x'' @ ex_words ! 8) = Inr 1"
    "js_BigInt (''0x'' @ ex_words ! 9) = Inr 4" "js_BigInt (''0x'' @ ex_words ! 10) = Inr 1"
    by code_simp+
  show "journal_word ex_package_artifact 0 = Inr 1" "journal_word ex_package_artifact 1 = Inr 8453" "journal_word ex_package_artifact 2 = Inr 1"
    "journal_word ex_package_artifact 3 = Inr 9" "journal_word ex_package_artifact 4 = js_BigInt ex_seller"
    "journal_word ex_package_artifact 5 = Inr 5" "journal_word ex_package_artifact 6 = Inr 8" "journal_word ex_package_artifact 8 = Inr 1"
    "journal_word ex_package_artifact 9 = Inr 4" "journal_word ex_package_artifact 10 = Inr 1"
    unfolding journal_word_def by (simp_all only: ex_journal_text words)
qed

lemma ex_seller_number: "\<exists>n. js_BigInt ex_seller = Inr n"
proof -
  have "\<not> isl (js_BigInt ex_seller)" by code_simp
  then show ?thesis by (metis sum.collapse(2))
qed

lemma ex_journal: "check_journal ex_package_artifact ex_package_entry ex_package_configuration = Inr ()"
proof -
  obtain n where n: "js_BigInt ex_seller = Inr n" using ex_seller_number by blast
  have five: "js_BigInt ''5'' = Inr 5" and eight: "js_BigInt ''8'' = Inr 8" by code_simp+
  have a: "check_integers ex_package_artifact (journal_integers ex_package_artifact ex_package_entry ex_package_configuration) = Inr ()"
    unfolding check_integers_def journal_integers_def
    by (simp add: ex_journal_word ex_artifact_mem ex_entry_mem ex_configuration_mem big_int_def n five eight require_def del: One_nat_def)
  have b: "check_integers ex_package_artifact (reference_integers ex_package_artifact ex_package_entry) = Inr ()"
    unfolding check_integers_def reference_integers_def
    by (simp add: ex_journal_word ex_artifact_mem ex_entry_mem big_int_def js_length_def require_def)
  have words: "journal_text ex_package_artifact 7 = replicate 64 (CHR ''b'')" "journal_text ex_package_artifact 11 = replicate 64 (CHR ''c'')"
    using ex_journal_text [of 7] ex_journal_text [of 11] by (simp_all add: ex_words_def)
  have head: "toLowerCase ''0x11223344'' = ''0x11223344''" by code_simp
  show ?thesis unfolding check_journal_def a b words
    by (simp add: ex_artifact_mem ex_configuration_mem require_def head del: replicate.simps)
qed

lemma ex_valid: "validatePublishedArtifact ex_package_artifact ex_package_entry ex_package_configuration = Inr ()"
proof -
  have production: "production_artifact ex_package_artifact"
    by (simp add: production_artifact_def ex_package_artifact_def js_truthy_def)
  have lower: "toLowerCase ex_seller = ex_seller" and bytes: "byte_text ''0x1122334455''" by code_simp+
  have packaged: "packaged_artifact ex_package_artifact ex_package_entry ex_package_configuration ex_seller"
    using bytes ex_public_text by (simp add: packaged_artifact_def ex_artifact_mem ex_entry_mem ex_configuration_mem same_value_def text_of_def)
  show ?thesis using production lower packaged ex_journal
    by (simp add: validatePublishedArtifact_def ex_artifact_mem ex_entry_mem lower_text_def array_of_def count_references_def js_length_def
        require_def)
qed

lemma ex_unpacked: "unpackArtifact ex_sha ex_gunzip ex_compressed ex_package_entry = Inr \<lparr>up_bytes = ex_bytes, up_artifact = ex_package_artifact\<rparr>"
proof -
  have "wf_json ex_package_artifact" by code_simp
  then have "JSON_parse ex_bytes = Inr ex_package_artifact" unfolding ex_bytes_def by (rule parse_stringify)
  moreover have "ex_gunzip ex_compressed = Inr ex_bytes" by (simp add: ex_gunzip_def ex_compressed_def)
  moreover have "mem ex_package_entry ''gzipSha256'' = Some (JStr (published_sha256 ex_sha ex_compressed))"
    "mem ex_package_entry ''sha256'' = Some (JStr (published_sha256 ex_sha ex_bytes))"
    "mem ex_package_entry ''uncompressedBytes'' = Some (JNum (int (length ex_bytes)))"
    by (simp_all add: ex_package_entry_def ex_entry_members_def)
  ultimately show ?thesis by (simp add: unpackArtifact_def require_def)
qed

lemma ex_loaded: "loadPackage ex_sha ex_gunzip ex_package = Inr (ex_package_manifest, [ex_published])"
proof -
  have hex: "lower_hex_text 40 ex_seller" and five: "js_BigInt ''5'' = Inr 5" and eight: "js_BigInt ''8'' = Inr 8" by code_simp+
  have entry: "load_entry ex_sha ex_gunzip ex_package ex_package_configuration ex_package_entry
      \<lparr>ld_artifacts = [], ld_sellers = [], ld_volume = 0, ld_total = 0\<rparr>
    = Inr \<lparr>ld_artifacts = [ex_published], ld_sellers = [mem ex_package_entry ''seller''], ld_volume = 5, ld_total = 8\<rparr>"
    using hex five eight ex_valid ex_unpacked
    by (simp add: load_entry_def ex_entry_mem text_of_def str_of_def ex_package_def big_int_def require_def ex_published_def)
  show ?thesis
    using entry five eight
    by (simp add: loadPackage_def ex_package_def ex_package_manifest_def js_length_def iterate_def member_document_def big_int_def require_def)
qed

theorem loaded_package_sound_witness:
  "\<exists>m ps. loadPackage ex_sha ex_gunzip ex_package = Inr (m, ps) \<and> ps \<noteq> [] \<and> distinct (seller_texts ps)
     \<and> big_int (mem m ''totalProvenWashVolumeRaw'') = Inr (sum_list (word_values 5 ps))"
  using loaded_package_sound [OF ex_loaded] ex_loaded by blast

theorem prepared_stage_decodes_witness:
  "\<exists>written cd. prepare_package ex_sha ex_gunzip ex_tool ex_package ''out'' = Inr (written, 3)
     \<and> (''out/'' @ ex_seller @ ''/stage.hex'', line cd) \<in> set written
     \<and> abi_decode cd = Some (drop 2 (toLowerCase ex_public), ''1122334455'')"
proof -
  have lower: "toLowerCase ''0xABC'' = ''0xabc''" and bytes: "all_hex (drop 2 ''0x1122334455'')" by code_simp+
  have "\<exists>cd. encodeStageSellerProof (Some ex_public) (Some ''0x1122334455'') = Inr cd"
    using ex_public_text bytes by (simp add: encodeStageSellerProof_def dynamicHex_def hex_text_def text_or_empty_def Let_def)
  then obtain cd where cd: "encodeStageSellerProof (Some ex_public) (Some ''0x1122334455'') = Inr cd" by blast
  have "\<exists>new. prepare_published ex_tool ''out'' ex_published ([], 0) = Inr (new, 3)"
    unfolding prepare_published_def
    by (simp add: ex_published_def ex_artifact_mem ex_entry_mem str_of_def ex_tool_def lower require_def cd elements_def prepare_chunk_def
        encodeChunk_def array_of_def reference_text_def field_def present_def text_of_def)
  then obtain new where new: "prepare_published ex_tool ''out'' ex_published ([], 0) = Inr (new, 3)" by blast
  obtain written where written: "prepare_package ex_sha ex_gunzip ex_tool ex_package ''out'' = Inr (written, 3)"
    using new by (simp add: prepare_package_def ex_loaded)
  have "length (str_of (mem ex_package_artifact ''publicValues'')) + length (str_of (mem ex_package_artifact ''proofBytes'')) + 1024 < 16 ^ 64"
    by (simp add: ex_artifact_mem str_of_def ex_public_text)
  moreover have "drop 2 (toLowerCase ''0x1122334455'') = ''1122334455''" by code_simp
  ultimately show ?thesis using prepared_stage_decodes [OF written ex_loaded] written
    by (auto simp: ex_published_def published_directory_def ex_artifact_mem ex_entry_mem text_of_def str_of_def)
qed

end
