(* ===== verification/Json_Pretty.thy ===== *)
theory Json_Pretty
  imports Json_Parse
begin

text \<open>
  \<open>JSON.stringify(value, null, 2)\<close>, the form in which the scripts write their files, and
  that \<open>JSON.parse\<close> reads it back.
\<close>

section \<open>The printer\<close>

definition next_line :: "nat \<Rightarrow> string" where
  "next_line n = CHR 0x0A # replicate n (CHR '' '')"

text \<open>The first argument is the indentation of the line the value starts on.\<close>

fun pretty :: "nat \<Rightarrow> json \<Rightarrow> string"
  and pretty_list :: "nat \<Rightarrow> json list \<Rightarrow> string list"
  and pretty_members :: "nat \<Rightarrow> (string \<times> json) list \<Rightarrow> string list" where
  "pretty n (JArr js) = (if js = [] then ''[]''
     else CHR ''['' # js_join '','' (pretty_list (n + 2) js) @ next_line n @ '']'')"
| "pretty n (JObj ms) = (if ms = [] then ''{}''
     else CHR ''{'' # js_join '','' (pretty_members (n + 2) ms) @ next_line n @ ''}'')"
| "pretty n JNull = stringify JNull"
| "pretty n (JBool b) = stringify (JBool b)"
| "pretty n (JNum k) = stringify (JNum k)"
| "pretty n (JStr s) = stringify (JStr s)"
| "pretty_list n [] = []"
| "pretty_list n (j # js) = (next_line n @ pretty n j) # pretty_list n js"
| "pretty_members n [] = []"
| "pretty_members n ((k, v) # ms) = (next_line n @ quote k @ '': '' @ pretty n v) # pretty_members n ms"

text \<open>What is written to a file ends its last line.\<close>

definition line :: "string \<Rightarrow> string" where
  "line s = s @ [CHR 0x0A]"

definition document_text :: "json \<Rightarrow> string" where
  "document_text j = line (pretty 0 j)"

section \<open>Reading it back\<close>

lemma skip_next_line [simp]: "skip_white (next_line n @ s) = skip_white s"
proof -
  have "dropWhile white (replicate n (CHR '' '') @ s) = dropWhile white s" by (induction n) (simp_all add: white_def)
  then show ?thesis by (simp add: skip_white_def next_line_def white_def)
qed

lemma parse_next_line [simp]:
  "json_value m (next_line n @ s) = json_value m s"
  "json_members m (next_line n @ s) = json_members m s"
  by (cases m; simp)+

lemma items_next_line [simp]: "json_items m (next_line n @ s) = json_items m s"
  by (cases m) simp_all

lemma ends_number_next_line [simp]: "ends_number (next_line n @ s)" "ends_number [CHR 0x0A]"
  by (simp_all add: next_line_def ends_number_def digit_def char_digit_def)

lemma parse_blank [simp]: "json_value m (CHR '' '' # s) = json_value m s"
  by (cases m) (simp_all add: skip_white_def white_def)

lemma pretty_members_Nil [simp]: "pretty_members n ms = [] \<longleftrightarrow> ms = []" and pretty_list_Nil [simp]: "pretty_list n js = [] \<longleftrightarrow> js = []"
  by (cases ms; auto) (cases js; auto)

lemma json_value_object_lines:
  "skip_white t = CHR 0x22 # u \<Longrightarrow>
   json_value (Suc n) (CHR ''{'' # t) = map_option (\<lambda>(ms, t). (JObj (keyed ms), t)) (json_members n t)"
  by simp

lemma json_value_array_lines:
  "skip_white t = c # u \<Longrightarrow> c \<noteq> CHR '']'' \<Longrightarrow>
   json_value (Suc n) (CHR ''['' # t) = map_option (\<lambda>(js, t). (JArr js, t)) (json_items n t)"
  by simp

lemma pretty_head: "\<exists>c cs. pretty n j = c # cs \<and> \<not> white c \<and> c \<notin> {CHR '']'', CHR ''}''}"
proof (cases j)
  case (JNum k)
  then show ?thesis using stringify_head [of "JNum k"] by simp
qed (auto simp: white_def quote_def)

lemma pretty_scalar:
  assumes "wf_json j" "length (stringify j) \<le> n" "ends_number rest"
  shows "json_value (Suc n) (stringify j @ rest) = Some (j, rest)"
  using parse_stringify_all(1) [OF assms] .

lemma parse_pretty_all:
  shows "wf_json j \<Longrightarrow> length (pretty i j) \<le> n \<Longrightarrow> ends_number rest \<Longrightarrow> json_value (Suc n) (pretty i j @ rest) = Some (j, rest)"
    and "wf_list js \<Longrightarrow> js \<noteq> [] \<Longrightarrow> length (js_join '','' (pretty_list i js)) < n \<Longrightarrow>
      json_items (Suc n) (js_join '','' (pretty_list i js) @ next_line k @ CHR '']'' # rest) = Some (js, rest)"
    and "wf_members ms \<Longrightarrow> ms \<noteq> [] \<Longrightarrow> length (js_join '','' (pretty_members i ms)) < n \<Longrightarrow>
      json_members (Suc n) (js_join '','' (pretty_members i ms) @ next_line k @ CHR ''}'' # rest) = Some (ms, rest)"
proof (induction i j and i js and i ms arbitrary: n rest and n k rest and n k rest rule: pretty_pretty_list_pretty_members.induct)
  case (1 i js)
  show ?case
  proof (cases "js = []")
    case False
    let ?t = "js_join '','' (pretty_list (i + 2) js)"
    obtain m where m: "n = Suc m" "length ?t < m" using 1(3) False by (cases n) (auto simp: next_line_def)
    obtain j js' where js: "js = j # js'" using False by (cases js) auto
    obtain u where u: "?t = next_line (i + 2) @ pretty (i + 2) j @ u" by (cases js') (auto simp: js)
    obtain c cs where c: "pretty (i + 2) j = c # cs" "\<not> white c" "c \<noteq> CHR '']''" using pretty_head [of "i + 2" j] by auto
    let ?r = "?t @ next_line i @ CHR '']'' # rest"
    have "skip_white ?r = c # cs @ u @ next_line i @ CHR '']'' # rest"
      unfolding u append.assoc skip_next_line using c by simp
    then have "json_value (Suc n) (CHR ''['' # ?r) = map_option (\<lambda>(js, t). (JArr js, t)) (json_items n ?r)"
      using c(3) by (rule json_value_array_lines)
    also have "json_items n ?r = Some (js, rest)"
      using 1(1) [OF False _ False m(2)] 1(2) m(1) by simp
    finally show ?thesis using False by simp
  qed simp
next
  case (2 i ms)
  show ?case
  proof (cases "ms = []")
    case False
    let ?t = "js_join '','' (pretty_members (i + 2) ms)"
    obtain m where m: "n = Suc m" "length ?t < m" using 2(3) False by (cases n) (auto simp: next_line_def)
    obtain k v ms' where ms: "ms = (k, v) # ms'" using False by (cases ms) auto
    obtain u where u: "?t = next_line (i + 2) @ CHR 0x22 # u" by (cases ms') (auto simp: ms quote_def)
    let ?r = "?t @ next_line i @ CHR ''}'' # rest"
    have "skip_white ?r = CHR 0x22 # u @ next_line i @ CHR ''}'' # rest"
      unfolding u append.assoc skip_next_line by simp
    then have "json_value (Suc n) (CHR ''{'' # ?r) = map_option (\<lambda>(ms, t). (JObj (keyed ms), t)) (json_members n ?r)"
      by (rule json_value_object_lines)
    also have "json_members n ?r = Some (ms, rest)"
      using 2(1) [OF False _ False m(2)] 2(2) m(1) by simp
    finally show ?thesis using False 2(2) by (simp add: keyed_distinct)
  qed simp
next
  case 3
  then show ?case unfolding pretty.simps by (rule pretty_scalar)
next
  case 4
  then show ?case unfolding pretty.simps by (rule pretty_scalar)
next
  case 5
  then show ?case unfolding pretty.simps by (rule pretty_scalar)
next
  case 6
  then show ?case unfolding pretty.simps by (rule pretty_scalar)
next
  case 7
  then show ?case by simp
next
  case (8 i j js)
  let ?t = "js_join '','' (pretty_list i js)" and ?tail = "next_line k @ CHR '']'' # rest"
  have j: "wf_json j" "wf_list js" using 8(3) by simp_all
  obtain m where n: "n = Suc m" using 8(5) by (cases n) auto
  show ?case
  proof (cases "js = []")
    case True
    then show ?thesis using 8(1) [OF j(1), of m ?tail] 8(5) n by (simp del: json_value.simps)
  next
    case False
    then have shape: "js_join '','' ((next_line i @ pretty i j) # pretty_list i js) = next_line i @ pretty i j @ '','' @ ?t"
      by (simp add: js_join_Cons)
    then have "length (pretty i j) \<le> m" and t: "length ?t < m" using 8(5) n pretty_head [of i j] by auto
    then have "json_value n (pretty i j @ CHR '','' # ?t @ ?tail) = Some (j, CHR '','' # ?t @ ?tail)"
      using 8(1) [OF j(1), of m "CHR '','' # ?t @ ?tail"] n by simp
    moreover have "json_items n (?t @ ?tail) = Some (js, rest)"
      using 8(2) [OF j(2) False t] n by simp
    ultimately show ?thesis unfolding pretty_list.simps shape by (simp del: json_value.simps)
  qed
next
  case 9
  then show ?case by simp
next
  case (10 i key v ms)
  let ?t = "js_join '','' (pretty_members i ms)" and ?k = "concat (map escape_char key)" and ?tail = "next_line k @ CHR ''}'' # rest"
  have v: "wf_json v" "wf_members ms" using 10(3) by simp_all
  obtain m where n: "n = Suc m" using 10(5) by (cases n) auto
  show ?case
  proof (cases "ms = []")
    case True
    then have len: "length key < n" "length (pretty i v) \<le> m" using 10(5) n length_escape [of key] by (simp_all add: quote_def)
    then have "json_value n (pretty i v @ ?tail) = Some (v, ?tail)"
      using 10(1) [OF v(1), of m ?tail] n by simp
    then show ?thesis using True len(1) by (simp add: quote_def json_chars_escape del: json_value.simps)
  next
    case False
    then have shape: "js_join '','' ((next_line i @ quote key @ '': '' @ pretty i v) # pretty_members i ms)
        = next_line i @ CHR 0x22 # ?k @ CHR 0x22 # CHR '':'' # CHR '' '' # pretty i v @ '','' @ ?t"
      by (simp add: quote_def js_join_Cons)
    then have len: "length key < n" "length (pretty i v) \<le> m" "length ?t < m"
      using 10(5) n length_escape [of key] by simp_all
    then have "json_value n (pretty i v @ CHR '','' # ?t @ ?tail) = Some (v, CHR '','' # ?t @ ?tail)"
      using 10(1) [OF v(1), of m "CHR '','' # ?t @ ?tail"] n by simp
    moreover have "json_members n (?t @ ?tail) = Some (ms, rest)"
      using 10(2) [OF v(2) False len(3)] n by simp
    ultimately show ?thesis using len(1) unfolding pretty_members.simps shape by (simp add: json_chars_escape del: json_value.simps)
  qed
qed

lemma parse_document: "wf_json j \<Longrightarrow> JSON_parse (document_text j) = Inr j"
  using parse_pretty_all(1) [of j 0 "Suc (length (pretty 0 j))" "[CHR 0x0A]"]
  by (simp add: JSON_parse_def document_text_def line_def skip_white_def white_def del: json_value.simps)

end
