(* ===== verification/Production_Run.thy ===== *)
theory Production_Run
  imports Approved_Proofs Batch Json_Pretty
begin

text \<open>
  The paid run over all approved sellers, \<open>scripts/prove-approved-batch.mjs\<close>: what is checked
  before anything is requested, the run configuration that later runs must agree with, the native preflight and
  the requests, each skipped when the seller's paid artifact is already there. What a run changes on disk is a
  state, which a run that fails leaves too; documents and digests it reads are a record, and the programs it
  starts are functions. Requests are taken in the order of the sellers.
\<close>

section \<open>Files\<close>

datatype found_file = NoFile | NotAFile | BadFile js_error | FileText string

definition file_text :: "found_file \<Rightarrow> string" where
  "file_text f = (case f of FileText s \<Rightarrow> s | _ \<Rightarrow> [])"

definition isNonemptyFile :: "found_file \<Rightarrow> bool res" where
  "isNonemptyFile f = (case f of NoFile \<Rightarrow> Inr False | NotAFile \<Rightarrow> Inr False | BadFile e \<Rightarrow> Inl e | FileText s \<Rightarrow> Inr (s \<noteq> []))"

section \<open>A paid artifact\<close>

definition paid_kind :: "json \<Rightarrow> bool" where
  "paid_kind artifact \<longleftrightarrow> mem artifact ''version'' = Some (JNum 3) \<and> mem artifact ''kind'' = Some (JStr ''antseed-wash-trading-seller-proof'')
     \<and> mem artifact ''proofArchitecture'' = Some (JStr ''direct-seller-v1'') \<and> mem artifact ''securityMode'' = Some (JStr ''production'')"

definition single_claim :: "json \<Rightarrow> bool" where
  "single_claim artifact \<longleftrightarrow> mem artifact ''claimCount'' = Some (JNum 1) \<and> mem artifact ''evidenceFormat'' = Some (JStr ''single-bundle-v1'')
     \<and> is_array (mem artifact ''sourceClaimIds'') \<and> length (elements (mem artifact ''sourceClaimIds'')) = 1"

definition paid_proof :: "json \<Rightarrow> bool" where
  "paid_proof artifact \<longleftrightarrow> mem artifact ''proved'' = Some (JBool True) \<and> mem artifact ''verified'' = Some (JBool True)
     \<and> positive_decimal (known_text (mem artifact ''totalSellerVolumeRaw''))
     \<and> byte_text (known_text (mem artifact ''publicValues'')) \<and> byte_text (known_text (mem artifact ''proofBytes''))
     \<and> mem artifact ''proofBytes'' \<noteq> Some (JStr ''0x'') \<and> present (mem artifact ''requestId'')"

definition in_period_of :: "json \<Rightarrow> json option \<Rightarrow> string \<Rightarrow> unit res" where
  "in_period_of artifact period message =
     res_bind (field period ''startBlock'') (\<lambda>startBlock.
     res_bind (require (same_value (mem artifact ''periodStartBlock'') startBlock) message) (\<lambda>_.
     res_bind (field period ''endBlockExclusive'') (\<lambda>endBlock.
     require (minus_one endBlock \<noteq> None \<and> mem artifact ''periodEndBlock'' = map_option JNum (minus_one endBlock)) message)))"

definition loadCurrentSellerProof :: "found_file \<Rightarrow> string \<Rightarrow> json option \<Rightarrow> nat \<Rightarrow> string \<Rightarrow> json option res" where
  "loadCurrentSellerProof f sl period claimCount sellerProgramVKey =
     (let stale = sl @ '': stale or invalid paid direct seller checkpoint'' in
      res_bind (isNonemptyFile f) (\<lambda>there. if \<not> there then Inr None else
      res_bind (JSON_parse (file_text f)) (\<lambda>artifact.
      res_bind (require (paid_kind artifact) stale) (\<lambda>_.
      res_bind (optional_lower (mem artifact ''seller'')) (\<lambda>proved.
      res_bind (require (proved = Some sl \<and> claimCount = 1 \<and> single_claim artifact) stale) (\<lambda>_.
      res_bind (in_period_of artifact period stale) (\<lambda>_.
      res_bind (optional_lower (mem artifact ''sellerProgramVKey'')) (\<lambda>key.
      res_bind (require (key = Some (toLowerCase sellerProgramVKey) \<and> paid_proof artifact) stale) (\<lambda>_.
      Inr (Some artifact))))))))))"

record seller_summary =
  ss_seller :: string
  ss_path :: string
  ss_claimCount :: "json option"
  ss_provenWashVolumeRaw :: "json option"
  ss_totalSellerVolumeRaw :: "json option"
  ss_blockReferenceCount :: "json option"
  ss_sha256 :: string

definition summarizeSellerProof :: "(string \<Rightarrow> string) \<Rightarrow> json \<Rightarrow> string \<Rightarrow> found_file \<Rightarrow> seller_summary res" where
  "summarizeSellerProof sha256 artifact path f =
     res_bind (lower_text (mem artifact ''seller'')) (\<lambda>sl.
     Inr \<lparr>ss_seller = sl, ss_path = path, ss_claimCount = mem artifact ''claimCount'',
       ss_provenWashVolumeRaw = mem artifact ''provenWashVolumeRaw'', ss_totalSellerVolumeRaw = mem artifact ''totalSellerVolumeRaw'',
       ss_blockReferenceCount = mem artifact ''blockReferenceCount'', ss_sha256 = sha256_text sha256 (file_text f)\<rparr>)"

section \<open>The run configuration\<close>

definition sameRunExceptQuoteDigest :: "json \<Rightarrow> json \<Rightarrow> bool" where
  "sameRunExceptQuoteDigest existing replacement \<longleftrightarrow>
     hex_text 64 (known_text (sub_mem existing ''sources'' ''quoteDigest'')) \<and> hex_text 64 (known_text (sub_mem replacement ''sources'' ''quoteDigest''))
   \<and> (let without = (\<lambda>j. obj_assign j [(''sources'', obj_delete (the (mem j ''sources'')) ''quoteDigest'')]) in
      canonicalJson (without existing) = canonicalJson (without replacement))"

text \<open>The file, written or kept.\<close>

definition writeStableRunConfig :: "found_file \<Rightarrow> json \<Rightarrow> bool \<Rightarrow> bool \<Rightarrow> string \<Rightarrow> found_file res" where
  "writeStableRunConfig f configuration allowReplace allowQuoteRotation path =
     (let serialized = document_text configuration; written = FileText serialized;
          replace = (if allowReplace then Inr written else Inl (Error (''run configuration differs from existing checkpoint '' @ path))) in
      res_bind (isNonemptyFile f) (\<lambda>there.
      if \<not> there then Inr written
      else if file_text f = serialized then Inr f
      else if allowQuoteRotation then
        res_bind (JSON_parse (file_text f)) (\<lambda>existing.
        if sameRunExceptQuoteDigest existing configuration then Inr written else replace)
      else replace))"

section \<open>Checks before the run\<close>

text \<open>The command line; \<open>sellerFlag\<close> is the value of \<open>--seller\<close>.\<close>

record production_args =
  sellerFlag :: "string option"
  sellerConcurrency :: int
  preflightOnly :: bool
  confirmed :: bool
  SP1_PROVER :: string
  NETWORK_PRIVATE_KEY :: string
  approvedDigest :: "string option"
  sellerElf :: string
  artifactDir :: string
  witnessDir :: string
  totalVolumeWitnessDir :: "string option"

definition scope :: "production_args \<Rightarrow> string option" where
  "scope args = map_option toLowerCase (sellerFlag args)"

record production_input =
  bundleText :: string
  costQuote :: cost_quote
  planSha256 :: string
  planChunks :: "string list"
  attestation :: json
  elfSha256 :: string
  attestationSha256 :: string
  witness_file :: "string \<Rightarrow> found_file"

definition check_args :: "production_args \<Rightarrow> unit res" where
  "check_args args =
     res_bind (require (preflightOnly args \<or> confirmed args) ''production proving requires --confirm-production-proving'') (\<lambda>_.
     res_bind (require (SP1_PROVER args = ''network'') ''production batch requires SP1_PROVER=network'') (\<lambda>_.
     res_bind (require (preflightOnly args \<or> NETWORK_PRIVATE_KEY args \<noteq> []) ''production batch requires NETWORK_PRIVATE_KEY'') (\<lambda>_.
     res_bind (require (case scope args of None \<Rightarrow> True | Some s \<Rightarrow> lower_hex_text 40 s) ''invalid --seller address'') (\<lambda>_.
     require (isSafeInteger (sellerConcurrency args) \<and> 1 \<le> sellerConcurrency args) ''--seller-concurrency must be a positive integer''))))"

definition validateBundle :: "json \<Rightarrow> unit res" where
  "validateBundle b = require (mem b ''version'' = Some (JNum 1) \<and> mem b ''kind'' = Some (JStr ''antseed-wash-trading-proof-bundle'')
     \<and> mem b ''chainId'' = Some (JNum 8453) \<and> is_array (mem b ''claims'') \<and> elements (mem b ''claims'') \<noteq> []) ''invalid approved proof bundle''"

definition key_count :: "json option \<Rightarrow> nat" where
  "key_count v = (case v of Some (JObj ms) \<Rightarrow> length ms | Some (JArr js) \<Rightarrow> length js | Some (JStr s) \<Rightarrow> length s | _ \<Rightarrow> 0)"

text \<open>The program's key and the digest of the ELF.\<close>

definition validateGuestAttestation :: "json \<Rightarrow> string \<Rightarrow> (string \<times> string) res" where
  "validateGuestAttestation attested elfDigest =
     res_bind (require (mem attested ''version'' = Some (JNum 4) \<and> mem attested ''kind'' = Some (JStr ''antseed-sp1-program-build-attestation'')
         \<and> mem attested ''sp1Version'' = Some (JStr ''6.1.0'') \<and> mem attested ''reproducible'' = Some (JBool True)
         \<and> key_count (mem attested ''guests'') = 1) ''invalid direct seller guest build attestation'') (\<lambda>_.
     let programVKey = Option.bind (sub_mem attested ''guests'' ''seller'') (\<lambda>g. mem g ''programVKey'');
         elf = Option.bind (sub_mem attested ''guests'' ''seller'') (\<lambda>g. mem g ''elfSha256'') in
     res_bind (require (hex_text 64 (known_text programVKey) \<and> hex_text 64 (known_text elf)) ''seller: invalid guest attestation entry'') (\<lambda>_.
     res_bind (require (elf = Some (JStr elfDigest)) ''seller: ELF digest differs from reproducible attestation'') (\<lambda>_.
     res_bind (lower_text programVKey) (\<lambda>key. Inr (key, elfDigest)))))"

definition approved_sellers :: "json \<Rightarrow> string list res" where
  "approved_sellers b = res_bind (res_map lower_subjects (claims_of b)) (\<lambda>subs. Inr (sort_strings (js_set (concat subs))))"

definition batch_entry :: "(string \<times> json) list \<Rightarrow> string \<Rightarrow> nat \<times> shard_entry \<Rightarrow> (string \<times> json) res" where
  "batch_entry claimById directory ie = (case ie of (index, e) \<Rightarrow>
     (case map_of claimById (toLowerCase (entry_claimId e)) of
        None \<Rightarrow> Inl (Error (entry_claimId e @ '': missing approved claim''))
      | Some approved \<Rightarrow> Inr (str_of (mem approved ''claimId''), JObj [(''claim'', approved),
          (''kind'', JStr (if mem approved ''type'' = Some (JStr ''P0_RECIPROCAL'') then ''reciprocal'' else ''closed-loop'')),
          (''witnessPath'', JStr (directory @ CHR ''/'' # claim_file_name index (str_of (mem approved ''claimId'')) ''.witness.json''))])))"

definition check_witness_file :: "(string \<Rightarrow> found_file) \<Rightarrow> string \<times> json \<Rightarrow> unit \<Rightarrow> unit res" where
  "check_witness_file files entry u = (case entry of (i, e) \<Rightarrow>
     res_bind (isNonemptyFile (files (str_of (mem e ''witnessPath'')))) (\<lambda>there.
     require there (i @ '': validated witness is missing at '' @ str_of (mem e ''witnessPath''))))"

definition evidence_claim :: "(string \<times> json) list \<Rightarrow> string \<Rightarrow> string" where
  "evidence_claim evidenceBySeller sl = str_of (Option.bind (map_of evidenceBySeller sl) (\<lambda>e. sub_mem e ''claim'' ''claimId''))"

text \<open>What the checks have established.\<close>

record prepared_run =
  run_bundle :: json
  run_sellers :: "string list"
  run_evidence :: "(string \<times> json) list"
  run_plan :: sharded_plan
  run_programVKey :: string
  run_quote :: cost_quote
  run_config :: json

definition run_config_json ::
  "(string \<Rightarrow> string) \<Rightarrow> production_input \<Rightarrow> production_args \<Rightarrow> string list \<Rightarrow> (string \<times> json) list \<Rightarrow> string \<times> string \<Rightarrow> cost_quote \<Rightarrow> json" where
  "run_config_json sha256 inp args sellers evidenceBySeller guest quote' =
     JObj (known_members [(''version'', Some (JNum 2)), (''kind'', Some (JStr ''antseed-wash-trading-production-run'')),
       (''proofArchitecture'', Some (JStr ''direct-seller-v1'')), (''scope'', Some (JObj [(''seller'', json_opt JStr (scope args))])),
       (''sellers'', Some (JArr (map JStr sellers))),
       (''claimCount'', Some (JNum (int (length (js_set (map (evidence_claim evidenceBySeller) sellers)))))),
       (''sources'', Some (JObj (known_members [(''proofBundleSha256'', Some (JStr (sha256_text sha256 (bundleText inp)))),
          (''proofPlanSha256'', Some (JStr (planSha256 inp))), (''guestAttestationSha256'', Some (JStr (attestationSha256 inp))),
          (''sellerElfSha256'', Some (JStr (snd guest))), (''quoteDigest'', map_option JStr (quote_digest quote'))]))),
       (''sellerProgramVKey'', Some (JStr (fst guest))), (''networkLimits'', mem (body_json (quote_body quote')) ''networkLimits'')])"

definition select_sellers :: "production_args \<Rightarrow> string list \<Rightarrow> string list res" where
  "select_sellers args allSellers = (case scope args of None \<Rightarrow> Inr allSellers
     | Some s \<Rightarrow> res_bind (require (s \<in> set allSellers) (s @ '': seller is not approved'')) (\<lambda>_. Inr [s]))"

definition check_sources :: "(string \<Rightarrow> string) \<Rightarrow> production_input \<Rightarrow> json \<Rightarrow> cost_quote \<Rightarrow> unit res" where
  "check_sources sha256 inp b quote' = require (quotedPlanSha256 (quote_body quote') = planSha256 inp
     \<and> quotedBundleSha256 (quote_body quote') = sha256_text sha256 (canonicalJson b))
     ''approved quote source digests do not match the requested bundle and plan''"

text \<open>The evidence of every seller, once every witness of the plan is there.\<close>

definition run_evidence_of ::
  "production_input \<Rightarrow> production_args \<Rightarrow> json \<Rightarrow> (string \<times> json) list \<Rightarrow> (string \<times> string list) list \<Rightarrow> sharded_plan \<Rightarrow> (string \<times> json) list res" where
  "run_evidence_of inp args b claimById rows indexedPlan =
     res_bind (res_map (batch_entry claimById (witnessDir args)) (enumerate 0 (sp_entries indexedPlan))) (\<lambda>found.
     res_bind (res_fold (check_witness_file (witness_file inp)) found ()) (\<lambda>_.
     sellerEvidenceByAddress rows found))"

definition production_checks ::
  "(string \<Rightarrow> string) \<Rightarrow> (string \<Rightarrow> int option) \<Rightarrow> int \<Rightarrow> production_input \<Rightarrow> production_args \<Rightarrow> prepared_run res" where
  "production_checks sha256 parse_date now inp args =
     res_bind (check_args args) (\<lambda>_.
     res_bind (JSON_parse (bundleText inp)) (\<lambda>b.
     res_bind (validateBundle b) (\<lambda>_.
     res_bind (claim_rows b) (\<lambda>rows.
     res_bind (sellerEvidenceByAddress rows (map (\<lambda>(i, _). (i, ())) rows)) (\<lambda>_.
     res_bind (claims_by_id b) (\<lambda>claimById.
     res_bind (approved_sellers b) (\<lambda>allSellers.
     res_bind (select_sellers args allSellers) (\<lambda>sellers.
     res_bind (approveCostQuote sha256 parse_date (costQuote inp) (approvedDigest args) (int (length sellers)) (scope args) now) (\<lambda>quote'.
     res_bind (check_sources sha256 inp b quote') (\<lambda>_.
     res_bind (validateGuestAttestation (attestation inp) (elfSha256 inp)) (\<lambda>guest.
     res_bind (shardProofPlan b (planChunks inp)) (\<lambda>indexedPlan.
     res_bind (run_evidence_of inp args b claimById rows indexedPlan) (\<lambda>evidenceBySeller.
     Inr \<lparr>run_bundle = b, run_sellers = sellers, run_evidence = evidenceBySeller, run_plan = indexedPlan,
       run_programVKey = fst guest, run_quote = quote',
       run_config = run_config_json sha256 inp args sellers evidenceBySeller guest quote'\<rparr>)))))))))))))"

section \<open>The native preflight\<close>

type_synonym command = "string list"

definition evidence_text :: "json \<Rightarrow> string" where
  "evidence_text e = text_of (mem e ''kind'') @ CHR '':'' # text_of (mem e ''witnessPath'')"

definition seller_file :: "string \<Rightarrow> string \<Rightarrow> string" where
  "seller_file directory sl = directory @ CHR ''/'' # sl @ ''.json''"

definition volume_args :: "string option \<Rightarrow> string \<Rightarrow> command" where
  "volume_args directory sl = (case directory of None \<Rightarrow> [] | Some [] \<Rightarrow> []
     | Some d \<Rightarrow> [''--total-volume-witness'', seller_file d sl])"

definition preflight_artifact :: "json \<Rightarrow> string \<Rightarrow> json option \<Rightarrow> unit res" where
  "preflight_artifact artifact sl period =
     (let invalid = ''invalid native seller preflight artifact'' in
      res_bind (require (mem artifact ''kind'' = Some (JStr ''antseed-wash-trading-seller-witness'') \<and> mem artifact ''verified'' = Some (JBool True)
          \<and> mem artifact ''proverNetworkSubmitted'' = Some (JBool False)) invalid) (\<lambda>_.
      res_bind (optional_lower (mem artifact ''seller'')) (\<lambda>s.
      res_bind (require (s = Some sl) invalid) (\<lambda>_.
      res_bind (in_period_of artifact period invalid) (\<lambda>_.
      require (single_claim artifact \<and> positive_decimal (known_text (mem artifact ''totalSellerVolumeRaw''))) invalid)))))"

record preflight_result =
  pr_seller :: string
  pr_provenWashVolumeRaw :: "json option"
  pr_totalSellerVolumeRaw :: "json option"

record preflight_summary =
  passed :: "preflight_result list"
  failures :: "(string \<times> string) list"

text \<open>\<open>runVerifier\<close> with what is then read from the output file.\<close>

definition preflight_one ::
  "(command \<Rightarrow> string res) \<Rightarrow> (string \<times> json) list \<Rightarrow> json option \<Rightarrow> string \<Rightarrow> string option \<Rightarrow> string \<Rightarrow> preflight_result res" where
  "preflight_one runVerifier evidenceBySeller period directory volumeDir sl =
     res_bind (runVerifier ([''--witness-only'', ''--seller'', sl, ''--output'', seller_file directory sl] @ volume_args volumeDir sl
       @ [''--evidence'', evidence_text (the (map_of evidenceBySeller sl))])) (\<lambda>t.
     res_bind (JSON_parse t) (\<lambda>artifact.
     res_bind (preflight_artifact artifact sl period) (\<lambda>_.
     Inr \<lparr>pr_seller = sl, pr_provenWashVolumeRaw = mem artifact ''provenWashVolumeRaw'',
       pr_totalSellerVolumeRaw = mem artifact ''totalSellerVolumeRaw''\<rparr>)))"

definition preflight_step :: "(string \<Rightarrow> preflight_result res) \<Rightarrow> string \<Rightarrow> preflight_summary \<Rightarrow> preflight_summary" where
  "preflight_step run_one sl s = (case run_one sl of Inr r \<Rightarrow> s\<lparr>passed := passed s @ [r]\<rparr>
     | Inl e \<Rightarrow> s\<lparr>failures := failures s @ [(sl, error_message e)]\<rparr>)"

text \<open>The summary is written whether the preflight succeeds or not.\<close>

definition preflightSellerInputs ::
  "(command \<Rightarrow> string res) \<Rightarrow> string list \<Rightarrow> (string \<times> json) list \<Rightarrow> json option \<Rightarrow> string \<Rightarrow> string option \<Rightarrow> (preflight_summary \<times> unit res) res" where
  "preflightSellerInputs runVerifier sellers evidenceBySeller period directory volumeDir =
     res_bind (res_map (\<lambda>sl. singleEvidenceEntry (map_of evidenceBySeller sl) sl) sellers) (\<lambda>_.
     let s = fold (preflight_step (preflight_one runVerifier evidenceBySeller period directory volumeDir)) sellers \<lparr>passed = [], failures = []\<rparr> in
     Inr (s, require (failures s = []) (show_nat (length (failures s))
       @ '' seller inputs failed native preflight; no paid requests submitted: '' @ js_join '', '' (map fst (failures s)))))"

section \<open>The paid requests\<close>

text \<open>The disk: artifact by seller, configuration by scope, and a ghost list of requests, with whether an artifact was left.\<close>

record paid_state =
  artifacts :: "string \<Rightarrow> found_file"
  configs :: "string \<Rightarrow> found_file"
  requests :: "(string \<times> bool) list"

text \<open>How a run of the prover ends, and the text it leaves in the output file, if any.\<close>

record prover_outcome =
  exit_result :: "unit res"
  left_text :: "string option"

record production_tools =
  build_prover :: "unit res"
  run_verifier :: "command \<Rightarrow> string res"
  run_paid :: "nat \<Rightarrow> command \<Rightarrow> prover_outcome"

definition network_args :: "cost_quote \<Rightarrow> command" where
  "network_args quote' = [''--production'', ''--confirm-production'',
     ''--max-price-per-pgu-wei'', js_String (maxPricePerPguWei (quote_body quote')),
     ''--proof-timeout-secs'', js_String (map_option show_int (proofTimeoutSeconds (quote_body quote'))),
     ''--auction-timeout-secs'', js_String (map_option show_int (auctionTimeoutSeconds (quote_body quote')))]"

definition paid_command :: "production_args \<Rightarrow> prepared_run \<Rightarrow> string \<Rightarrow> command" where
  "paid_command args p sl = network_args (run_quote p) @ [''--seller'', sl, ''--seller-elf'', sellerElf args,
     ''--output'', seller_file (artifactDir args @ ''/sellers'') sl,
     ''--seller-witness'', seller_file (artifactDir args @ ''/seller-witnesses'') sl,
     ''--request-checkpoint'', artifactDir args @ ''/sellers/'' @ sl @ ''.request.json'']
     @ volume_args (totalVolumeWitnessDir args) sl @ [''--evidence'', evidence_text (the (map_of (run_evidence p) sl))]"

definition leaves_file :: "prover_outcome \<Rightarrow> bool" where
  "leaves_file outcome \<longleftrightarrow> left_text outcome \<noteq> None \<and> left_text outcome \<noteq> Some []"

definition request_paid :: "production_tools \<Rightarrow> production_args \<Rightarrow> prepared_run \<Rightarrow> string \<Rightarrow> paid_state \<Rightarrow> paid_state \<times> unit res" where
  "request_paid tools args p sl st =
     (let outcome = run_paid tools (length (requests st)) (paid_command args p sl) in
      (st\<lparr>requests := requests st @ [(sl, leaves_file outcome)],
          artifacts := (case left_text outcome of None \<Rightarrow> artifacts st | Some t \<Rightarrow> (artifacts st)(sl := FileText t))\<rparr>,
       exit_result outcome))"

definition current_proof :: "prepared_run \<Rightarrow> string \<Rightarrow> paid_state \<Rightarrow> json option res" where
  "current_proof p sl st = loadCurrentSellerProof (artifacts st sl) sl (mem (run_bundle p) ''period'') 1 (run_programVKey p)"

definition summarize_current :: "(string \<Rightarrow> string) \<Rightarrow> production_args \<Rightarrow> string \<Rightarrow> paid_state \<Rightarrow> json \<Rightarrow> seller_summary res" where
  "summarize_current sha256 args sl st artifact =
     summarizeSellerProof sha256 artifact (seller_file (artifactDir args @ ''/sellers'') sl) (artifacts st sl)"

definition prove_paid ::
  "(string \<Rightarrow> string) \<Rightarrow> production_tools \<Rightarrow> production_args \<Rightarrow> prepared_run \<Rightarrow> string \<Rightarrow> paid_state \<Rightarrow> paid_state \<times> seller_summary res" where
  "prove_paid sha256 tools args p sl st = (case current_proof p sl st of
     Inl e \<Rightarrow> (st, Inl e)
   | Inr (Some existing) \<Rightarrow> (st, summarize_current sha256 args sl st existing)
   | Inr None \<Rightarrow> (case request_paid tools args p sl st of
       (st', Inl e) \<Rightarrow> (st', Inl e)
     | (st', Inr _) \<Rightarrow> (st', res_bind (current_proof p sl st') (\<lambda>found.
         case found of None \<Rightarrow> Inl (Error (sl @ '': paid direct seller artifact failed validation''))
         | Some artifact \<Rightarrow> summarize_current sha256 args sl st' artifact))))"

fun paid_loop :: "(string \<Rightarrow> paid_state \<Rightarrow> paid_state \<times> 'a res) \<Rightarrow> string list \<Rightarrow> paid_state \<Rightarrow> paid_state \<times> 'a list res" where
  "paid_loop f [] st = (st, Inr [])"
| "paid_loop f (sl # sls) st = (case f sl st of
     (st', Inl e) \<Rightarrow> (st', Inl e)
   | (st', Inr r) \<Rightarrow> (case paid_loop f sls st' of (st'', rs) \<Rightarrow> (st'', res_bind rs (\<lambda>rs. Inr (r # rs)))))"

section \<open>The run\<close>

record production_summary =
  quoteDigestOf :: "string option"
  production_total :: int
  production_proven :: int
  production_approved :: int
  production_proofs :: "seller_summary list"

definition sum_volumes :: "(seller_summary \<Rightarrow> json option) \<Rightarrow> seller_summary list \<Rightarrow> int res" where
  "sum_volumes volume proofs = res_fold (\<lambda>s t. res_bind (big_int (volume s)) (\<lambda>v. Inr (t + v))) proofs 0"

definition finish_run :: "production_args \<Rightarrow> prepared_run \<Rightarrow> seller_summary list \<Rightarrow> production_summary res" where
  "finish_run args p proofs =
     (let approved = uniqueSettlementVolumeRaw (sp_approved (run_plan p)) in
      res_bind (sum_volumes ss_provenWashVolumeRaw proofs) (\<lambda>proven.
      res_bind (require (scope args \<noteq> None \<or> proven = approved)
        (''direct seller total '' @ show_int proven @ '' differs from approved '' @ show_int approved)) (\<lambda>_.
      res_bind (sum_volumes ss_totalSellerVolumeRaw proofs) (\<lambda>t.
      Inr \<lparr>quoteDigestOf = quote_digest (run_quote p), production_total = t, production_proven = proven,
        production_approved = approved, production_proofs = proofs\<rparr>))))"

definition scope_name :: "production_args \<Rightarrow> string" where
  "scope_name args = (case scope args of None \<Rightarrow> ''full'' | Some s \<Rightarrow> s)"

text \<open>The preflight of a run; a preflight without the requests ends with no summary.\<close>

definition run_preflight :: "production_tools \<Rightarrow> production_args \<Rightarrow> prepared_run \<Rightarrow> unit res" where
  "run_preflight tools args p =
     res_bind (build_prover tools) (\<lambda>_.
     res_bind (preflightSellerInputs (run_verifier tools) (run_sellers p) (run_evidence p) (mem (run_bundle p) ''period'')
       (artifactDir args @ ''/native-preflight'') (totalVolumeWitnessDir args)) snd)"

definition run_requests ::
  "(string \<Rightarrow> string) \<Rightarrow> production_tools \<Rightarrow> production_args \<Rightarrow> prepared_run \<Rightarrow> paid_state \<Rightarrow> paid_state \<times> production_summary option res" where
  "run_requests sha256 tools args p st = (case paid_loop (prove_paid sha256 tools args p) (run_sellers p) st of
     (st', rs) \<Rightarrow> (st', res_bind rs (\<lambda>proofs. res_bind (finish_run args p proofs) (\<lambda>s. Inr (Some s)))))"

definition production_run ::
  "(string \<Rightarrow> string) \<Rightarrow> (string \<Rightarrow> int option) \<Rightarrow> int \<Rightarrow> production_tools \<Rightarrow> production_input \<Rightarrow> production_args \<Rightarrow> paid_state
    \<Rightarrow> paid_state \<times> production_summary option res" where
  "production_run sha256 parse_date now tools inp args st =
     (case production_checks sha256 parse_date now inp args of Inl e \<Rightarrow> (st, Inl e)
      | Inr p \<Rightarrow> (case writeStableRunConfig (configs st (scope_name args)) (run_config p) (preflightOnly args) (\<not> preflightOnly args)
          (artifactDir args @ ''/runs/'' @ scope_name args @ ''.json'') of
          Inl e \<Rightarrow> (st, Inl e)
        | Inr f \<Rightarrow>
            let st1 = st\<lparr>configs := (configs st)(scope_name args := f)\<rparr> in
            (case run_preflight tools args p of Inl e \<Rightarrow> (st1, Inl e)
             | Inr _ \<Rightarrow> if preflightOnly args then (st1, Inr None) else run_requests sha256 tools args p st1)))"


section \<open>What a run changes\<close>

text \<open>A file that is there is never requested again: it stays, and with it the number of requests that left it.\<close>

definition paid_file :: "found_file \<Rightarrow> bool" where
  "paid_file f \<longleftrightarrow> isNonemptyFile f = Inr True"

definition paid_once :: "paid_state \<Rightarrow> bool" where
  "paid_once st \<longleftrightarrow> (\<forall>sl. length (filter ((=) (sl, True)) (requests st)) \<le> 1
     \<and> ((sl, True) \<in> set (requests st) \<longrightarrow> paid_file (artifacts st sl)))"

text \<open>From one state to a later one: paid files stay, and only sellers without one have been requested.\<close>

definition keeps_paid :: "paid_state \<Rightarrow> paid_state \<Rightarrow> bool" where
  "keeps_paid st st' \<longleftrightarrow> (\<forall>sl. paid_file (artifacts st sl) \<longrightarrow> artifacts st' sl = artifacts st sl)
     \<and> (\<exists>new. requests st' = requests st @ new \<and> (\<forall>sl\<in>fst ` set new. \<not> paid_file (artifacts st sl)))"

lemma keeps_paid_refl [simp]: "keeps_paid st st"
  by (simp add: keeps_paid_def)

lemma keeps_paid_trans:
  assumes "keeps_paid st mid" and "keeps_paid mid st'"
  shows "keeps_paid st st'"
proof -
  obtain new where new: "requests mid = requests st @ new" "\<forall>sl\<in>fst ` set new. \<not> paid_file (artifacts st sl)"
    using assms(1) by (auto simp: keeps_paid_def)
  obtain more where more: "requests st' = requests mid @ more" "\<forall>sl\<in>fst ` set more. \<not> paid_file (artifacts mid sl)"
    using assms(2) by (auto simp: keeps_paid_def)
  have "\<forall>sl\<in>fst ` set (new @ more). \<not> paid_file (artifacts st sl)"
    using new(2) more(2) assms(1) by (auto simp: keeps_paid_def)
  then show ?thesis using assms new(1) more(1) unfolding keeps_paid_def by (metis append.assoc)
qed

lemma keeps_paid_configs [simp]:
  "keeps_paid (st\<lparr>configs := c\<rparr>) st' \<longleftrightarrow> keeps_paid st st'" "paid_once (st\<lparr>configs := c\<rparr>) \<longleftrightarrow> paid_once st"
  by (simp_all add: keeps_paid_def paid_once_def)

lemma loaded_none: "loadCurrentSellerProof f sl period n key = Inr None \<Longrightarrow> \<not> paid_file f"
  by (auto simp: loadCurrentSellerProof_def Let_def res_bind_Inr paid_file_def split: if_splits)

lemma request_paid_keeps:
  assumes "\<not> paid_file (artifacts st sl)" and "request_paid tools args p sl st = (st', r)"
  shows "keeps_paid st st' \<and> (paid_once st \<longrightarrow> paid_once st')
     \<and> (\<exists>left. requests st' = requests st @ [(sl, left)] \<and> (left \<longrightarrow> paid_file (artifacts st' sl)))"
proof -
  define outcome where "outcome = run_paid tools (length (requests st)) (paid_command args p sl)"
  have st': "requests st' = requests st @ [(sl, leaves_file outcome)]"
      "artifacts st' = (case left_text outcome of None \<Rightarrow> artifacts st | Some t \<Rightarrow> (artifacts st)(sl := FileText t))"
    using assms(2) by (auto simp: request_paid_def Let_def outcome_def)
  have there: "leaves_file outcome \<longrightarrow> paid_file (artifacts st' sl)"
    by (auto simp: st' leaves_file_def paid_file_def isNonemptyFile_def)
  have others: "artifacts st' s = artifacts st s" if "s \<noteq> sl" for s
    using that by (auto simp: st' split: option.split)
  have "artifacts st' s = artifacts st s" if "paid_file (artifacts st s)" for s
    using that others assms(1) by (cases "s = sl") auto
  then have keeps: "keeps_paid st st'" using assms(1) st'(1) by (simp add: keeps_paid_def)
  have "paid_once st'" if once: "paid_once st"
    unfolding paid_once_def
  proof (intro allI conjI impI)
    fix s
    have fresh: "(sl, True) \<notin> set (requests st)" using once assms(1) by (auto simp: paid_once_def)
    then have "filter ((=) (sl, True)) (requests st) = []" by (auto simp: filter_empty_conv)
    then show "length (filter ((=) (s, True)) (requests st')) \<le> 1"
      using once by (cases "s = sl") (auto simp: st' paid_once_def)
    assume "(s, True) \<in> set (requests st')"
    then show "paid_file (artifacts st' s)"
      using there others once fresh by (cases "s = sl") (auto simp: st'(1) paid_once_def)
  qed
  then show ?thesis using keeps there st'(1) by blast
qed

lemma prove_paid_keeps:
  assumes "prove_paid sha256 tools args p sl st = (st', r)"
  shows "keeps_paid st st' \<and> (paid_once st \<longrightarrow> paid_once st')
     \<and> (\<exists>new. requests st' = requests st @ new \<and> set (map fst new) \<subseteq> {sl} \<and> distinct (map fst new))"
proof (cases "current_proof p sl st")
  case (Inr found)
  show ?thesis
  proof (cases found)
    case None
    obtain st'' u where run: "request_paid tools args p sl st = (st'', u)" by fastforce
    have st'': "st' = st''" using assms Inr None run by (auto simp: prove_paid_def split: sum.splits)
    have "\<not> paid_file (artifacts st sl)" using Inr None loaded_none by (auto simp: current_proof_def)
    from request_paid_keeps [OF this run] show ?thesis unfolding st'' by fastforce
  qed (use assms Inr in \<open>simp add: prove_paid_def\<close>)
qed (use assms in \<open>simp add: prove_paid_def\<close>)

lemma paid_loop_keeps:
  assumes "paid_loop (prove_paid sha256 tools args p) sls st = (st', rs)" and "distinct sls"
  shows "keeps_paid st st' \<and> (paid_once st \<longrightarrow> paid_once st')
     \<and> (\<exists>new. requests st' = requests st @ new \<and> set (map fst new) \<subseteq> set sls \<and> distinct (map fst new))"
  using assms
proof (induction sls arbitrary: st rs)
  case (Cons sl sls)
  obtain mid r where mid: "prove_paid sha256 tools args p sl st = (mid, r)" by fastforce
  note one = prove_paid_keeps [OF mid]
  show ?case
  proof (cases r)
    case (Inl e)
    then have "st' = mid" using Cons.prems(1) mid by simp
    moreover obtain new where "requests mid = requests st @ new" "set (map fst new) \<subseteq> {sl}" "distinct (map fst new)" using one by blast
    ultimately show ?thesis using one by (intro conjI exI [of _ new]) auto
  next
    case (Inr x)
    obtain rs' where rest: "paid_loop (prove_paid sha256 tools args p) sls mid = (st', rs')"
      using Cons.prems(1) mid Inr by (auto split: prod.splits)
    have tail: "keeps_paid mid st'" "paid_once mid \<longrightarrow> paid_once st'" using Cons.IH [OF rest] Cons.prems(2) by simp_all
    obtain new where new: "requests mid = requests st @ new" "set (map fst new) \<subseteq> {sl}" "distinct (map fst new)" using one by blast
    obtain more where more: "requests st' = requests mid @ more" "set (map fst more) \<subseteq> set sls" "distinct (map fst more)"
      using Cons.IH [OF rest] Cons.prems(2) by auto
    have "set (map fst new) \<inter> set (map fst more) = {}" using new(2) more(2) Cons.prems(2) by auto
    then have "distinct (map fst (new @ more))" "set (map fst (new @ more)) \<subseteq> set (sl # sls)" using new more by auto
    then have "\<exists>new. requests st' = requests st @ new \<and> set (map fst new) \<subseteq> set (sl # sls) \<and> distinct (map fst new)"
      using new(1) more(1) by (intro exI [of _ "new @ more"]) simp
    then show ?thesis using one tail keeps_paid_trans by blast
  qed
qed simp

lemma selected_sellers_distinct:
  assumes "production_checks sha256 parse_date now inp args = Inr p"
  shows "distinct (run_sellers p)"
proof -
  from assms obtain allSellers where all: "approved_sellers (run_bundle p) = Inr allSellers" "select_sellers args allSellers = Inr (run_sellers p)"
    unfolding production_checks_def res_bind_Inr by fastforce
  have "distinct allSellers" using all(1) by (auto simp: approved_sellers_def res_bind_Inr sort_strings_def)
  then show ?thesis using all(2) by (auto simp: select_sellers_def res_bind_Inr dest: sym split: option.splits)
qed

text \<open>The four ways a run can end.\<close>

lemma production_run_cases:
  assumes "production_run sha256 parse_date now tools inp args st = (st', r)"
  obtains (refused) e where "r = Inl e" "requests st' = requests st" "artifacts st' = artifacts st"
  | (preflight) p where "production_checks sha256 parse_date now inp args = Inr p" "preflightOnly args"
      "run_preflight tools args p = Inr ()" "r = Inr None" "requests st' = requests st" "artifacts st' = artifacts st"
  | (paid) p f where "production_checks sha256 parse_date now inp args = Inr p" "\<not> preflightOnly args"
      "run_preflight tools args p = Inr ()"
      "writeStableRunConfig (configs st (scope_name args)) (run_config p) False True (artifactDir args @ ''/runs/'' @ scope_name args @ ''.json'') = Inr f"
      "run_requests sha256 tools args p (st\<lparr>configs := (configs st)(scope_name args := f)\<rparr>) = (st', r)"
  using assms
  by (auto simp: production_run_def Let_def split: sum.splits if_splits)

lemma run_requests_keeps:
  assumes "run_requests sha256 tools args p st = (st', r)" and "distinct (run_sellers p)"
  shows "keeps_paid st st' \<and> (paid_once st \<longrightarrow> paid_once st')
     \<and> (\<exists>new. requests st' = requests st @ new \<and> set (map fst new) \<subseteq> set (run_sellers p) \<and> distinct (map fst new))"
proof -
  obtain rs where "paid_loop (prove_paid sha256 tools args p) (run_sellers p) st = (st', rs)"
    using assms(1) by (auto simp: run_requests_def split: prod.splits)
  from paid_loop_keeps [OF this assms(2)] show ?thesis .
qed

lemma unchanged_keeps:
  assumes "requests st' = requests st" "artifacts st' = artifacts st"
  shows "keeps_paid st st'" "paid_once st \<Longrightarrow> paid_once st'"
  using assms by (simp_all add: keeps_paid_def paid_once_def)

lemma production_run_keeps:
  assumes "production_run sha256 parse_date now tools inp args st = (st', r)"
  shows "keeps_paid st st' \<and> (paid_once st \<longrightarrow> paid_once st')"
  using assms
proof (cases rule: production_run_cases)
  case (paid p f)
  from run_requests_keeps [OF paid(5) selected_sellers_distinct [OF paid(1)]] show ?thesis by simp
qed (use unchanged_keeps in blast)+

text \<open>Any number of runs on one artifact directory, with any arguments, inputs, clocks and provers.\<close>

inductive production_runs :: "(string \<Rightarrow> string) \<Rightarrow> (string \<Rightarrow> int option) \<Rightarrow> paid_state \<Rightarrow> paid_state \<Rightarrow> bool" for sha256 parse_date where
  no_run: "production_runs sha256 parse_date st st"
| one_more: "production_runs sha256 parse_date st st' \<Longrightarrow> production_run sha256 parse_date now tools inp args st' = (st'', r)
     \<Longrightarrow> production_runs sha256 parse_date st st''"

lemma production_runs_keep:
  "production_runs sha256 parse_date st st' \<Longrightarrow> keeps_paid st st' \<and> (paid_once st \<longrightarrow> paid_once st')"
  by (induction rule: production_runs.induct) (auto dest: production_run_keeps intro: keeps_paid_trans)

text \<open>C31: However often the paid run is started on one artifact directory, with whatever arguments and inputs, and
  however the prover, a check or the preflight fails on the way, no seller's proof is paid for twice: at most one
  request per seller leaves an artifact, that artifact is still there afterwards, and a seller who had a
  file before is not requested and keeps it unchanged.\<close>

theorem no_seller_paid_twice:
  assumes "production_runs sha256 parse_date st st'" and "requests st = []"
  shows "length (filter ((=) (sl, True)) (requests st')) \<le> 1
     \<and> ((sl, True) \<in> set (requests st') \<longrightarrow> paid_file (artifacts st' sl))
     \<and> (paid_file (artifacts st sl) \<longrightarrow> artifacts st' sl = artifacts st sl \<and> sl \<notin> fst ` set (requests st'))"
proof -
  have "paid_once st" using assms(2) by (simp add: paid_once_def)
  then have "paid_once st'" "keeps_paid st st'" using production_runs_keep [OF assms(1)] by simp_all
  then show ?thesis using assms(2) by (auto simp: paid_once_def keeps_paid_def)
qed


section \<open>What a request needs\<close>

lemma production_checks_Inr:
  assumes "production_checks sha256 parse_date now inp args = Inr p"
  shows "check_args args = Inr () \<and> JSON_parse (bundleText inp) = Inr (run_bundle p)
     \<and> (\<exists>allSellers. approved_sellers (run_bundle p) = Inr allSellers \<and> select_sellers args allSellers = Inr (run_sellers p))
     \<and> approveCostQuote sha256 parse_date (costQuote inp) (approvedDigest args) (int (length (run_sellers p))) (scope args) now = Inr (run_quote p)
     \<and> check_sources sha256 inp (run_bundle p) (run_quote p) = Inr ()
     \<and> validateGuestAttestation (attestation inp) (elfSha256 inp) = Inr (run_programVKey p, elfSha256 inp)
     \<and> shardProofPlan (run_bundle p) (planChunks inp) = Inr (run_plan p)"
proof -
  from assms obtain b rows u w claimById allSellers sellers quote' x guest indexedPlan evidenceBySeller y
    where "check_args args = Inr u" "JSON_parse (bundleText inp) = Inr b" "validateBundle b = Inr w"
      and sellers: "approved_sellers b = Inr allSellers" "select_sellers args allSellers = Inr sellers"
      and "approveCostQuote sha256 parse_date (costQuote inp) (approvedDigest args) (int (length sellers)) (scope args) now = Inr quote'"
      and "check_sources sha256 inp b quote' = Inr x"
      and guest: "validateGuestAttestation (attestation inp) (elfSha256 inp) = Inr guest"
      and "shardProofPlan b (planChunks inp) = Inr indexedPlan"
      and p: "p = \<lparr>run_bundle = b, run_sellers = sellers, run_evidence = evidenceBySeller, run_plan = indexedPlan,
        run_programVKey = fst guest, run_quote = quote', run_config = run_config_json sha256 inp args sellers evidenceBySeller guest quote'\<rparr>"
    unfolding production_checks_def res_bind_Inr by blast
  moreover have "snd guest = elfSha256 inp"
    using guest by (auto simp: validateGuestAttestation_def Let_def res_bind_Inr)
  then have "guest = (fst guest, elfSha256 inp)" by (metis prod.collapse)
  ultimately show ?thesis by auto
qed

lemma fold_preflight_failures: "failures s \<noteq> [] \<Longrightarrow> failures (fold (preflight_step run_one) sls s) \<noteq> []"
  by (induction sls arbitrary: s) (auto simp: preflight_step_def split: sum.splits)

lemma fold_preflight_passes:
  "failures (fold (preflight_step run_one) sls s) = [] \<Longrightarrow> sl \<in> set sls \<Longrightarrow> \<exists>r. run_one sl = Inr r"
proof (induction sls arbitrary: s)
  case (Cons x sls)
  have "failures (preflight_step run_one x s) = []" using Cons.prems(1) fold_preflight_failures by fastforce
  then have "\<exists>r. run_one x = Inr r" by (auto simp: preflight_step_def split: sum.splits)
  then show ?case using Cons by auto
qed simp

lemma run_preflight_passes:
  assumes "run_preflight tools args p = Inr ()" and "sl \<in> set (run_sellers p)"
  shows "\<exists>r. preflight_one (run_verifier tools) (run_evidence p) (mem (run_bundle p) ''period'') (artifactDir args @ ''/native-preflight'')
     (totalVolumeWitnessDir args) sl = Inr r"
proof -
  from assms(1) have "failures (fold (preflight_step (preflight_one (run_verifier tools) (run_evidence p) (mem (run_bundle p) ''period'')
      (artifactDir args @ ''/native-preflight'') (totalVolumeWitnessDir args))) (run_sellers p) \<lparr>passed = [], failures = []\<rparr>) = []"
    by (auto simp: run_preflight_def preflightSellerInputs_def Let_def res_bind_Inr)
  from fold_preflight_passes [OF this assms(2)] show ?thesis .
qed

text \<open>Everything that has been checked before the first request of a run.\<close>

definition cleared ::
  "(string \<Rightarrow> string) \<Rightarrow> (string \<Rightarrow> int option) \<Rightarrow> int \<Rightarrow> production_tools \<Rightarrow> production_input \<Rightarrow> production_args \<Rightarrow> prepared_run \<Rightarrow> bool" where
  "cleared sha256 parse_date now tools inp args p \<longleftrightarrow>
     confirmed args \<and> \<not> preflightOnly args \<and> SP1_PROVER args = ''network'' \<and> JSON_parse (bundleText inp) = Inr (run_bundle p)
   \<and> approveCostQuote sha256 parse_date (costQuote inp) (approvedDigest args) (int (length (run_sellers p))) (scope args) now = Inr (run_quote p)
   \<and> quotedPlanSha256 (quote_body (run_quote p)) = planSha256 inp
   \<and> quotedBundleSha256 (quote_body (run_quote p)) = sha256_text sha256 (canonicalJson (run_bundle p))
   \<and> validateGuestAttestation (attestation inp) (elfSha256 inp) = Inr (run_programVKey p, elfSha256 inp)
   \<and> shardProofPlan (run_bundle p) (planChunks inp) = Inr (run_plan p)
   \<and> (\<forall>sl\<in>set (run_sellers p). \<exists>r. preflight_one (run_verifier tools) (run_evidence p) (mem (run_bundle p) ''period'')
        (artifactDir args @ ''/native-preflight'') (totalVolumeWitnessDir args) sl = Inr r)"

lemma paid_cleared:
  assumes "production_checks sha256 parse_date now inp args = Inr p" "\<not> preflightOnly args" "run_preflight tools args p = Inr ()"
  shows "cleared sha256 parse_date now tools inp args p"
  using production_checks_Inr [OF assms(1)] assms(2) run_preflight_passes [OF assms(3)]
  by (auto simp: cleared_def check_args_def check_sources_def res_bind_Inr)


section \<open>What a run returns\<close>

text \<open>The summary of a proof is that of the valid paid artifact on disk.\<close>

definition proven_by :: "(string \<Rightarrow> string) \<Rightarrow> production_args \<Rightarrow> prepared_run \<Rightarrow> paid_state \<Rightarrow> string \<Rightarrow> seller_summary \<Rightarrow> bool" where
  "proven_by sha256 args p st sl s \<longleftrightarrow> (\<exists>artifact. current_proof p sl st = Inr (Some artifact)
     \<and> summarize_current sha256 args sl st artifact = Inr s)"

lemma prove_paid_Inr:
  assumes "prove_paid sha256 tools args p sl st = (st', Inr s)"
  shows "proven_by sha256 args p st' sl s"
  using assms
  by (auto simp: prove_paid_def proven_by_def res_bind_Inr split: sum.splits option.splits prod.splits)

lemma current_proof_paid: "current_proof p sl st = Inr (Some artifact) \<Longrightarrow> paid_file (artifacts st sl)"
  by (auto simp: current_proof_def loadCurrentSellerProof_def Let_def res_bind_Inr paid_file_def split: if_splits)

lemma proven_by_kept: "proven_by sha256 args p mid sl s \<Longrightarrow> keeps_paid mid st' \<Longrightarrow> proven_by sha256 args p st' sl s"
proof -
  assume proven: "proven_by sha256 args p mid sl s" and keeps: "keeps_paid mid st'"
  then have "artifacts st' sl = artifacts mid sl" by (auto simp: keeps_paid_def proven_by_def dest: current_proof_paid)
  then show ?thesis using proven by (simp add: proven_by_def current_proof_def summarize_current_def)
qed

lemma paid_loop_Inr:
  assumes "paid_loop (prove_paid sha256 tools args p) sls st = (st', Inr proofs)" and "distinct sls"
  shows "list_all2 (proven_by sha256 args p st') sls proofs"
  using assms
proof (induction sls arbitrary: st proofs)
  case (Cons sl sls)
  obtain mid s where mid: "prove_paid sha256 tools args p sl st = (mid, Inr s)"
    using Cons.prems(1) by (auto split: prod.splits sum.splits)
  then obtain rest where rest: "paid_loop (prove_paid sha256 tools args p) sls mid = (st', Inr rest)" "proofs = s # rest"
    using Cons.prems(1) by (auto simp: res_bind_Inr split: prod.splits)
  have "keeps_paid mid st'" using paid_loop_keeps [OF rest(1)] Cons.prems(2) by simp
  then show ?case using Cons.IH [OF rest(1)] Cons.prems(2) rest(2) proven_by_kept [OF prove_paid_Inr [OF mid]] by simp
qed simp

lemma summarized_seller:
  assumes "proven_by sha256 args p st sl s"
  shows "ss_seller s = sl"
  using assms
  by (auto simp: proven_by_def current_proof_def summarize_current_def summarizeSellerProof_def loadCurrentSellerProof_def optional_lower_def
      Let_def res_bind_Inr split: if_splits)

definition proof_volume :: "seller_summary \<Rightarrow> int" where
  "proof_volume s = projr (big_int (ss_provenWashVolumeRaw s))"

lemma sum_from:
  "res_fold (\<lambda>s t. res_bind (big_int (volume s)) (\<lambda>v. Inr (t + v))) proofs k = Inr t \<Longrightarrow>
   t = k + (\<Sum>s\<leftarrow>proofs. projr (big_int (volume s)))"
proof (induction proofs arbitrary: k)
  case (Cons s proofs)
  then obtain v where "big_int (volume s) = Inr v"
    and "res_fold (\<lambda>s t. res_bind (big_int (volume s)) (\<lambda>v. Inr (t + v))) proofs (k + v) = Inr t"
    by (auto simp: res_bind_Inr split: sum.splits)
  then show ?case using Cons.IH [of "k + v"] by simp
qed simp

lemma sum_volumes_Inr: "sum_volumes volume proofs = Inr t \<Longrightarrow> t = (\<Sum>s\<leftarrow>proofs. projr (big_int (volume s)))"
  using sum_from [of volume proofs 0 t] by (simp add: sum_volumes_def)


section \<open>The configuration of a paid run\<close>

text \<open>Without replacement, a configuration that is there is kept, or differs from the new one in the quote's digest only.\<close>

lemma stable_configuration:
  assumes "writeStableRunConfig (FileText (document_text old)) new False rotation path = Inr f" and "wf_json old"
  shows "f = FileText (document_text new) \<and> (document_text old = document_text new \<or> (rotation \<and> sameRunExceptQuoteDigest old new))"
  using assms parse_document [OF assms(2)]
  by (auto simp: writeStableRunConfig_def Let_def res_bind_Inr isNonemptyFile_def file_text_def document_text_def line_def split: if_splits)

text \<open>
  A run with \<open>--preflight-only\<close> replaces whatever configuration is there, also that of a run that has
  paid for proofs: a paid run with other parameters is then accepted.
\<close>

lemma preflight_replaces_paid_configuration:
  "\<exists>f. writeStableRunConfig (FileText (document_text paid)) other True False path = Inr f
     \<and> writeStableRunConfig f other False True path = Inr f"
  by (auto simp: writeStableRunConfig_def Let_def isNonemptyFile_def file_text_def document_text_def line_def)


section \<open>A run over one seller\<close>

definition some_digest :: "string \<Rightarrow> string" where
  "some_digest s = padStart 64 (CHR ''0'') (show_nat (length s))"

definition run_ex_elf :: string where
  "run_ex_elf = ''0x'' @ replicate 64 (CHR ''e'')"

definition run_ex_attestation :: json where
  "run_ex_attestation = JObj [(''version'', JNum 4), (''kind'', JStr ''antseed-sp1-program-build-attestation''), (''sp1Version'', JStr ''6.1.0''),
     (''reproducible'', JBool True), (''guests'', JObj [(''seller'', JObj [(''programVKey'', JStr (''0x'' @ replicate 64 (CHR ''A''))),
        (''elfSha256'', JStr run_ex_elf)])])]"

definition run_ex_body :: quote_body where
  "run_ex_body = \<lparr>qb_version = 6, qb_kind = ''antseed-sp1-proof-cost-quote'', qb_chainId = 8453,
     approvalMode = Some ''network-price-cap-only'', currency = None, provider = ''p'', generatedAt = ''g'', expiresAt = ''e'',
     scopeSeller = None, sellerProofs = 1, unitMaxCostUsd = None, aggregateMaxCostUsd = None, maxPricePerPguWei = Some ''10'',
     proofTimeoutSeconds = Some 60, auctionTimeoutSeconds = Some 30,
     quotedBundleSha256 = sha256_text some_digest (canonicalJson ex_approved), quotedPlanSha256 = ''0xp''\<rparr>"

definition run_ex_quote :: cost_quote where
  "run_ex_quote = \<lparr>quote_body = run_ex_body, quote_digest = Some (quoteDigest some_digest run_ex_body)\<rparr>"

definition run_ex_input :: production_input where
  "run_ex_input = \<lparr>bundleText = stringify ex_approved, costQuote = run_ex_quote, planSha256 = ''0xp'',
     planChunks = [writePlanFile ex_meta [ex_planned]], attestation = run_ex_attestation, elfSha256 = run_ex_elf,
     attestationSha256 = ''0xa'', witness_file = (\<lambda>p. FileText ''w'')\<rparr>"

definition run_ex_args :: production_args where
  "run_ex_args = \<lparr>sellerFlag = None, sellerConcurrency = 1, preflightOnly = False, confirmed = True, SP1_PROVER = ''network'',
     NETWORK_PRIVATE_KEY = ''k'', approvedDigest = Some (quoteDigest some_digest run_ex_body), sellerElf = ''elf'', artifactDir = ''a'',
     witnessDir = ''w'', totalVolumeWitnessDir = None\<rparr>"

definition run_ex_claimed :: "(string \<times> json) list" where
  "run_ex_claimed = [(''seller'', JStr ''0xS''), (''claimCount'', JNum 1), (''evidenceFormat'', JStr ''single-bundle-v1''),
     (''sourceClaimIds'', JArr [JStr ''0xab'']), (''periodStartBlock'', JNum 1), (''periodEndBlock'', JNum 8),
     (''provenWashVolumeRaw'', JStr ''5''), (''totalSellerVolumeRaw'', JStr ''8''), (''verified'', JBool True)]"

definition run_ex_witness :: json where
  "run_ex_witness = JObj (run_ex_claimed @ [(''kind'', JStr ''antseed-wash-trading-seller-witness''), (''proverNetworkSubmitted'', JBool False)])"

definition run_ex_artifact :: json where
  "run_ex_artifact = JObj (run_ex_claimed @ [(''version'', JNum 3), (''kind'', JStr ''antseed-wash-trading-seller-proof''),
     (''proofArchitecture'', JStr ''direct-seller-v1''), (''securityMode'', JStr ''production''),
     (''sellerProgramVKey'', JStr (''0x'' @ replicate 64 (CHR ''a''))), (''proved'', JBool True), (''publicValues'', JStr ''0x1122''),
     (''proofBytes'', JStr ''0x33''), (''requestId'', JStr ''r'')])"

definition run_ex_tools :: production_tools where
  "run_ex_tools = \<lparr>build_prover = Inr (), run_verifier = (\<lambda>c. Inr (stringify run_ex_witness)),
     run_paid = (\<lambda>n c. \<lparr>exit_result = Inr (), left_text = Some (stringify run_ex_artifact)\<rparr>)\<rparr>"

definition run_ex_start :: paid_state where
  "run_ex_start = \<lparr>artifacts = (\<lambda>s. NoFile), configs = (\<lambda>s. NoFile), requests = []\<rparr>"

definition run_ex_evidence :: "(string \<times> json) list" where
  "run_ex_evidence = projr (run_evidence_of run_ex_input run_ex_args ex_approved
     (projr (claims_by_id ex_approved)) [(''0xab'', [''0xS''])] ex_shards)"

definition run_ex_prepared :: prepared_run where
  "run_ex_prepared = \<lparr>run_bundle = ex_approved, run_sellers = [''0xs''], run_evidence = run_ex_evidence, run_plan = ex_shards,
     run_programVKey = ''0x'' @ replicate 64 (CHR ''a''), run_quote = run_ex_quote,
     run_config = run_config_json some_digest run_ex_input run_ex_args [''0xs''] run_ex_evidence
       (''0x'' @ replicate 64 (CHR ''a''), run_ex_elf) run_ex_quote\<rparr>"

lemma Inr_projr: "\<not> isl r \<Longrightarrow> r = Inr (projr r)"
  by (cases r) simp_all

lemma run_ex_evidence_found: "run_evidence_of run_ex_input run_ex_args ex_approved (projr (claims_by_id ex_approved)) [(''0xab'', [''0xS''])] ex_shards
    = Inr run_ex_evidence"
proof -
  have "\<not> isl (run_evidence_of run_ex_input run_ex_args ex_approved (projr (claims_by_id ex_approved)) [(''0xab'', [''0xS''])] ex_shards)"
    by code_simp
  then show ?thesis unfolding run_ex_evidence_def by (rule Inr_projr)
qed

lemma run_ex_approved_quote: "approveCostQuote some_digest (\<lambda>t. None) run_ex_quote (Some (quoteDigest some_digest run_ex_body)) 1 None 0 = Inr run_ex_quote"
proof -
  have limits: "parseU64 (Some ''10'') ''max price per PGU'' = Inr 10" "positiveInteger (Some 60) ''proof timeout'' = Inr 60"
    "positiveInteger (Some 30) ''auction timeout'' = Inr 30" by code_simp+
  then show ?thesis
    by (auto simp: approveCostQuote_def Let_def run_ex_quote_def lower_equal_def expired_def check_approval_mode_def run_ex_body_def require_def)
qed

lemma run_ex_checked: "production_checks some_digest (\<lambda>t. None) 0 run_ex_input run_ex_args = Inr run_ex_prepared"
proof -
  have "wf_json ex_approved" by code_simp
  then have parsed: "JSON_parse (bundleText run_ex_input) = Inr ex_approved" by (simp add: run_ex_input_def parse_stringify)
  have args: "check_args run_ex_args = Inr ()" and valid: "validateBundle ex_approved = Inr ()" and rows: "claim_rows ex_approved = Inr [(''0xab'', [''0xS''])]"
    and once: "sellerEvidenceByAddress [(''0xab'', [''0xS''])] (map (\<lambda>(i, _). (i, ())) [(''0xab'', [''0xS''])]) = Inr [(''0xs'', ())]"
    and sellers: "approved_sellers ex_approved = Inr [''0xs'']" and select: "select_sellers run_ex_args [''0xs''] = Inr [''0xs'']"
    and mapped: "\<not> isl (claims_by_id ex_approved)"
    and guest: "validateGuestAttestation run_ex_attestation run_ex_elf = Inr (''0x'' @ replicate 64 (CHR ''a''), run_ex_elf)" by code_simp+
  define m where "m = projr (claims_by_id ex_approved)"
  have byId: "claims_by_id ex_approved = Inr m" unfolding m_def by (rule Inr_projr [OF mapped])
  have evidence: "run_evidence_of run_ex_input run_ex_args ex_approved m [(''0xab'', [''0xS''])] ex_shards = Inr run_ex_evidence"
    unfolding m_def by (rule run_ex_evidence_found)
  have sources: "check_sources some_digest run_ex_input ex_approved run_ex_quote = Inr ()"
    by (simp add: check_sources_def run_ex_input_def run_ex_quote_def run_ex_body_def require_def)
  have quoted: "approveCostQuote some_digest (\<lambda>t. None) (costQuote run_ex_input) (approvedDigest run_ex_args) (int (length [''0xs''])) (scope run_ex_args) 0
      = Inr run_ex_quote"
    using run_ex_approved_quote by (simp add: run_ex_input_def run_ex_args_def scope_def)
  have plan: "shardProofPlan ex_approved (planChunks run_ex_input) = Inr ex_shards" by (simp add: run_ex_input_def ex_sharded)
  have attested: "validateGuestAttestation (attestation run_ex_input) (elfSha256 run_ex_input) = Inr (''0x'' @ replicate 64 (CHR ''a''), run_ex_elf)"
    using guest by (simp only: run_ex_input_def production_input.simps)
  show ?thesis
    unfolding production_checks_def args res_bind_simps parsed valid rows once byId sellers select quoted sources attested plan
      evidence run_ex_prepared_def by simp
qed

lemma run_ex_current:
  assumes "artifacts st ''0xs'' = FileText (stringify run_ex_artifact)"
  shows "current_proof run_ex_prepared ''0xs'' st = Inr (Some run_ex_artifact)"
proof -
  have "wf_json run_ex_artifact" by code_simp
  then have parsed: "JSON_parse (stringify run_ex_artifact) = Inr run_ex_artifact" by (rule parse_stringify)
  have there: "stringify run_ex_artifact \<noteq> []" by (simp add: run_ex_artifact_def)
  have "paid_kind run_ex_artifact" "optional_lower (mem run_ex_artifact ''seller'') = Inr (Some ''0xs'')" "single_claim run_ex_artifact"
    "in_period_of run_ex_artifact (mem ex_approved ''period'') (''0xs'' @ '': stale or invalid paid direct seller checkpoint'') = Inr ()"
    "optional_lower (mem run_ex_artifact ''sellerProgramVKey'') = Inr (Some (toLowerCase (''0x'' @ replicate 64 (CHR ''a''))))"
    "paid_proof run_ex_artifact" by code_simp+
  then show ?thesis using parsed there assms
    by (simp add: current_proof_def loadCurrentSellerProof_def Let_def isNonemptyFile_def file_text_def run_ex_prepared_def require_def)
qed

lemma run_ex_preflight: "run_preflight run_ex_tools run_ex_args run_ex_prepared = Inr ()"
proof -
  have "wf_json run_ex_witness" by code_simp
  then have parsed: "JSON_parse (stringify run_ex_witness) = Inr run_ex_witness" by (rule parse_stringify)
  have found: "\<not> isl (singleEvidenceEntry (map_of run_ex_evidence ''0xs'') ''0xs'')"
    and ok: "preflight_artifact run_ex_witness ''0xs'' (mem ex_approved ''period'') = Inr ()" by code_simp+
  obtain e where one: "singleEvidenceEntry (map_of run_ex_evidence ''0xs'') ''0xs'' = Inr e" using Inr_projr [OF found] by blast
  show ?thesis using parsed ok one
    by (simp add: run_preflight_def preflightSellerInputs_def run_ex_tools_def run_ex_prepared_def preflight_step_def
        preflight_one_def require_def Let_def del: stringify.simps)
qed

definition run_ex_summary :: seller_summary where
  "run_ex_summary = projr (summarizeSellerProof some_digest run_ex_artifact ''a/sellers/0xs.json'' (FileText (stringify run_ex_artifact)))"

definition run_ex_result :: production_summary where
  "run_ex_result = \<lparr>quoteDigestOf = quote_digest run_ex_quote, production_total = 8, production_proven = 5, production_approved = 5,
     production_proofs = [run_ex_summary]\<rparr>"

lemma run_ex_run: "\<exists>st. production_run some_digest (\<lambda>t. None) 0 run_ex_tools run_ex_input run_ex_args run_ex_start = (st, Inr (Some run_ex_result))
    \<and> requests st = [(''0xs'', True)]"
proof -
  let ?f = "FileText (document_text (run_config run_ex_prepared))"
  let ?st = "run_ex_start\<lparr>configs := (configs run_ex_start)(scope_name run_ex_args := ?f)\<rparr>"
  let ?done = "?st\<lparr>requests := [(''0xs'', True)], artifacts := (artifacts run_ex_start)(''0xs'' := FileText (stringify run_ex_artifact))\<rparr>"
  have config: "writeStableRunConfig (configs run_ex_start (scope_name run_ex_args)) (run_config run_ex_prepared) False True path = Inr ?f" for path
    by (simp add: writeStableRunConfig_def run_ex_start_def isNonemptyFile_def Let_def)
  have none: "current_proof run_ex_prepared ''0xs'' ?st = Inr None"
    by (simp add: current_proof_def loadCurrentSellerProof_def run_ex_start_def isNonemptyFile_def Let_def)
  have there: "stringify run_ex_artifact \<noteq> []" by (simp add: run_ex_artifact_def)
  have request: "request_paid run_ex_tools run_ex_args run_ex_prepared ''0xs'' ?st = (?done, Inr ())"
    using there by (simp add: request_paid_def run_ex_tools_def run_ex_start_def leaves_file_def Let_def del: stringify.simps)
  have path: "seller_file (artifactDir run_ex_args @ ''/sellers'') ''0xs'' = ''a/sellers/0xs.json''" by code_simp
  have lower: "lower_text (mem run_ex_artifact ''seller'') = Inr ''0xs''" by code_simp
  have summary: "summarize_current some_digest run_ex_args ''0xs'' ?done run_ex_artifact = Inr run_ex_summary"
    by (simp add: summarize_current_def path run_ex_summary_def summarizeSellerProof_def lower del: stringify.simps)
  have one: "prove_paid some_digest run_ex_tools run_ex_args run_ex_prepared ''0xs'' ?st = (?done, Inr run_ex_summary)"
    using none request summary run_ex_current [of ?done] by (simp add: prove_paid_def)
  have volumes: "big_int (ss_provenWashVolumeRaw run_ex_summary) = Inr 5" "big_int (ss_totalSellerVolumeRaw run_ex_summary) = Inr 8"
    unfolding run_ex_summary_def summarizeSellerProof_def lower by (simp_all, code_simp+)
  have finish: "finish_run run_ex_args run_ex_prepared [run_ex_summary] = Inr run_ex_result"
    by (simp add: finish_run_def sum_volumes_def volumes run_ex_prepared_def ex_shards_def ex_totals_def run_ex_result_def Let_def require_def)
  have "production_run some_digest (\<lambda>t. None) 0 run_ex_tools run_ex_input run_ex_args run_ex_start = (?done, Inr (Some run_ex_result))"
    using config one finish
    by (simp add: production_run_def run_ex_checked run_ex_preflight run_requests_def run_ex_prepared_def [THEN arg_cong, of run_sellers]
        run_ex_args_def [THEN arg_cong, of preflightOnly] Let_def)
  then show ?thesis by auto
qed

theorem no_seller_paid_twice_witness:
  "\<exists>st. production_runs some_digest (\<lambda>t. None) run_ex_start st \<and> (''0xs'', True) \<in> set (requests st) \<and> paid_file (artifacts st ''0xs'')"
proof -
  obtain st where run: "production_run some_digest (\<lambda>t. None) 0 run_ex_tools run_ex_input run_ex_args run_ex_start = (st, Inr (Some run_ex_result))"
    and asked: "requests st = [(''0xs'', True)]" using run_ex_run by blast
  have runs: "production_runs some_digest (\<lambda>t. None) run_ex_start st"
    by (rule production_runs.one_more [OF production_runs.no_run run])
  have "requests run_ex_start = []" by (simp add: run_ex_start_def)
  from no_seller_paid_twice [OF runs this] runs asked show ?thesis by auto
qed



end
