(* ===== verification/Snapshot.thy ===== *)
theory Snapshot
  imports Approved_Proofs Merkle
begin

text \<open>
  Locking a snapshot: the manifest of an approved bundle (\<open>scripts/generate-historical-manifest.mjs\<close>)
  and the checks and digests that tie a completed scan, its bundle and its plan together
  (\<open>scripts/build-unified-historical-snapshot.mjs\<close>). The plan file is summarized as it streams by, with the
  scanner of theory \<open>Plan_Stream\<close>; the original leaves its loops once the claims have ended, after which the
  scanner changes nothing. Files are their texts, SHA-256 is a parameter.
\<close>

section \<open>The manifest of a bundle\<close>

record subject_volume =
  sv_seller :: string
  sv_volume :: int

record manifest_claim =
  source_claim_id :: string
  predicate_id :: nat
  claim_start_block :: "json option"
  claim_end_block :: "int option"
  manifest_subjects :: "subject_volume list"

record historical_manifest =
  report_root :: string
  period_start_block :: "json option"
  period_end_block :: "int option"
  manifest_claims :: "manifest_claim list"

definition manifest_hash :: "json option \<Rightarrow> string \<Rightarrow> string res" where
  "manifest_hash v label = res_bind (require (hex_text 64 (known_text v)) (''invalid '' @ label)) (\<lambda>_. lower_text v)"

definition manifest_address :: "json option \<Rightarrow> string res" where
  "manifest_address v = res_bind (require (hex_text 40 (known_text v)) (''invalid seller address '' @ text_of v)) (\<lambda>_. lower_text v)"

text \<open>\<open>value?.length\<close>.\<close>

definition member_length :: "json option \<Rightarrow> json option" where
  "member_length v = (case v of Some (JArr js) \<Rightarrow> Some (JNum (int (length js))) | Some (JStr s) \<Rightarrow> Some (JNum (int (length s)))
     | Some (JObj ms) \<Rightarrow> map_of ms ''length'' | _ \<Rightarrow> None)"

definition claimSubjects :: "json \<Rightarrow> (json option \<times> json option) list res" where
  "claimSubjects c =
     (let label = text_of (mem c ''claimId'') in
      if mem c ''type'' = Some (JStr ''P0_CLOSED_LOOP'') then
        res_bind (require (member_length (mem c ''subjects'') = Some (JNum 1)) (label @ '': invalid closed-loop subjects'')) (\<lambda>_.
        Inr [(case elements (mem c ''subjects'') of [] \<Rightarrow> None | s # _ \<Rightarrow> Some s, sub_mem c ''metrics'' ''qualifiedVolumeRaw'')])
      else if mem c ''type'' = Some (JStr ''P0_RECIPROCAL'') then
        res_bind (require (js_truthy (mem c ''walletA'') \<and> js_truthy (mem c ''walletB'')) (label @ '': invalid reciprocal subjects'')) (\<lambda>_.
        Inr [(mem c ''walletA'', sub_mem c ''metrics'' ''volumeBToARaw''), (mem c ''walletB'', sub_mem c ''metrics'' ''volumeAToBRaw'')])
      else Inl (Error (label @ '': unsupported claim type '' @ text_of (mem c ''type''))))"

definition manifest_subject :: "string \<Rightarrow> json option \<times> json option \<Rightarrow> subject_volume res" where
  "manifest_subject sid sv = (case sv of (sl, volume) \<Rightarrow>
     res_bind (manifest_address sl) (\<lambda>normalized.
     res_bind (big_int volume) (\<lambda>v.
     res_bind (require (0 < v \<and> v \<le> 2 ^ 128 - 1) (sid @ '': invalid proven wash volume'')) (\<lambda>_.
     Inr \<lparr>sv_seller = normalized, sv_volume = v\<rparr>))))"

text \<open>\<open>claim.period?.k ?? bundle.period.k\<close>.\<close>

definition claim_period :: "json \<Rightarrow> json \<Rightarrow> string \<Rightarrow> json option res" where
  "claim_period b c k = (let own = (if present (mem c ''period'') then sub_mem c ''period'' k else None) in
     if present own then Inr own else field (mem b ''period'') k)"

definition manifest_claim_of :: "json \<Rightarrow> json \<Rightarrow> string list \<times> manifest_claim list \<Rightarrow> (string list \<times> manifest_claim list) res" where
  "manifest_claim_of b c st = (case st of (sourceIds, found) \<Rightarrow>
     res_bind (manifest_hash (mem c ''claimId'') ''claimId'') (\<lambda>sid.
     res_bind (require (sid \<notin> set sourceIds) (''duplicate source claim '' @ sid)) (\<lambda>_.
     res_bind (claimSubjects c) (\<lambda>subs.
     res_bind (res_map (manifest_subject sid) subs) (\<lambda>volumes.
     res_bind (claim_period b c ''startBlock'') (\<lambda>startBlock.
     res_bind (claim_period b c ''endBlockExclusive'') (\<lambda>endBlock.
     Inr (sourceIds @ [sid], found @ [\<lparr>source_claim_id = sid,
       predicate_id = (if mem c ''type'' = Some (JStr ''P0_CLOSED_LOOP'') then 1 else 2),
       claim_start_block = startBlock, claim_end_block = minus_one endBlock,
       manifest_subjects = js_sort (\<lambda>l r. localeCompare (sv_seller l) (sv_seller r)) volumes\<rparr>]))))))))"

definition historicalManifestFromBundle :: "(string \<Rightarrow> string) \<Rightarrow> json \<Rightarrow> historical_manifest res" where
  "historicalManifestFromBundle sha256 b =
     res_bind (require (mem b ''version'' = Some (JNum 1) \<and> mem b ''kind'' = Some (JStr ''antseed-wash-trading-proof-bundle'')
         \<and> mem b ''chainId'' = Some (JNum 8453) \<and> is_array (mem b ''claims'') \<and> claims_of b \<noteq> []) ''invalid historical proof bundle'') (\<lambda>_.
     res_bind (res_map (\<lambda>c. manifest_hash (mem c ''leafHash'') ''claim leafHash'') (claims_of b)) (\<lambda>leaves.
     let root = merkleRoot sha256 leaves in
     res_bind (manifest_hash (mem b ''reportRoot'') ''reportRoot'') (\<lambda>stated.
     res_bind (require (root = stated) (''bundle report root mismatch: calculated '' @ root)) (\<lambda>_.
     res_bind (res_fold (manifest_claim_of b) (claims_of b) ([], [])) (\<lambda>(_, found).
     res_bind (field (mem b ''period'') ''startBlock'') (\<lambda>startBlock.
     res_bind (field (mem b ''period'') ''endBlockExclusive'') (\<lambda>endBlock.
     Inr \<lparr>report_root = root, period_start_block = startBlock, period_end_block = minus_one endBlock,
       manifest_claims = js_sort (\<lambda>l r. localeCompare (source_claim_id l) (source_claim_id r)) found\<rparr>)))))))"

section \<open>The summary of a plan file\<close>

record plan_scan =
  plan_metadata :: "json option"
  planned_ids :: "json list"

definition summary_metadata :: "string \<Rightarrow> plan_scan \<Rightarrow> plan_scan res" where
  "summary_metadata body s = res_bind (JSON_parse body) (\<lambda>pl. Inr (s\<lparr>plan_metadata := Some pl\<rparr>))"

definition claim_stub :: "json option \<Rightarrow> json" where
  "claim_stub i = JObj (known_members [(''claimId'', i)])"

definition summary_claim :: "string \<Rightarrow> plan_scan \<Rightarrow> plan_scan res" where
  "summary_claim body s = res_bind (JSON_parse body) (\<lambda>c. res_bind (field (Some c) ''claimId'') (\<lambda>i.
     Inr (s\<lparr>planned_ids := planned_ids s @ [claim_stub i]\<rparr>)))"

definition readProofPlanSummary :: "string list \<Rightarrow> json res" where
  "readProofPlanSummary chunks =
     res_bind (res_fold (read_chunk summary_metadata summary_claim) chunks (stream_start \<lparr>plan_metadata = None, planned_ids = []\<rparr>)) (\<lambda>s.
     res_bind (require (parsingClaims s \<and> claimsEnded (scanning s)) ''proof plan is incomplete'') (\<lambda>_.
     let found = scanned (scanning s); metadata = the (plan_metadata found) in
     Inr (obj_assign metadata [(''claimCount'', if present (mem metadata ''claimCount'') then the (mem metadata ''claimCount'')
         else JNum (int (length (planned_ids found)))), (''claims'', JArr (planned_ids found))])))"

section \<open>Validating a snapshot\<close>

record snapshot_documents =
  sd_manifest :: json
  sd_scan :: json
  sd_sellerCoverage :: json
  sd_proofCoverage :: json
  sd_bundle :: json
  sd_plan :: json

definition check_scan_complete :: "json \<Rightarrow> json \<Rightarrow> unit res" where
  "check_scan_complete manifest scan =
     res_bind (require (mem manifest ''status'' = Some (JStr ''complete'') \<and> mem scan ''status'' = Some (JStr ''complete''))
       ''snapshot requires a completed scan'') (\<lambda>_.
     require (\<not> js_truthy (sub_mem manifest ''request'' ''seller'')) ''snapshot rejects seller-targeted scans'')"

definition check_universe :: "json \<Rightarrow> json \<Rightarrow> unit res" where
  "check_universe scan sellerCoverage =
     res_bind (require (js_truthy (mem sellerCoverage ''complete'') \<and> member_length (mem sellerCoverage ''incomplete'') = Some (JNum 0))
       ''snapshot seller coverage is incomplete'') (\<lambda>_.
     let counted = sub_mem scan ''counts'' ''sellers'';
         sellerCount = (if present counted then counted else member_length (mem scan ''sellers''));
         mismatch = ''snapshot seller universe does not match the completed scan'' in
     res_bind (require (same_value (member_length (mem sellerCoverage ''evaluated'')) sellerCount) mismatch) (\<lambda>_.
     res_bind (if present (mem sellerCoverage ''evaluated'') then iterate (mem sellerCoverage ''evaluated'') else Inr []) (\<lambda>evaluated.
     require (sellerCount = Some (JNum (int (length (js_set evaluated))))) mismatch)))"

definition check_plan_ids :: "json \<Rightarrow> json \<Rightarrow> unit res" where
  "check_plan_ids b pl =
     res_bind (require (same_value (mem pl ''reportRoot'') (mem b ''reportRoot'')) ''plan does not contain the complete unified bundle'') (\<lambda>_.
     res_bind (if present (mem b ''claims'') then Inr () else Inl TypeError) (\<lambda>_.
     let n = member_length (mem b ''claims'') in
     res_bind (require (same_value (mem pl ''claimCount'') n \<and> same_value (member_length (mem pl ''claims'')) n)
       ''plan does not contain the complete unified bundle'') (\<lambda>_.
     res_bind (case mem pl ''claims'' of Some (JArr cs) \<Rightarrow> res_map (\<lambda>c. res_bind (field (Some c) ''claimId'') optional_lower) cs | _ \<Rightarrow> Inl TypeError) (\<lambda>plannedIds.
     res_bind (case mem b ''claims'' of Some (JArr cs) \<Rightarrow> res_map lower_id cs | _ \<Rightarrow> Inl TypeError) (\<lambda>ids.
     require (\<forall>i\<in>set ids. Some i \<in> set plannedIds) ''plan claim identities differ from the unified bundle'')))))"

definition validateSnapshotInputs :: "snapshot_documents \<Rightarrow> unit res" where
  "validateSnapshotInputs d =
     res_bind (check_scan_complete (sd_manifest d) (sd_scan d)) (\<lambda>_.
     res_bind (check_universe (sd_scan d) (sd_sellerCoverage d)) (\<lambda>_.
     res_bind (require (same_value (sub_mem (sd_proofCoverage d) ''source'' ''scanId'') (mem (sd_scan d) ''scanId'')
         \<and> same_value (mem (sd_bundle d) ''scanId'') (mem (sd_scan d) ''scanId'')) ''snapshot artifacts come from different scans'') (\<lambda>_.
     res_bind (require (same_value (member_length (mem (sd_bundle d) ''claims'')) (sub_mem (sd_proofCoverage d) ''summary'' ''totalProofs''))
       ''bundle does not contain every approved proof claim'') (\<lambda>_.
     res_bind (check_plan_ids (sd_bundle d) (sd_plan d)) (\<lambda>_.
     let period_text = (\<lambda>v. map_option stringify v) in
     require (period_text (mem (sd_plan d) ''period'') = period_text (mem (sd_bundle d) ''period'')
         \<and> period_text (mem (sd_bundle d) ''period'') = period_text (mem (sd_scan d) ''proofPeriod'')) ''snapshot proof periods differ'')))))"

section \<open>The lock\<close>

text \<open>The files by their texts; the plan by the chunks it is read in, or given.\<close>

record snapshot_files =
  sf_manifest :: string
  sf_scan :: string
  sf_sellerCoverage :: string
  sf_proofCoverage :: string
  sf_bundle :: string
  sf_plan :: "string list"

definition read_documents :: "snapshot_files \<Rightarrow> json option \<Rightarrow> snapshot_documents res" where
  "read_documents f suppliedPlan =
     res_bind (JSON_parse (sf_manifest f)) (\<lambda>manifest. res_bind (JSON_parse (sf_scan f)) (\<lambda>scan.
     res_bind (JSON_parse (sf_sellerCoverage f)) (\<lambda>sellerCoverage. res_bind (JSON_parse (sf_proofCoverage f)) (\<lambda>proofCoverage.
     res_bind (JSON_parse (sf_bundle f)) (\<lambda>b.
     res_bind (case suppliedPlan of Some pl \<Rightarrow> Inr pl | None \<Rightarrow> readProofPlanSummary (sf_plan f)) (\<lambda>pl.
     Inr \<lparr>sd_manifest = manifest, sd_scan = scan, sd_sellerCoverage = sellerCoverage, sd_proofCoverage = proofCoverage,
       sd_bundle = b, sd_plan = pl\<rparr>))))))"

definition file_digest :: "(string \<Rightarrow> string) \<Rightarrow> string \<Rightarrow> string" where
  "file_digest sha256 t = ''0x'' @ sha256 t"

definition source_digests :: "(string \<Rightarrow> string) \<Rightarrow> snapshot_files \<Rightarrow> json" where
  "source_digests sha256 f = JObj [(''manifest'', JStr (file_digest sha256 (sf_manifest f))), (''scan'', JStr (file_digest sha256 (sf_scan f))),
     (''sellerCoverage'', JStr (file_digest sha256 (sf_sellerCoverage f))), (''proofCoverage'', JStr (file_digest sha256 (sf_proofCoverage f)))]"

definition manifest_sellers :: "historical_manifest \<Rightarrow> string list" where
  "manifest_sellers hm = js_set (concat (map (\<lambda>c. map sv_seller (manifest_subjects c)) (manifest_claims hm)))"

definition manifest_volume :: "historical_manifest \<Rightarrow> int" where
  "manifest_volume hm = (\<Sum>c\<leftarrow>manifest_claims hm. \<Sum>s\<leftarrow>manifest_subjects c. sv_volume s)"

definition lock_cutoff :: "json \<Rightarrow> json res" where
  "lock_cutoff scan =
     res_bind (field (mem scan ''period'') ''from'') (\<lambda>x. res_bind (field (mem scan ''period'') ''to'') (\<lambda>y.
     res_bind (field (mem scan ''period'') ''fromIso'') (\<lambda>x'. res_bind (field (mem scan ''period'') ''toIso'') (\<lambda>y'.
     res_bind (field (mem scan ''proofPeriod'') ''startBlock'') (\<lambda>a. res_bind (field (mem scan ''proofPeriod'') ''endBlockExclusive'') (\<lambda>z.
     Inr (JObj (known_members [(''fromTimestamp'', x), (''toTimestamp'', y), (''fromIso'', x'), (''toIso'', y'),
       (''startBlock'', a), (''endBlockExclusive'', z)]))))))))"

text \<open>\<open>join\<close> writes nothing for \<open>null\<close>.\<close>

definition join_lines :: "json list \<Rightarrow> string" where
  "join_lines js = js_join [CHR 0x0A] (map (\<lambda>j. if j = JNull then [] else js_text j) js)"

definition lock_document ::
  "(string \<Rightarrow> string) \<Rightarrow> snapshot_files \<Rightarrow> snapshot_documents \<Rightarrow> historical_manifest \<Rightarrow> json \<Rightarrow> json list \<Rightarrow> string \<Rightarrow> string \<Rightarrow> string \<Rightarrow> json" where
  "lock_document sha256 f d hm cutoff evaluated scanDirectory bundlePath planPath =
     JObj (known_members [(''version'', Some (JNum 1)), (''kind'', Some (JStr ''antseed-unified-historical-wash-snapshot-lock'')),
       (''scanId'', mem (sd_scan d) ''scanId''), (''scanDirectory'', Some (JStr scanDirectory)),
       (''scanDigest'', Some (JStr (file_digest sha256 (canonicalJson (source_digests sha256 f))))),
       (''sourceDigests'', Some (source_digests sha256 f)),
       (''sellerUniverseDigest'', Some (JStr (file_digest sha256 (join_lines evaluated)))),
       (''cutoff'', Some cutoff), (''policyVersion'', mem (sd_bundle d) ''policyVersion''), (''reportRoot'', mem (sd_bundle d) ''reportRoot''),
       (''bundle'', Some (JObj [(''path'', JStr bundlePath), (''sha256'', JStr (file_digest sha256 (sf_bundle f)))])),
       (''plan'', Some (JObj [(''path'', JStr planPath), (''sha256'', JStr (file_digest sha256 (concat (sf_plan f))))])),
       (''counts'', Some (JObj [(''evaluatedSellers'', JNum (int (length evaluated))),
          (''approvedClaims'', JNum (int (length (claims_of (sd_bundle d))))), (''approvedSellers'', JNum (int (length (manifest_sellers hm))))])),
       (''sourceClaimWashVolumeRaw'', Some (JStr (show_int (manifest_volume hm))))])"

definition buildSnapshotLock ::
  "(string \<Rightarrow> string) \<Rightarrow> snapshot_files \<Rightarrow> json option \<Rightarrow> string \<Rightarrow> string \<Rightarrow> string \<Rightarrow> json res" where
  "buildSnapshotLock sha256 f suppliedPlan scanDirectory bundlePath planPath =
     res_bind (read_documents f suppliedPlan) (\<lambda>d.
     res_bind (validateSnapshotInputs d) (\<lambda>_.
     res_bind (historicalManifestFromBundle sha256 (sd_bundle d)) (\<lambda>hm.
     res_bind (case mem (sd_sellerCoverage d) ''evaluated'' of Some (JArr js) \<Rightarrow> Inr js | _ \<Rightarrow> Inl TypeError) (\<lambda>evaluated.
     res_bind (lock_cutoff (sd_scan d)) (\<lambda>cutoff.
     Inr (lock_document sha256 f d hm cutoff evaluated scanDirectory bundlePath planPath))))))"


section \<open>Reading a plan as it streams by\<close>

lemma read_stream_folded:
  "read_stream on_metadata on_claim a chunks = Inr x \<Longrightarrow>
   \<exists>s. res_fold (read_chunk on_metadata on_claim) chunks (stream_start a) = Inr s \<and> parsingClaims s \<and> claimsEnded (scanning s)
     \<and> scanned (scanning s) = x"
  by (auto simp: read_stream_def res_bind_Inr)

lemma summary_claims:
  assumes "\<forall>c\<in>set cs. is_object c \<and> wf_json c"
  shows "res_fold summary_claim (map stringify cs) s
    = Inr (s\<lparr>planned_ids := planned_ids s @ map (\<lambda>c. claim_stub (mem c ''claimId'')) cs\<rparr>)"
  using assms
proof (induction cs arbitrary: s)
  case (Cons c cs)
  have "present (Some c)" using Cons.prems by (cases c) (auto simp: present_def)
  then have "summary_claim (stringify c) s = Inr (s\<lparr>planned_ids := planned_ids s @ [claim_stub (mem c ''claimId'')]\<rparr>)"
    using Cons.prems by (simp add: summary_claim_def parse_stringify field_def)
  then show ?case using Cons by simp
qed simp

text \<open>C34: The summary of a plan file that streams by, in whatever chunks, is the document with its claims reduced to their ids, in order;
  no claim is lost or split at the border of two chunks, and what the evidence of a claim holds does not matter.\<close>

theorem plan_summary_streamed:
  assumes "concat chunks = writePlanFile meta cs" and "meta \<noteq> []" and "wf_json (plan_document meta cs)"
    and "text_indexOf marker (before_claims meta @ marker) = Some (length (before_claims meta))"
    and "\<forall>c\<in>set cs. is_object c"
  shows "\<exists>s. readProofPlanSummary chunks = Inr s
     \<and> mem s ''claims'' = Some (JArr (map (\<lambda>c. claim_stub (mem c ''claimId'')) cs))
     \<and> mem s ''claimCount'' = (if present (map_of meta ''claimCount'') then map_of meta ''claimCount'' else Some (JNum (int (length cs))))
     \<and> (\<forall>k. k \<notin> {''claims'', ''claimCount''} \<longrightarrow> mem s k = mem (plan_document meta cs) k)"
proof -
  let ?start = "\<lparr>plan_metadata = None, planned_ids = []\<rparr>"
  let ?tail = "\<lparr>plan_metadata = Some (plan_document meta []), planned_ids = map (\<lambda>c. claim_stub (mem c ''claimId'')) cs\<rparr>"
  have wf: "wf_json (plan_document meta [])" and each: "\<forall>c\<in>set cs. is_object c \<and> wf_json c"
    using assms(3,5) by (auto simp: wf_plan_document wf_list_all)
  have "summary_metadata (before_claims meta @ marker @ '']}'') ?start = Inr (?start\<lparr>plan_metadata := Some (plan_document meta [])\<rparr>)"
    unfolding plan_head_text [OF assms(2)] by (simp add: summary_metadata_def parse_stringify [OF wf])
  then have "read_stream summary_metadata summary_claim ?start chunks = Inr ?tail"
    unfolding read_stream_cut assms(1) writePlanFile_shape cut_file_claims [OF assms(4,5)] by (simp add: summary_claims [OF each])
  from read_stream_folded [OF this] obtain s
    where s: "res_fold (read_chunk summary_metadata summary_claim) chunks (stream_start ?start) = Inr s" "parsingClaims s"
      "claimsEnded (scanning s)" "scanned (scanning s) = ?tail" by blast
  have "mem (plan_document meta []) ''claimCount'' = map_of meta ''claimCount''" by (simp add: mem_plan_document)
  then show ?thesis using s
    by (auto simp: readProofPlanSummary_def require_def Let_def mem_assigned mem_plan_document present_def split: option.splits)
qed

section \<open>The sellers of a manifest\<close>

text \<open>The subjects of a reciprocal claim are its wallets.\<close>

definition wallets_are_subjects :: "json \<Rightarrow> bool" where
  "wallets_are_subjects c \<longleftrightarrow> (mem c ''type'' = Some (JStr ''P0_RECIPROCAL'') \<longrightarrow>
     (\<exists>ss x y. lower_subjects c = Inr ss \<and> lower_text (mem c ''walletA'') = Inr x \<and> lower_text (mem c ''walletB'') = Inr y \<and> set ss = {x, y}))"

definition volume_sellers :: "subject_volume list \<Rightarrow> string set" where
  "volume_sellers vs = sv_seller ` set vs"

lemma manifest_subjects_sellers:
  assumes "claimSubjects c = Inr subs" and "res_map (manifest_subject i) subs = Inr volumes" and "wallets_are_subjects c"
  shows "\<exists>ss. lower_subjects c = Inr ss \<and> volume_sellers volumes = set ss"
proof (cases "mem c ''type'' = Some (JStr ''P0_CLOSED_LOOP'')")
  case True
  let ?first = "case elements (mem c ''subjects'') of [] \<Rightarrow> None | s # _ \<Rightarrow> Some s"
  obtain v where subs: "subs = [(?first, v)]" and one: "member_length (mem c ''subjects'') = Some (JNum 1)"
    using assms(1) True by (auto simp: claimSubjects_def Let_def res_bind_Inr)
  obtain sv where volumes: "volumes = [sv]" and sv: "manifest_subject i (?first, v) = Inr sv"
    using assms(2) unfolding subs by (auto split: sum.splits)
  have hex: "hex_text 40 (known_text ?first)" and low: "lower_text ?first = Inr (sv_seller sv)"
    using sv by (auto simp: manifest_subject_def manifest_address_def res_bind_Inr)
  obtain s where s: "mem c ''subjects'' = Some (JArr [s])" "?first = Some s"
  proof (cases "mem c ''subjects''")
    case (Some j)
    then show ?thesis using that one hex
      by (cases j) (auto simp: member_length_def elements_def hex_text_def known_text_def present_def length_Suc_conv)
  qed (use one in \<open>simp add: member_length_def\<close>)
  have "lower_subjects c = Inr [sv_seller sv]" using s low by (simp add: lower_subjects_def)
  then show ?thesis by (simp add: volumes volume_sellers_def)
next
  case False
  then have reciprocal: "mem c ''type'' = Some (JStr ''P0_RECIPROCAL'')"
    and subs: "\<exists>v w. subs = [(mem c ''walletA'', v), (mem c ''walletB'', w)]"
    using assms(1) by (auto simp: claimSubjects_def Let_def res_bind_Inr split: if_splits)
  then obtain v w where subs: "subs = [(mem c ''walletA'', v), (mem c ''walletB'', w)]" by blast
  obtain p q where volumes: "volumes = [p, q]" and "manifest_subject i (mem c ''walletA'', v) = Inr p" "manifest_subject i (mem c ''walletB'', w) = Inr q"
    using assms(2) unfolding subs by (auto split: sum.splits)
  then have "lower_text (mem c ''walletA'') = Inr (sv_seller p)" "lower_text (mem c ''walletB'') = Inr (sv_seller q)"
    by (auto simp: manifest_subject_def manifest_address_def res_bind_Inr)
  then show ?thesis using assms(3) reciprocal by (auto simp: wallets_are_subjects_def volume_sellers_def volumes)
qed

definition found_sellers :: "manifest_claim list \<Rightarrow> string set" where
  "found_sellers ms = (\<Union>m\<in>set ms. volume_sellers (manifest_subjects m))"

lemma manifest_claims_sellers:
  assumes "res_fold (manifest_claim_of b) cs st = Inr (ids, found)" and "\<forall>c\<in>set cs. wallets_are_subjects c"
  shows "\<exists>subs. res_map lower_subjects cs = Inr subs \<and> found_sellers found = found_sellers (snd st) \<union> set (concat subs)"
  using assms
proof (induction cs arbitrary: st)
  case (Cons c cs)
  obtain mid where mid: "manifest_claim_of b c st = Inr mid" and rest: "res_fold (manifest_claim_of b) cs mid = Inr (ids, found)"
    using Cons.prems(1) by (auto split: sum.splits)
  obtain i subs volumes m where one: "claimSubjects c = Inr subs" "res_map (manifest_subject i) subs = Inr volumes"
      "snd mid = snd st @ [m]" "manifest_subjects m = js_sort (\<lambda>l r. localeCompare (sv_seller l) (sv_seller r)) volumes"
    using mid by (cases st) (force simp: manifest_claim_of_def res_bind_Inr)
  obtain ss where ss: "lower_subjects c = Inr ss" "volume_sellers volumes = set ss"
    using manifest_subjects_sellers [OF one(1,2)] Cons.prems(2) by auto
  obtain more where more: "res_map lower_subjects cs = Inr more" "found_sellers found = found_sellers (snd mid) \<union> set (concat more)"
    using Cons.IH [OF rest] Cons.prems(2) by auto
  have "found_sellers (snd mid) = found_sellers (snd st) \<union> set ss"
    using ss(2) by (auto simp: found_sellers_def one volume_sellers_def)
  then show ?case using ss(1) more by auto
qed simp

lemma manifest_sellers_count:
  assumes "historicalManifestFromBundle sha256 b = Inr hm" and "\<forall>c\<in>set (claims_of b). wallets_are_subjects c"
    and "res_map lower_subjects (claims_of b) = Inr subs"
  shows "length (manifest_sellers hm) = length (js_set (concat subs))"
    and "is_array (mem b ''claims'')" and "\<exists>r. mem b ''reportRoot'' = Some (JStr r)"
proof -
  from assms(1) obtain leaves acc stated x y where array: "is_array (mem b ''claims'')"
    and stated: "manifest_hash (mem b ''reportRoot'') ''reportRoot'' = Inr stated"
    and fold: "res_fold (manifest_claim_of b) (claims_of b) ([], []) = Inr acc"
    and result: "Inr \<lparr>report_root = merkleRoot sha256 leaves, period_start_block = x, period_end_block = minus_one y,
       manifest_claims = js_sort (\<lambda>l r. localeCompare (source_claim_id l) (source_claim_id r)) (snd acc)\<rparr> = Inr hm"
    unfolding historicalManifestFromBundle_def Let_def prod.case_eq_if res_bind_Inr require_Inr by blast
  have hm: "manifest_claims hm = js_sort (\<lambda>l r. localeCompare (source_claim_id l) (source_claim_id r)) (snd acc)"
    using result by auto
  have pair: "res_fold (manifest_claim_of b) (claims_of b) ([], []) = Inr (fst acc, snd acc)" using fold by simp
  have "set (manifest_sellers hm) = found_sellers (snd acc)"
    by (auto simp: manifest_sellers_def hm found_sellers_def volume_sellers_def)
  also have "\<dots> = set (concat subs)"
    using manifest_claims_sellers [OF pair assms(2)] assms(3) by (auto simp: found_sellers_def)
  finally show "length (manifest_sellers hm) = length (js_set (concat subs))"
    by (metis distinct_card distinct_js_set length_js_set manifest_sellers_def set_js_set)
  show "is_array (mem b ''claims'')" by (rule array)
  show "\<exists>r. mem b ''reportRoot'' = Some (JStr r)"
    using stated by (auto simp: manifest_hash_def lower_text_def res_bind_Inr split: option.splits json.splits)
qed

section \<open>The lock is accepted\<close>

lemma sharded_sellers:
  assumes "shardProofPlan b chunks = Inr r"
  shows "\<exists>subs. res_map lower_subjects (claims_of b) = Inr subs \<and> approvedSellerCount (sp_approved r) = length (js_set (concat subs))"
  using assms unfolding shardProofPlan_def finish_shards_def finishBatchAccumulator_def res_bind_Inr by auto

lemma lock_members:
  "mem (lock_document sha256 f d hm cutoff evaluated scanDirectory bundlePath planPath) ''version'' = Some (JNum 1)"
  "mem (lock_document sha256 f d hm cutoff evaluated scanDirectory bundlePath planPath) ''kind'' = Some (JStr ''antseed-unified-historical-wash-snapshot-lock'')"
  "mem (lock_document sha256 f d hm cutoff evaluated scanDirectory bundlePath planPath) ''reportRoot'' = mem (sd_bundle d) ''reportRoot''"
  "mem (lock_document sha256 f d hm cutoff evaluated scanDirectory bundlePath planPath) ''bundle''
     = Some (JObj [(''path'', JStr bundlePath), (''sha256'', JStr (file_digest sha256 (sf_bundle f)))])"
  "mem (lock_document sha256 f d hm cutoff evaluated scanDirectory bundlePath planPath) ''plan''
     = Some (JObj [(''path'', JStr planPath), (''sha256'', JStr (file_digest sha256 (concat (sf_plan f))))])"
  "mem (lock_document sha256 f d hm cutoff evaluated scanDirectory bundlePath planPath) ''counts''
     = Some (JObj [(''evaluatedSellers'', JNum (int (length evaluated))),
          (''approvedClaims'', JNum (int (length (claims_of (sd_bundle d))))), (''approvedSellers'', JNum (int (length (manifest_sellers hm))))])"
  unfolding lock_document_def mem_JObj by (subst map_of_known; simp)+

text \<open>C35: The lock built from a snapshot is the lock the proving run asks for: when the run cuts the same plan file into its approved claims, the
  lock's totals, paths and digests are those the run compares it with, provided that the subjects of every reciprocal claim are its two
  wallets (the lock counts the sellers of the manifest, the run those of the subjects).\<close>

theorem snapshot_lock_accepted:
  assumes "buildSnapshotLock sha256 f suppliedPlan scanDirectory bundlePath planPath = Inr lock"
    and "JSON_parse (sf_bundle f) = Inr b" and "shardProofPlan b chunks = Inr r"
    and "\<forall>c\<in>set (claims_of b). wallets_are_subjects c"
  shows "validateSnapshotLock lock bundlePath planPath b (Inr (sp_approved r))
     \<lparr>digest_bundle = Some (file_digest sha256 (sf_bundle f)), digest_plan = Some (file_digest sha256 (concat (sf_plan f)))\<rparr> = Inr ()"
proof -
  obtain d hm cutoff evaluated where d: "read_documents f suppliedPlan = Inr d"
    and hm: "historicalManifestFromBundle sha256 (sd_bundle d) = Inr hm"
    and lock: "lock = lock_document sha256 f d hm cutoff evaluated scanDirectory bundlePath planPath"
    using assms(1) unfolding buildSnapshotLock_def res_bind_Inr by auto
  have b: "sd_bundle d = b" using d assms(2) unfolding read_documents_def res_bind_Inr by auto
  obtain subs where subs: "res_map lower_subjects (claims_of b) = Inr subs" "approvedSellerCount (sp_approved r) = length (js_set (concat subs))"
    using sharded_sellers [OF assms(3)] by blast
  note counted = manifest_sellers_count [OF hm [unfolded b] assms(4) subs(1)]
  obtain root where "mem b ''reportRoot'' = Some (JStr root)" using counted(3) by blast
  then show ?thesis
    using counted(1) subs(2)
    by (simp add: validateSnapshotLock_def lock lock_members b sub_mem_def same_value_def require_def)
qed


section \<open>A snapshot of one claim\<close>

definition snap_id :: string where
  "snap_id = ''0x'' @ replicate 64 (CHR ''1'')"

definition snap_root :: string where
  "snap_root = ''0x'' @ replicate 64 (CHR ''2'')"

definition snap_seller :: string where
  "snap_seller = ''0x'' @ replicate 40 (CHR ''a'')"

definition snap_bundle :: json where
  "snap_bundle = JObj [(''version'', JNum 1), (''kind'', JStr ''antseed-wash-trading-proof-bundle''), (''chainId'', JNum 8453),
     (''scanId'', JStr ''s''), (''reportRoot'', JStr snap_root), (''period'', ex_period),
     (''claims'', JArr [JObj [(''claimId'', JStr snap_id), (''leafHash'', JStr snap_root), (''type'', JStr ''P0_CLOSED_LOOP''),
        (''metrics'', JObj [(''qualifiedVolumeRaw'', JStr ''5'')]), (''subjects'', JArr [JStr snap_seller])]])]"

definition snap_planned :: json where
  "snap_planned = JObj [(''claimId'', JStr snap_id), (''type'', JStr ''P0_CLOSED_LOOP''),
     (''selectedEvidence'', JArr [JObj [(''evidenceType'', JStr ''SETTLEMENT''), (''transactionHash'', JStr ''0x1''),
        (''logIndex'', JNum 2), (''amountRaw'', JStr ''5''), (''blockNumber'', JNum 7)]])]"

definition snap_meta :: "(string \<times> json) list" where
  "snap_meta = [(''version'', JNum 2), (''kind'', JStr ''antseed-wash-trading-proof-plan''), (''chainId'', JNum 8453),
     (''reportRoot'', JStr snap_root), (''period'', ex_period), (''claimCount'', JNum 1)]"

definition snap_manifest :: json where
  "snap_manifest = JObj [(''status'', JStr ''complete'')]"

definition snap_scan :: json where
  "snap_scan = JObj [(''status'', JStr ''complete''), (''scanId'', JStr ''s''), (''counts'', JObj [(''sellers'', JNum 1)]),
     (''proofPeriod'', ex_period), (''period'', JObj [(''from'', JNum 1), (''to'', JNum 2)])]"

definition snap_sellers :: json where
  "snap_sellers = JObj [(''complete'', JBool True), (''incomplete'', JArr []), (''evaluated'', JArr [JStr snap_seller])]"

definition snap_proofs :: json where
  "snap_proofs = JObj [(''source'', JObj [(''scanId'', JStr ''s'')]), (''summary'', JObj [(''totalProofs'', JNum 1)])]"

definition snap_files :: snapshot_files where
  "snap_files = \<lparr>sf_manifest = stringify snap_manifest, sf_scan = stringify snap_scan, sf_sellerCoverage = stringify snap_sellers,
     sf_proofCoverage = stringify snap_proofs, sf_bundle = stringify snap_bundle, sf_plan = [writePlanFile snap_meta [snap_planned]]\<rparr>"

definition snap_documents :: snapshot_documents where
  "snap_documents = \<lparr>sd_manifest = snap_manifest, sd_scan = snap_scan, sd_sellerCoverage = snap_sellers, sd_proofCoverage = snap_proofs,
     sd_bundle = snap_bundle, sd_plan = plan_document snap_meta [snap_planned]\<rparr>"

definition snap_sha :: "string \<Rightarrow> string" where
  "snap_sha s = padStart 64 (CHR ''0'') (show_nat (length s))"

definition snap_totals :: batch_summary where
  "snap_totals = ex_totals\<lparr>as_reportRoot := Some (JStr snap_root)\<rparr>"

definition snap_shards :: sharded_plan where
  "snap_shards = \<lparr>sp_entries = entries_for (plan_document snap_meta []) 0 [snap_planned], sp_period = Some ex_period, sp_approved = snap_totals\<rparr>"

lemma snap_plan_ok:
  "wf_json (plan_document snap_meta [snap_planned])" "snap_meta \<noteq> []" "\<forall>c\<in>set [snap_planned]. is_object c"
  "text_indexOf marker (before_claims snap_meta @ marker) = Some (length (before_claims snap_meta))"
  by code_simp+

lemma snap_sharded: "shardProofPlan snap_bundle [writePlanFile snap_meta [snap_planned]] = Inr snap_shards"
proof -
  have b: "approved_bundle snap_bundle" and array: "\<forall>c\<in>set [snap_planned]. is_array (mem c ''selectedEvidence'')"
    and period: "map_of snap_meta ''period'' = Some ex_period"
    and summary: "buildApprovedBatchSummary snap_bundle (plan_document snap_meta [snap_planned]) = Inr snap_totals"
    and end_block: "field (mem (plan_document snap_meta [snap_planned]) ''period'') ''endBlockExclusive'' = Inr (Some (JNum 9))"
    and counted: "countClaimMaterializationBlocks snap_planned (minus_one (Some (JNum 9))) = Inr 2" by code_simp+
  have blocks: "\<forall>c\<in>set [snap_planned]. blocks_ok (plan_document snap_meta [snap_planned]) c"
    using end_block counted by (auto simp: blocks_ok_def MAX_PREDICATE_BLOCK_REFS_def)
  have "concat [writePlanFile snap_meta [snap_planned]] = writePlanFile snap_meta [snap_planned]" by simp
  from shard_plan_file [OF this snap_plan_ok(2,1,4,3)] run_claims_Inr [OF b snap_plan_ok(1) array, of snap_shards]
  show ?thesis using summary blocks period by (simp add: snap_shards_def)
qed

theorem plan_summary_streamed_witness:
  "let t = writePlanFile snap_meta [snap_planned] in
   \<exists>s. readProofPlanSummary [take 40 t, drop 40 t] = Inr s \<and> mem s ''claims'' = Some (JArr [claim_stub (Some (JStr snap_id))])"
proof -
  let ?t = "writePlanFile snap_meta [snap_planned]"
  have "concat [take 40 ?t, drop 40 ?t] = ?t" by simp
  from plan_summary_streamed [OF this snap_plan_ok(2,1,4,3)] show ?thesis by (auto simp: snap_planned_def Let_def)
qed

theorem snapshot_lock_accepted_witness:
  "\<exists>lock. buildSnapshotLock snap_sha snap_files (Some (plan_document snap_meta [snap_planned])) ''d'' ''b'' ''p'' = Inr lock
     \<and> validateSnapshotLock lock ''b'' ''p'' snap_bundle (Inr (sp_approved snap_shards))
         \<lparr>digest_bundle = Some (file_digest snap_sha (sf_bundle snap_files)), digest_plan = Some (file_digest snap_sha (concat (sf_plan snap_files)))\<rparr> = Inr ()"
proof -
  let ?plan = "plan_document snap_meta [snap_planned]"
  have "wf_json snap_manifest" "wf_json snap_scan" "wf_json snap_sellers" "wf_json snap_proofs" and wf: "wf_json snap_bundle" by code_simp+
  then have read: "read_documents snap_files (Some ?plan) = Inr snap_documents" and parsed: "JSON_parse (sf_bundle snap_files) = Inr snap_bundle"
    by (simp_all add: read_documents_def snap_files_def snap_documents_def parse_stringify)
  have valid: "validateSnapshotInputs snap_documents = Inr ()" and "\<not> isl (historicalManifestFromBundle snap_sha snap_bundle)"
    and "\<not> isl (lock_cutoff snap_scan)" and evaluated: "mem snap_sellers ''evaluated'' = Some (JArr [JStr snap_seller])"
    and agree: "\<forall>c\<in>set (claims_of snap_bundle). mem c ''type'' \<noteq> Some (JStr ''P0_RECIPROCAL'')" by code_simp+
  then obtain hm cutoff where "historicalManifestFromBundle snap_sha snap_bundle = Inr hm" "lock_cutoff snap_scan = Inr cutoff"
    by (metis sum.collapse(2))
  then have "\<exists>lock. buildSnapshotLock snap_sha snap_files (Some ?plan) ''d'' ''b'' ''p'' = Inr lock"
    using read valid evaluated by (simp add: buildSnapshotLock_def snap_documents_def)
  then obtain lock where lock: "buildSnapshotLock snap_sha snap_files (Some ?plan) ''d'' ''b'' ''p'' = Inr lock" by blast
  have "\<forall>c\<in>set (claims_of snap_bundle). wallets_are_subjects c" using agree by (simp add: wallets_are_subjects_def)
  from snapshot_lock_accepted [OF lock parsed snap_sharded this] lock show ?thesis by blast
qed

end
