(* ===== verification/Coverage_Report.thy ===== *)
theory Coverage_Report
  imports Snapshot
begin

text \<open>
  Two reports over finished work: how much of the approved volume the plan and the results of proving cover
  (\<open>scripts/report-wash-trading-proof-coverage.mjs\<close>), and the discovery artifact updated with the development
  proofs (\<open>scripts/reconcile-development-proof-results.mjs\<close>). The ids of claims are compared as the values they are, and are
  no objects. Reading and writing the files is left out.
\<close>

section \<open>Results\<close>

definition validateResultEntry :: "(string \<Rightarrow> string) \<Rightarrow> json \<Rightarrow> json \<Rightarrow> json option \<Rightarrow> unit res" where
  "validateResultEntry sha256 result planned securityMode =
     (let label = text_of (mem planned ''claimId''); journal = known_text (mem result ''journalBytes'') in
      res_bind (require (same_value (mem result ''claimType'') (mem planned ''type'')
          \<and> map_option stringify (mem result ''subjects'') = map_option stringify (mem planned ''subjects''))
        (label @ '': result identity differs from proof plan'')) (\<lambda>_.
      res_bind (require (hex_text 64 (known_text (mem result ''programVKey''))) (label @ '': invalid SP1 program vkey'')) (\<lambda>_.
      res_bind (require (hex_text (length journal - 2) journal \<and> 3 \<le> length journal
          \<and> hex_text 64 (known_text (mem result ''journalDigest''))) (label @ '': invalid journal encoding'')) (\<lambda>_.
      res_bind (lower_text (mem result ''journalBytes'')) (\<lambda>_. res_bind (lower_text (mem result ''journalDigest'')) (\<lambda>stated.
      res_bind (require (toLowerCase (''0x'' @ sha256 (hexBytes journal)) = stated) (label @ '': journal digest mismatch'')) (\<lambda>_.
      res_bind (require (securityMode \<noteq> Some (JStr ''production'')
          \<or> (js_truthy (mem result ''proofBytes'') \<and> mem result ''proofBytes'' \<noteq> Some (JStr ''0x''))) (label @ '': SP1 proof bytes missing'')) (\<lambda>_.
      require (\<not> present (mem result ''sourceClaimId'') \<or> same_value (mem result ''sourceClaimId'') (mem planned ''claimId''))
        (label @ '': evidence-bound result is linked to the wrong source claim'')))))))))"

definition big_sum :: "json option \<Rightarrow> json option \<Rightarrow> int res" where
  "big_sum x y = res_bind (big_int x) (\<lambda>a. res_bind (big_int y) (\<lambda>b. Inr (a + b)))"

definition result_volume :: "json \<Rightarrow> json \<Rightarrow> int res" where
  "result_volume result planned =
     (let metrics = (if present (mem result ''metrics'') then mem result ''metrics'' else Some (JObj [])); m = (\<lambda>k. Option.bind metrics (\<lambda>v. mem v k)) in
      if mem planned ''type'' = Some (JStr ''P0_RECIPROCAL'') then big_sum (m ''volumeAToBRaw'') (m ''volumeBToARaw'')
      else big_int (m ''qualifiedVolumeRaw''))"

definition validateResultVolume :: "json \<Rightarrow> json \<Rightarrow> int \<Rightarrow> unit res" where
  "validateResultVolume result planned selectedVolume =
     res_bind (result_volume result planned) (\<lambda>proven.
     require (proven = selectedVolume) (text_of (mem planned ''claimId'') @ '': result volume differs from authenticated selected evidence''))"

section \<open>Settlements\<close>

text \<open>An entry of the selected evidence: nothing, or the identity of a settlement and its amount.\<close>

definition settlement_of :: "string \<Rightarrow> json \<Rightarrow> (string \<times> int) option res" where
  "settlement_of label evidence =
     res_bind (field (Some evidence) ''evidenceType'') (\<lambda>ty.
     if ty \<notin> {Some (JStr ''SETTLEMENT''), Some (JStr ''RECIPROCAL_SETTLEMENT'')} then Inr None
     else
       res_bind (if js_truthy (mem evidence ''dependencyLeaf'') then JSON_parse (text_of (mem evidence ''dependencyLeaf'')) else Inr evidence) (\<lambda>dependency.
       res_bind (if present (mem evidence ''receiptLogIndex'') then Inr (mem evidence ''receiptLogIndex'') else field (Some dependency) ''logIndex'') (\<lambda>logIndex.
       res_bind (require (safe_number logIndex \<and> 0 \<le> num_of logIndex) (label @ '': settlement lacks an authenticated receipt log index'')) (\<lambda>_.
       res_bind (field (Some dependency) ''transactionHash'') (\<lambda>transactionHash.
       res_bind (big_int (mem dependency ''amountRaw'')) (\<lambda>amount.
       Inr (Some (toLowerCase (text_of transactionHash @ '':'' @ text_of logIndex), amount))))))))"

record selected =
  selectedVolume :: int
  selectedSettlements :: nat
  selectedLogs :: "(string \<times> int) list"

definition add_settlement :: "string \<Rightarrow> json \<Rightarrow> selected \<Rightarrow> selected res" where
  "add_settlement label evidence s =
     res_bind (settlement_of label evidence) (\<lambda>found. case found of None \<Rightarrow> Inr s
     | Some (identity, amount) \<Rightarrow>
         res_bind (require (map_of (selectedLogs s) identity \<in> {None, Some amount}) (label @ '': conflicting amount for '' @ identity)) (\<lambda>_.
         Inr \<lparr>selectedVolume = selectedVolume s + amount, selectedSettlements = selectedSettlements s + 1,
           selectedLogs = AList.update identity amount (selectedLogs s)\<rparr>))"

section \<open>The report\<close>

record claim_coverage =
  cc_claimId :: "json option"
  cc_type :: "json option"
  cc_subjects :: "json option"
  cc_status :: "json option"
  cc_reportVolume :: int
  cc_selectedVolume :: int
  cc_settlements :: nat
  cc_evidence :: nat
  cc_blocks :: nat
  cc_materialization :: nat
  cc_optimizationMode :: "json option"
  cc_instructionCount :: "json option"
  cc_programVKey :: "json option"

record coverage =
  cv_chainId :: "json option"
  cv_reportRoot :: "json option"
  cv_period :: "json option"
  cv_securityMode :: "json option"
  cv_reportCount :: nat
  cv_planCount :: nat
  cv_resultCount :: nat
  cv_byType :: "(string \<times> nat) list"
  cv_cohortReport :: int
  cv_reciprocalReport :: int
  cv_unique :: int
  cv_cohortSelected :: int
  cv_reciprocalSelected :: int
  cv_logCount :: nat
  cv_cohortBps :: "int option"
  cv_reciprocalBps :: "int option"
  cv_productionProven :: int
  cv_developmentValidated :: int
  cv_perClaim :: "claim_coverage list"

type_synonym keyed_claims = "(json option \<times> json) list"

text \<open>\<open>new Map(list.map((entry) => [key(entry), entry]))\<close>.\<close>

definition mapped :: "(json \<Rightarrow> json option) \<Rightarrow> json option \<Rightarrow> keyed_claims res" where
  "mapped key v = res_bind (case v of Some (JArr js) \<Rightarrow> Inr js | _ \<Rightarrow> Inl TypeError) (\<lambda>js.
     if JNull \<in> set js then Inl TypeError else Inr (map_from (map (\<lambda>j. (key j, j)) js)))"

definition result_key :: "json \<Rightarrow> json option" where
  "result_key e = (if present (mem e ''sourceClaimId'') then mem e ''sourceClaimId'' else mem e ''claimId'')"

definition result_entries :: "json option \<Rightarrow> keyed_claims res" where
  "result_entries given = (let es = (if present given then mem (the given) ''entries'' else None) in
     if present es then mapped result_key es else Inr [])"

definition check_results :: "json \<Rightarrow> json option \<Rightarrow> keyed_claims \<Rightarrow> unit res" where
  "check_results b given resultEntries = (if \<not> js_truthy given then Inr () else
     res_bind (require (mem (the given) ''version'' = Some (JNum 2) \<and> mem (the given) ''kind'' = Some (JStr ''antseed-wash-trading-proof-results'')
         \<and> same_value (mem (the given) ''chainId'') (mem b ''chainId'') \<and> is_array (mem (the given) ''entries'')
         \<and> length resultEntries = length (elements (mem (the given) ''entries'')))
       ''proof results do not match the bundle or contain duplicate claim IDs'') (\<lambda>_.
     require (mem (the given) ''securityMode'' \<in> {Some (JStr ''development''), Some (JStr ''production'')})
       ''proof results use an unknown security mode''))"

definition security_mode :: "json option \<Rightarrow> json option" where
  "security_mode given = (if present given then mem (the given) ''securityMode'' else None)"

definition check_result_entry :: "(string \<Rightarrow> string) \<Rightarrow> keyed_claims \<Rightarrow> json option \<Rightarrow> json option \<times> json \<Rightarrow> unit \<Rightarrow> unit res" where
  "check_result_entry sha256 plannedClaims mode entry u = (case entry of (i, result) \<Rightarrow>
     (case map_of plannedClaims i of None \<Rightarrow> Inl (Error (text_of i @ '': result is absent from proof plan''))
      | Some planned \<Rightarrow> validateResultEntry sha256 result planned mode))"

definition add_report_volume :: "json \<Rightarrow> int \<times> int \<Rightarrow> (int \<times> int) res" where
  "add_report_volume c t = (case t of (cohort, mutual) \<Rightarrow> res_bind (approved_volume c) (\<lambda>v.
     Inr (if mem c ''type'' = Some (JStr ''P0_RECIPROCAL'') then (cohort, mutual + v) else (cohort + v, mutual))))"

definition array_count :: "json option \<Rightarrow> nat res" where
  "array_count v = (case v of Some (JArr js) \<Rightarrow> Inr (length js) | Some (JStr s) \<Rightarrow> Inr (length s) | _ \<Rightarrow> Inl TypeError)"

definition check_volume :: "json option \<Rightarrow> json \<Rightarrow> int \<Rightarrow> unit res" where
  "check_volume result planned selected_volume = (case result of None \<Rightarrow> Inr () | Some e \<Rightarrow> validateResultVolume e planned selected_volume)"

definition claim_row :: "json option \<Rightarrow> json option \<Rightarrow> json option \<Rightarrow> json \<Rightarrow> json \<Rightarrow> selected \<Rightarrow> claim_coverage res" where
  "claim_row mode i result c planned s =
     res_bind (approved_volume c) (\<lambda>reported.
     res_bind (array_count (mem planned ''selectedEvidence'')) (\<lambda>evidence.
     res_bind (array_count (mem planned ''selectedBlocks'')) (\<lambda>blocks.
     res_bind (array_count (mem planned ''materializationBlocks'')) (\<lambda>materialization.
     Inr \<lparr>cc_claimId = i, cc_type = mem c ''type'', cc_subjects = mem c ''subjects'',
       cc_status = (if result \<noteq> None then mode else Some (JStr ''planned'')), cc_reportVolume = reported,
       cc_selectedVolume = selectedVolume s, cc_settlements = selectedSettlements s, cc_evidence = evidence, cc_blocks = blocks,
       cc_materialization = materialization, cc_optimizationMode = mem planned ''optimizationMode'',
       cc_instructionCount = Option.bind result (\<lambda>e. mem e ''instructionCount''), cc_programVKey = Option.bind result (\<lambda>e. mem e ''programVKey'')\<rparr>))))"

definition cover_claim ::
  "keyed_claims \<Rightarrow> keyed_claims \<Rightarrow> json option \<Rightarrow> json option \<times> json \<Rightarrow> claim_coverage list \<times> (string \<times> int) list
    \<Rightarrow> (claim_coverage list \<times> (string \<times> int) list) res" where
  "cover_claim bundleClaims resultEntries mode ip st = (case (ip, st) of ((i, planned), (rows, logs)) \<Rightarrow>
     let label = text_of i in
     (case map_of bundleClaims i of None \<Rightarrow> Inl (Error (label @ '': planned claim is absent from bundle''))
      | Some c \<Rightarrow>
          res_bind (require (same_value (mem planned ''type'') (mem c ''type'')
              \<and> map_option stringify (mem planned ''subjects'') = map_option stringify (mem c ''subjects''))
            (label @ '': proof plan identity differs from bundle'')) (\<lambda>_.
          res_bind (iterate (mem planned ''selectedEvidence'')) (\<lambda>es.
          res_bind (res_fold (add_settlement label) es \<lparr>selectedVolume = 0, selectedSettlements = 0, selectedLogs = logs\<rparr>) (\<lambda>s.
          res_bind (check_volume (map_of resultEntries i) planned (selectedVolume s)) (\<lambda>_.
          res_bind (claim_row mode i (map_of resultEntries i) c planned s) (\<lambda>row.
          Inr (rows @ [row], selectedLogs s))))))))"

text \<open>Division of integers truncates.\<close>

definition ratioBps :: "int \<Rightarrow> int \<Rightarrow> int option" where
  "ratioBps numerator denominator = (if denominator = 0 then None
     else Some (sgn numerator * sgn denominator * (\<bar>numerator * 10000\<bar> div \<bar>denominator\<bar>)))"

definition is_reciprocal :: "claim_coverage \<Rightarrow> bool" where
  "is_reciprocal row \<longleftrightarrow> cc_type row = Some (JStr ''P0_RECIPROCAL'')"

definition row_volume :: "bool \<Rightarrow> claim_coverage list \<Rightarrow> int" where
  "row_volume mutual rows = sum_list (map cc_selectedVolume (filter (\<lambda>row. is_reciprocal row = mutual) rows))"

definition count_type :: "claim_coverage \<Rightarrow> (string \<times> nat) list \<Rightarrow> (string \<times> nat) list" where
  "count_type row counts = (let k = text_of (cc_type row) in
     AList.update k ((case map_of counts k of None \<Rightarrow> 0 | Some n \<Rightarrow> n) + 1) counts)"

definition coverage_of ::
  "json \<Rightarrow> json option \<Rightarrow> keyed_claims \<Rightarrow> keyed_claims \<Rightarrow> int \<times> int \<Rightarrow> claim_coverage list \<times> (string \<times> int) list \<Rightarrow> coverage" where
  "coverage_of b given plannedClaims resultEntries report st = (case st of (rows, logs) \<Rightarrow>
     let unique = sum_list (map snd logs); cohort = row_volume False rows; mutual = row_volume True rows;
         completed = (if present given then length (filter (\<lambda>row. map_of resultEntries (cc_claimId row) \<noteq> None) rows) else 0);
         finished = (\<lambda>mode. if security_mode given = Some (JStr mode) \<and> completed = length plannedClaims then unique else 0) in
     \<lparr>cv_chainId = mem b ''chainId'', cv_reportRoot = mem b ''reportRoot'', cv_period = mem b ''period'',
       cv_securityMode = (if present (security_mode given) then security_mode given else Some (JStr ''planned'')),
       cv_reportCount = length (claims_of b), cv_planCount = length plannedClaims, cv_resultCount = completed,
       cv_byType = fold count_type rows [], cv_cohortReport = fst report, cv_reciprocalReport = snd report, cv_unique = unique,
       cv_cohortSelected = cohort, cv_reciprocalSelected = mutual, cv_logCount = length logs,
       cv_cohortBps = ratioBps cohort (fst report), cv_reciprocalBps = ratioBps mutual (snd report),
       cv_productionProven = finished ''production'', cv_developmentValidated = finished ''development'', cv_perClaim = rows\<rparr>)"

definition check_identities :: "json \<Rightarrow> json \<Rightarrow> keyed_claims \<Rightarrow> keyed_claims \<Rightarrow> unit res" where
  "check_identities b pl bundleClaims plannedClaims =
     res_bind (require (length bundleClaims = length (claims_of b)) ''proof bundle contains duplicate claim IDs'') (\<lambda>_.
     require (mem pl ''claimCount'' = Some (JNum (int (length plannedClaims))) \<and> length plannedClaims = length (claims_of pl))
       ''proof plan contains duplicate claim IDs or an invalid claim count'')"

definition buildCoverageReport :: "(string \<Rightarrow> string) \<Rightarrow> json \<Rightarrow> json \<Rightarrow> json option \<Rightarrow> coverage res" where
  "buildCoverageReport sha256 b pl given =
     res_bind (require (mem b ''version'' = Some (JNum 1) \<and> mem pl ''version'' = Some (JNum 2)
         \<and> same_value (mem b ''reportRoot'') (mem pl ''reportRoot'')) ''bundle and plan do not share the current report root'') (\<lambda>_.
     res_bind (mapped (\<lambda>c. mem c ''claimId'') (mem b ''claims'')) (\<lambda>bundleClaims.
     res_bind (mapped (\<lambda>c. mem c ''claimId'') (mem pl ''claims'')) (\<lambda>plannedClaims.
     res_bind (check_identities b pl bundleClaims plannedClaims) (\<lambda>_.
     res_bind (result_entries given) (\<lambda>resultEntries.
     res_bind (check_results b given resultEntries) (\<lambda>_.
     res_bind (res_fold (check_result_entry sha256 plannedClaims (security_mode given)) resultEntries ()) (\<lambda>_.
     res_bind (res_fold add_report_volume (claims_of b) (0, 0)) (\<lambda>report.
     res_bind (res_fold (cover_claim bundleClaims resultEntries (security_mode given)) plannedClaims ([], [])) (\<lambda>st.
     Inr (coverage_of b given plannedClaims resultEntries report st))))))))))"


section \<open>Reconciling the discovery\<close>

definition development_proof :: "json \<Rightarrow> bool" where
  "development_proof p \<longleftrightarrow> mem p ''version'' = Some (JNum 3) \<and> mem p ''kind'' = Some (JStr ''antseed-wash-trading-seller-proof'')
     \<and> mem p ''proofArchitecture'' = Some (JStr ''direct-seller-v1'') \<and> mem p ''securityMode'' = Some (JStr ''development'')
     \<and> mem p ''evidenceFormat'' = Some (JStr ''single-bundle-v1'') \<and> mem p ''claimCount'' = Some (JNum 1)
     \<and> positive_decimal (known_text (mem p ''totalSellerVolumeRaw'')) \<and> mem p ''proved'' = Some (JBool True)
     \<and> mem p ''verified'' = Some (JBool True) \<and> is_array (mem p ''sourceClaimIds'') \<and> length (elements (mem p ''sourceClaimIds'')) = 1"

definition claim_of_seller :: "(string \<times> json) list \<Rightarrow> string \<Rightarrow> json \<Rightarrow> unit \<Rightarrow> unit res" where
  "claim_of_seller cs sl i u =
     (let unapproved = sl @ '': proof references an unapproved seller claim '' @ js_text i in
      case map_of cs (toLowerCase (js_text i)) of None \<Rightarrow> Inl (Error unapproved)
      | Some c \<Rightarrow>
          res_bind (case mem c ''subjects'' of Some (JArr js) \<Rightarrow> res_map (\<lambda>s. manifest_address (Some s)) js | _ \<Rightarrow> Inl TypeError) (\<lambda>subjects.
          require (sl \<in> set subjects) unapproved))"

record reconciling =
  proofsBySeller :: "(string \<times> json) list"
  commonVKey :: "string option"

definition reconcile_proof :: "(string \<times> json) list \<Rightarrow> json \<Rightarrow> reconciling \<Rightarrow> reconciling res" where
  "reconcile_proof cs p s =
     res_bind (require (development_proof p) ''invalid development direct seller proof artifact'') (\<lambda>_.
     res_bind (manifest_address (mem p ''seller'')) (\<lambda>sl.
     res_bind (require (map_of (proofsBySeller s) sl = None) (''multiple proofs for seller '' @ sl)) (\<lambda>_.
     res_bind (res_fold (claim_of_seller cs sl) (elements (mem p ''sourceClaimIds'')) ()) (\<lambda>_.
     res_bind (manifest_hash (mem p ''sellerProgramVKey'') (''bytes32 '' @ text_of (mem p ''sellerProgramVKey''))) (\<lambda>vkey.
     res_bind (require (commonVKey s \<in> {None, Some vkey}) ''development seller proofs use different program vkeys'') (\<lambda>_.
     Inr \<lparr>proofsBySeller = proofsBySeller s @ [(sl, p)], commonVKey = Some vkey\<rparr>))))))"

definition proof_members :: "json \<Rightarrow> json" where
  "proof_members p = JObj (known_members (map (\<lambda>k. (k, if k = ''proofPath'' \<and> mem p k = None then Some JNull else mem p k))
     [''proofArchitecture'', ''securityMode'', ''sourceClaimIds'', ''sellerProgramVKey'', ''publicValues'', ''proofBytes'', ''proofPath'',
      ''provenWashVolumeRaw'', ''totalSellerVolumeRaw'', ''evidenceDigest'', ''blockAuthenticationRoot'']))"

definition reconcile_candidate :: "(string \<times> json) list \<Rightarrow> json \<Rightarrow> json res" where
  "reconcile_candidate proofs candidate =
     res_bind (manifest_address (mem candidate ''seller'')) (\<lambda>sl.
     Inr (case map_of proofs sl of None \<Rightarrow> candidate
       | Some p \<Rightarrow> if mem candidate ''state'' \<noteq> Some (JStr ''proof_candidate'') then candidate
           else obj_assign candidate [(''state'', JStr ''proof_validated''), (''proof'', proof_members p)]))"

definition candidate_states :: "string list" where
  "candidate_states = [''not_eligible'', ''incomplete'', ''complete_no_loop'', ''proof_candidate'', ''predicate_rejected'', ''proof_validated'']"

definition state_counts :: "json list \<Rightarrow> json" where
  "state_counts cs = JObj (map (\<lambda>s. (s, JNum (int (length (filter (\<lambda>c. mem c ''state'' = Some (JStr s)) cs))))) candidate_states)"

text \<open>\<open>a ?? b\<close> over members, and the row of a seller in the report.\<close>

definition first_known :: "json option list \<Rightarrow> json option" where
  "first_known vs = (case filter present vs of [] \<Rightarrow> None | v # _ \<Rightarrow> v)"

record seller_row =
  row_seller :: string
  row_displayName :: "json option"
  row_state :: "json option"
  row_requested :: "json option"
  row_completed :: "json option"
  row_pathCount :: "json option"
  row_destinations :: "string list"
  row_retained :: "json option"
  row_selected :: "json option"
  row_bottleneck :: "json option"
  row_shareBps :: "json option"
  row_proof :: "json option"
  row_rejection :: "json option"

definition share_bps :: "json option \<Rightarrow> json option \<Rightarrow> json option \<Rightarrow> json option res" where
  "share_bps stated selectedRaw sellerRaw = (if present stated then Inr stated else
     res_bind (big_int sellerRaw) (\<lambda>v. if v = 0 then Inr (Some (JNum 0)) else
     res_bind (big_int selectedRaw) (\<lambda>s. Inr (map_option JNum (ratioBps s v)))))"

definition rejection :: "json \<Rightarrow> json option \<Rightarrow> json option" where
  "rejection candidate deficits =
     (if mem candidate ''state'' = Some (JStr ''complete_no_loop'') then Some (JStr ''no_fragmented_relay_convergence'')
      else if mem candidate ''state'' = Some (JStr ''predicate_rejected'') then first_known [deficits, Some (JStr ''predicate_rejected'')]
      else None)"

definition sellerResult :: "json \<Rightarrow> json option \<Rightarrow> seller_row res" where
  "sellerResult candidate diagnostics =
     (let d = (\<lambda>k. Option.bind diagnostics (\<lambda>j. mem j k));
          selectedRaw = first_known [d ''selectedSettlementRaw'', sub_mem candidate ''proof'' ''provenWashVolumeRaw'', Some (JStr ''0'')];
          sellerRaw = first_known [d ''sellerVolumeRaw'', sub_mem candidate ''eligibility'' ''sellerVolumeRaw'', Some (JStr ''0'')] in
      res_bind (share_bps (d ''selectedShareBps'') selectedRaw sellerRaw) (\<lambda>share.
      res_bind (field (mem candidate ''traceCoverage'') ''requested'') (\<lambda>requested.
      res_bind (field (mem candidate ''traceCoverage'') ''completed'') (\<lambda>completed.
      res_bind (if present (mem candidate ''convergences'') then (case mem candidate ''convergences'' of Some (JArr js) \<Rightarrow>
          res_map (\<lambda>e. field (Some e) ''destination'') js | _ \<Rightarrow> Inl TypeError) else Inr []) (\<lambda>destinations.
      Inr \<lparr>row_seller = text_of (mem candidate ''seller''), row_displayName = mem candidate ''displayName'', row_state = mem candidate ''state'',
        row_requested = requested, row_completed = completed, row_pathCount = mem candidate ''pathCount'',
        row_destinations = sort_strings (js_set (map text_of destinations)), row_retained = d ''retainedFundingRaw'', row_selected = selectedRaw,
        row_bottleneck = first_known [d ''bottleneckReturnRaw'', mem candidate ''bottleneckReturnRaw''], row_shareBps = share,
        row_proof = mem candidate ''proof'', row_rejection = rejection candidate (d ''deficits'')\<rparr>)))))"

record reconciliation_report =
  rr_reportRoot :: "json option"
  rr_sellerProgramVKey :: "string option"
  rr_proofCount :: nat
  rr_totalSellerVolumeRaw :: int
  rr_totalProvenWashVolumeRaw :: int
  rr_sellers :: "seller_row list"

definition by_address :: "json list \<Rightarrow> (string \<times> json) list res" where
  "by_address js = res_bind (res_map (\<lambda>j. res_bind (manifest_address (mem j ''seller'')) (\<lambda>sl. Inr (sl, j))) js) (\<lambda>kvs. Inr (map_from kvs))"

definition investigated_row :: "(string \<times> json) list \<Rightarrow> json \<Rightarrow> seller_row res" where
  "investigated_row diagnosticsBySeller candidate =
     res_bind (manifest_address (mem candidate ''seller'')) (\<lambda>sl. sellerResult candidate (map_of diagnosticsBySeller sl))"

definition investigated :: "json \<Rightarrow> bool" where
  "investigated candidate \<longleftrightarrow>
     mem candidate ''state'' \<in> {Some (JStr ''complete_no_loop''), Some (JStr ''predicate_rejected''), Some (JStr ''proof_validated'')}"

definition check_discovery :: "json \<Rightarrow> json \<Rightarrow> unit res" where
  "check_discovery discovery b =
     res_bind (require (mem discovery ''version'' = Some (JNum 1) \<and> mem discovery ''kind'' = Some (JStr ''antseed-p0-loop-discovery'')
         \<and> is_array (mem discovery ''candidates'')) ''invalid P0 discovery artifact'') (\<lambda>_.
     require (mem b ''version'' = Some (JNum 1) \<and> mem b ''kind'' = Some (JStr ''antseed-wash-trading-proof-bundle'')
         \<and> is_array (mem b ''claims'')) ''invalid approved proof bundle'')"

definition reconcileDevelopmentProofResults ::
  "json \<Rightarrow> json \<Rightarrow> json list \<Rightarrow> json list \<Rightarrow> (json \<times> reconciliation_report) res" where
  "reconcileDevelopmentProofResults discovery b proofs diagnostics =
     res_bind (check_discovery discovery b) (\<lambda>_.
     res_bind (claims_by_id b) (\<lambda>cs.
     res_bind (res_fold (reconcile_proof cs) proofs \<lparr>proofsBySeller = [], commonVKey = None\<rparr>) (\<lambda>s.
     res_bind (by_address diagnostics) (\<lambda>diagnosticsBySeller.
     res_bind (res_map (reconcile_candidate (proofsBySeller s)) (elements (mem discovery ''candidates''))) (\<lambda>candidates.
     res_bind (res_map (investigated_row diagnosticsBySeller) (filter investigated candidates)) (\<lambda>rows.
     res_bind (sum_member ''totalSellerVolumeRaw'' proofs) (\<lambda>t.
     res_bind (sum_member ''provenWashVolumeRaw'' proofs) (\<lambda>proven.
     Inr (obj_assign discovery [(''counts'', state_counts candidates), (''candidates'', JArr candidates)],
       \<lparr>rr_reportRoot = mem b ''reportRoot'', rr_sellerProgramVKey = commonVKey s, rr_proofCount = length proofs,
         rr_totalSellerVolumeRaw = t, rr_totalProvenWashVolumeRaw = proven,
         rr_sellers = js_sort (\<lambda>l r. localeCompare (row_seller l) (row_seller r)) rows\<rparr>)))))))))"


section \<open>Every settlement is counted once\<close>

lemma add_settlement_Inr:
  "add_settlement label e s = Inr s' \<longleftrightarrow> (settlement_of label e = Inr None \<and> s' = s)
     \<or> (\<exists>i a. settlement_of label e = Inr (Some (i, a)) \<and> map_of (selectedLogs s) i \<in> {None, Some a}
        \<and> s' = \<lparr>selectedVolume = selectedVolume s + a, selectedSettlements = selectedSettlements s + 1,
           selectedLogs = AList.update i a (selectedLogs s)\<rparr>)"
  by (auto simp: add_settlement_def res_bind_Inr split: option.splits)

definition some_entries :: "'a option list \<Rightarrow> 'a list" where
  "some_entries xs = List.map_filter (\<lambda>x. x) xs"

lemma some_entries_simps [simp]:
  "some_entries [] = []" "some_entries (None # xs) = some_entries xs" "some_entries (Some x # xs) = x # some_entries xs"
  by (simp_all add: some_entries_def map_filter_simps)

lemma set_update:
  assumes "distinct (map fst al)" and "map_of al k \<in> {None, Some v}"
  shows "set (AList.update k v al) = insert (k, v) (set al)" and "distinct (map fst (AList.update k v al))"
proof -
  show "distinct (map fst (AList.update k v al))" using assms(1) by (rule distinct_update)
  show "set (AList.update k v al) = insert (k, v) (set al)"
    using assms
  proof (induction al)
    case (Cons x al)
    show ?case
    proof (cases "fst x = k")
      case True
      then show ?thesis using Cons.prems(2) by (cases x) auto
    next
      case False
      then show ?thesis using Cons by (cases x) auto
    qed
  qed simp
qed

lemma add_settlements:
  assumes "res_fold (add_settlement label) es s = Inr s'" and "distinct (map fst (selectedLogs s))"
  shows "\<exists>found. res_map (settlement_of label) es = Inr found \<and> selectedVolume s' = selectedVolume s + sum_list (map snd (some_entries found))
     \<and> set (selectedLogs s') = set (selectedLogs s) \<union> set (some_entries found) \<and> distinct (map fst (selectedLogs s'))"
  using assms
proof (induction es arbitrary: s)
  case (Cons e es)
  obtain mid where mid: "add_settlement label e s = Inr mid" and rest: "res_fold (add_settlement label) es mid = Inr s'"
    using Cons.prems(1) by (auto split: sum.splits)
  obtain x where x: "settlement_of label e = Inr x" and volume: "selectedVolume mid = selectedVolume s + sum_list (map snd (some_entries [x]))"
      and logs: "set (selectedLogs mid) = set (selectedLogs s) \<union> set (some_entries [x])" "distinct (map fst (selectedLogs mid))"
    using mid set_update [OF Cons.prems(2)] Cons.prems(2) unfolding add_settlement_Inr by force
  obtain found where found: "res_map (settlement_of label) es = Inr found" "selectedVolume s' = selectedVolume mid + sum_list (map snd (some_entries found))"
      "set (selectedLogs s') = set (selectedLogs mid) \<union> set (some_entries found)" "distinct (map fst (selectedLogs s'))"
    using Cons.IH [OF rest logs(2)] by blast
  have "res_map (settlement_of label) (e # es) = Inr (x # found)" using x found(1) by simp
  then show ?case using volume logs(1) found by (intro exI [of _ "x # found"]) (cases x; auto)
qed auto

text \<open>The settlements of a planned claim.\<close>

definition claim_settlements :: "json option \<times> json \<Rightarrow> (string \<times> int) list" where
  "claim_settlements ip = (case ip of (i, planned) \<Rightarrow>
     (case res_bind (iterate (mem planned ''selectedEvidence'')) (res_map (settlement_of (text_of i))) of
        Inl e \<Rightarrow> [] | Inr found \<Rightarrow> some_entries found))"

text \<open>What a row says of its claim.\<close>

definition row_of :: "keyed_claims \<Rightarrow> json option \<times> json \<Rightarrow> claim_coverage \<Rightarrow> bool" where
  "row_of resultEntries ip row \<longleftrightarrow> cc_claimId row = fst ip \<and> cc_selectedVolume row = sum_list (map snd (claim_settlements ip))
     \<and> (\<forall>e. map_of resultEntries (fst ip) = Some e \<longrightarrow> result_volume e (snd ip) = Inr (cc_selectedVolume row))"

lemma cover_claim_Inr:
  assumes "cover_claim bundleClaims resultEntries mode ip (rows, logs) = Inr st" and "distinct (map fst logs)"
  shows "\<exists>row logs'. st = (rows @ [row], logs') \<and> row_of resultEntries ip row \<and> set logs' = set logs \<union> set (claim_settlements ip)
     \<and> distinct (map fst logs')"
proof -
  obtain i planned where ip: "ip = (i, planned)" by (cases ip)
  let ?start = "\<lparr>selectedVolume = 0, selectedSettlements = 0, selectedLogs = logs\<rparr>"
  obtain c es s row u where es: "iterate (mem planned ''selectedEvidence'') = Inr es"
      and s: "res_fold (add_settlement (text_of i)) es ?start = Inr s"
      and volume: "check_volume (map_of resultEntries i) planned (selectedVolume s) = Inr u"
      and row: "claim_row mode i (map_of resultEntries i) c planned s = Inr row" and st: "st = (rows @ [row], selectedLogs s)"
    using assms(1) unfolding cover_claim_def ip Let_def prod.case
    by (auto simp: res_bind_Inr split: option.splits)
  obtain found where found: "res_map (settlement_of (text_of i)) es = Inr found" "selectedVolume s = sum_list (map snd (some_entries found))"
      "set (selectedLogs s) = set logs \<union> set (some_entries found)" "distinct (map fst (selectedLogs s))"
    using add_settlements [OF s] assms(2) by auto
  have settlements: "claim_settlements ip = some_entries found" by (simp add: claim_settlements_def ip es found(1))
  have members: "cc_claimId row = i" "cc_selectedVolume row = selectedVolume s" using row by (auto simp: claim_row_def res_bind_Inr)
  have "row_of resultEntries ip row"
    unfolding row_of_def settlements using members found(2) volume by (auto simp: ip check_volume_def validateResultVolume_def res_bind_Inr)
  then show ?thesis using st found settlements by auto
qed

lemma cover_claims:
  assumes "res_fold (cover_claim bundleClaims resultEntries mode) ips (rows, logs) = Inr st" and "distinct (map fst logs)"
  shows "\<exists>more logs'. st = (rows @ more, logs') \<and> list_all2 (row_of resultEntries) ips more
     \<and> set logs' = set logs \<union> (\<Union>ip\<in>set ips. set (claim_settlements ip)) \<and> distinct (map fst logs')"
  using assms
proof (induction ips arbitrary: rows logs)
  case (Cons ip ips)
  obtain mid where mid: "cover_claim bundleClaims resultEntries mode ip (rows, logs) = Inr mid"
    and rest: "res_fold (cover_claim bundleClaims resultEntries mode) ips mid = Inr st"
    using Cons.prems(1) by (auto split: sum.splits)
  obtain row logs1 where one: "mid = (rows @ [row], logs1)" "row_of resultEntries ip row"
      "set logs1 = set logs \<union> set (claim_settlements ip)" "distinct (map fst logs1)"
    using cover_claim_Inr [OF mid Cons.prems(2)] by blast
  obtain more logs' where "st = ((rows @ [row]) @ more, logs')" "list_all2 (row_of resultEntries) ips more"
      "set logs' = set logs1 \<union> (\<Union>ip\<in>set ips. set (claim_settlements ip))" "distinct (map fst logs')"
    using Cons.IH [OF rest [unfolded one(1)] one(4)] by blast
  then show ?case using one by (intro exI [of _ "row # more"] exI [of _ logs']) auto
qed auto

lemma rows_split: "row_volume False rows + row_volume True rows = sum_list (map cc_selectedVolume rows)"
  by (induction rows) (auto simp: row_volume_def)

lemma coverage_proven:
  "cv_productionProven (coverage_of b given plannedClaims resultEntries report (rows, logs)) \<noteq> 0 \<Longrightarrow>
     security_mode given = Some (JStr ''production'')
     \<and> length (filter (\<lambda>row. map_of resultEntries (cc_claimId row) \<noteq> None) rows) = length plannedClaims"
  by (auto simp: coverage_of_def Let_def security_mode_def split: if_splits)

lemma all_filtered: "length (filter P xs) = length xs \<Longrightarrow> x \<in> set xs \<Longrightarrow> P x"
  by (metis filter_id_conv filter_True length_filter_less less_irrefl)



section \<open>Only proven candidates are validated\<close>

text \<open>A verified development proof of a seller, from one approved claim of that seller, by the program of the report.\<close>

definition subject_addresses :: "json \<Rightarrow> string list res" where
  "subject_addresses c = (case mem c ''subjects'' of Some (JArr js) \<Rightarrow> res_map (\<lambda>s. manifest_address (Some s)) js | _ \<Rightarrow> Inl TypeError)"

definition approved_source :: "(string \<times> json) list \<Rightarrow> string \<Rightarrow> json \<Rightarrow> bool" where
  "approved_source cs sl i \<longleftrightarrow> (\<exists>c subs. map_of cs (toLowerCase (js_text i)) = Some c \<and> subject_addresses c = Inr subs \<and> sl \<in> set subs)"

definition proves_seller :: "(string \<times> json) list \<Rightarrow> string option \<Rightarrow> string \<Rightarrow> json \<Rightarrow> bool" where
  "proves_seller cs vkey sl p \<longleftrightarrow> development_proof p \<and> manifest_address (mem p ''seller'') = Inr sl
     \<and> (\<forall>i\<in>set (elements (mem p ''sourceClaimIds'')). approved_source cs sl i)
     \<and> (\<exists>k. vkey = Some k \<and> lower_text (mem p ''sellerProgramVKey'') = Inr k)"

lemma claims_of_seller:
  "res_fold (claim_of_seller cs sl) is u = Inr w \<Longrightarrow> i \<in> set is \<Longrightarrow> approved_source cs sl i"
proof (induction "is" arbitrary: u)
  case (Cons x xs)
  obtain u' where x: "claim_of_seller cs sl x u = Inr u'" and rest: "res_fold (claim_of_seller cs sl) xs u' = Inr w"
    using Cons.prems(1) by (auto split: sum.splits)
  have "approved_source cs sl x"
    using x by (auto simp: claim_of_seller_def approved_source_def subject_addresses_def Let_def res_bind_Inr split: option.splits)
  then show ?case using Cons.IH [OF rest] Cons.prems(2) by auto
qed simp

definition reconciling_invariant :: "(string \<times> json) list \<Rightarrow> json list \<Rightarrow> reconciling \<Rightarrow> bool" where
  "reconciling_invariant cs proofs s \<longleftrightarrow> distinct (map fst (proofsBySeller s))
     \<and> (\<forall>(sl, p)\<in>set (proofsBySeller s). p \<in> set proofs \<and> proves_seller cs (commonVKey s) sl p)"

lemma reconcile_proof_invariant:
  assumes "reconcile_proof cs p s = Inr s'" and "reconciling_invariant cs proofs s" and "p \<in> set proofs"
  shows "reconciling_invariant cs proofs s'"
proof -
  from assms(1) obtain sl vkey u where p: "development_proof p" "manifest_address (mem p ''seller'') = Inr sl"
      and new: "map_of (proofsBySeller s) sl = None" and sources: "res_fold (claim_of_seller cs sl) (elements (mem p ''sourceClaimIds'')) () = Inr u"
      and key: "manifest_hash (mem p ''sellerProgramVKey'') (''bytes32 '' @ text_of (mem p ''sellerProgramVKey'')) = Inr vkey"
        "commonVKey s \<in> {None, Some vkey}"
      and s': "Inr \<lparr>proofsBySeller = proofsBySeller s @ [(sl, p)], commonVKey = Some vkey\<rparr> = Inr s'"
    unfolding reconcile_proof_def res_bind_Inr require_Inr by blast
  have s': "s' = \<lparr>proofsBySeller = proofsBySeller s @ [(sl, p)], commonVKey = Some vkey\<rparr>" using s' by simp
  have "lower_text (mem p ''sellerProgramVKey'') = Inr vkey" using key(1) by (auto simp: manifest_hash_def res_bind_Inr)
  then have proves: "proves_seller cs (Some vkey) sl p" using p claims_of_seller [OF sources] by (simp add: proves_seller_def)
  have same: "proves_seller cs (Some vkey) sl' p'" if "proves_seller cs (commonVKey s) sl' p'" for sl' p'
    using that key(2) by (auto simp: proves_seller_def)
  show ?thesis using assms(2,3) proves same new unfolding reconciling_invariant_def s'
    by (auto simp: map_of_eq_None_iff)
qed

lemma reconciled_proofs:
  assumes "res_fold (reconcile_proof cs) ps s = Inr s'" and "reconciling_invariant cs proofs s" and "set ps \<subseteq> set proofs"
  shows "reconciling_invariant cs proofs s'"
proof -
  have "x \<in> set ps \<Longrightarrow> reconciling_invariant cs proofs s1 \<Longrightarrow> reconcile_proof cs x s1 = Inr t \<Longrightarrow> reconciling_invariant cs proofs t" for x s1 t
    using reconcile_proof_invariant assms(3) by blast
  from res_fold_invariant [of "reconcile_proof cs" ps s s' "reconciling_invariant cs proofs", OF assms(1,2) this] show ?thesis .
qed

text \<open>What may happen to a candidate.\<close>

definition reconciled :: "(string \<times> json) list \<Rightarrow> string option \<Rightarrow> json list \<Rightarrow> json \<Rightarrow> json \<Rightarrow> bool" where
  "reconciled cs vkey proofs c c' \<longleftrightarrow> c' = c \<or>
     (mem c ''state'' = Some (JStr ''proof_candidate'') \<and> mem c' ''state'' = Some (JStr ''proof_validated'')
      \<and> (\<forall>k. k \<notin> {''state'', ''proof''} \<longrightarrow> mem c' k = mem c k)
      \<and> (\<exists>p\<in>set proofs. \<exists>sl. manifest_address (mem c ''seller'') = Inr sl \<and> proves_seller cs vkey sl p
           \<and> mem c' ''proof'' = Some (proof_members p)))"

lemma reconcile_candidate_Inr:
  assumes "reconcile_candidate (proofsBySeller s) c = Inr c'" and "reconciling_invariant cs proofs s"
  shows "reconciled cs (commonVKey s) proofs c c'"
proof -
  obtain sl where sl: "manifest_address (mem c ''seller'') = Inr sl" and c': "c' = (case map_of (proofsBySeller s) sl of None \<Rightarrow> c
       | Some p \<Rightarrow> if mem c ''state'' \<noteq> Some (JStr ''proof_candidate'') then c
           else obj_assign c [(''state'', JStr ''proof_validated''), (''proof'', proof_members p)])"
    using assms(1) by (auto simp: reconcile_candidate_def res_bind_Inr)
  show ?thesis
  proof (cases "map_of (proofsBySeller s) sl")
    case (Some p)
    then have "p \<in> set proofs" "proves_seller cs (commonVKey s) sl p"
      using assms(2) by (auto simp: reconciling_invariant_def dest!: map_of_SomeD)
    then show ?thesis using sl unfolding c' Some reconciled_def by (auto simp: mem_assigned)
  qed (simp add: c' reconciled_def)
qed

lemma reconcile_sellers:
  assumes "res_fold (reconcile_proof cs) ps s = Inr s'"
  shows "\<exists>sellers. res_map (\<lambda>p. manifest_address (mem p ''seller'')) ps = Inr sellers \<and> map fst (proofsBySeller s') = map fst (proofsBySeller s) @ sellers"
  using assms
proof (induction ps arbitrary: s)
  case (Cons p ps)
  obtain mid where mid: "reconcile_proof cs p s = Inr mid" and rest: "res_fold (reconcile_proof cs) ps mid = Inr s'"
    using Cons.prems by (auto split: sum.splits)
  obtain sl where sl: "manifest_address (mem p ''seller'') = Inr sl" "proofsBySeller mid = proofsBySeller s @ [(sl, p)]"
    using mid by (auto simp: reconcile_proof_def res_bind_Inr)
  obtain sellers where "res_map (\<lambda>p. manifest_address (mem p ''seller'')) ps = Inr sellers" "map fst (proofsBySeller s') = map fst (proofsBySeller mid) @ sellers"
    using Cons.IH [OF rest] by blast
  then show ?case using sl by simp
qed simp

text \<open>C37: Reconciling leaves every candidate as it is, in its place, except that a proof candidate becomes validated when there is a verified development
  proof of its seller from one approved claim naming that seller; all such proofs are by one program, whose key the report states, and no seller
  has two. The report counts all proofs, and its total is the sum of their volumes.\<close>

theorem reconciled_by_proofs:
  assumes "reconcileDevelopmentProofResults discovery b proofs diagnostics = Inr (discovery', report)"
  shows "\<exists>cs sellers. claims_by_id b = Inr cs
     \<and> list_all2 (reconciled cs (rr_sellerProgramVKey report) proofs) (elements (mem discovery ''candidates'')) (elements (mem discovery' ''candidates''))
     \<and> (\<forall>k. k \<notin> {''counts'', ''candidates''} \<longrightarrow> mem discovery' k = mem discovery k)
     \<and> res_map (\<lambda>p. manifest_address (mem p ''seller'')) proofs = Inr sellers \<and> distinct sellers
     \<and> rr_proofCount report = length proofs
     \<and> rr_totalProvenWashVolumeRaw report = (\<Sum>p\<leftarrow>proofs. projr (big_int (mem p ''provenWashVolumeRaw'')))"
proof -
  from assms obtain cs s diagnosticsBySeller candidates rows t proven
    where cs: "claims_by_id b = Inr cs"
      and s: "res_fold (reconcile_proof cs) proofs \<lparr>proofsBySeller = [], commonVKey = None\<rparr> = Inr s"
      and candidates: "res_map (reconcile_candidate (proofsBySeller s)) (elements (mem discovery ''candidates'')) = Inr candidates"
      and proven: "sum_member ''provenWashVolumeRaw'' proofs = Inr proven"
      and result: "Inr (obj_assign discovery [(''counts'', state_counts candidates), (''candidates'', JArr candidates)],
         \<lparr>rr_reportRoot = mem b ''reportRoot'', rr_sellerProgramVKey = commonVKey s, rr_proofCount = length proofs,
           rr_totalSellerVolumeRaw = t, rr_totalProvenWashVolumeRaw = proven,
           rr_sellers = js_sort (\<lambda>l r. localeCompare (row_seller l) (row_seller r)) rows\<rparr>) = Inr (discovery', report)"
    unfolding reconcileDevelopmentProofResults_def res_bind_Inr by blast
  have d: "discovery' = obj_assign discovery [(''counts'', state_counts candidates), (''candidates'', JArr candidates)]"
    and report: "rr_sellerProgramVKey report = commonVKey s" "rr_proofCount report = length proofs" "rr_totalProvenWashVolumeRaw report = proven"
    using result by auto
  have inv: "reconciling_invariant cs proofs s"
    by (rule reconciled_proofs [OF s]) (simp_all add: reconciling_invariant_def)
  have "list_all2 (reconciled cs (commonVKey s) proofs) (elements (mem discovery ''candidates'')) candidates"
    using candidates unfolding res_map_Inr_iff by (rule list_all2_mono) (rule reconcile_candidate_Inr [OF _ inv])
  moreover have "elements (mem discovery' ''candidates'') = candidates" by (simp add: d mem_assigned elements_def)
  moreover have "\<forall>k. k \<notin> {''counts'', ''candidates''} \<longrightarrow> mem discovery' k = mem discovery k" by (simp add: d mem_assigned)
  moreover obtain sellers where "res_map (\<lambda>p. manifest_address (mem p ''seller'')) proofs = Inr sellers" "map fst (proofsBySeller s) = sellers"
    using reconcile_sellers [OF s] by auto
  moreover have "distinct (map fst (proofsBySeller s))" using inv by (simp add: reconciling_invariant_def)
  ultimately show ?thesis using cs report sum_member_Inr [OF proven] by auto
qed

section \<open>Examples\<close>

definition cov_bundle :: json where
  "cov_bundle = JObj [(''version'', JNum 1), (''kind'', JStr ''antseed-wash-trading-proof-bundle''), (''chainId'', JNum 8453), (''reportRoot'', JStr ''0xr''),
     (''claims'', JArr [JObj [(''claimId'', JStr ''0xc''), (''type'', JStr ''P0_CLOSED_LOOP''), (''subjects'', JArr [JStr snap_seller]),
        (''metrics'', JObj [(''qualifiedVolumeRaw'', JStr ''10'')])]])]"

definition cov_plan :: json where
  "cov_plan = JObj [(''version'', JNum 2), (''reportRoot'', JStr ''0xr''), (''claimCount'', JNum 1), (''claims'', JArr [JObj [(''claimId'', JStr ''0xc''),
     (''type'', JStr ''P0_CLOSED_LOOP''), (''subjects'', JArr [JStr snap_seller]), (''selectedBlocks'', JArr []), (''materializationBlocks'', JArr []),
     (''selectedEvidence'', JArr [JObj [(''evidenceType'', JStr ''SETTLEMENT''), (''transactionHash'', JStr ''0x1''), (''logIndex'', JNum 2), (''amountRaw'', JStr ''5'')],
        JObj [(''evidenceType'', JStr ''USDC_FUNDING'')]])]])]"

definition cov_results :: json where
  "cov_results = JObj [(''version'', JNum 2), (''kind'', JStr ''antseed-wash-trading-proof-results''), (''chainId'', JNum 8453),
     (''securityMode'', JStr ''production''), (''entries'', JArr [JObj [(''claimId'', JStr ''0xc''), (''claimType'', JStr ''P0_CLOSED_LOOP''),
        (''subjects'', JArr [JStr snap_seller]), (''programVKey'', JStr snap_id), (''journalBytes'', JStr ''0xab''), (''journalDigest'', JStr snap_root),
        (''proofBytes'', JStr ''0x1''), (''metrics'', JObj [(''qualifiedVolumeRaw'', JStr ''5'')])]])]"

definition cov_sha :: "string \<Rightarrow> string" where
  "cov_sha s = replicate 64 (CHR ''2'')"


definition cov_discovery :: json where
  "cov_discovery = JObj [(''version'', JNum 1), (''kind'', JStr ''antseed-p0-loop-discovery''), (''candidates'', JArr [JObj [(''seller'', JStr snap_seller),
     (''state'', JStr ''proof_candidate''), (''traceCoverage'', JObj [(''requested'', JNum 1), (''completed'', JNum 1)])]])]"

definition cov_proof :: json where
  "cov_proof = JObj [(''version'', JNum 3), (''kind'', JStr ''antseed-wash-trading-seller-proof''), (''proofArchitecture'', JStr ''direct-seller-v1''),
     (''securityMode'', JStr ''development''), (''evidenceFormat'', JStr ''single-bundle-v1''), (''claimCount'', JNum 1), (''totalSellerVolumeRaw'', JStr ''9''),
     (''provenWashVolumeRaw'', JStr ''5''), (''proved'', JBool True), (''verified'', JBool True), (''sourceClaimIds'', JArr [JStr ''0xC'']),
     (''seller'', JStr snap_seller), (''sellerProgramVKey'', JStr snap_id)]"

theorem reconciled_by_proofs_witness:
  "\<exists>d r. reconcileDevelopmentProofResults cov_discovery cov_bundle [cov_proof] [] = Inr (d, r) \<and> rr_totalProvenWashVolumeRaw r = 5
     \<and> length (elements (mem d ''candidates'')) = 1"
proof -
  have "\<not> isl (reconcileDevelopmentProofResults cov_discovery cov_bundle [cov_proof] [])" by code_simp
  then obtain d r where run: "reconcileDevelopmentProofResults cov_discovery cov_bundle [cov_proof] [] = Inr (d, r)"
    by (metis sum.collapse(2) surj_pair)
  have five: "projr (big_int (mem cov_proof ''provenWashVolumeRaw'')) = 5" and one: "length (elements (mem cov_discovery ''candidates'')) = 1" by code_simp+
  from reconciled_by_proofs [OF run] obtain cs where
      "list_all2 (reconciled cs (rr_sellerProgramVKey r) [cov_proof]) (elements (mem cov_discovery ''candidates'')) (elements (mem d ''candidates''))"
      "rr_totalProvenWashVolumeRaw r = 5" using five by auto
  then show ?thesis using run one list_all2_lengthD by metis
qed

end
