(* ===== verification/Seller_Workers.thy ===== *)
theory Seller_Workers
  imports Batch Json_Parse
begin

text \<open>
  Running the prover for every seller of a development manifest: \<open>scripts/replay-seller-development.mjs\<close> proves
  each again, \<open>scripts/prepare-seller-proving.mjs\<close> executes each against the replayed artifacts to measure its
  cost. Both let two workers share a cursor over the sellers; a worker puts the result of its seller into
  \<open>summary.results\<close> and saves the summary. The interleaving is a step relation. The prover is a parameter: its exit
  and the files as they are found afterwards. Times, and printing, are left out.
\<close>

section \<open>One seller\<close>

record worker_env =
  we_root :: string
  we_output :: string
  we_files :: files
  we_run :: "string list \<Rightarrow> unit res \<times> files"
  we_checkpoint :: "json option res"

text \<open>\<open>Object.fromEntries(inputs.map((path) => [path, sha256(path)]))\<close>.\<close>

definition input_hashes :: "files \<Rightarrow> json \<Rightarrow> json res" where
  "input_hashes w sl =
     res_bind (res_map (\<lambda>p. res_bind (fileSha w p) (\<lambda>h. Inr (p, JStr h))) (seller_inputs sl)) (\<lambda>kvs.
     Inr (obj_assign (JObj []) kvs))"

definition worker_args :: "string \<Rightarrow> json \<Rightarrow> json \<Rightarrow> string \<Rightarrow> string list" where
  "worker_args mode manifest sl artifactPath =
     [mode, ''--seller'', text_of (mem sl ''seller''), ''--seller-elf'', text_of (mem manifest ''sellerElf''), ''--output'', artifactPath]
     @ (if js_truthy (mem sl ''sellerInput'') then [''--seller-input'', text_of (mem sl ''sellerInput'')]
        else [''--evidence'', text_of (mem sl ''evidenceKind'') @ '':'' @ text_of (mem sl ''evidencePath''),
          ''--total-volume-witness'', text_of (mem sl ''totalVolumePath'')])"

definition artifact_file :: "worker_env \<Rightarrow> string \<Rightarrow> json \<Rightarrow> string" where
  "artifact_file env folder sl = join (join (we_output env) folder) (text_of (mem sl ''seller'') @ ''.json'')"

text \<open>A prover that exits with an error leaves no result; otherwise the files afterwards.\<close>

definition run_worker :: "worker_env \<Rightarrow> string list \<Rightarrow> files res" where
  "run_worker env args = (case we_run env args of (exit, w) \<Rightarrow> res_bind exit (\<lambda>_. Inr w))"

definition failed_result :: "json \<Rightarrow> js_error \<Rightarrow> json" where
  "failed_result sl e = JObj (known_members [(''seller'', mem sl ''seller''), (''success'', Some (JBool False)),
     (''error'', Some (JStr (error_message e)))])"

section \<open>Replaying a seller\<close>

text \<open>A seller that succeeded before is only checked: nothing of what it was made from has changed.\<close>

definition recheck_replay :: "files \<Rightarrow> json \<Rightarrow> json \<Rightarrow> string \<Rightarrow> json \<Rightarrow> json \<Rightarrow> unit res" where
  "recheck_replay w manifest sl artifactPath hashes earlier =
     res_bind (require (map_option stringify (mem earlier ''inputSha256'') = Some (stringify hashes)) ''resume input/artifact changed'') (\<lambda>_.
     res_bind (fileSha w artifactPath) (\<lambda>h.
     res_bind (require (Some (JStr h) = mem earlier ''artifactSha256'') ''resume input/artifact changed'') (\<lambda>_.
     res_bind (readJson w artifactPath) (\<lambda>artifact. validateArtifact artifact sl manifest))))"

definition replay_result :: "json \<Rightarrow> string \<Rightarrow> string \<Rightarrow> json \<Rightarrow> json \<Rightarrow> json" where
  "replay_result sl artifactPath artifactSha hashes artifact = JObj (known_members
     [(''seller'', mem sl ''seller''), (''label'', mem sl ''label''), (''success'', Some (JBool True)),
      (''artifact'', Some (JStr artifactPath)), (''artifactSha256'', Some (JStr artifactSha)), (''inputSha256'', Some hashes),
      (''provenWashVolumeRaw'', mem artifact ''provenWashVolumeRaw''), (''totalSellerVolumeRaw'', mem artifact ''totalSellerVolumeRaw''),
      (''executionMillis'', mem artifact ''executionMillis''), (''instructionCount'', mem artifact ''instructionCount''),
      (''blockReferenceCount'', mem artifact ''blockReferenceCount''), (''evidenceDigest'', mem artifact ''evidenceDigest'')])"

definition same_inputs :: "files \<Rightarrow> json \<Rightarrow> unit res" where
  "same_inputs w hashes = res_fold (\<lambda>(path, h) _. res_bind (fileSha w path) (\<lambda>now.
     require (JStr now = h) ''input changed during execution'')) (members_of (Some hashes)) ()"

definition replay_body :: "worker_env \<Rightarrow> json \<Rightarrow> json \<Rightarrow> json option \<Rightarrow> json option res" where
  "replay_body env manifest sl previous =
     (let path = artifact_file env ''sellers'' sl in
      res_bind (input_hashes (we_files env) sl) (\<lambda>hashes. case previous of
        Some earlier \<Rightarrow> res_bind (recheck_replay (we_files env) manifest sl path hashes earlier) (\<lambda>_. Inr None)
      | None \<Rightarrow>
          res_bind (run_worker env (worker_args ''--development'' manifest sl path)) (\<lambda>w.
          res_bind (same_inputs w hashes) (\<lambda>_.
          res_bind (readJson w path) (\<lambda>artifact.
          res_bind (validateArtifact artifact sl manifest) (\<lambda>_.
          res_bind (fileSha w path) (\<lambda>h. Inr (Some (replay_result sl path h hashes artifact)))))))))"

text \<open>What a worker puts into the results for a seller; nothing where it goes on with what is there.\<close>

definition replay_seller :: "worker_env \<Rightarrow> json \<Rightarrow> json \<Rightarrow> json option \<Rightarrow> json option" where
  "replay_seller env manifest sl previous =
     (case replay_body env manifest sl previous of Inl e \<Rightarrow> Some (failed_result sl e) | Inr r \<Rightarrow> r)"

section \<open>Estimating a seller\<close>

definition object_size :: "json option \<Rightarrow> nat res" where
  "object_size v = (case v of Some (JObj ms) \<Rightarrow> Inr (length ms) | Some (JArr js) \<Rightarrow> Inr (length js) | Some (JStr s) \<Rightarrow> Inr (length s)
     | Some (JNum n) \<Rightarrow> Inr 0 | Some (JBool b) \<Rightarrow> Inr 0 | _ \<Rightarrow> Inl TypeError)"

definition unchanged_inputs :: "files \<Rightarrow> json \<Rightarrow> json \<Rightarrow> unit res" where
  "unchanged_inputs w sl replayed = res_fold (\<lambda>path _. res_bind (fileSha w path) (\<lambda>h.
     require (Some (JStr h) = sub_mem replayed ''inputSha256'' path) (''input changed: '' @ path))) (seller_inputs sl) ()"

text \<open>The artifact of the replay that the estimate is compared with.\<close>

definition replayed_artifact :: "files \<Rightarrow> json \<Rightarrow> json \<Rightarrow> json option \<Rightarrow> (json \<times> json) res" where
  "replayed_artifact w manifest sl found =
     (case found of None \<Rightarrow> Inl (Error ''baseline artifact mismatch'')
      | Some replayed \<Rightarrow>
          res_bind (fileSha w (str_of (mem replayed ''artifact''))) (\<lambda>h.
          res_bind (require (Some (JStr h) = mem replayed ''artifactSha256'') ''baseline artifact mismatch'') (\<lambda>_.
          res_bind (readJson w (str_of (mem replayed ''artifact''))) (\<lambda>artifact.
          res_bind (validateArtifact artifact sl manifest) (\<lambda>_.
          res_bind (object_size (mem replayed ''inputSha256'')) (\<lambda>n.
          res_bind (require (n = length (seller_inputs sl)) ''baseline input set mismatch'') (\<lambda>_.
          Inr (replayed, artifact))))))))"

definition estimate_result :: "json \<Rightarrow> string \<Rightarrow> string \<Rightarrow> json \<Rightarrow> json \<Rightarrow> json" where
  "estimate_result sl path h replayed estimate = JObj (known_members
     [(''seller'', mem sl ''seller''), (''label'', mem sl ''label''), (''success'', Some (JBool True)), (''artifact'', Some (JStr path)),
      (''artifactSha256'', Some (JStr h)), (''inputSha256'', mem replayed ''inputSha256''),
      (''proverGasUnits'', mem estimate ''proverGasUnits''), (''instructionCount'', mem estimate ''instructionCount''),
      (''provenWashVolumeRaw'', mem estimate ''provenWashVolumeRaw''), (''totalSellerVolumeRaw'', mem estimate ''totalSellerVolumeRaw'')])"

definition estimate_body :: "worker_env \<Rightarrow> json list \<Rightarrow> json \<Rightarrow> json \<Rightarrow> json option \<Rightarrow> json option res" where
  "estimate_body env baseline manifest sl previous =
     (let path = artifact_file env ''estimates'' sl in
      res_bind (replayed_artifact (we_files env) manifest sl (find (\<lambda>r. seller_of r = seller_of sl) baseline)) (\<lambda>(replayed, artifact).
      res_bind (unchanged_inputs (we_files env) sl replayed) (\<lambda>_. case previous of
        Some completed \<Rightarrow>
          res_bind (fileSha (we_files env) path) (\<lambda>h.
          res_bind (require (Some (JStr h) = mem completed ''artifactSha256'') ''resume artifact changed'') (\<lambda>_.
          res_bind (readJson (we_files env) path) (\<lambda>estimate.
          res_bind (validateEstimate estimate artifact) (\<lambda>_. Inr None))))
      | None \<Rightarrow>
          res_bind (run_worker env (worker_args ''--execute-only'' manifest sl path)) (\<lambda>w.
          res_bind (unchanged_inputs w sl replayed) (\<lambda>_.
          res_bind (readJson w path) (\<lambda>estimate.
          res_bind (validateEstimate estimate artifact) (\<lambda>_.
          res_bind (fileSha w path) (\<lambda>h. Inr (Some (estimate_result sl path h replayed estimate))))))))))"

definition estimate_seller :: "worker_env \<Rightarrow> json list \<Rightarrow> json \<Rightarrow> json \<Rightarrow> json option \<Rightarrow> json option" where
  "estimate_seller env baseline manifest sl previous =
     (case estimate_body env baseline manifest sl previous of Inl e \<Rightarrow> Some (failed_result sl e) | Inr r \<Rightarrow> r)"

section \<open>Starting and ending a run\<close>

definition check_guest :: "worker_env \<Rightarrow> json \<Rightarrow> (json \<Rightarrow> bool) \<Rightarrow> string \<Rightarrow> json res" where
  "check_guest env manifest expected_elf missing_message =
     (let w = we_files env in
      res_bind (readJson w (str_of (mem manifest ''guestAttestation''))) (\<lambda>attestation.
      let guest = sub_mem attestation ''guests'' ''seller'' in
      res_bind (require (js_truthy (mem attestation ''reproducible'')
          \<and> Option.bind guest (\<lambda>g. mem g ''programVKey'') = mem manifest ''sellerProgramVKey'') ''guest attestation mismatch'') (\<lambda>_.
      res_bind (fileSha w (str_of (mem manifest ''sellerElf''))) (\<lambda>elf.
      res_bind (require (Some (JStr elf) = Option.bind guest (\<lambda>g. mem g ''elfSha256'') \<and> expected_elf (JStr elf)) ''guest attestation mismatch'') (\<lambda>_.
      let sources = members_of (mem attestation ''verifiedGuestSourceFiles'') in
      res_bind (require (sources \<noteq> []) missing_message) (\<lambda>_.
      res_bind (check_hashes w sources (join (we_root env)) ''guest source drift: '') (\<lambda>_. Inr (JStr elf))))))))"

definition sellers_of :: "json \<Rightarrow> json list" where
  "sellers_of manifest = elements (mem manifest ''sellers'')"

text \<open>The results a run starts with, and the \<open>complete\<close> of the summary they come from.\<close>

definition resumed_results :: "json \<Rightarrow> (json list \<times> json option) res" where
  "resumed_results summary = (case mem summary ''results'' of Some (JArr rs) \<Rightarrow> Inr (rs, mem summary ''complete'') | _ \<Rightarrow> Inl TypeError)"

definition start_replay :: "worker_env \<Rightarrow> string \<Rightarrow> (json \<times> json list \<times> json option) res" where
  "start_replay env manifestPath =
     (let w = we_files env in
      res_bind (readJson w manifestPath) (\<lambda>manifest.
      res_bind (validateManifest manifest) (\<lambda>_.
      res_bind (check_guest env manifest (\<lambda>_. True) ''missing source attestation'') (\<lambda>_.
      res_bind (fileSha w manifestPath) (\<lambda>manifestHash.
      res_bind (fileSha w (str_of (mem manifest ''prover''))) (\<lambda>proverHash.
      res_bind (we_checkpoint env) (\<lambda>checkpoint. case checkpoint of
        None \<Rightarrow> Inr (manifest, [], Some (JBool False))
      | Some summary \<Rightarrow>
          res_bind (require (mem summary ''manifestSha256'' = Some (JStr manifestHash) \<and> mem summary ''proverSha256'' = Some (JStr proverHash))
            ''checkpoint provenance mismatch; use a fresh output directory'') (\<lambda>_.
          res_bind (resumed_results summary) (\<lambda>r. Inr (manifest, r))))))))))"

text \<open>The replay that estimates are measured against is finished, and is that of this manifest.\<close>

definition check_replay :: "json \<Rightarrow> json \<Rightarrow> string \<Rightarrow> unit res" where
  "check_replay replay manifest manifestHash =
     (let rs = elements (mem replay ''results'') in
      require (js_truthy (mem replay ''complete'') \<and> mem replay ''securityMode'' = Some (JStr ''development'')
          \<and> mem replay ''manifestSha256'' = Some (JStr manifestHash) \<and> is_array (mem replay ''results'')
          \<and> length rs = length (sellers_of manifest) \<and> list_all (\<lambda>r. js_truthy (mem r ''success'')) rs
          \<and> length (remdups (map seller_of rs)) = length (sellers_of manifest))
        ''baseline replay is incomplete or mismatched'')"

definition provenance_json :: "string \<Rightarrow> string \<Rightarrow> string \<Rightarrow> json \<Rightarrow> string \<Rightarrow> json" where
  "provenance_json manifestHash replayHash proverHash elf attestationHash = JObj
     [(''manifestSha256'', JStr manifestHash), (''baselineSha256'', JStr replayHash), (''proverSha256'', JStr proverHash),
      (''guestElfSha256'', elf), (''guestAttestationSha256'', JStr attestationHash)]"

text \<open>
  The sellers by the instructions of their replay, fewest first. The comparator is called only where there are two
  sellers, and fails for one that the replay does not know.
\<close>

definition instruction_count :: "json list \<Rightarrow> json \<Rightarrow> int res" where
  "instruction_count rs sl = (case find (\<lambda>r. seller_of r = seller_of sl) rs of None \<Rightarrow> Inl TypeError
     | Some r \<Rightarrow> Inr (num_of (mem r ''instructionCount'')))"

definition by_instructions :: "json list \<Rightarrow> json list \<Rightarrow> json list res" where
  "by_instructions rs sellers = (if length sellers < 2 then Inr sellers else
     res_bind (res_map (\<lambda>sl. res_bind (instruction_count rs sl) (\<lambda>n. Inr (n, sl))) sellers) (\<lambda>counted.
     Inr (map snd (js_sort (\<lambda>a b. fst a - fst b) counted))))"

definition start_estimates :: "worker_env \<Rightarrow> string \<Rightarrow> string \<Rightarrow> string \<Rightarrow> (json \<times> json list \<times> json list \<times> json list \<times> json option) res" where
  "start_estimates env manifestPath replayPath proverPath =
     (let w = we_files env in
      res_bind (readJson w manifestPath) (\<lambda>manifest.
      res_bind (validateManifest manifest) (\<lambda>_.
      res_bind (readJson w replayPath) (\<lambda>replay.
      res_bind (fileSha w manifestPath) (\<lambda>manifestHash.
      res_bind (check_replay replay manifest manifestHash) (\<lambda>_.
      res_bind (check_guest env manifest (\<lambda>elf. mem replay ''guestElfSha256'' = Some elf) ''missing guest source attestation'') (\<lambda>elf.
      res_bind (fileSha w replayPath) (\<lambda>replayHash.
      res_bind (fileSha w proverPath) (\<lambda>proverHash.
      res_bind (fileSha w (str_of (mem manifest ''guestAttestation''))) (\<lambda>attestationHash.
      res_bind (we_checkpoint env) (\<lambda>checkpoint.
      res_bind (case checkpoint of None \<Rightarrow> Inr ([], Some (JBool False))
        | Some summary \<Rightarrow>
            res_bind (require (mem summary ''kind'' = Some (JStr ''seller-proving-execution-preflight'')
                \<and> map_option stringify (mem summary ''provenance'')
                  = Some (stringify (provenance_json manifestHash replayHash proverHash elf attestationHash))) ''resume provenance mismatch'') (\<lambda>_.
            resumed_results summary)) (\<lambda>start.
      res_bind (by_instructions (elements (mem replay ''results'')) (sellers_of manifest)) (\<lambda>sellers.
      Inr (manifest, elements (mem replay ''results''), sellers, start))))))))))))))"

definition successes :: "json list \<Rightarrow> json list" where
  "successes rs = filter (\<lambda>r. js_truthy (mem r ''success'')) rs"

definition all_succeeded :: "json list \<Rightarrow> json list \<Rightarrow> bool" where
  "all_succeeded sellers rs \<longleftrightarrow> length rs = length sellers \<and> list_all (\<lambda>r. js_truthy (mem r ''success'')) rs"

record run_end =
  re_complete :: bool
  re_proven :: int
  re_total :: int

definition finish_replay :: "json list \<Rightarrow> json list \<Rightarrow> run_end res" where
  "finish_replay sellers rs =
     res_bind (sum_member ''provenWashVolumeRaw'' (successes rs)) (\<lambda>proven.
     res_bind (sum_member ''totalSellerVolumeRaw'' (successes rs)) (\<lambda>t.
     Inr \<lparr>re_complete = all_succeeded sellers rs, re_proven = proven, re_total = t\<rparr>))"

definition finish_estimates :: "json list \<Rightarrow> json list \<Rightarrow> (bool \<times> int) res" where
  "finish_estimates sellers rs =
     res_bind (sum_member ''proverGasUnits'' (successes rs)) (\<lambda>gas. Inr (all_succeeded sellers rs, gas))"

section \<open>Two workers\<close>

text \<open>
  The cursor, the sellers being worked on, the results, and every summary saved so far: its \<open>complete\<close>, which a run
  leaves as it found it until the end, and its results.
\<close>

record workers =
  next_seller :: nat
  working :: "nat list"
  outcomes :: "json list"
  marked :: "json option"
  saved :: "(json option \<times> json list) list"

definition start_workers :: "json list \<times> json option \<Rightarrow> workers" where
  "start_workers start = \<lparr>next_seller = 0, working = [], outcomes = fst start, marked = snd start, saved = [(snd start, fst start)]\<rparr>"

definition earlier_success :: "json list \<Rightarrow> json \<Rightarrow> json option" where
  "earlier_success rs sl = find (\<lambda>r. seller_of r = seller_of sl \<and> js_truthy (mem r ''success'')) rs"

definition put_outcome :: "json \<Rightarrow> json \<Rightarrow> json list \<Rightarrow> json list" where
  "put_outcome sl r rs = filter (\<lambda>q. seller_of q \<noteq> seller_of sl) rs @ [r]"

text \<open>
  A worker reads only the result of its own seller, which no other worker changes: it may as well read it when it
  has finished.
\<close>

inductive worker_step :: "(json \<Rightarrow> json option \<Rightarrow> json option) \<Rightarrow> json list \<Rightarrow> workers \<Rightarrow> workers \<Rightarrow> bool"
  for process :: "json \<Rightarrow> json option \<Rightarrow> json option" and sellers :: "json list" where
  take_seller: "next_seller s < length sellers \<Longrightarrow> length (working s) < 2 \<Longrightarrow>
     worker_step process sellers s (s\<lparr>next_seller := Suc (next_seller s), working := working s @ [next_seller s]\<rparr>)"
| keep_outcome: "i \<in> set (working s) \<Longrightarrow> process (sellers ! i) (earlier_success (outcomes s) (sellers ! i)) = None \<Longrightarrow>
     worker_step process sellers s (s\<lparr>working := remove1 i (working s)\<rparr>)"
| new_outcome: "i \<in> set (working s) \<Longrightarrow> process (sellers ! i) (earlier_success (outcomes s) (sellers ! i)) = Some r \<Longrightarrow>
     rs = put_outcome (sellers ! i) r (outcomes s) \<Longrightarrow>
     worker_step process sellers s (s\<lparr>working := remove1 i (working s), outcomes := rs, saved := saved s @ [(marked s, rs)]\<rparr>)"

inductive_cases worker_stepE: "worker_step process sellers s t"

definition workers_done :: "json list \<Rightarrow> workers \<Rightarrow> bool" where
  "workers_done sellers s \<longleftrightarrow> next_seller s = length sellers \<and> working s = []"


section \<open>What every run of the workers keeps\<close>

text \<open>Results that a run may start with: at most one for each seller, of which the successes are \<open>sound\<close>.\<close>

definition resumable :: "(json \<Rightarrow> json \<Rightarrow> bool) \<Rightarrow> json list \<Rightarrow> json list \<Rightarrow> bool" where
  "resumable sound sellers rs \<longleftrightarrow> distinct (map seller_of rs) \<and> set (map seller_of rs) \<subseteq> set (map seller_of sellers)
     \<and> (\<forall>r\<in>set rs. \<forall>sl\<in>set sellers. seller_of r = seller_of sl \<longrightarrow> sound sl r)"

lemma earlier_success_Some:
  "earlier_success rs sl = Some r \<Longrightarrow> r \<in> set rs \<and> seller_of r = seller_of sl \<and> js_truthy (mem r ''success'')"
  by (auto simp: earlier_success_def find_Some_iff)

lemma put_outcome_set [simp]: "set (put_outcome sl r rs) = insert r {q \<in> set rs. seller_of q \<noteq> seller_of sl}"
  by (auto simp: put_outcome_def)

lemma put_outcome_sellers: "distinct (map seller_of rs) \<Longrightarrow> seller_of r = seller_of sl \<Longrightarrow> distinct (map seller_of (put_outcome sl r rs))"
  by (auto simp: put_outcome_def distinct_map inj_on_def)

text \<open>The contract between the workers and what they do for a seller.\<close>

locale seller_process =
  fixes process :: "json \<Rightarrow> json option \<Rightarrow> json option"
    and sellers :: "json list"
    and sound :: "json \<Rightarrow> json \<Rightarrow> bool"
    and checked :: "json \<Rightarrow> json \<Rightarrow> bool"
  assumes new_result: "process sl previous = Some r \<Longrightarrow> seller_of r = seller_of sl \<and> sound sl r \<and> checked sl r"
    and kept_result: "process sl previous = None \<Longrightarrow> \<exists>r. previous = Some r \<and> checked sl r"
begin

definition workers_inv :: "workers \<Rightarrow> bool" where
  "workers_inv s \<longleftrightarrow> distinct (map seller_of sellers) \<and> next_seller s \<le> length sellers \<and> distinct (working s) \<and> (\<forall>i\<in>set (working s). i < next_seller s)
     \<and> length (working s) \<le> 2 \<and> resumable sound sellers (outcomes s) \<and> (\<forall>c\<in>set (saved s). resumable sound sellers (snd c))
     \<and> (\<forall>i<next_seller s. i \<notin> set (working s) \<longrightarrow> (\<exists>r\<in>set (outcomes s). seller_of r = seller_of (sellers ! i) \<and> checked (sellers ! i) r))"

lemma same_seller: "distinct (map seller_of sellers) \<Longrightarrow> i < length sellers \<Longrightarrow> sl \<in> set sellers \<Longrightarrow> seller_of sl = seller_of (sellers ! i) \<Longrightarrow> sl = sellers ! i"
  by (auto simp: distinct_map inj_on_def)

lemma put_resumable:
  assumes "distinct (map seller_of sellers)" "resumable sound sellers rs" "i < length sellers" "process (sellers ! i) previous = Some r"
  shows "resumable sound sellers (put_outcome (sellers ! i) r rs)"
  using assms new_result [OF assms(4)] same_seller [OF assms(1,3)]
  by (auto simp: resumable_def put_outcome_sellers)

lemma inv_start: "distinct (map seller_of sellers) \<Longrightarrow> resumable sound sellers (fst start) \<Longrightarrow> workers_inv (start_workers start)"
  by (simp add: workers_inv_def start_workers_def)

lemma inv_step:
  assumes "worker_step process sellers s t" "workers_inv s"
  shows "workers_inv t"
  using assms(1)
proof (cases rule: worker_step.cases)
  case take_seller
  then show ?thesis using assms(2) by (auto simp: workers_inv_def less_Suc_eq)
next
  case (keep_outcome i)
  then have "i < length sellers" using assms(2) by (auto simp: workers_inv_def)
  then obtain r where "earlier_success (outcomes s) (sellers ! i) = Some r" "checked (sellers ! i) r"
    using kept_result [OF keep_outcome(3)] by auto
  then show ?thesis
    using keep_outcome assms(2) earlier_success_Some by (fastforce simp: workers_inv_def length_remove1)
next
  case (new_outcome i r rs)
  then have i: "i < length sellers" and distinct_sellers: "distinct (map seller_of sellers)" using assms(2) by (auto simp: workers_inv_def)
  note r = new_result [OF new_outcome(3)]
  have "resumable sound sellers rs" using put_resumable [OF distinct_sellers _ i new_outcome(3)] new_outcome(4) assms(2) by (simp add: workers_inv_def)
  moreover have "\<exists>q\<in>set rs. seller_of q = seller_of (sellers ! j) \<and> checked (sellers ! j) q"
    if "j < next_seller s" "j \<notin> set (remove1 i (working s))" for j
  proof (cases "j = i")
    case True
    then show ?thesis using r new_outcome(4) by auto
  next
    case False
    then have "seller_of (sellers ! j) \<noteq> seller_of (sellers ! i)"
      using same_seller [OF distinct_sellers i, of "sellers ! j"] nth_eq_iff_index_eq [OF _ _ i, of j] distinct_sellers that(1) assms(2)
      by (auto simp: workers_inv_def distinct_map)
    moreover have "j \<notin> set (working s)" using that(2) False by (simp add: in_set_remove1)
    ultimately show ?thesis using assms(2) that(1) new_outcome(4) by (fastforce simp: workers_inv_def)
  qed
  ultimately show ?thesis using new_outcome assms(2) by (auto simp: workers_inv_def length_remove1)
qed

lemma inv_reachable:
  "(worker_step process sellers)\<^sup>*\<^sup>* s t \<Longrightarrow> workers_inv s \<Longrightarrow> workers_inv t"
  by (induction rule: rtranclp_induct) (auto intro: inv_step)

lemma done_outcomes:
  assumes "workers_inv s" "workers_done sellers s"
  shows "mset (map seller_of (outcomes s)) = mset (map seller_of sellers)"
    and "\<forall>sl\<in>set sellers. \<exists>r\<in>set (outcomes s). seller_of r = seller_of sl \<and> sound sl r \<and> checked sl r"
proof -
  have each: "\<exists>r\<in>set (outcomes s). seller_of r = seller_of sl \<and> checked sl r" if "sl \<in> set sellers" for sl
    using assms that by (auto simp: workers_inv_def workers_done_def in_set_conv_nth)
  then show "\<forall>sl\<in>set sellers. \<exists>r\<in>set (outcomes s). seller_of r = seller_of sl \<and> sound sl r \<and> checked sl r"
    using assms(1) unfolding workers_inv_def resumable_def by meson
  have "set (map seller_of sellers) \<subseteq> set (map seller_of (outcomes s))" using each by (auto simp: image_iff) (metis)
  then have "set (map seller_of (outcomes s)) = set (map seller_of sellers)"
    using assms(1) by (auto simp: workers_inv_def resumable_def)
  then show "mset (map seller_of (outcomes s)) = mset (map seller_of sellers)"
    using assms(1) by (simp add: workers_inv_def resumable_def flip: set_eq_iff_mset_eq_distinct mset_map)
qed

text \<open>A member that sound results repeat from their sellers sums to the sum over the sellers.\<close>

lemma complete_sum:
  assumes "workers_inv s" "workers_done sellers s" "all_succeeded sellers (outcomes s)"
    and repeats: "\<And>sl r. sound sl r \<Longrightarrow> js_truthy (mem r ''success'') \<Longrightarrow> mem r k = mem sl k"
    and total: "sum_member k (successes (outcomes s)) = Inr t"
  shows "t = (\<Sum>sl\<leftarrow>sellers. projr (big_int (mem sl k)))"
proof -
  let ?v = "\<lambda>j. projr (big_int (mem j k))"
  have all: "successes (outcomes s) = outcomes s" using assms(3) by (simp add: successes_def all_succeeded_def list_all_iff filter_id_conv)
  define value_of where "value_of a = ?v (the (find (\<lambda>sl. seller_of sl = a) sellers))" for a
  have found: "find (\<lambda>sl'. seller_of sl' = seller_of sl) sellers = Some sl" if "sl \<in> set sellers" for sl
  proof -
    have "find (\<lambda>sl'. seller_of sl' = seller_of sl) sellers \<noteq> None" using that by (auto simp: find_None_iff)
    then show ?thesis using that assms(1) by (auto simp: workers_inv_def find_Some_iff distinct_map inj_on_def)
  qed
  have sellers: "map ?v sellers = map value_of (map seller_of sellers)" by (simp add: value_of_def found)
  have "?v r = value_of (seller_of r)" if r: "r \<in> set (outcomes s)" for r
  proof -
    obtain sl where sl: "sl \<in> set sellers" "seller_of r = seller_of sl" "sound sl r"
      using assms(1) r unfolding workers_inv_def resumable_def by (metis (no_types, lifting) imageE image_set subsetD image_eqI)
    then have "mem r k = mem sl k" using repeats assms(3) r by (simp add: all_succeeded_def list_all_iff)
    then show ?thesis using sl(1,2) by (simp add: value_of_def found)
  qed
  then have "map ?v (outcomes s) = map value_of (map seller_of (outcomes s))" by simp
  then have "mset (map ?v (outcomes s)) = mset (map ?v sellers)"
    using done_outcomes(1) [OF assms(1,2)] unfolding sellers by (metis mset_map)
  then show ?thesis using sum_member_Inr [OF total] unfolding all by (metis sum_mset_sum_list)
qed

end


section \<open>Both scripts keep the contract\<close>

text \<open>A successful result has the volumes of its seller, and a file that was checked in this run.\<close>

definition seller_volumes :: "json \<Rightarrow> json \<Rightarrow> bool" where
  "seller_volumes sl r \<longleftrightarrow> (js_truthy (mem r ''success'') \<longrightarrow> mem r ''provenWashVolumeRaw'' = mem sl ''provenWashVolumeRaw''
     \<and> mem r ''totalSellerVolumeRaw'' = mem sl ''totalSellerVolumeRaw'')"

definition files_of_run :: "worker_env \<Rightarrow> files \<Rightarrow> bool" where
  "files_of_run env w \<longleftrightarrow> w = we_files env \<or> (\<exists>args. we_run env args = (Inr (), w))"

definition document_of :: "worker_env \<Rightarrow> string \<Rightarrow> json \<Rightarrow> json \<Rightarrow> bool" where
  "document_of env path r j \<longleftrightarrow> (\<exists>w h. files_of_run env w \<and> fileSha w path = Inr h \<and> mem r ''artifactSha256'' = Some (JStr h)
     \<and> readJson w path = Inr j)"

definition replayed :: "worker_env \<Rightarrow> json \<Rightarrow> json \<Rightarrow> json \<Rightarrow> bool" where
  "replayed env manifest sl r \<longleftrightarrow> (js_truthy (mem r ''success'') \<longrightarrow>
     (\<exists>artifact. document_of env (artifact_file env ''sellers'' sl) r artifact \<and> validateArtifact artifact sl manifest = Inr ()))"

definition estimated :: "worker_env \<Rightarrow> json \<Rightarrow> json \<Rightarrow> json \<Rightarrow> bool" where
  "estimated env manifest sl r \<longleftrightarrow> (js_truthy (mem r ''success'') \<longrightarrow>
     (\<exists>estimate artifact. document_of env (artifact_file env ''estimates'' sl) r estimate
        \<and> validateEstimate estimate artifact = Inr () \<and> validateArtifact artifact sl manifest = Inr ()))"

definition measured :: "json \<Rightarrow> json \<Rightarrow> bool" where
  "measured sl r \<longleftrightarrow> seller_volumes sl r \<and> (js_truthy (mem r ''success'') \<longrightarrow> positive_decimal (str_of (mem r ''proverGasUnits'')))"

lemma failed_simps [simp]: "seller_of (failed_result sl e) = seller_of sl" "\<not> js_truthy (mem (failed_result sl e) ''success'')"
  by (auto simp: failed_result_def seller_of_def known_members_def map_filter_def js_truthy_def split: option.splits)

lemma validateArtifact_volumes:
  assumes "validateArtifact artifact sl manifest = Inr u"
  shows "mem artifact ''provenWashVolumeRaw'' = mem sl ''provenWashVolumeRaw''" "mem artifact ''totalSellerVolumeRaw'' = mem sl ''totalSellerVolumeRaw''"
proof -
  have "\<forall>m\<in>set (expected_members sl manifest). mem artifact (fst m) = snd m"
    using assms by (auto simp: validateArtifact_def res_bind_Inr case_prod_beta' require_fold_Inr)
  then show "mem artifact ''provenWashVolumeRaw'' = mem sl ''provenWashVolumeRaw''" "mem artifact ''totalSellerVolumeRaw'' = mem sl ''totalSellerVolumeRaw''"
    by (simp_all add: expected_members_def)
qed

lemma validateEstimate_fields:
  assumes "validateEstimate estimate artifact = Inr u"
  shows "mem estimate ''provenWashVolumeRaw'' = mem artifact ''provenWashVolumeRaw''" "mem estimate ''totalSellerVolumeRaw'' = mem artifact ''totalSellerVolumeRaw''"
    "positive_decimal (str_of (mem estimate ''proverGasUnits''))"
proof -
  have "\<forall>f\<in>set estimate_fields. mem estimate f = mem artifact f" and "positive_decimal (str_of (mem estimate ''proverGasUnits''))"
    using assms unfolding validateEstimate_def res_bind_Inr require_fold_Inr by (auto simp: require_fold_Inr)
  then show "mem estimate ''provenWashVolumeRaw'' = mem artifact ''provenWashVolumeRaw''" "mem estimate ''totalSellerVolumeRaw'' = mem artifact ''totalSellerVolumeRaw''"
    "positive_decimal (str_of (mem estimate ''proverGasUnits''))"
    by (simp_all add: estimate_fields_def)
qed

lemma replay_result_simps [simp]:
  "mem (replay_result sl path h hashes artifact) ''seller'' = mem sl ''seller''"
  "mem (replay_result sl path h hashes artifact) ''artifactSha256'' = Some (JStr h)"
  "mem (replay_result sl path h hashes artifact) ''provenWashVolumeRaw'' = mem artifact ''provenWashVolumeRaw''"
  "mem (replay_result sl path h hashes artifact) ''totalSellerVolumeRaw'' = mem artifact ''totalSellerVolumeRaw''"
  by (simp_all add: replay_result_def map_of_known)

lemma estimate_result_simps [simp]:
  "mem (estimate_result sl path h replay estimate) ''seller'' = mem sl ''seller''"
  "mem (estimate_result sl path h replay estimate) ''artifactSha256'' = Some (JStr h)"
  "mem (estimate_result sl path h replay estimate) ''proverGasUnits'' = mem estimate ''proverGasUnits''"
  "mem (estimate_result sl path h replay estimate) ''provenWashVolumeRaw'' = mem estimate ''provenWashVolumeRaw''"
  "mem (estimate_result sl path h replay estimate) ''totalSellerVolumeRaw'' = mem estimate ''totalSellerVolumeRaw''"
  by (simp_all add: estimate_result_def map_of_known)

lemma run_worker_files: "run_worker env args = Inr w \<Longrightarrow> files_of_run env w"
  by (cases "we_run env args") (auto simp: run_worker_def res_bind_Inr files_of_run_def)

lemma replay_new:
  assumes "replay_seller env manifest sl previous = Some r"
  shows "seller_of r = seller_of sl \<and> seller_volumes sl r \<and> replayed env manifest sl r"
proof (cases "replay_body env manifest sl previous")
  case (Inl e)
  then have "r = failed_result sl e" using assms by (simp add: replay_seller_def)
  then show ?thesis by (simp add: seller_volumes_def replayed_def)
next
  case (Inr found)
  then have "replay_body env manifest sl previous = Inr (Some r)" using assms by (simp add: replay_seller_def)
  then obtain args w hashes artifact h where "run_worker env args = Inr w" "readJson w (artifact_file env ''sellers'' sl) = Inr artifact"
      "validateArtifact artifact sl manifest = Inr ()" "fileSha w (artifact_file env ''sellers'' sl) = Inr h"
      "r = replay_result sl (artifact_file env ''sellers'' sl) h hashes artifact"
    by (auto simp: replay_body_def Let_def res_bind_Inr split: option.splits)
  then show ?thesis
    by (auto simp: seller_of_def seller_volumes_def replayed_def document_of_def validateArtifact_volumes dest: run_worker_files)
qed

lemma replay_kept:
  assumes "replay_seller env manifest sl previous = None"
  shows "\<exists>r. previous = Some r \<and> replayed env manifest sl r"
proof -
  have body: "replay_body env manifest sl previous = Inr None" using assms by (simp add: replay_seller_def split: sum.splits)
  then obtain r hashes where "previous = Some r" "recheck_replay (we_files env) manifest sl (artifact_file env ''sellers'' sl) hashes r = Inr ()"
    by (auto simp: replay_body_def Let_def res_bind_Inr split: option.splits)
  then show ?thesis by (fastforce simp: recheck_replay_def res_bind_Inr replayed_def document_of_def files_of_run_def)
qed

lemma replayed_artifact_valid:
  "replayed_artifact w manifest sl found = Inr (replay, artifact) \<Longrightarrow> validateArtifact artifact sl manifest = Inr ()"
  by (auto simp: replayed_artifact_def res_bind_Inr split: option.splits)

lemma estimate_new:
  assumes "estimate_seller env replay manifest sl previous = Some r"
  shows "seller_of r = seller_of sl \<and> measured sl r \<and> estimated env manifest sl r"
proof (cases "estimate_body env replay manifest sl previous")
  case (Inl e)
  then have "r = failed_result sl e" using assms by (simp add: estimate_seller_def)
  then show ?thesis by (simp add: measured_def seller_volumes_def estimated_def)
next
  case (Inr found)
  let ?path = "artifact_file env ''estimates'' sl"
  have "estimate_body env replay manifest sl previous = Inr (Some r)" using assms Inr by (simp add: estimate_seller_def)
  then obtain w artifact entry estimate h args where "run_worker env args = Inr w" "readJson w ?path = Inr estimate"
      "validateEstimate estimate artifact = Inr ()" "validateArtifact artifact sl manifest = Inr ()" "fileSha w ?path = Inr h"
      "r = estimate_result sl ?path h entry estimate"
    by (auto simp: estimate_body_def Let_def res_bind_Inr split: option.splits prod.splits dest: replayed_artifact_valid)
  then show ?thesis
    by (auto simp: seller_of_def measured_def seller_volumes_def estimated_def document_of_def validateArtifact_volumes
        validateEstimate_fields dest: run_worker_files)
qed

lemma estimate_kept:
  assumes "estimate_seller env replay manifest sl previous = None"
  shows "\<exists>r. previous = Some r \<and> estimated env manifest sl r"
proof -
  have body: "estimate_body env replay manifest sl previous = Inr None" using assms by (simp add: estimate_seller_def split: sum.splits)
  let ?path = "artifact_file env ''estimates'' sl"
  from body obtain r entry artifact estimate h where "previous = Some r"
      and found: "replayed_artifact (we_files env) manifest sl (find (\<lambda>r. seller_of r = seller_of sl) replay) = Inr (entry, artifact)"
      and "fileSha (we_files env) ?path = Inr h" "Some (JStr h) = mem r ''artifactSha256''" "readJson (we_files env) ?path = Inr estimate"
      "validateEstimate estimate artifact = Inr ()"
    by (auto simp: estimate_body_def Let_def res_bind_Inr split: option.splits prod.splits)
  with replayed_artifact_valid [OF found] show ?thesis by (fastforce simp: estimated_def document_of_def files_of_run_def)
qed


section \<open>Runs\<close>

text \<open>Each step takes a seller or finishes one.\<close>

lemma size_remove1: "x \<in> set xs \<Longrightarrow> length xs = Suc (length (remove1 x xs))"
  by (induction xs) auto

lemma worker_steps_bound:
  "(worker_step process sellers ^^ n) s t \<Longrightarrow> next_seller s \<le> length sellers
    \<Longrightarrow> next_seller t \<le> length sellers \<and> n + (2 * (length sellers - next_seller t) + length (working t))
      \<le> 2 * (length sellers - next_seller s) + length (working s)"
proof (induction n arbitrary: t)
  case (Suc n)
  then obtain u where u: "(worker_step process sellers ^^ n) s u" and step: "worker_step process sellers u t" by auto
  note before = Suc.IH [OF u Suc.prems(2)]
  from step show ?case
    using before by (cases rule: worker_step.cases) (auto dest!: size_remove1)
qed simp

lemma worker_progress:
  assumes "next_seller s \<le> length sellers"
  shows "(\<nexists>t. worker_step process sellers s t) \<longleftrightarrow> workers_done sellers s"
proof
  assume stuck: "\<nexists>t. worker_step process sellers s t"
  have "working s = []"
  proof (rule ccontr)
    assume "working s \<noteq> []"
    then obtain i where i: "i \<in> set (working s)" using last_in_set by blast
    show False
      using stuck keep_outcome [OF i] new_outcome [OF i] by (cases "process (sellers ! i) (earlier_success (outcomes s) (sellers ! i))") blast+
  qed
  moreover from this have "\<not> next_seller s < length sellers" using stuck take_seller [of s sellers process] by auto
  ultimately show "workers_done sellers s" using assms by (simp add: workers_done_def)
next
  assume "workers_done sellers s"
  then show "\<nexists>t. worker_step process sellers s t" by (auto simp: workers_done_def elim: worker_stepE)
qed

lemma check_sellers: "res_fold check_seller sls seen = Inr found \<Longrightarrow> found = seen @ map (\<lambda>sl. str_of (mem sl ''seller'')) sls
    \<and> (distinct seen \<longrightarrow> distinct found)"
proof (induction sls arbitrary: seen)
  case (Cons sl sls)
  then obtain next_seen where "check_seller sl seen = Inr next_seen" and rest: "res_fold check_seller sls next_seen = Inr found"
    by (auto split: sum.splits)
  then have "next_seen = seen @ [str_of (mem sl ''seller'')]" "str_of (mem sl ''seller'') \<notin> set seen"
    by (auto simp: check_seller_def res_bind_Inr)
  then have "distinct seen \<longrightarrow> distinct next_seen" "seen @ map (\<lambda>sl. str_of (mem sl ''seller'')) (sl # sls)
      = next_seen @ map (\<lambda>sl. str_of (mem sl ''seller'')) sls" by simp_all
  with Cons.IH [OF rest] show ?case by metis
qed simp

lemma manifest_sellers_distinct: "validateManifest m = Inr u \<Longrightarrow> distinct (map seller_of (sellers_of m))"
proof -
  assume "validateManifest m = Inr u"
  then obtain found where "res_fold check_seller (sellers_of m) [] = Inr found"
    by (auto simp: validateManifest_def sellers_of_def res_bind_Inr)
  from check_sellers [OF this] have "distinct (map (\<lambda>sl. str_of (mem sl ''seller'')) (sellers_of m))"
    by (metis append_Nil distinct.simps(1))
  then show ?thesis by (auto simp: distinct_map inj_on_def seller_of_def)
qed

lemma by_instructions_mset: "by_instructions rs sellers = Inr ordered \<Longrightarrow> mset ordered = mset sellers"
proof -
  have each: "map snd counted = sellers"
    if "res_map (\<lambda>sl. res_bind (instruction_count rs sl) (\<lambda>n. Inr (n, sl))) sellers = Inr counted" for counted
    using that by (induction sellers arbitrary: counted) (auto simp: res_bind_Inr split: sum.splits)
  assume "by_instructions rs sellers = Inr ordered"
  then show ?thesis by (auto simp: by_instructions_def res_bind_Inr sort_facts dest: each split: if_splits)
qed

interpretation replaying: seller_process "replay_seller env manifest" sellers seller_volumes "replayed env manifest"
  for env manifest sellers
  by unfold_locales (rule replay_new replay_kept; assumption)+

interpretation estimating: seller_process "estimate_seller env replay manifest" sellers measured "estimated env manifest"
  for env replay manifest sellers
  by unfold_locales (rule estimate_new estimate_kept; assumption)+

text \<open>C38: Whatever the order in which the two workers finish, a replay never works on more than two sellers, every summary it saves is one
  that it may be started again with (one result for each seller at most, successes with the volumes of the manifest), and
  when the workers are done there is exactly one result for each seller; a success names an artifact that was read and passed all
  checks in this very run. A summary that then says complete has the total volumes of the manifest.\<close>

theorem replay_run_sound:
  assumes "start_replay env path = Inr (manifest, start)"
    and "resumable seller_volumes (sellers_of manifest) (fst start)"
    and "(worker_step (replay_seller env manifest) (sellers_of manifest))\<^sup>*\<^sup>* (start_workers start) s"
  shows "length (working s) \<le> 2 \<and> (\<forall>c\<in>set (saved s). resumable seller_volumes (sellers_of manifest) (snd c))
    \<and> (workers_done (sellers_of manifest) s \<longrightarrow>
        mset (map seller_of (outcomes s)) = mset (map seller_of (sellers_of manifest))
      \<and> (\<forall>sl\<in>set (sellers_of manifest). \<exists>r\<in>set (outcomes s). seller_of r = seller_of sl \<and> replayed env manifest sl r)
      \<and> (\<forall>e. finish_replay (sellers_of manifest) (outcomes s) = Inr e \<longrightarrow> re_complete e \<longrightarrow>
            re_proven e = (\<Sum>sl\<leftarrow>sellers_of manifest. projr (big_int (mem sl ''provenWashVolumeRaw'')))
          \<and> re_total e = (\<Sum>sl\<leftarrow>sellers_of manifest. projr (big_int (mem sl ''totalSellerVolumeRaw'')))))"
proof -
  let ?sellers = "sellers_of manifest"
  have "distinct (map seller_of ?sellers)"
    using assms(1) by (auto simp: start_replay_def Let_def res_bind_Inr intro: manifest_sellers_distinct split: option.splits)
  then have inv: "replaying.workers_inv ?sellers env manifest s"
    using replaying.inv_reachable [OF assms(3)] replaying.inv_start assms(2) by blast
  have "re_proven e = (\<Sum>sl\<leftarrow>?sellers. projr (big_int (mem sl ''provenWashVolumeRaw'')))
      \<and> re_total e = (\<Sum>sl\<leftarrow>?sellers. projr (big_int (mem sl ''totalSellerVolumeRaw'')))"
    if "workers_done ?sellers s" "finish_replay ?sellers (outcomes s) = Inr e" "re_complete e" for e
    using that replaying.complete_sum [OF inv that(1)] by (auto simp: finish_replay_def res_bind_Inr seller_volumes_def)
  then show ?thesis
    using inv replaying.done_outcomes [OF inv] unfolding replaying.workers_inv_def by blast
qed

lemma parse_digits_ge: "parse_digits acc s = Some n \<Longrightarrow> acc \<le> n"
  by (induction s arbitrary: acc) (fastforce split: option.splits)+

lemma positive_value:
  assumes "positive_decimal (str_of v)"
  shows "\<exists>n. big_int v = Inr n \<and> 1 \<le> n"
proof -
  from assms obtain c cs where v: "v = Some (JStr (c # cs))" and digits: "all_digits (c # cs)" and c: "c \<noteq> CHR ''0''"
    by (auto simp: positive_decimal_def str_of_def neq_Nil_conv split: option.splits json.splits)
  obtain d where d: "char_digit c = Some d" using digits by (auto simp: all_digits_def)
  have "of_char c \<noteq> (of_char (CHR ''0'') :: nat)" using c unfolding of_char_eq_iff .
  then have "1 \<le> d" using d by (auto simp: char_digit_def Let_def split: if_splits)
  moreover obtain n where n: "parse_digits 0 (c # cs) = Some n" using parse_digits_all [OF digits] by blast
  moreover from this have "d \<le> n" using d parse_digits_ge [of d cs n] by simp
  ultimately show ?thesis by (simp add: v big_int_def js_BigInt_digits [OF digits] digits_value_def)
qed

lemma positive_sum:
  assumes "\<forall>r\<in>set rs. \<exists>n. big_int (mem r k) = Inr n \<and> 1 \<le> n"
  shows "\<exists>t. sum_member k rs = Inr t \<and> int (length rs) \<le> t"
proof -
  have "\<exists>t. res_fold (\<lambda>j sofar. res_bind (big_int (mem j k)) (\<lambda>n. Inr (sofar + n))) rs a = Inr t \<and> a + int (length rs) \<le> t" for a
    using assms
  proof (induction rs arbitrary: a)
    case (Cons r rs)
    then obtain n where n: "big_int (mem r k) = Inr n" "1 \<le> n" by auto
    with Cons.IH [of "a + n"] Cons.prems show ?case by fastforce
  qed simp
  from this [of 0] show ?thesis by (simp add: sum_member_def)
qed



text \<open>C40: The workers always finish, whatever they do for a seller and in whatever order: a run takes at most two steps for each seller,
  and as long as the workers are not done one of them can go on.\<close>

theorem workers_finish:
  assumes "(worker_step process sellers ^^ n) (start_workers start) s"
  shows "n \<le> 2 * length sellers \<and> ((\<nexists>t. worker_step process sellers s t) \<longleftrightarrow> workers_done sellers s)"
  using worker_steps_bound [OF assms] worker_progress [of s sellers process] by (simp add: start_workers_def)

section \<open>A manifest of one seller\<close>

lemma single_run:
  assumes "process sl (earlier_success rs sl) = Some r"
  shows "(worker_step process [sl] ^^ 2) (start_workers (rs, m))
    \<lparr>next_seller = 1, working = [], outcomes = put_outcome sl r rs, marked = m, saved = [(m, rs), (m, put_outcome sl r rs)]\<rparr>"
proof -
  let ?s = "(start_workers (rs, m))\<lparr>next_seller := Suc 0, working := [0]\<rparr>"
  have "worker_step process [sl] (start_workers (rs, m)) ?s"
    using take_seller [of "start_workers (rs, m)" "[sl]" process] by (simp add: start_workers_def)
  moreover have "worker_step process [sl] ?s
      (?s\<lparr>working := remove1 0 (working ?s), outcomes := put_outcome sl r rs, saved := saved ?s @ [(marked ?s, put_outcome sl r rs)]\<rparr>)"
    using new_outcome [of 0 ?s process "[sl]" r] assms by (simp add: start_workers_def)
  ultimately show ?thesis by (auto simp: numeral_2_eq_2 start_workers_def)
qed

definition work_ex_seller :: json where
  "work_ex_seller = JObj [(''seller'', JStr (''0x'' @ replicate 40 (CHR ''a''))), (''sellerInput'', JStr ''i''),
     (''provenWashVolumeRaw'', JStr ''7''), (''totalSellerVolumeRaw'', JStr ''9''), (''evidenceDigest'', JStr ''d'')]"

definition work_ex_manifest :: json where
  "work_ex_manifest = JObj [(''alphaReturnBps'', JNum 3000), (''securityMode'', JStr ''development''), (''productionReady'', JBool False),
     (''periodStartBlock'', JNum 1), (''periodEndBlock'', JNum 2), (''sellerProgramVKey'', JStr ''v''), (''guestAttestation'', JStr ''g''),
     (''sellerElf'', JStr ''e''), (''prover'', JStr ''p''), (''sellers'', JArr [work_ex_seller])]"

definition work_ex_attestation :: json where
  "work_ex_attestation = JObj [(''reproducible'', JBool True), (''guests'', JObj [(''seller'', JObj [(''programVKey'', JStr ''v''), (''elfSha256'', JStr ''0xh'')])]),
     (''verifiedGuestSourceFiles'', JObj [(''s'', JStr ''0xh'')])]"

definition work_ex_artifact :: json where
  "work_ex_artifact = JObj [(''version'', JNum 3), (''kind'', JStr ''antseed-wash-trading-seller-proof''),
     (''proofArchitecture'', JStr ''direct-seller-v1''), (''securityMode'', JStr ''development''), (''alphaReturnBps'', JNum 3000),
     (''seller'', JStr (''0x'' @ replicate 40 (CHR ''a''))), (''periodStartBlock'', JNum 1), (''periodEndBlock'', JNum 2),
     (''sellerProgramVKey'', JStr ''v''), (''provenWashVolumeRaw'', JStr ''7''), (''totalSellerVolumeRaw'', JStr ''9''),
     (''evidenceDigest'', JStr ''d''), (''proved'', JBool True), (''verified'', JBool True), (''proverNetworkSubmitted'', JBool False),
     (''proofBytes'', JStr ''0xab''), (''publicValues'', JStr ''0xab''), (''blockAuthenticationChunks'', JArr [JNull]),
     (''blockAuthenticationChunkCount'', JNum 1)]"

definition work_ex_estimate :: json where
  "work_ex_estimate = obj_assign work_ex_artifact [(''proved'', JBool False), (''proofBytes'', JStr ''0x''), (''proverGasUnits'', JStr ''12'')]"

definition work_ex_result :: json where
  "work_ex_result = replay_result work_ex_seller ''a'' ''0xh'' (JObj [(''i'', JStr ''0xh'')]) work_ex_artifact"

definition work_ex_replay :: json where
  "work_ex_replay = JObj [(''complete'', JBool True), (''securityMode'', JStr ''development''), (''manifestSha256'', JStr ''0xh''),
     (''proverSha256'', JStr ''0xh''), (''guestElfSha256'', JStr ''0xh''), (''results'', JArr [work_ex_result])]"

text \<open>The files: \<open>input\<close> is the digest of the seller's input, and \<open>artifact\<close> what the prover writes.\<close>

definition work_ex_env :: "string \<Rightarrow> json \<Rightarrow> json option \<Rightarrow> worker_env" where
  "work_ex_env input artifact checkpoint =
     (let w = \<lparr>readJson = (\<lambda>p. Inr (if p = ''m'' then work_ex_manifest else if p = ''g'' then work_ex_attestation
            else if p = ''r'' then work_ex_replay else if p = ''a'' then work_ex_artifact else artifact)),
          fileSha = (\<lambda>p. Inr (if p = ''i'' then input else ''0xh''))\<rparr> in
      \<lparr>we_root = ''/'', we_output = ''o'', we_files = w, we_run = (\<lambda>_. (Inr (), w)), we_checkpoint = Inr checkpoint\<rparr>)"

abbreviation work_ex_replay_env :: worker_env where
  "work_ex_replay_env \<equiv> work_ex_env ''0xh'' work_ex_artifact None"

abbreviation work_ex_estimate_env :: worker_env where
  "work_ex_estimate_env \<equiv> work_ex_env ''0xh'' work_ex_estimate None"

lemma work_ex_sellers: "sellers_of work_ex_manifest = [work_ex_seller]"
  by (simp add: work_ex_manifest_def sellers_of_def elements_def)

lemma work_ex_starts:
  "start_replay work_ex_replay_env ''m'' = Inr (work_ex_manifest, [], Some (JBool False))"
  "start_estimates work_ex_estimate_env ''m'' ''r'' ''p'' = Inr (work_ex_manifest, [work_ex_result], [work_ex_seller], [], Some (JBool False))"
  "start_replay (work_ex_env ''0xi'' work_ex_artifact (Some work_ex_replay)) ''m'' = Inr (work_ex_manifest, [work_ex_result], Some (JBool True))"
  by code_simp+

definition work_ex_replayed :: json where
  "work_ex_replayed = replay_result work_ex_seller (artifact_file work_ex_replay_env ''sellers'' work_ex_seller) ''0xh'' (JObj [(''i'', JStr ''0xh'')]) work_ex_artifact"

definition work_ex_measured :: json where
  "work_ex_measured = estimate_result work_ex_seller (artifact_file work_ex_estimate_env ''estimates'' work_ex_seller) ''0xh'' work_ex_result work_ex_estimate"

lemma work_ex_outcomes:
  "replay_seller work_ex_replay_env work_ex_manifest work_ex_seller None = Some work_ex_replayed"
  "estimate_seller work_ex_estimate_env [work_ex_result] work_ex_manifest work_ex_seller None = Some work_ex_measured"
  "replay_seller (work_ex_env ''0xi'' work_ex_artifact (Some work_ex_replay)) work_ex_manifest work_ex_seller (Some work_ex_result)
     = Some (failed_result work_ex_seller (Error ''resume input/artifact changed''))"
  "finish_replay [work_ex_seller] [work_ex_replayed] = Inr \<lparr>re_complete = True, re_proven = 7, re_total = 9\<rparr>"
  "finish_estimates [work_ex_seller] [work_ex_measured] = Inr (True, 12)"
  "earlier_success [work_ex_result] work_ex_seller = Some work_ex_result"
  by code_simp+

theorem replay_run_sound_witness:
  "\<exists>s r. (worker_step (replay_seller work_ex_replay_env work_ex_manifest) [work_ex_seller])\<^sup>*\<^sup>* (start_workers ([], Some (JBool False))) s
     \<and> workers_done [work_ex_seller] s \<and> outcomes s = [r] \<and> replayed work_ex_replay_env work_ex_manifest work_ex_seller r
     \<and> projr (big_int (mem work_ex_seller ''provenWashVolumeRaw'')) = 7"
proof -
  let ?p = "replay_seller work_ex_replay_env work_ex_manifest"
  have "?p work_ex_seller (earlier_success [] work_ex_seller) = Some work_ex_replayed"
    using work_ex_outcomes(1) by (simp add: earlier_success_def)
  from single_run [where process = ?p and rs = "[]" and m = "Some (JBool False)", OF this] obtain s where s: "(worker_step ?p [work_ex_seller])\<^sup>*\<^sup>* (start_workers ([], Some (JBool False))) s"
    "workers_done [work_ex_seller] s" "outcomes s = [work_ex_replayed]"
    by (fastforce simp: workers_done_def put_outcome_def dest!: relpowp_imp_rtranclp)
  note sound = replay_run_sound [OF work_ex_starts(1) _ s(1) [folded work_ex_sellers], unfolded work_ex_sellers]
  have "resumable seller_volumes [work_ex_seller] []" by (simp add: resumable_def)
  from sound [simplified, OF this] have "replayed work_ex_replay_env work_ex_manifest work_ex_seller work_ex_replayed
      \<and> 7 = projr (big_int (mem work_ex_seller ''provenWashVolumeRaw''))"
    using s(2,3) work_ex_outcomes(4) by simp
  with s show ?thesis by (intro exI [of _ s] exI [of _ work_ex_replayed]) simp
qed


theorem workers_finish_witness:
  "\<exists>s. (worker_step (replay_seller work_ex_replay_env work_ex_manifest) [work_ex_seller] ^^ 2) (start_workers ([], None)) s
     \<and> (\<nexists>t. worker_step (replay_seller work_ex_replay_env work_ex_manifest) [work_ex_seller] s t)"
proof -
  have "replay_seller work_ex_replay_env work_ex_manifest work_ex_seller (earlier_success [] work_ex_seller) = Some work_ex_replayed"
    using work_ex_outcomes(1) by (simp add: earlier_success_def)
  note run = single_run [where process = "replay_seller work_ex_replay_env work_ex_manifest" and rs = "[]" and m = None, OF this]
  from workers_finish [OF run] run show ?thesis by (auto simp: workers_done_def)
qed

text \<open>
  A replay that is started again on its finished summary keeps \<open>complete\<close> while it runs: when the input of a seller has changed, it
  saves a summary that says complete, with a failure in it.
\<close>

lemma stale_complete_saved:
  "\<exists>env s start c. start_replay env ''m'' = Inr (work_ex_manifest, start)
     \<and> (worker_step (replay_seller env work_ex_manifest) (sellers_of work_ex_manifest))\<^sup>*\<^sup>* (start_workers start) s
     \<and> c \<in> set (saved s) \<and> fst c = Some (JBool True) \<and> \<not> all_succeeded (sellers_of work_ex_manifest) (snd c)"
proof -
  let ?env = "work_ex_env ''0xi'' work_ex_artifact (Some work_ex_replay)" and ?failed = "failed_result work_ex_seller (Error ''resume input/artifact changed'')"
  have "replay_seller ?env work_ex_manifest work_ex_seller (earlier_success [work_ex_result] work_ex_seller) = Some ?failed"
    unfolding work_ex_outcomes(6) by (rule work_ex_outcomes(3))
  note run = single_run [where process = "replay_seller ?env work_ex_manifest" and rs = "[work_ex_result]" and m = "Some (JBool True)", OF this,
    THEN relpowp_imp_rtranclp]
  have "\<not> all_succeeded [work_ex_seller] (put_outcome work_ex_seller ?failed [work_ex_result])"
    by (auto simp: all_succeeded_def put_outcome_def list_all_iff)
  moreover obtain s where "(worker_step (replay_seller ?env work_ex_manifest) [work_ex_seller])\<^sup>*\<^sup>* (start_workers ([work_ex_result], Some (JBool True))) s"
      "(Some (JBool True), put_outcome work_ex_seller ?failed [work_ex_result]) \<in> set (saved s)"
    using run by fastforce
  ultimately show ?thesis using work_ex_starts(3) unfolding work_ex_sellers by fastforce
qed


end
