(* ===== verification/Spec2Isabelle.thy ===== *)
theory Spec2Isabelle
  imports Discovery Planner_Examples Calldata Approved_Proofs Return_Graph Discovery_Bundle Batch_Run Historical_Bundle Published_Proofs
    Production_Run Snapshot Coverage_Report Seller_Workers
begin

text \<open>
  The JavaScript pipeline of the wash-trading proofs (\<open>scripts/*.mjs\<close>): from a completed scan of Base to
  a bundle of claims, from a bundle to a plan of authenticated evidence, from a plan to paid SP1 proofs, one
  for each seller, and to the calls that publish them. A claim says that a seller's settlements were
  paid for by a funder who got most of the money back (\<open>P0_CLOSED_LOOP\<close>), or that two wallets paid
  each other (\<open>P0_RECIPROCAL\<close>). The predicate itself runs in a zero knowledge machine and is written in Rust;
  the scripts decide what is submitted to it, and what is paid for.

  \<^bold>\<open>The parts and the theories.\<close>
  \<^item> \<open>Prelude\<close>, \<open>Js_Array\<close>, \<open>Json\<close>, \<open>Json_Parse\<close>, \<open>Json_Pretty\<close>, \<open>Hex\<close>: the JavaScript the scripts use. A thrown
    error is \<open>Inl\<close> of a result, a Map is an association list in the order of insertion, \<open>Array.sort\<close> is a
    stable sort (the interface \<open>js_comparator\<close> says when its result depends on the elements only), documents
    are values of type \<open>json\<close> with \<open>JSON.stringify\<close>, \<open>canonicalJson\<close> and \<open>JSON.parse\<close>; the interface
    \<open>fixed_width\<close> is that of encoded words.
  \<^item> \<open>Policy\<close> (\<open>predicate-policy.mjs\<close>), \<open>Evidence\<close> and \<open>Bundle\<close> (\<open>proof-bundle.mjs\<close>), \<open>Merkle\<close> (the trees of
    \<open>proof-bundle.mjs\<close> and \<open>proof-planner.mjs\<close>): the data of claims and their commitments.
  \<^item> \<open>Path_Ledger\<close>, \<open>Return_Selection\<close>, \<open>Discovery\<close> (\<open>return-path-selection.mjs\<close>) and \<open>Return_Graph\<close>
    (\<open>expanded-return-graph.mjs\<close>): returns from the seller to the funder. \<open>path_ledger\<close> is the contract that the
    greedy selection and the search of cached traces share: disjoint, unreserved paths with exact credit.
  \<^item> \<open>Ledger_Selection\<close>, \<open>Planner\<close>, \<open>Planner_Examples\<close>, \<open>Authentication\<close>, \<open>Rpc\<close>, \<open>Claim_Authentication\<close>,
    \<open>Concurrency\<close>, \<open>Plan_Bundle\<close> (\<open>proof-planner.mjs\<close>): choosing the settlements, fundings and returns of a
    claim, authenticating each against a node with retries and a prefetch cache, and the plan file with its
    checkpoints. The worker pool \<open>mapConcurrent\<close> is a step relation; \<open>capacity_selector\<close> and
    \<open>retry_loop\<close> are the interfaces of the selections and of the two retry loops.
  \<^item> \<open>Discovery_Bundle\<close> (\<open>build-discovery-proof-bundle.mjs\<close>), \<open>Historical_Bundle\<close>
    (\<open>build-unified-historical-bundle.mjs\<close>): the bundles made from a scan; \<open>Snapshot\<close>
    (\<open>generate-historical-manifest.mjs\<close>, \<open>build-unified-historical-snapshot.mjs\<close>): the manifest and the lock of a
    bundle and its plan.
  \<^item> \<open>Cost_Quote\<close> (\<open>proving-cost-quote.mjs\<close>), \<open>Artifacts\<close> (\<open>seller-evidence.mjs\<close>, and the checks of
    \<open>replay-seller-development.mjs\<close> and \<open>prepare-seller-proving.mjs\<close>), \<open>Seller_Workers\<close> (the runs of these two: two
    workers over one cursor, as a step relation; \<open>seller_process\<close> is their contract with what is done for a seller), \<open>Plan_Stream\<close> and \<open>Approved_Proofs\<close>
    (\<open>generate-approved-development-proofs.mjs\<close>: sharding the plan as it streams by, witness caches, the run over all
    sellers): proving without spending.
  \<^item> \<open>Submission\<close> (\<open>submit-frozen-seller-canary.mjs\<close>), \<open>Batch\<close> and \<open>Batch_Run\<close>
    (\<open>submit-frozen-seller-batch.mjs\<close>), \<open>Production_Run\<close> (\<open>prove-approved-batch.mjs\<close>): paying for proofs. The
    launch protocol of \<open>submit\<close> is a step relation over the files of a directory; \<open>resumable_queue\<close> is the
    interface of the queue to what it runs.
  \<^item> \<open>Calldata\<close> (\<open>generate-aggregate-calldata.mjs\<close>, \<open>generate-block-authentication-chunks.mjs\<close>),
    \<open>Published_Proofs\<close> (\<open>published-seller-proofs.mjs\<close>): what goes on chain; \<open>Coverage_Report\<close>
    (\<open>report-wash-trading-proof-coverage.mjs\<close>, \<open>reconcile-development-proof-results.mjs\<close>): the reports.

  Files a script reads are arguments, files it writes are part of the result, or of a state that a failing
  run leaves too. SHA-256, the node, the prices, the clock, the materializer, the prover, gunzip and
  \<open>cast\<close> are parameters. Where a law of one of them is needed it is a hypothesis of the property: no
  collision under SHA-256 (or, stated as such, the collision), a node that answers a call in a batch as it
  answers it alone, a materializer that leaves a file.

  \<^bold>\<open>What the properties show.\<close>
  \<^item> Returns: every path selected or discovered is a time-ordered return over disjoint transfers, and the selection
    is maximal and independent of the order; the graph search, when it is not cut off, finds exactly the returns
    there are.
  \<^item> Planning: a strategy obeys the rules of the predicate (volume, funding before settlement, returns after
    it, ledgers), the fixed point of the ledger selection ends, memberships lead to the roots, roots bind their leaves, and
    authenticated evidence keeps what it claims.
  \<^item> Bundles: every claim is one the scan supports, with exact volumes.
  \<^item> Proving and paying: sharding a stream equals summarizing the document, every seller is proved from current
    witnesses, nobody is paid for twice, whatever crashes or is started again, and a request needs a confirmed,
    approved and matching quote. Every state a queue leaves can be resumed, and so can every summary that the workers
    of a replay save, in whatever order they finish; they always finish.
  \<^item> Publishing: calldata decodes to what was proved, a package that loads is what its manifest says, the
    reports count every settlement once.
  The lemmas named in the manifest as findings show concrete inputs on which the code departs from what it
  means to do, such as \<open>relayed_transfer_counted_twice\<close> or \<open>bounded_strategy_breaks_ledger\<close>.

  \<^bold>\<open>Loops and bounds.\<close> All definitions are total. \<open>JSON.parse\<close> runs on fuel, one more than the length of the text,
  which each nested call shortens (\<open>JSON_parse\<close> reads back whatever \<open>JSON.stringify\<close> writes). The
  fixed point of the ledger selection removes a settlement in each round, so the number of settlements bounds it;
  termination is a theorem. The graph walk is bounded as the code bounds it, by nine hops and its limits on
  paths and steps, the retries by the attempts the code allows, the Merkle loop by the length of the level, which
  halves. A JavaScript number is an integer here, and the tests for safe integers are those of the code;
  fractions and exponents are not written by the pipeline. Ethereum amounts are unbounded, as BigInt is;
  encoded words state their width of 256 bits.

  \<^bold>\<open>Not modelled.\<close> The Rust guest and host and the Solidity contracts. The command lines: reading flags,
  starting programs, printing. The scripts that only do that (\<open>build-guests-reproducibly\<close>,
  \<open>verify-guest-build-attestation\<close>, \<open>check-development-replay-anvil\<close>, \<open>plan-wash-trading-proofs\<close>,
  \<open>refresh-return-search-traces\<close>, \<open>generate-development-proofs\<close>), the analysis scripts around the
  modelled search and planner (\<open>search-fixed-volume-returns\<close>, \<open>search-joint-wash-volume\<close>,
  \<open>authenticate-fixed-volume-returns\<close>, \<open>build-usdc-candidate-bundle\<close>, \<open>merge-proof-plans\<close>,
  \<open>reconstruct-unified-proof-plan\<close>) and \<open>prove-approved-historical-development\<close>, the development counterpart of
  the paid run.
\<close>

end
